(* ===== verification/Prelude.thy ===== *)
theory Prelude
  imports Complex_Main
begin

text \<open>
  Shared vocabulary of the development: Go runes and strings, the rune literals of the D2
  grammar, the rule collections used by the component proofs, and the small list lemmas the
  components share.

  A Go \<^verbatim>\<open>string\<close> is a byte sequence. Every string the front end builds is UTF-8, except
  where the code slices a string by a byte offset inside a rune. A \<open>gostr\<close> is therefore a
  list of items: an item \<open>r \<ge> 0\<close> is the UTF-8 encoding of the code point \<open>r\<close>, an item
  \<open>- b\<close> is a raw byte \<open>b\<close> (128 to 255) left over from a cut rune.
\<close>

type_synonym rune = int
type_synonym gostr = "rune list"

text \<open>Rule collections: weakest-precondition rules, frame rules, and evaluation equations.\<close>

named_theorems wp_rules \<open>weakest-precondition rules of the parser monad\<close>
named_theorems frame_rules \<open>closure rules for relations kept by every parser operation\<close>

section \<open>Rune literals\<close>

abbreviation (input) rTab :: rune where "rTab \<equiv> 9"
abbreviation (input) rNL :: rune where "rNL \<equiv> 10"
abbreviation (input) rSp :: rune where "rSp \<equiv> 32"
abbreviation (input) rBang :: rune where "rBang \<equiv> 33"
abbreviation (input) rDQ :: rune where "rDQ \<equiv> 34"
abbreviation (input) rHash :: rune where "rHash \<equiv> 35"
abbreviation (input) rDollar :: rune where "rDollar \<equiv> 36"
abbreviation (input) rAmp :: rune where "rAmp \<equiv> 38"
abbreviation (input) rSQ :: rune where "rSQ \<equiv> 39"
abbreviation (input) rLPar :: rune where "rLPar \<equiv> 40"
abbreviation (input) rRPar :: rune where "rRPar \<equiv> 41"
abbreviation (input) rStar :: rune where "rStar \<equiv> 42"
abbreviation (input) rPlus :: rune where "rPlus \<equiv> 43"
abbreviation (input) rComma :: rune where "rComma \<equiv> 44"
abbreviation (input) rDash :: rune where "rDash \<equiv> 45"
abbreviation (input) rDot :: rune where "rDot \<equiv> 46"
abbreviation (input) rSlash :: rune where "rSlash \<equiv> 47"
abbreviation (input) rColon :: rune where "rColon \<equiv> 58"
abbreviation (input) rSemi :: rune where "rSemi \<equiv> 59"
abbreviation (input) rLt :: rune where "rLt \<equiv> 60"
abbreviation (input) rGt :: rune where "rGt \<equiv> 62"
abbreviation (input) rAt :: rune where "rAt \<equiv> 64"
abbreviation (input) rLBr :: rune where "rLBr \<equiv> 91"
abbreviation (input) rBsl :: rune where "rBsl \<equiv> 92"
abbreviation (input) rRBr :: rune where "rRBr \<equiv> 93"
abbreviation (input) rUnd :: rune where "rUnd \<equiv> 95"
abbreviation (input) rLCur :: rune where "rLCur \<equiv> 123"
abbreviation (input) rPipe :: rune where "rPipe \<equiv> 124"
abbreviation (input) rRCur :: rune where "rRCur \<equiv> 125"

text \<open>ASCII literals: \<open>runes ''null''\<close> is the Go string literal of the same text.\<close>

primrec runes :: "string \<Rightarrow> gostr" where
  "runes [] = []"
| "runes (c # cs) = of_char c # runes cs"

lemma runes_append [simp]: "runes (xs @ ys) = runes xs @ runes ys"
  by (induction xs) auto

lemma length_runes [simp]: "length (runes s) = length s"
  by (induction s) auto

lemma runes_inj: "runes s = runes t \<longleftrightarrow> s = t"
proof (induction s arbitrary: t)
  case Nil
  then show ?case by (cases t) auto
next
  case (Cons c s)
  then show ?case by (cases t) auto
qed

section \<open>Shared list lemmas\<close>

lemma dropWhile_rev_append_last:
  "\<not> P x \<Longrightarrow> rev (dropWhile P (rev (xs @ [x]))) = xs @ [x]"
  by simp

lemma dropWhile_id: "xs = [] \<or> \<not> P (hd xs) \<Longrightarrow> dropWhile P xs = xs"
  by (cases xs) auto

lemma take_append_drop_nth:
  "i < length xs \<Longrightarrow> drop i xs = xs ! i # drop (Suc i) xs"
  by (rule Cons_nth_drop_Suc [symmetric])

end
