(* ===== verification/Go_Lib.thy ===== *)
theory Go_Lib
  imports Prelude
begin

text \<open>
  The parts of Go's standard library the front end uses: UTF-8 sizes and slicing
  (\<^verbatim>\<open>unicode/utf8\<close>), white space, digits and letters (\<^verbatim>\<open>unicode\<close>), trimming, splitting and
  case folding (\<^verbatim>\<open>strings\<close>), \<^verbatim>\<open>strconv\<close>, \<^verbatim>\<open>path\<close> and \<^verbatim>\<open>big.Rat.SetString\<close>.
  The Unicode tables for letters and decimal digits above Latin-1 depend on the Unicode version
  the Go release ships; they are the two fields of a \<open>unicode_tables\<close> record.
\<close>

section \<open>UTF-8\<close>

text \<open>\<^verbatim>\<open>utf8.RuneLen\<close>: -1 for a value that is not a Unicode scalar value.\<close>

definition rune_len :: "rune \<Rightarrow> int" where
  "rune_len r =
    (if r < 0 then -1
     else if r \<le> 0x7F then 1
     else if r \<le> 0x7FF then 2
     else if 0xD800 \<le> r \<and> r \<le> 0xDFFF then -1
     else if r \<le> 0xFFFF then 3
     else if r \<le> 0x10FFFF then 4
     else -1)"

text \<open>A rune that a Go decoder can return: a Unicode scalar value.\<close>

definition valid_rune :: "rune \<Rightarrow> bool" where
  "valid_rune r \<longleftrightarrow> 0 \<le> r \<and> r \<le> 0x10FFFF \<and> \<not> (0xD800 \<le> r \<and> r \<le> 0xDFFF)"

text \<open>Ranging over a Go string, or reading its runes, turns a raw byte into U+FFFD.\<close>

definition range_rune :: "rune \<Rightarrow> rune" where
  "range_rune r = (if r < 0 then 0xFFFD else r)"

text \<open>Bytes an item of a \<open>gostr\<close> takes; a raw byte takes one.\<close>

definition item_bytes :: "rune \<Rightarrow> nat" where
  "item_bytes r =
    (if r \<le> 0x7F then 1 else if r \<le> 0x7FF then 2 else if r \<le> 0xFFFF then 3 else 4)"

primrec blen :: "gostr \<Rightarrow> nat" where
  "blen [] = 0"
| "blen (r # rs) = item_bytes r + blen rs"

text \<open>The bytes of one item, as raw bytes.\<close>

definition raw_bytes :: "rune \<Rightarrow> gostr" where
  "raw_bytes r =
    (if r \<le> 0x7F then [r]
     else if r \<le> 0x7FF then [- (0xC0 + r div 64), - (0x80 + r mod 64)]
     else if r \<le> 0xFFFF then
       [- (0xE0 + r div 4096), - (0x80 + (r div 64) mod 64), - (0x80 + r mod 64)]
     else
       [- (0xF0 + r div 262144), - (0x80 + (r div 4096) mod 64),
        - (0x80 + (r div 64) mod 64), - (0x80 + r mod 64)])"

text \<open>\<open>s[n:]\<close> for \<open>n \<le> blen s\<close>: a cut inside a rune leaves its last bytes raw.\<close>

fun drop_bytes :: "nat \<Rightarrow> gostr \<Rightarrow> gostr" where
  "drop_bytes n [] = []"
| "drop_bytes n (r # rs) =
    (if n = 0 then r # rs
     else if item_bytes r \<le> n then drop_bytes (n - item_bytes r) rs
     else drop n (raw_bytes r) @ rs)"

lemma item_bytes_pos [simp]: "0 < item_bytes r"
  by (simp add: item_bytes_def)

lemma blen_append [simp]: "blen (xs @ ys) = blen xs + blen ys"
  by (induction xs) auto

lemma blen_0 [simp]: "blen xs = 0 \<longleftrightarrow> xs = []"
  by (cases xs) (auto simp: item_bytes_def)

lemma drop_bytes_0 [simp]: "drop_bytes 0 xs = xs"
  by (cases xs) auto

lemma drop_bytes_blen [simp]: "drop_bytes (blen xs) (xs @ ys) = ys"
proof (induction xs)
  case Nil
  then show ?case by simp
next
  case (Cons r xs)
  then show ?case using item_bytes_pos[of r] by simp
qed

lemma length_le_blen: "length xs \<le> blen xs"
proof (induction xs)
  case Nil
  then show ?case by simp
next
  case (Cons r xs)
  then show ?case using item_bytes_pos[of r] by (simp del: item_bytes_pos)
qed

section \<open>Character classes\<close>

record unicode_tables =
  uni_letter :: "rune \<Rightarrow> bool"
  uni_digit :: "rune \<Rightarrow> bool"

definition is_space :: "rune \<Rightarrow> bool" where
  "is_space r \<longleftrightarrow>
    (9 \<le> r \<and> r \<le> 13) \<or> r = 32 \<or> r = 0x85 \<or> r = 0xA0 \<or> r = 0x1680 \<or>
    (0x2000 \<le> r \<and> r \<le> 0x200A) \<or> r = 0x2028 \<or> r = 0x2029 \<or> r = 0x202F \<or>
    r = 0x205F \<or> r = 0x3000"

definition ascii_digit :: "rune \<Rightarrow> bool" where
  "ascii_digit r \<longleftrightarrow> 48 \<le> r \<and> r \<le> 57"

definition is_digit :: "unicode_tables \<Rightarrow> rune \<Rightarrow> bool" where
  "is_digit u r = (if r \<le> 0xFF then ascii_digit r else uni_digit u r)"

definition is_letter :: "unicode_tables \<Rightarrow> rune \<Rightarrow> bool" where
  "is_letter u r =
    (if r \<le> 0xFF then
       (65 \<le> r \<and> r \<le> 90) \<or> (97 \<le> r \<and> r \<le> 122) \<or> r = 0xAA \<or> r = 0xB5 \<or> r = 0xBA \<or>
       (0xC0 \<le> r \<and> r \<le> 0xD6) \<or> (0xD8 \<le> r \<and> r \<le> 0xF6) \<or> (0xF8 \<le> r \<and> r \<le> 0xFF)
     else uni_letter u r)"

lemma is_space_newline [simp]: "is_space 10"
  by (simp add: is_space_def)

section \<open>Strings\<close>

definition trim_right :: "gostr \<Rightarrow> gostr" where
  "trim_right s = rev (dropWhile is_space (rev s))"

definition trim_space :: "gostr \<Rightarrow> gostr" where
  "trim_space s = trim_right (dropWhile is_space s)"

text \<open>\<^verbatim>\<open>strings.Split(s, sep)\<close> for a one-rune separator; never empty.\<close>

primrec split_on :: "rune \<Rightarrow> gostr \<Rightarrow> gostr list" where
  "split_on d [] = [[]]"
| "split_on d (r # rs) =
    (if r = d then [] # split_on d rs
     else (case split_on d rs of [] \<Rightarrow> [[r]] | l # ls \<Rightarrow> (r # l) # ls))"

fun join_with :: "gostr \<Rightarrow> gostr list \<Rightarrow> gostr" where
  "join_with sep [] = []"
| "join_with sep [l] = l"
| "join_with sep (l # ls) = l @ sep @ join_with sep ls"

text \<open>\<^verbatim>\<open>strings.LastIndexByte\<close>: the text before and after the last \<open>d\<close>, if any.\<close>

primrec split_last :: "rune \<Rightarrow> gostr \<Rightarrow> (gostr \<times> gostr) option" where
  "split_last d [] = None"
| "split_last d (r # rs) =
    (case split_last d rs of
       Some (a, b) \<Rightarrow> Some (r # a, b)
     | None \<Rightarrow> if r = d then Some ([], rs) else None)"

primrec has_prefix :: "gostr \<Rightarrow> gostr \<Rightarrow> bool" where
  "has_prefix [] s = True"
| "has_prefix (p # ps) s = (case s of [] \<Rightarrow> False | r # rs \<Rightarrow> r = p \<and> has_prefix ps rs)"

text \<open>\<^verbatim>\<open>strings.Contains(s, p)\<close>.\<close>

primrec contains_str :: "gostr \<Rightarrow> gostr \<Rightarrow> bool" where
  "contains_str p [] = (p = [])"
| "contains_str p (r # rs) = (has_prefix p (r # rs) \<or> contains_str p rs)"

text \<open>
  \<^verbatim>\<open>strings.EqualFold(s, t)\<close> for an ASCII lower case \<open>t\<close>: under Unicode simple folding the runes
  equal to an ASCII letter are its two cases, and LATIN SMALL LETTER LONG S (017F) for \<open>s\<close> and
  KELVIN SIGN (212A) for \<open>k\<close>.
\<close>

definition fold_ascii :: "rune \<Rightarrow> rune" where
  "fold_ascii r =
    (if 65 \<le> r \<and> r \<le> 90 then r + 32 else if r = 0x17F then 115 else if r = 0x212A then 107 else r)"

definition equal_fold :: "gostr \<Rightarrow> gostr \<Rightarrow> bool" where
  "equal_fold s t \<longleftrightarrow> map fold_ascii s = t"

text \<open>
  \<^verbatim>\<open>strings.ToLower\<close>, used by the code only to look the result up among ASCII keywords: exact on
  ASCII and on the two other runes whose lower case is ASCII (KELVIN SIGN, and I WITH DOT ABOVE);
  other runes lower to a non-ASCII rune in Go and are left as they are here.
\<close>

definition lower_rune :: "rune \<Rightarrow> rune" where
  "lower_rune r =
    (if 65 \<le> r \<and> r \<le> 90 then r + 32 else if r = 0x212A then 107 else if r = 0x130 then 105 else r)"

definition to_lower :: "gostr \<Rightarrow> gostr" where
  "to_lower s = map lower_rune s"

lemma split_on_ne [simp]: "split_on d s \<noteq> []"
  by (induction s) (auto split: list.splits)

lemma join_split_on: "join_with [d] (split_on d s) = s"
proof (induction s)
  case Nil
  then show ?case by simp
next
  case (Cons r rs)
  then show ?case
    by (cases "split_on d rs"; cases "tl (split_on d rs)") auto
qed

lemma split_on_parts: "l \<in> set (split_on d s) \<Longrightarrow> d \<notin> set l"
proof (induction s arbitrary: l)
  case Nil
  then show ?case by simp
next
  case (Cons r rs)
  then show ?case by (cases "split_on d rs") (auto split: if_splits)
qed

lemma split_on_single: "d \<notin> set s \<Longrightarrow> split_on d s = [s]"
  by (induction s) auto

lemma split_on_append: "d \<notin> set a \<Longrightarrow> split_on d (a @ d # b) = a # split_on d b"
  by (induction a) auto

lemma split_last_Some: "split_last d s = Some (a, b) \<Longrightarrow> s = a @ d # b \<and> d \<notin> set b"
proof (induction s arbitrary: a b)
  case Nil
  then show ?case by simp
next
  case (Cons r rs)
  have none: "split_last d xs = None \<Longrightarrow> d \<notin> set xs" for xs
    by (induction xs) (auto split: option.splits if_splits)
  from Cons show ?case
    by (auto split: option.splits if_splits dest: none)
qed

lemma split_last_append: "d \<notin> set b \<Longrightarrow> split_last d (a @ d # b) = Some (a, b)"
proof (induction a)
  case Nil
  have "d \<notin> set b \<Longrightarrow> split_last d b = None"
    by (induction b) auto
  with Nil show ?case by simp
next
  case (Cons r a)
  then show ?case by simp
qed

lemma trim_right_id: "s = [] \<or> \<not> is_space (last s) \<Longrightarrow> trim_right s = s"
  by (cases s rule: rev_cases) (auto simp: trim_right_def)

section \<open>strconv\<close>

fun digits_of :: "nat \<Rightarrow> gostr" where
  "digits_of n = (if n < 10 then [48 + int n] else digits_of (n div 10) @ [48 + int (n mod 10)])"

declare digits_of.simps [simp del]

definition itoa :: "int \<Rightarrow> gostr" where
  "itoa i = (if i < 0 then rDash # digits_of (nat (- i)) else digits_of (nat i))"

definition digits_val :: "gostr \<Rightarrow> int" where
  "digits_val s = foldl (\<lambda>n d. n * 10 + (d - 48)) 0 s"

text \<open>
  \<^verbatim>\<open>strconv.Atoi\<close> on a 64-bit platform: the value and whether the error is nil. A syntax error
  gives 0, a value out of range the nearest \<open>int\<close>.
\<close>

definition max_int :: int where "max_int = 9223372036854775807"
definition min_int :: int where "min_int = - 9223372036854775808"

definition atoi :: "gostr \<Rightarrow> int \<times> bool" where
  "atoi s =
    (let neg = (s \<noteq> [] \<and> hd s = rDash);
         body = (if s \<noteq> [] \<and> (hd s = rDash \<or> hd s = rPlus) then tl s else s)
     in if body = [] \<or> \<not> list_all ascii_digit body then (0, False)
        else let v = (if neg then - digits_val body else digits_val body)
             in if v < min_int then (min_int, False)
                else if max_int < v then (max_int, False) else (v, True))"

definition format_bool :: "bool \<Rightarrow> gostr" where
  "format_bool b = (if b then runes ''true'' else runes ''false'')"

lemma digits_of_ascii: "list_all ascii_digit (digits_of n)"
proof (induction n rule: digits_of.induct)
  case (1 n)
  show ?case
  proof (cases "n < 10")
    case True
    then show ?thesis by (subst digits_of.simps) (simp add: ascii_digit_def)
  next
    case False
    then have "ascii_digit (48 + int (n mod 10))"
      by (simp add: ascii_digit_def)
    with False 1 show ?thesis by (subst digits_of.simps) simp
  qed
qed

lemma digits_of_ne [simp]: "digits_of n \<noteq> []"
  by (subst digits_of.simps) auto

lemma digits_val_snoc: "digits_val (ds @ [d]) = digits_val ds * 10 + (d - 48)"
  by (simp add: digits_val_def)

lemma digits_val_of: "digits_val (digits_of n) = int n"
proof (induction n rule: digits_of.induct)
  case (1 n)
  show ?case
  proof (cases "n < 10")
    case True
    then show ?thesis by (subst digits_of.simps) (simp add: digits_val_def)
  next
    case False
    then have "digits_val (digits_of n) = int (n div 10) * 10 + int (n mod 10)"
      by (subst digits_of.simps) (simp add: digits_val_snoc "1.IH")
    then show ?thesis by (simp add: zdiv_int zmod_int)
  qed
qed

lemma hd_digits_of: "48 \<le> hd (digits_of n)" "hd (digits_of n) \<le> 57"
  using digits_of_ascii[of n] digits_of_ne[of n]
  by (cases "digits_of n"; simp add: ascii_digit_def)+

lemma digits_set: "x \<in> set (digits_of n) \<Longrightarrow> 48 \<le> x \<and> x \<le> 57"
  using digits_of_ascii[of n] by (auto simp: list_all_iff ascii_digit_def)

lemma itoa_set: "x \<in> set (itoa i) \<Longrightarrow> x = 45 \<or> (48 \<le> x \<and> x \<le> 57)"
  by (auto simp: itoa_def split: if_splits dest: digits_set)

lemma atoi_itoa: "min_int \<le> i \<Longrightarrow> i \<le> max_int \<Longrightarrow> atoi (itoa i) = (i, True)"
  using hd_digits_of[of "nat i"]
  by (auto simp: atoi_def itoa_def Let_def digits_of_ascii digits_val_of)

section \<open>path\<close>

text \<open>
  \<^verbatim>\<open>path.Clean\<close>, \<^verbatim>\<open>path.Join\<close> of two elements and \<^verbatim>\<open>path.Dir\<close>, over the slash-separated
  components: empty and \<open>.\<close> components are dropped, \<open>..\<close> removes the component before it if
  there is one that is not \<open>..\<close>, and stays otherwise, unless the path is rooted.
\<close>

fun clean_parts :: "bool \<Rightarrow> gostr list \<Rightarrow> gostr list \<Rightarrow> gostr list" where
  "clean_parts rooted out [] = rev out"
| "clean_parts rooted out (c # cs) =
    (if c = [] \<or> c = [rDot] then clean_parts rooted out cs
     else if c = [rDot, rDot] then
       (case out of
          [] \<Rightarrow> clean_parts rooted (if rooted then [] else [c]) cs
        | x # xs \<Rightarrow> clean_parts rooted (if x = [rDot, rDot] then c # out else xs) cs)
     else clean_parts rooted (c # out) cs)"

definition path_clean :: "gostr \<Rightarrow> gostr" where
  "path_clean s =
    (let rooted = (s \<noteq> [] \<and> hd s = rSlash);
         body = join_with [rSlash] (clean_parts rooted [] (split_on rSlash s))
     in if rooted then rSlash # body else if body = [] then [rDot] else body)"

definition path_join :: "gostr \<Rightarrow> gostr \<Rightarrow> gostr" where
  "path_join a b =
    (if a = [] \<and> b = [] then []
     else if a = [] then path_clean b
     else if b = [] then path_clean a
     else path_clean (a @ rSlash # b))"

definition path_dir :: "gostr \<Rightarrow> gostr" where
  "path_dir s = path_clean (case split_last rSlash s of None \<Rightarrow> [] | Some (d, _) \<Rightarrow> d @ [rSlash])"

section \<open>big.Rat.SetString\<close>

text \<open>
  The scanner of \<^verbatim>\<open>math/big\<close>. \<open>nat_scan fracOk\<close> is \<^verbatim>\<open>nat.scan\<close> with base 0: an optional base
  prefix, digits with \<open>_\<close> separators, and a radix point when allowed. It gives the value, the base,
  the count (negative: digits after the point) and the rest, or None for an error. The previous
  character is \<open>46\<close> for "anything else", \<open>48\<close> for a digit and \<open>95\<close> for a separator, as in the code.
\<close>

record nat_scan_state =
  ns_val :: int
  ns_count :: int
  ns_dp :: "int option"
  ns_frac :: bool
  ns_prev :: rune
  ns_inval :: bool

definition digit_value :: "rune \<Rightarrow> int" where
  "digit_value c =
    (if 48 \<le> c \<and> c \<le> 57 then c - 48
     else if 97 \<le> c \<and> c \<le> 122 then c - 87
     else if 65 \<le> c \<and> c \<le> 90 then c - 55
     else 63)"

fun scan_digits :: "int \<Rightarrow> nat_scan_state \<Rightarrow> gostr \<Rightarrow> nat_scan_state \<times> gostr" where
  "scan_digits b st [] = (st, [])"
| "scan_digits b st (c # cs) =
    (if c = rDot \<and> ns_frac st then
       scan_digits b (st\<lparr>ns_frac := False, ns_inval := (ns_inval st \<or> ns_prev st = rUnd),
                         ns_prev := rDot, ns_dp := Some (ns_count st)\<rparr>) cs
     else if c = rUnd then
       scan_digits b (st\<lparr>ns_inval := (ns_inval st \<or> ns_prev st \<noteq> 48), ns_prev := rUnd\<rparr>) cs
     else if b \<le> digit_value c then (st, c # cs)
     else scan_digits b (st\<lparr>ns_val := ns_val st * b + digit_value c, ns_prev := 48,
                            ns_count := ns_count st + 1\<rparr>) cs)"

definition nat_scan :: "bool \<Rightarrow> gostr \<Rightarrow> (int \<times> int \<times> int \<times> gostr) option" where
  "nat_scan fracOk s =
    (let (b, prefix, count0, prev0, body) =
       (case s of
          [] \<Rightarrow> (10, 0, 0, rDot, [])
        | c # cs \<Rightarrow>
            if c \<noteq> 48 then (10, 0, 0, rDot, s)
            else (case cs of
                    [] \<Rightarrow> (10, 0, 1, 48, [])
                  | d # ds \<Rightarrow>
                      if d = 98 \<or> d = 66 then (2, 98, 0, 48, ds)
                      else if d = 111 \<or> d = 79 then (8, 111, 0, 48, ds)
                      else if d = 120 \<or> d = 88 then (16, 120, 0, 48, ds)
                      else if \<not> fracOk then (8, 48, 0, 48, cs)
                      else (10, 0, 1, 48, cs)));
         (st, rest) = scan_digits b \<lparr>ns_val = 0, ns_count = count0, ns_dp = None, ns_frac = fracOk,
                                     ns_prev = prev0, ns_inval = False\<rparr> body
     in if ns_inval st \<or> ns_prev st = rUnd then None
        else if ns_count st = 0 then (if prefix = (48::int) then Some (0, 10, 1, rest) else None)
        else Some (ns_val st, b,
                   (case ns_dp st of None \<Rightarrow> ns_count st | Some dp \<Rightarrow> dp - ns_count st), rest))"

text \<open>\<^verbatim>\<open>scanExponent\<close>, base 2 exponents and separators allowed: exponent, its base, the rest.\<close>

fun scan_exp_digits :: "gostr \<Rightarrow> rune \<Rightarrow> bool \<Rightarrow> gostr \<Rightarrow> gostr \<times> rune \<times> bool \<times> gostr" where
  "scan_exp_digits ds prev inval [] = (ds, prev, inval, [])"
| "scan_exp_digits ds prev inval (c # cs) =
    (if ascii_digit c then scan_exp_digits (ds @ [c]) 48 inval cs
     else if c = rUnd then scan_exp_digits ds rUnd (inval \<or> prev \<noteq> 48) cs
     else (ds, prev, inval, c # cs))"

definition scan_exponent :: "gostr \<Rightarrow> (int \<times> int \<times> gostr) option" where
  "scan_exponent s =
    (case s of
       [] \<Rightarrow> Some (0, 10, [])
     | c # cs \<Rightarrow>
         if c \<noteq> 101 \<and> c \<noteq> 69 \<and> c \<noteq> 112 \<and> c \<noteq> 80 then Some (0, 10, s)
         else
           let base = (if c = 101 \<or> c = 69 then 10 else 2);
               neg = (cs \<noteq> [] \<and> hd cs = rDash);
               body = (if cs \<noteq> [] \<and> (hd cs = rDash \<or> hd cs = rPlus) then tl cs else cs);
               (ds, prev, inval, rest) = scan_exp_digits [] rDot False body;
               e = (if neg then - digits_val ds else digits_val ds)
           in if ds = [] \<or> e < min_int \<or> max_int < e \<or> inval \<or> prev = rUnd then None
              else Some (e, base, rest))"

definition scan_sign :: "gostr \<Rightarrow> (bool \<times> gostr) option" where
  "scan_sign s =
    (case s of
       [] \<Rightarrow> None
     | c # cs \<Rightarrow> Some (if c = rDash then (True, cs) else if c = rPlus then (False, cs) else (False, s)))"

definition int_set_string :: "gostr \<Rightarrow> int option" where
  "int_set_string s =
    (case scan_sign s of
       None \<Rightarrow> None
     | Some (neg, s1) \<Rightarrow>
         (case nat_scan False s1 of
            Some (v, _, _, []) \<Rightarrow> Some (if neg then - v else v)
          | _ \<Rightarrow> None))"

fun split_first :: "rune \<Rightarrow> gostr \<Rightarrow> (gostr \<times> gostr) option" where
  "split_first d [] = None"
| "split_first d (r # rs) =
    (if r = d then Some ([], rs)
     else map_option (\<lambda>(a, b). (r # a, b)) (split_first d rs))"

definition rat_set_string :: "gostr \<Rightarrow> rat option" where
  "rat_set_string s =
    (case split_first rSlash s of
       Some (a, b) \<Rightarrow>
         (case (int_set_string a, nat_scan False b) of
            (Some x, Some (y, _, _, [])) \<Rightarrow> (if y = 0 then None else Some (of_int x / of_int y))
          | _ \<Rightarrow> None)
     | None \<Rightarrow>
         (case scan_sign s of
            None \<Rightarrow> None
          | Some (neg, s1) \<Rightarrow>
              (case nat_scan True s1 of
                 None \<Rightarrow> None
               | Some (m, base, fcount, s2) \<Rightarrow>
                   (case scan_exponent s2 of
                      Some (e, ebase, []) \<Rightarrow>
                        (if m = 0 then Some 0
                         else
                           let d = (if fcount < 0 then fcount else 0);
                               exp5 = (if base = 10 then d else 0) + (if ebase = 10 then e else 0);
                               exp2 = (if base = 8 then d * 3 else if base = 16 then d * 4 else d) + e
                           in if 1000000 < \<bar>exp5\<bar> \<or> 10000000 < \<bar>exp2\<bar> then None
                              else Some ((if neg then - of_int m else of_int m) *
                                         5 powi exp5 * 2 powi exp2))
                    | _ \<Rightarrow> None))))"

section \<open>Splitting and joining, prefixes and substrings\<close>

lemma join_Cons: "join_with d (t # ts) = t @ (if ts = [] then [] else d @ join_with d ts)"
  by (cases ts) auto

lemma split_join:
  "ls \<noteq> [] \<Longrightarrow> \<forall>l \<in> set ls. d \<notin> set l \<Longrightarrow> split_on d (join_with [d] ls) = ls"
proof (induction ls)
  case Nil
  then show ?case by simp
next
  case (Cons l ls)
  then show ?case
    by (cases "ls = []") (simp_all add: join_Cons split_on_single split_on_append)
qed

lemma split_on_single_iff: "split_on d s = l # ls \<Longrightarrow> d \<notin> set s \<longleftrightarrow> ls = []"
  by (induction s arbitrary: l ls) (auto split: list.splits if_splits)

lemma has_prefix_append: "has_prefix (p @ q) s \<Longrightarrow> has_prefix p s"
  by (induction p arbitrary: s) (auto split: list.splits)

lemma contains_str_append: "contains_str (p @ q) s \<Longrightarrow> contains_str p s"
proof (induction s)
  case Nil
  then show ?case using has_prefix_append by auto
next
  case (Cons r s)
  then show ?case using has_prefix_append by auto
qed

end
