(* ===== verification/Ast_Position.thy ===== *)
theory Ast_Position
  imports Go_Lib
begin

text \<open>
  Positions and ranges of \<^verbatim>\<open>d2ast/d2ast.go\<close>: advancing over runes in UTF-8 bytes or UTF-16 code
  units, stepping back over one, the order of positions, and the compact text encoding
  \<^verbatim>\<open>path,line:col:byte-line:col:byte\<close> with its decoder. \<open>Subtract\<close> panics on a newline, which the
  model shows as None. The decoders update their receiver field by field, so they return the new
  receiver together with the error, if any.
\<close>

record position =
  Line :: int
  Column :: int
  Byte :: int

record range =
  rng_Path :: gostr
  Start :: position
  End :: position

definition pos0 :: position where
  "pos0 = \<lparr>Line = 0, Column = 0, Byte = 0\<rparr>"

definition range0 :: range where
  "range0 = \<lparr>rng_Path = [], Start = pos0, End = pos0\<rparr>"

section \<open>Moving a position\<close>

text \<open>The size a rune counts for: bytes, or UTF-16 code units.\<close>

definition rune_size :: "rune \<Rightarrow> bool \<Rightarrow> int" where
  "rune_size r byUTF16 =
    (if byUTF16 then (if 0x10000 \<le> r \<and> r \<le> 0x10FFFF then 2 else 1) else rune_len r)"

definition Advance :: "position \<Rightarrow> rune \<Rightarrow> bool \<Rightarrow> position" where
  "Advance p r byUTF16 =
    (let size = rune_size r byUTF16;
         p = (if r = rNL then p\<lparr>Line := Line p + 1, Column := 0\<rparr>
              else p\<lparr>Column := Column p + size\<rparr>)
     in p\<lparr>Byte := Byte p + size\<rparr>)"

definition Subtract :: "position \<Rightarrow> rune \<Rightarrow> bool \<Rightarrow> position option" where
  "Subtract p r byUTF16 =
    (let size = rune_size r byUTF16
     in if r = rNL then None
        else Some (p\<lparr>Column := Column p - size, Byte := Byte p - size\<rparr>))"

primrec AdvanceString :: "position \<Rightarrow> gostr \<Rightarrow> bool \<Rightarrow> position" where
  "AdvanceString p [] byUTF16 = p"
| "AdvanceString p (r # rs) byUTF16 = AdvanceString (Advance p r byUTF16) rs byUTF16"

primrec SubtractString :: "position \<Rightarrow> gostr \<Rightarrow> bool \<Rightarrow> position option" where
  "SubtractString p [] byUTF16 = Some p"
| "SubtractString p (r # rs) byUTF16 =
    (case Subtract p r byUTF16 of None \<Rightarrow> None | Some q \<Rightarrow> SubtractString q rs byUTF16)"

definition Before :: "position \<Rightarrow> position \<Rightarrow> bool" where
  "Before p p2 =
    (if Byte p \<noteq> Byte p2 \<and> Byte p \<noteq> -1 \<and> Byte p2 \<noteq> -1 then Byte p < Byte p2
     else if Line p \<noteq> Line p2 then Line p < Line p2
     else Column p < Column p2)"

definition range_Before :: "range \<Rightarrow> range \<Rightarrow> bool" where
  "range_Before r r2 = Before (Start r) (Start r2)"

definition OneLine :: "range \<Rightarrow> bool" where
  "OneLine r \<longleftrightarrow> Line (Start r) = Line (End r)"

section \<open>Text encoding\<close>

definition position_String :: "position \<Rightarrow> gostr" where
  "position_String p = itoa (Line p + 1) @ rColon # itoa (Column p + 1)"

definition position_MarshalText :: "position \<Rightarrow> gostr" where
  "position_MarshalText p =
    itoa (Line p) @ rColon # itoa (Column p) @ rColon # itoa (Byte p)"

definition range_String :: "range \<Rightarrow> gostr" where
  "range_String r =
    (if rng_Path r \<noteq> [] then rng_Path r @ [rColon] else []) @ position_String (Start r)"

definition range_MarshalText :: "range \<Rightarrow> gostr" where
  "range_MarshalText r =
    rng_Path r @ rComma # position_MarshalText (Start r) @ rDash # position_MarshalText (End r)"

datatype unmarshal_error = MissingEndField | MissingStartField | ExpectedThreeFields | AtoiError

definition position_UnmarshalText :: "position \<Rightarrow> gostr \<Rightarrow> position \<times> unmarshal_error option" where
  "position_UnmarshalText p b =
    (case split_on rColon b of
       [f0, f1, f2] \<Rightarrow>
         (let (l, ok0) = atoi f0; p = p\<lparr>Line := l\<rparr>
          in if \<not> ok0 then (p, Some AtoiError)
             else let (c, ok1) = atoi f1; p = p\<lparr>Column := c\<rparr>
                  in if \<not> ok1 then (p, Some AtoiError)
                     else let (y, ok2) = atoi f2; p = p\<lparr>Byte := y\<rparr>
                          in (p, if ok2 then None else Some AtoiError))
     | _ \<Rightarrow> (p, Some ExpectedThreeFields))"

definition range_UnmarshalText :: "range \<Rightarrow> gostr \<Rightarrow> range \<times> unmarshal_error option" where
  "range_UnmarshalText r b =
    (case split_last rDash b of
       None \<Rightarrow> (r, Some MissingEndField)
     | Some (b, end) \<Rightarrow>
         (case split_last rComma b of
            None \<Rightarrow> (r, Some MissingStartField)
          | Some (b, start) \<Rightarrow>
              let r = r\<lparr>rng_Path := b\<rparr>;
                  (s, err) = position_UnmarshalText (Start r) start;
                  r = r\<lparr>Start := s\<rparr>
              in if err \<noteq> None then (r, err)
                 else let (e, err) = position_UnmarshalText (End r) end
                      in (r\<lparr>End := e\<rparr>, err)))"

definition MakeRange :: "gostr \<Rightarrow> range" where
  "MakeRange s = fst (range_UnmarshalText range0 s)"

section \<open>Facts about positions\<close>

lemma AdvanceString_append [simp]:
  "AdvanceString p (xs @ ys) u = AdvanceString (AdvanceString p xs u) ys u"
  by (induction xs arbitrary: p) auto

lemma Subtract_Advance: "r \<noteq> 10 \<Longrightarrow> Subtract (Advance p r u) r u = Some p"
  by (simp add: Subtract_def Advance_def Let_def)

lemma Byte_Advance: "Byte (Advance p r u) = Byte p + rune_size r u"
  by (simp add: Advance_def Let_def)

lemma rune_size_pos: "valid_rune r \<Longrightarrow> 0 < rune_size r u"
  by (auto simp: rune_size_def rune_len_def valid_rune_def)

lemma Byte_AdvanceString_mono:
  "list_all valid_rune s \<Longrightarrow> Byte p + int (length s) \<le> Byte (AdvanceString p s u)"
proof (induction s arbitrary: p)
  case Nil
  then show ?case by simp
next
  case (Cons r s)
  then have "0 < rune_size r u" by (simp add: rune_size_pos)
  moreover from Cons have
    "Byte (Advance p r u) + int (length s) \<le> Byte (AdvanceString (Advance p r u) s u)"
    by simp
  ultimately show ?case by (simp add: Byte_Advance)
qed

lemma Line_AdvanceString_mono: "Line p \<le> Line (AdvanceString p s u)"
proof (induction s arbitrary: p)
  case Nil
  then show ?case by simp
next
  case (Cons r s)
  have "Line p \<le> Line (Advance p r u)" by (simp add: Advance_def Let_def)
  also have "\<dots> \<le> Line (AdvanceString (Advance p r u) s u)" by (rule Cons.IH)
  finally show ?case by simp
qed

text \<open>Lines are counted by newlines, and the byte offset is the encoded length.\<close>

lemma Line_AdvanceString: "Line (AdvanceString p s u) = Line p + int (count_list s 10)"
  by (induction s arbitrary: p) (auto simp: Advance_def Let_def)

lemma item_bytes_rune_len: "valid_rune r \<Longrightarrow> rune_len r = int (item_bytes r)"
  by (auto simp: rune_len_def item_bytes_def valid_rune_def)

lemma Byte_AdvanceString_blen:
  "list_all valid_rune s \<Longrightarrow> Byte (AdvanceString p s False) = Byte p + int (blen s)"
  by (induction s arbitrary: p) (auto simp: Byte_Advance rune_size_def item_bytes_rune_len)

lemma AdvanceString_offset:
  "AdvanceString p s u = p\<lparr>Line := Line (AdvanceString p s u), Column := Column (AdvanceString p s u),
     Byte := Byte (AdvanceString p s u)\<rparr>"
  by (cases "AdvanceString p s u"; cases p) simp

text \<open>A position is representable when its fields are 64-bit integers.\<close>

definition int64 :: "int \<Rightarrow> bool" where
  "int64 i \<longleftrightarrow> min_int \<le> i \<and> i \<le> max_int"

definition position_int64 :: "position \<Rightarrow> bool" where
  "position_int64 p \<longleftrightarrow> int64 (Line p) \<and> int64 (Column p) \<and> int64 (Byte p)"

lemma itoa_no_colon [simp]: "10 \<notin> set (itoa i)" "58 \<notin> set (itoa i)" "44 \<notin> set (itoa i)"
  by (auto dest: itoa_set)

lemma position_UnmarshalText_Marshal:
  assumes "position_int64 p"
  shows "position_UnmarshalText q (position_MarshalText p) = (p, None)"
proof -
  have "split_on 58 (position_MarshalText p) = [itoa (Line p), itoa (Column p), itoa (Byte p)]"
    by (simp add: position_MarshalText_def split_on_append split_on_single)
  with assms show ?thesis
    by (cases p; cases q)
      (simp add: position_UnmarshalText_def position_int64_def int64_def atoi_itoa)
qed

lemma position_MarshalText_no_comma [simp]: "44 \<notin> set (position_MarshalText p)"
  by (auto simp: position_MarshalText_def)

lemma position_MarshalText_no_dash:
  "0 \<le> Line p \<Longrightarrow> 0 \<le> Column p \<Longrightarrow> 0 \<le> Byte p \<Longrightarrow> 45 \<notin> set (position_MarshalText p)"
  by (auto simp: position_MarshalText_def itoa_def dest: digits_set)

lemma range_UnmarshalText_Marshal:
  assumes "position_int64 (Start r)" "position_int64 (End r)"
    and "0 \<le> Line (End r)" "0 \<le> Column (End r)" "0 \<le> Byte (End r)"
  shows "range_UnmarshalText q (range_MarshalText r) = (r, None)"
proof -
  have 1: "split_last 45 (range_MarshalText r)
      = Some (rng_Path r @ 44 # position_MarshalText (Start r), position_MarshalText (End r))"
    using split_last_append[OF position_MarshalText_no_dash[OF assms(3-5)],
        of "rng_Path r @ 44 # position_MarshalText (Start r)"]
    by (simp add: range_MarshalText_def)
  have 2: "split_last 44 (rng_Path r @ 44 # position_MarshalText (Start r))
      = Some (rng_Path r, position_MarshalText (Start r))"
    by (simp add: split_last_append)
  have 3: "position_UnmarshalText x (position_MarshalText (Start r)) = (Start r, None)" for x
    using assms(1) by (rule position_UnmarshalText_Marshal)
  have 4: "position_UnmarshalText x (position_MarshalText (End r)) = (End r, None)" for x
    using assms(2) by (rule position_UnmarshalText_Marshal)
  show ?thesis
    by (simp add: range_UnmarshalText_def 1 2 3 4)
qed

text \<open>The order is a strict total order once every position carries its byte offset.\<close>

lemma Before_irrefl: "\<not> Before p p"
  by (simp add: Before_def)

lemma Before_asym: "Before p q \<Longrightarrow> \<not> Before q p"
  by (auto simp: Before_def split: if_splits)

section \<open>Positions of a text\<close>

lemma AdvanceString_line:
  "rNL \<notin> set s \<Longrightarrow> AdvanceString p s u =
    p\<lparr>Column := Column p + (\<Sum>r\<leftarrow>s. rune_size r u), Byte := Byte p + (\<Sum>r\<leftarrow>s. rune_size r u)\<rparr>"
  by (induction s arbitrary: p) (auto simp: Advance_def Let_def)

lemma SubtractString_line:
  "rNL \<notin> set s \<Longrightarrow> SubtractString p s u =
    Some (p\<lparr>Column := Column p - (\<Sum>r\<leftarrow>s. rune_size r u), Byte := Byte p - (\<Sum>r\<leftarrow>s. rune_size r u)\<rparr>)"
  by (induction s arbitrary: p) (auto simp: Subtract_def Let_def)

lemma SubtractString_newline: "rNL \<in> set s \<Longrightarrow> SubtractString p s u = None"
  by (induction s arbitrary: p) (auto simp: Subtract_def Let_def)

lemma AdvanceString_column:
  "list_all valid_rune s \<Longrightarrow>
   Column (AdvanceString p s False) = (if rNL \<in> set s then 0 else Column p) + int (blen (last (split_on rNL s)))"
proof (induction s arbitrary: p)
  case Nil
  then show ?case by simp
next
  case (Cons r s)
  have len: "rune_size r False = int (item_bytes r)"
    using Cons.prems by (simp add: rune_size_def item_bytes_rune_len)
  obtain l ls where "split_on rNL s = l # ls"
    by (cases "split_on rNL s") simp_all
  moreover have "rNL \<notin> set s \<longleftrightarrow> ls = []"
    using calculation by (rule split_on_single_iff)
  ultimately show ?case
    using Cons len by (auto simp: Advance_def Let_def)
qed

end
