(* ===== verification/Labels.thy ===== *)
theory Labels
  imports Go_Lib
begin

text \<open>
  Label positions of \<^verbatim>\<open>lib/label/label.go\<close>: the enumeration, its two text conversions, the
  classification predicates and the point reflection \<open>Mirrored\<close>. The placement of a label on a
  box or a route computes with floating point and is not modelled.
\<close>

datatype label_position =
    Unset
  | OutsideTopLeft
  | OutsideTopCenter
  | OutsideTopRight
  | OutsideLeftTop
  | OutsideLeftMiddle
  | OutsideLeftBottom
  | OutsideRightTop
  | OutsideRightMiddle
  | OutsideRightBottom
  | OutsideBottomLeft
  | OutsideBottomCenter
  | OutsideBottomRight
  | InsideTopLeft
  | InsideTopCenter
  | InsideTopRight
  | InsideMiddleLeft
  | InsideMiddleCenter
  | InsideMiddleRight
  | InsideBottomLeft
  | InsideBottomCenter
  | InsideBottomRight
  | BorderTopLeft
  | BorderTopCenter
  | BorderTopRight
  | BorderLeftTop
  | BorderLeftMiddle
  | BorderLeftBottom
  | BorderRightTop
  | BorderRightMiddle
  | BorderRightBottom
  | BorderBottomLeft
  | BorderBottomCenter
  | BorderBottomRight
  | UnlockedTop
  | UnlockedMiddle
  | UnlockedBottom

definition FromString :: "gostr \<Rightarrow> label_position" where
  "FromString s =
    (if s = runes ''OUTSIDE_TOP_LEFT'' then OutsideTopLeft
     else if s = runes ''OUTSIDE_TOP_CENTER'' then OutsideTopCenter
     else if s = runes ''OUTSIDE_TOP_RIGHT'' then OutsideTopRight
     else if s = runes ''OUTSIDE_LEFT_TOP'' then OutsideLeftTop
     else if s = runes ''OUTSIDE_LEFT_MIDDLE'' then OutsideLeftMiddle
     else if s = runes ''OUTSIDE_LEFT_BOTTOM'' then OutsideLeftBottom
     else if s = runes ''OUTSIDE_RIGHT_TOP'' then OutsideRightTop
     else if s = runes ''OUTSIDE_RIGHT_MIDDLE'' then OutsideRightMiddle
     else if s = runes ''OUTSIDE_RIGHT_BOTTOM'' then OutsideRightBottom
     else if s = runes ''OUTSIDE_BOTTOM_LEFT'' then OutsideBottomLeft
     else if s = runes ''OUTSIDE_BOTTOM_CENTER'' then OutsideBottomCenter
     else if s = runes ''OUTSIDE_BOTTOM_RIGHT'' then OutsideBottomRight
     else if s = runes ''INSIDE_TOP_LEFT'' then InsideTopLeft
     else if s = runes ''INSIDE_TOP_CENTER'' then InsideTopCenter
     else if s = runes ''INSIDE_TOP_RIGHT'' then InsideTopRight
     else if s = runes ''INSIDE_MIDDLE_LEFT'' then InsideMiddleLeft
     else if s = runes ''INSIDE_MIDDLE_CENTER'' then InsideMiddleCenter
     else if s = runes ''INSIDE_MIDDLE_RIGHT'' then InsideMiddleRight
     else if s = runes ''INSIDE_BOTTOM_LEFT'' then InsideBottomLeft
     else if s = runes ''INSIDE_BOTTOM_CENTER'' then InsideBottomCenter
     else if s = runes ''INSIDE_BOTTOM_RIGHT'' then InsideBottomRight
     else if s = runes ''BORDER_TOP_LEFT'' then BorderTopLeft
     else if s = runes ''BORDER_TOP_CENTER'' then BorderTopCenter
     else if s = runes ''BORDER_TOP_RIGHT'' then BorderTopRight
     else if s = runes ''BORDER_LEFT_TOP'' then BorderLeftTop
     else if s = runes ''BORDER_LEFT_MIDDLE'' then BorderLeftMiddle
     else if s = runes ''BORDER_LEFT_BOTTOM'' then BorderLeftBottom
     else if s = runes ''BORDER_RIGHT_TOP'' then BorderRightTop
     else if s = runes ''BORDER_RIGHT_MIDDLE'' then BorderRightMiddle
     else if s = runes ''BORDER_RIGHT_BOTTOM'' then BorderRightBottom
     else if s = runes ''BORDER_BOTTOM_LEFT'' then BorderBottomLeft
     else if s = runes ''BORDER_BOTTOM_CENTER'' then BorderBottomCenter
     else if s = runes ''BORDER_BOTTOM_RIGHT'' then BorderBottomRight
     else if s = runes ''UNLOCKED_TOP'' then UnlockedTop
     else if s = runes ''UNLOCKED_MIDDLE'' then UnlockedMiddle
     else if s = runes ''UNLOCKED_BOTTOM'' then UnlockedBottom
     else Unset)"

primrec label_String :: "label_position \<Rightarrow> gostr" where
  "label_String Unset = runes ''''"
| "label_String OutsideTopLeft = runes ''OUTSIDE_TOP_LEFT''"
| "label_String OutsideTopCenter = runes ''OUTSIDE_TOP_CENTER''"
| "label_String OutsideTopRight = runes ''OUTSIDE_TOP_RIGHT''"
| "label_String OutsideLeftTop = runes ''OUTSIDE_LEFT_TOP''"
| "label_String OutsideLeftMiddle = runes ''OUTSIDE_LEFT_MIDDLE''"
| "label_String OutsideLeftBottom = runes ''OUTSIDE_LEFT_BOTTOM''"
| "label_String OutsideRightTop = runes ''OUTSIDE_RIGHT_TOP''"
| "label_String OutsideRightMiddle = runes ''OUTSIDE_RIGHT_MIDDLE''"
| "label_String OutsideRightBottom = runes ''OUTSIDE_RIGHT_BOTTOM''"
| "label_String OutsideBottomLeft = runes ''OUTSIDE_BOTTOM_LEFT''"
| "label_String OutsideBottomCenter = runes ''OUTSIDE_BOTTOM_CENTER''"
| "label_String OutsideBottomRight = runes ''OUTSIDE_BOTTOM_RIGHT''"
| "label_String InsideTopLeft = runes ''INSIDE_TOP_LEFT''"
| "label_String InsideTopCenter = runes ''INSIDE_TOP_CENTER''"
| "label_String InsideTopRight = runes ''INSIDE_TOP_RIGHT''"
| "label_String InsideMiddleLeft = runes ''INSIDE_MIDDLE_LEFT''"
| "label_String InsideMiddleCenter = runes ''INSIDE_MIDDLE_CENTER''"
| "label_String InsideMiddleRight = runes ''INSIDE_MIDDLE_RIGHT''"
| "label_String InsideBottomLeft = runes ''INSIDE_BOTTOM_LEFT''"
| "label_String InsideBottomCenter = runes ''INSIDE_BOTTOM_CENTER''"
| "label_String InsideBottomRight = runes ''INSIDE_BOTTOM_RIGHT''"
| "label_String BorderTopLeft = runes ''BORDER_TOP_LEFT''"
| "label_String BorderTopCenter = runes ''BORDER_TOP_CENTER''"
| "label_String BorderTopRight = runes ''BORDER_TOP_RIGHT''"
| "label_String BorderLeftTop = runes ''BORDER_LEFT_TOP''"
| "label_String BorderLeftMiddle = runes ''BORDER_LEFT_MIDDLE''"
| "label_String BorderLeftBottom = runes ''BORDER_LEFT_BOTTOM''"
| "label_String BorderRightTop = runes ''BORDER_RIGHT_TOP''"
| "label_String BorderRightMiddle = runes ''BORDER_RIGHT_MIDDLE''"
| "label_String BorderRightBottom = runes ''BORDER_RIGHT_BOTTOM''"
| "label_String BorderBottomLeft = runes ''BORDER_BOTTOM_LEFT''"
| "label_String BorderBottomCenter = runes ''BORDER_BOTTOM_CENTER''"
| "label_String BorderBottomRight = runes ''BORDER_BOTTOM_RIGHT''"
| "label_String UnlockedTop = runes ''UNLOCKED_TOP''"
| "label_String UnlockedMiddle = runes ''UNLOCKED_MIDDLE''"
| "label_String UnlockedBottom = runes ''UNLOCKED_BOTTOM''"

definition IsShapePosition :: "label_position \<Rightarrow> bool" where
  "IsShapePosition p \<longleftrightarrow> p \<in> {OutsideTopLeft, OutsideTopCenter, OutsideTopRight, OutsideBottomLeft,
    OutsideBottomCenter, OutsideBottomRight, OutsideLeftTop, OutsideLeftMiddle,
    OutsideLeftBottom, OutsideRightTop, OutsideRightMiddle, OutsideRightBottom,
    InsideTopLeft, InsideTopCenter, InsideTopRight, InsideMiddleLeft, InsideMiddleCenter,
    InsideMiddleRight, InsideBottomLeft, InsideBottomCenter, InsideBottomRight,
    BorderTopLeft, BorderTopCenter, BorderTopRight, BorderLeftTop, BorderLeftMiddle,
    BorderLeftBottom, BorderRightTop, BorderRightMiddle, BorderRightBottom,
    BorderBottomLeft, BorderBottomCenter, BorderBottomRight}"

definition IsEdgePosition :: "label_position \<Rightarrow> bool" where
  "IsEdgePosition p \<longleftrightarrow> p \<in> {OutsideTopLeft, OutsideTopCenter, OutsideTopRight, InsideMiddleLeft,
    InsideMiddleCenter, InsideMiddleRight, OutsideBottomLeft, OutsideBottomCenter,
    OutsideBottomRight, UnlockedTop, UnlockedMiddle, UnlockedBottom}"

definition IsOutside :: "label_position \<Rightarrow> bool" where
  "IsOutside p \<longleftrightarrow> p \<in> {OutsideTopLeft, OutsideTopCenter, OutsideTopRight, OutsideBottomLeft,
    OutsideBottomCenter, OutsideBottomRight, OutsideLeftTop, OutsideLeftMiddle,
    OutsideLeftBottom, OutsideRightTop, OutsideRightMiddle, OutsideRightBottom}"

definition IsUnlocked :: "label_position \<Rightarrow> bool" where
  "IsUnlocked p \<longleftrightarrow> p \<in> {UnlockedTop, UnlockedMiddle, UnlockedBottom}"

definition IsBorder :: "label_position \<Rightarrow> bool" where
  "IsBorder p \<longleftrightarrow> p \<in> {BorderTopLeft, BorderTopCenter, BorderTopRight, BorderLeftTop, BorderLeftMiddle,
    BorderLeftBottom, BorderRightTop, BorderRightMiddle, BorderRightBottom,
    BorderBottomLeft, BorderBottomCenter, BorderBottomRight}"

definition IsOnEdge :: "label_position \<Rightarrow> bool" where
  "IsOnEdge p \<longleftrightarrow> p \<in> {InsideMiddleLeft, InsideMiddleCenter, InsideMiddleRight, UnlockedMiddle}"

primrec Mirrored :: "label_position \<Rightarrow> label_position" where
  "Mirrored Unset = Unset"
| "Mirrored OutsideTopLeft = OutsideBottomRight"
| "Mirrored OutsideTopCenter = OutsideBottomCenter"
| "Mirrored OutsideTopRight = OutsideBottomLeft"
| "Mirrored OutsideLeftTop = OutsideRightBottom"
| "Mirrored OutsideLeftMiddle = OutsideRightMiddle"
| "Mirrored OutsideLeftBottom = OutsideRightTop"
| "Mirrored OutsideRightTop = OutsideLeftBottom"
| "Mirrored OutsideRightMiddle = OutsideLeftMiddle"
| "Mirrored OutsideRightBottom = OutsideLeftTop"
| "Mirrored OutsideBottomLeft = OutsideTopRight"
| "Mirrored OutsideBottomCenter = OutsideTopCenter"
| "Mirrored OutsideBottomRight = OutsideTopLeft"
| "Mirrored InsideTopLeft = InsideBottomRight"
| "Mirrored InsideTopCenter = InsideBottomCenter"
| "Mirrored InsideTopRight = InsideBottomLeft"
| "Mirrored InsideMiddleLeft = InsideMiddleRight"
| "Mirrored InsideMiddleCenter = InsideMiddleCenter"
| "Mirrored InsideMiddleRight = InsideMiddleLeft"
| "Mirrored InsideBottomLeft = InsideTopRight"
| "Mirrored InsideBottomCenter = InsideTopCenter"
| "Mirrored InsideBottomRight = InsideTopLeft"
| "Mirrored BorderTopLeft = BorderBottomRight"
| "Mirrored BorderTopCenter = BorderBottomCenter"
| "Mirrored BorderTopRight = BorderBottomLeft"
| "Mirrored BorderLeftTop = BorderRightBottom"
| "Mirrored BorderLeftMiddle = BorderRightMiddle"
| "Mirrored BorderLeftBottom = BorderRightTop"
| "Mirrored BorderRightTop = BorderLeftBottom"
| "Mirrored BorderRightMiddle = BorderLeftMiddle"
| "Mirrored BorderRightBottom = BorderLeftTop"
| "Mirrored BorderBottomLeft = BorderTopRight"
| "Mirrored BorderBottomCenter = BorderTopCenter"
| "Mirrored BorderBottomRight = BorderTopLeft"
| "Mirrored UnlockedTop = UnlockedBottom"
| "Mirrored UnlockedMiddle = UnlockedMiddle"
| "Mirrored UnlockedBottom = UnlockedTop"

section \<open>Facts about label positions\<close>

lemma FromString_String: "FromString (label_String p) = p"
  by (cases p) (simp_all add: FromString_def runes_inj)

lemma label_String_inj: "label_String p = label_String q \<Longrightarrow> p = q"
  by (metis FromString_String)

lemma FromString_sound: "FromString s \<noteq> Unset \<Longrightarrow> label_String (FromString s) = s"
  unfolding FromString_def by (simp split: if_split_asm)

lemma Mirrored_Mirrored [simp]: "Mirrored (Mirrored p) = p"
  by (cases p) simp_all

lemma Mirrored_classes:
  "IsShapePosition (Mirrored p) = IsShapePosition p"
  "IsEdgePosition (Mirrored p) = IsEdgePosition p"
  "IsOutside (Mirrored p) = IsOutside p"
  "IsUnlocked (Mirrored p) = IsUnlocked p"
  "IsBorder (Mirrored p) = IsBorder p"
  by (cases p; simp add: IsShapePosition_def IsEdgePosition_def IsOutside_def IsUnlocked_def
      IsBorder_def)+

end
