(* ===== verification/Keywords.thy ===== *)
theory Keywords
  imports Labels
begin

text \<open>
  The keyword tables of \<^verbatim>\<open>d2ast/keywords.go\<close>. A Go set of strings is the list of its keys, used
  for membership only; \<open>init\<close> adds the holders and board keywords to the composite keywords and
  builds \<open>ReservedKeywords\<close> from the tables.
\<close>

definition SimpleReservedKeywords :: "gostr list" where
  "SimpleReservedKeywords = map runes
    [''label'', ''shape'', ''icon'', ''constraint'', ''tooltip'', ''link'', ''near'',
     ''width'', ''height'', ''direction'', ''top'', ''left'', ''grid-rows'',
     ''grid-columns'', ''grid-gap'', ''vertical-gap'', ''horizontal-gap'', ''class'',
     ''vars'']"

definition ReservedKeywordHolders :: "gostr list" where
  "ReservedKeywordHolders = map runes
    [''style'']"

definition CompositeReservedKeywords0 :: "gostr list" where
  "CompositeReservedKeywords0 = map runes
    [''source-arrowhead'', ''target-arrowhead'', ''classes'', ''constraint'', ''label'',
     ''icon'', ''tooltip'']"

definition StyleKeywords :: "gostr list" where
  "StyleKeywords = map runes
    [''opacity'', ''stroke'', ''fill'', ''fill-pattern'', ''stroke-width'',
     ''stroke-dash'', ''border-radius'', ''font'', ''font-size'', ''font-color'',
     ''bold'', ''italic'', ''underline'', ''text-transform'', ''shadow'', ''multiple'',
     ''double-border'', ''3d'', ''animated'', ''filled'']"

definition NearConstantsArray :: "gostr list" where
  "NearConstantsArray = map runes
    [''top-left'', ''top-center'', ''top-right'', ''center-left'', ''center-right'',
     ''bottom-left'', ''bottom-center'', ''bottom-right'']"

definition LabelPositionsArray :: "gostr list" where
  "LabelPositionsArray = map runes
    [''top-left'', ''top-center'', ''top-right'', ''center-left'', ''center-center'',
     ''center-right'', ''bottom-left'', ''bottom-center'', ''bottom-right'',
     ''outside-top-left'', ''outside-top-center'', ''outside-top-right'',
     ''outside-left-top'', ''outside-left-center'', ''outside-left-bottom'',
     ''outside-right-top'', ''outside-right-center'', ''outside-right-bottom'',
     ''outside-bottom-left'', ''outside-bottom-center'', ''outside-bottom-right'',
     ''border-top-left'', ''border-top-center'', ''border-top-right'',
     ''border-left-top'', ''border-left-center'', ''border-left-bottom'',
     ''border-right-top'', ''border-right-center'', ''border-right-bottom'',
     ''border-bottom-left'', ''border-bottom-center'', ''border-bottom-right'']"

definition TooltipPositionsArray :: "gostr list" where
  "TooltipPositionsArray = map runes
    [''top-left'', ''top-center'', ''top-right'', ''center-left'', ''center-right'',
     ''bottom-left'', ''bottom-center'', ''bottom-right'']"

definition FillPatterns :: "gostr list" where
  "FillPatterns = map runes
    [''none'', ''dots'', ''lines'', ''grain'', ''paper'']"

definition TextTransforms :: "gostr list" where
  "TextTransforms = map runes
    [''none'', ''uppercase'', ''lowercase'', ''capitalize'']"

definition BoardKeywords :: "gostr list" where
  "BoardKeywords = map runes
    [''layers'', ''scenarios'', ''steps'']"

definition LabelPositionsMapping :: "(gostr \<times> label_position) list" where
  "LabelPositionsMapping = map (\<lambda>(k, v). (runes k, v))
    [(''top-left'', InsideTopLeft),
     (''top-center'', InsideTopCenter),
     (''top-right'', InsideTopRight),
     (''center-left'', InsideMiddleLeft),
     (''center-center'', InsideMiddleCenter),
     (''center-right'', InsideMiddleRight),
     (''bottom-left'', InsideBottomLeft),
     (''bottom-center'', InsideBottomCenter),
     (''bottom-right'', InsideBottomRight),
     (''outside-top-left'', OutsideTopLeft),
     (''outside-top-center'', OutsideTopCenter),
     (''outside-top-right'', OutsideTopRight),
     (''outside-left-top'', OutsideLeftTop),
     (''outside-left-center'', OutsideLeftMiddle),
     (''outside-left-bottom'', OutsideLeftBottom),
     (''outside-right-top'', OutsideRightTop),
     (''outside-right-center'', OutsideRightMiddle),
     (''outside-right-bottom'', OutsideRightBottom),
     (''outside-bottom-left'', OutsideBottomLeft),
     (''outside-bottom-center'', OutsideBottomCenter),
     (''outside-bottom-right'', OutsideBottomRight),
     (''border-top-left'', BorderTopLeft),
     (''border-top-center'', BorderTopCenter),
     (''border-top-right'', BorderTopRight),
     (''border-left-top'', BorderLeftTop),
     (''border-left-center'', BorderLeftMiddle),
     (''border-left-bottom'', BorderLeftBottom),
     (''border-right-top'', BorderRightTop),
     (''border-right-center'', BorderRightMiddle),
     (''border-right-bottom'', BorderRightBottom),
     (''border-bottom-left'', BorderBottomLeft),
     (''border-bottom-center'', BorderBottomCenter),
     (''border-bottom-right'', BorderBottomRight)]"

text \<open>The tables as \<open>init\<close> leaves them.\<close>

definition CompositeReservedKeywords :: "gostr list" where
  "CompositeReservedKeywords = CompositeReservedKeywords0 @ ReservedKeywordHolders @ BoardKeywords"

definition ReservedKeywords :: "gostr list" where
  "ReservedKeywords = SimpleReservedKeywords @ StyleKeywords @ CompositeReservedKeywords"

definition is_reserved :: "gostr \<Rightarrow> bool" where
  "is_reserved s \<longleftrightarrow> s \<in> set ReservedKeywords"

section \<open>Facts about the tables\<close>

lemmas keyword_defs = ReservedKeywords_def SimpleReservedKeywords_def StyleKeywords_def
  CompositeReservedKeywords_def CompositeReservedKeywords0_def ReservedKeywordHolders_def
  BoardKeywords_def

lemma keywords_lower: "s \<in> set ReservedKeywords \<Longrightarrow> to_lower s = s"
  by (auto simp: keyword_defs to_lower_def lower_rune_def)

lemma keywords_runes:
  "s \<in> set ReservedKeywords \<Longrightarrow>
   s \<noteq> [] \<and> list_all (\<lambda>r. r = 45 \<or> (97 \<le> r \<and> r \<le> 122) \<or> (48 \<le> r \<and> r \<le> 57)) s"
  by (auto simp: keyword_defs)

lemma label_mapping_keys: "map fst LabelPositionsMapping = LabelPositionsArray"
  by (simp add: LabelPositionsMapping_def LabelPositionsArray_def)

lemma label_mapping_inj: "distinct (map snd LabelPositionsMapping)"
  by (simp add: LabelPositionsMapping_def)

lemma label_mapping_shape: "p \<in> set (map snd LabelPositionsMapping) \<longleftrightarrow> IsShapePosition p"
  by (cases p) (simp_all add: LabelPositionsMapping_def IsShapePosition_def)

end
