(* ===== verification/Ast.thy ===== *)
theory Ast
  imports Ast_Position Keywords
begin

text \<open>
  The abstract syntax of \<^verbatim>\<open>d2ast/d2ast.go\<close>: the node structs as datatypes, the boxes as options
  (a box holds one node or nothing; \<^verbatim>\<open>Unbox\<close> is the option itself), and the operations on them.
  An operation that dereferences a nil pointer or slices out of range in Go returns None here where
  the code can do so. \<open>d2map\<close> is the Go type \<open>Map\<close>.
\<close>

section \<open>Nodes\<close>

datatype comment = Comment (c_range: range) (c_value: gostr)
datatype block_comment = BlockComment (bc_range: range) (bc_value: gostr)

datatype string_node =
    UnquotedString range "interpolation_box list" "gostr list"
  | DoubleQuotedString range "interpolation_box list"
  | SingleQuotedString range gostr gostr
  | BlockString range gostr gostr gostr
and interpolation_box =
    InterpolationBox (ib_string: "gostr option") (ib_raw: "gostr option")
      (ib_subst: "substitution option")
and substitution =
    Substitution (s_range: range) (s_spread: bool) (s_path: "string_node list")

datatype scalar =
    Null range
  | Suspension range bool
  | Boolean range bool
  | Number range gostr rat
  | String string_node

datatype import_node =
  Import (i_range: range) (i_spread: bool) (i_pre: gostr) (i_path: "string_node list")

datatype keypath = KeyPath (kp_range: range) (kp_path: "string_node list")

datatype edge =
  Edge (e_range: range) (e_src: "keypath option") (e_srcArrow: gostr)
       (e_dst: "keypath option") (e_dstArrow: gostr)

datatype edge_index = EdgeIndex (ei_range: range) (ei_int: "int option") (ei_glob: bool)

datatype val =
    ScalarV scalar
  | ArrayV array
  | MapV d2map
  | ImportV import_node
and array = Array (a_range: range) (a_nodes: "array_node list")
and array_node =
    ACommentN comment
  | ABlockCommentN block_comment
  | ASubstitutionN substitution
  | AImportN import_node
  | AValueN val
and d2map = Map (m_range: range) (m_nodes: "map_node list")
and map_node =
    CommentN comment
  | BlockCommentN block_comment
  | SubstitutionN substitution
  | ImportN import_node
  | KeyN key
and key =
  Key (k_range: range) (k_ampersand: bool) (k_notAmpersand: bool)
      (k_key: "keypath option") (k_edges: "edge list") (k_edgeIndex: "edge_index option")
      (k_edgeKey: "keypath option") (k_primary: "scalar option") (k_value: "val option")

text \<open>Assignments to the fields of a \<open>Key\<close> under construction.\<close>

primrec set_k_range :: "range \<Rightarrow> key \<Rightarrow> key" where
  "set_k_range x (Key r a n k es ei ek p v) = Key x a n k es ei ek p v"
primrec set_k_ampersand :: "bool \<Rightarrow> key \<Rightarrow> key" where
  "set_k_ampersand x (Key r a n k es ei ek p v) = Key r x n k es ei ek p v"
primrec set_k_notAmpersand :: "bool \<Rightarrow> key \<Rightarrow> key" where
  "set_k_notAmpersand x (Key r a n k es ei ek p v) = Key r a x k es ei ek p v"
primrec set_k_key :: "keypath option \<Rightarrow> key \<Rightarrow> key" where
  "set_k_key x (Key r a n k es ei ek p v) = Key r a n x es ei ek p v"
primrec set_k_edges :: "edge list \<Rightarrow> key \<Rightarrow> key" where
  "set_k_edges x (Key r a n k es ei ek p v) = Key r a n k x ei ek p v"
primrec set_k_edgeIndex :: "edge_index option \<Rightarrow> key \<Rightarrow> key" where
  "set_k_edgeIndex x (Key r a n k es ei ek p v) = Key r a n k es x ek p v"
primrec set_k_edgeKey :: "keypath option \<Rightarrow> key \<Rightarrow> key" where
  "set_k_edgeKey x (Key r a n k es ei ek p v) = Key r a n k es ei x p v"
primrec set_k_primary :: "scalar option \<Rightarrow> key \<Rightarrow> key" where
  "set_k_primary x (Key r a n k es ei ek p v) = Key r a n k es ei ek x v"
primrec set_k_value :: "val option \<Rightarrow> key \<Rightarrow> key" where
  "set_k_value x (Key r a n k es ei ek p v) = Key r a n k es ei ek p x"

section \<open>The Node interface\<close>

datatype node =
    NComment comment
  | NBlockComment block_comment
  | NScalar scalar
  | NSubstitution substitution
  | NImport import_node
  | NArray array
  | NMap d2map
  | NKey key
  | NKeyPath keypath
  | NEdge edge
  | NEdgeIndex edge_index

primrec string_range :: "string_node \<Rightarrow> range" where
  "string_range (UnquotedString r v p) = r"
| "string_range (DoubleQuotedString r v) = r"
| "string_range (SingleQuotedString r w v) = r"
| "string_range (BlockString r q t v) = r"

primrec scalar_range :: "scalar \<Rightarrow> range" where
  "scalar_range (Null r) = r"
| "scalar_range (Suspension r b) = r"
| "scalar_range (Boolean r b) = r"
| "scalar_range (Number r w q) = r"
| "scalar_range (String s) = string_range s"

primrec GetRange :: "node \<Rightarrow> range" where
  "GetRange (NComment c) = c_range c"
| "GetRange (NBlockComment c) = bc_range c"
| "GetRange (NScalar s) = scalar_range s"
| "GetRange (NSubstitution s) = s_range s"
| "GetRange (NImport i) = i_range i"
| "GetRange (NArray a) = a_range a"
| "GetRange (NMap m) = m_range m"
| "GetRange (NKey k) = k_range k"
| "GetRange (NKeyPath k) = kp_range k"
| "GetRange (NEdge e) = e_range e"
| "GetRange (NEdgeIndex i) = ei_range i"

primrec string_Type :: "string_node \<Rightarrow> gostr" where
  "string_Type (UnquotedString r v p) = runes ''unquoted string''"
| "string_Type (DoubleQuotedString r v) = runes ''double quoted string''"
| "string_Type (SingleQuotedString r w v) = runes ''single quoted string''"
| "string_Type (BlockString r q t v) = t @ runes '' block string''"

primrec scalar_Type :: "scalar \<Rightarrow> gostr" where
  "scalar_Type (Null r) = runes ''null''"
| "scalar_Type (Suspension r b) = runes ''suspension''"
| "scalar_Type (Boolean r b) = runes ''boolean''"
| "scalar_Type (Number r w q) = runes ''number''"
| "scalar_Type (String s) = string_Type s"

primrec node_Type :: "node \<Rightarrow> gostr" where
  "node_Type (NComment c) = runes ''comment''"
| "node_Type (NBlockComment c) = runes ''block comment''"
| "node_Type (NScalar s) = scalar_Type s"
| "node_Type (NSubstitution s) = runes ''substitution''"
| "node_Type (NImport i) = runes ''import''"
| "node_Type (NArray a) = runes ''array''"
| "node_Type (NMap m) = runes ''map''"
| "node_Type (NKey k) = runes ''map key''"
| "node_Type (NKeyPath k) = runes ''key path''"
| "node_Type (NEdge e) = runes ''edge''"
| "node_Type (NEdgeIndex i) = runes ''edge index''"

text \<open>\<^verbatim>\<open>Unbox\<close> of the boxes, into the \<open>Node\<close> interface.\<close>

primrec val_node :: "val \<Rightarrow> node" where
  "val_node (ScalarV s) = NScalar s"
| "val_node (ArrayV a) = NArray a"
| "val_node (MapV m) = NMap m"
| "val_node (ImportV i) = NImport i"

primrec map_node_node :: "map_node \<Rightarrow> node" where
  "map_node_node (CommentN c) = NComment c"
| "map_node_node (BlockCommentN c) = NBlockComment c"
| "map_node_node (SubstitutionN s) = NSubstitution s"
| "map_node_node (ImportN i) = NImport i"
| "map_node_node (KeyN k) = NKey k"

primrec array_node_node :: "array_node \<Rightarrow> node" where
  "array_node_node (ACommentN c) = NComment c"
| "array_node_node (ABlockCommentN c) = NBlockComment c"
| "array_node_node (ASubstitutionN s) = NSubstitution s"
| "array_node_node (AImportN i) = NImport i"
| "array_node_node (AValueN v) = val_node v"

text \<open>\<^verbatim>\<open>MakeArrayNodeBox\<close>: the array box has no field for a suspension, so one is dropped.\<close>

definition MakeArrayNodeBox :: "val \<Rightarrow> array_node option" where
  "MakeArrayNodeBox v =
    (case v of
       ScalarV (Suspension r b) \<Rightarrow> None
     | ImportV i \<Rightarrow> Some (AImportN i)
     | _ \<Rightarrow> Some (AValueN v))"

primrec ScalarBox :: "val \<Rightarrow> scalar option" where
  "ScalarBox (ScalarV s) = Some s"
| "ScalarBox (ArrayV a) = None"
| "ScalarBox (MapV m) = None"
| "ScalarBox (ImportV i) = None"

primrec StringBox :: "val \<Rightarrow> string_node option" where
  "StringBox (ScalarV s) = (case s of String x \<Rightarrow> Some x | _ \<Rightarrow> None)"
| "StringBox (ArrayV a) = None"
| "StringBox (MapV m) = None"
| "StringBox (ImportV i) = None"

primrec val_map :: "val \<Rightarrow> d2map option" where
  "val_map (ScalarV s) = None"
| "val_map (ArrayV a) = None"
| "val_map (MapV m) = Some m"
| "val_map (ImportV i) = None"

definition option_list :: "'a option \<Rightarrow> 'a list" where
  "option_list x = (case x of None \<Rightarrow> [] | Some y \<Rightarrow> [y])"

primrec string_Children :: "string_node \<Rightarrow> node list" where
  "string_Children (UnquotedString r v p) =
     map NSubstitution (concat (map (\<lambda>b. option_list (ib_subst b)) v))"
| "string_Children (DoubleQuotedString r v) =
     map NSubstitution (concat (map (\<lambda>b. option_list (ib_subst b)) v))"
| "string_Children (SingleQuotedString r w v) = []"
| "string_Children (BlockString r q t v) = []"

definition string_node_node :: "string_node \<Rightarrow> node" where
  "string_node_node s = NScalar (String s)"

primrec Children :: "node \<Rightarrow> node list" where
  "Children (NComment c) = []"
| "Children (NBlockComment c) = []"
| "Children (NScalar s) = (case s of String x \<Rightarrow> string_Children x | _ \<Rightarrow> [])"
| "Children (NSubstitution s) = map string_node_node (s_path s)"
| "Children (NImport i) = map string_node_node (i_path i)"
| "Children (NArray a) = map array_node_node (a_nodes a)"
| "Children (NMap m) = map map_node_node (m_nodes m)"
| "Children (NKey k) =
     map NKeyPath (option_list (k_key k)) @ map NEdge (k_edges k) @
     map NEdgeIndex (option_list (k_edgeIndex k)) @ map NKeyPath (option_list (k_edgeKey k)) @
     map NScalar (option_list (k_primary k)) @ map val_node (option_list (k_value k))"
| "Children (NKeyPath k) = map string_node_node (kp_path k)"
| "Children (NEdge e) = map NKeyPath (option_list (e_src e)) @ map NKeyPath (option_list (e_dst e))"
| "Children (NEdgeIndex i) = []"

section \<open>Scalars and strings\<close>

text \<open>The text of the first interpolation box, if it holds text.\<close>

definition boxes_String :: "interpolation_box list \<Rightarrow> gostr" where
  "boxes_String v =
    (case v of [] \<Rightarrow> [] | b # _ \<Rightarrow> (case ib_string b of None \<Rightarrow> [] | Some s \<Rightarrow> s))"

primrec string_ScalarString :: "string_node \<Rightarrow> gostr" where
  "string_ScalarString (UnquotedString r v p) = boxes_String v"
| "string_ScalarString (DoubleQuotedString r v) = boxes_String v"
| "string_ScalarString (SingleQuotedString r w v) = v"
| "string_ScalarString (BlockString r q t v) = v"

primrec ScalarString :: "scalar \<Rightarrow> gostr" where
  "ScalarString (Null r) = []"
| "ScalarString (Suspension r b) = []"
| "ScalarString (Boolean r b) = format_bool b"
| "ScalarString (Number r w q) = w"
| "ScalarString (String s) = string_ScalarString s"

definition text_box :: "gostr \<Rightarrow> interpolation_box" where
  "text_box s = InterpolationBox (Some s) None None"

primrec SetString :: "string_node \<Rightarrow> gostr \<Rightarrow> string_node" where
  "SetString (UnquotedString r v p) s2 = UnquotedString r [text_box s2] p"
| "SetString (DoubleQuotedString r v) s2 = DoubleQuotedString r [text_box s2]"
| "SetString (SingleQuotedString r w v) s2 = SingleQuotedString r [] s2"
| "SetString (BlockString r q t v) s2 = BlockString r q t s2"

primrec IsUnquoted :: "string_node \<Rightarrow> bool" where
  "IsUnquoted (UnquotedString r v p) = True"
| "IsUnquoted (DoubleQuotedString r v) = False"
| "IsUnquoted (SingleQuotedString r w v) = False"
| "IsUnquoted (BlockString r q t v) = False"

text \<open>\<^verbatim>\<open>Coalesce\<close>: the text up to the first box without text becomes the whole value.\<close>

fun coalesce_boxes :: "interpolation_box list \<Rightarrow> gostr" where
  "coalesce_boxes [] = []"
| "coalesce_boxes (b # bs) =
    (case ib_string b of None \<Rightarrow> [] | Some s \<Rightarrow> s @ coalesce_boxes bs)"

primrec Coalesce :: "string_node \<Rightarrow> string_node" where
  "Coalesce (UnquotedString r v p) = SetString (UnquotedString r v p) (coalesce_boxes v)"
| "Coalesce (DoubleQuotedString r v) = SetString (DoubleQuotedString r v) (coalesce_boxes v)"
| "Coalesce (SingleQuotedString r w v) = SingleQuotedString r w v"
| "Coalesce (BlockString r q t v) = BlockString r q t v"

definition FlatUnquotedString :: "gostr \<Rightarrow> string_node" where
  "FlatUnquotedString s = UnquotedString range0 [text_box s] []"

definition FlatDoubleQuotedString :: "gostr \<Rightarrow> string_node" where
  "FlatDoubleQuotedString s = DoubleQuotedString range0 [text_box s]"

text \<open>The special characters, and the string node that prints a text best.\<close>

definition UnquotedKeySpecials :: gostr where
  "UnquotedKeySpecials =
    [rHash, rSemi, rNL, rBsl, rLCur, rRCur, rLBr, rRBr, rSQ, rDQ, rPipe, rColon, rDot, rDash,
     rLt, rGt, rStar, rAmp, rLPar, rRPar, rAt, rAmp]"

definition UnquotedValueSpecials :: gostr where
  "UnquotedValueSpecials =
    [rHash, rSemi, rNL, rBsl, rLCur, rRCur, rLBr, rRBr, rSQ, rDQ, rPipe, rDollar, rAt]"

definition hasSurroundingWhitespace :: "gostr \<Rightarrow> bool" where
  "hasSurroundingWhitespace s \<longleftrightarrow> s \<noteq> [] \<and> (is_space (hd s) \<or> is_space (last s))"

text \<open>Whether the loop over a key's runes meets a special one; a dash followed by anything but a
  dash is not special.\<close>

fun key_needs_quotes :: "gostr \<Rightarrow> bool" where
  "key_needs_quotes [] = False"
| "key_needs_quotes (r # rs) =
    (if r = rDash \<and> rs \<noteq> [] \<and> hd rs \<noteq> rDash then key_needs_quotes rs
     else r \<in> set UnquotedKeySpecials \<or> key_needs_quotes rs)"

definition RawString :: "gostr \<Rightarrow> bool \<Rightarrow> string_node" where
  "RawString s inKey =
    (if s = [] then FlatDoubleQuotedString s
     else if inKey \<and> key_needs_quotes s then
       (if rDQ \<notin> set s then FlatDoubleQuotedString s
        else if rNL \<in> set s then FlatDoubleQuotedString s
        else SingleQuotedString range0 [] s)
     else if \<not> inKey \<and> (s = runes ''null'' \<or> s = runes ''suspend'' \<or> s = runes ''unsuspend'' \<or>
                         (\<exists>r \<in> set s. r \<in> set UnquotedValueSpecials)) then
       (if rDQ \<notin> set s \<and> rDollar \<notin> set s then FlatDoubleQuotedString s
        else if rNL \<in> set s then FlatDoubleQuotedString s
        else SingleQuotedString range0 [] s)
     else if hasSurroundingWhitespace s then FlatDoubleQuotedString s
     else FlatUnquotedString s)"

section \<open>Globs\<close>

definition IsDoubleGlob :: "gostr list \<Rightarrow> bool" where
  "IsDoubleGlob pattern \<longleftrightarrow> pattern = [[rStar], [], [rStar]]"

definition IsTripleGlob :: "gostr list \<Rightarrow> bool" where
  "IsTripleGlob pattern \<longleftrightarrow> pattern = [[rStar], [], [rStar], [], [rStar]]"

text \<open>The pattern of an unquoted string; empty for the other strings.\<close>

primrec string_Pattern :: "string_node \<Rightarrow> gostr list" where
  "string_Pattern (UnquotedString r v p) = p"
| "string_Pattern (DoubleQuotedString r v) = []"
| "string_Pattern (SingleQuotedString r w v) = []"
| "string_Pattern (BlockString r q t v) = []"

definition kp_HasGlob :: "keypath option \<Rightarrow> bool" where
  "kp_HasGlob kp =
    (case kp of None \<Rightarrow> False | Some k \<Rightarrow> list_ex (\<lambda>el. string_Pattern el \<noteq> []) (kp_path k))"

fun first_glob_from :: "int \<Rightarrow> string_node list \<Rightarrow> int" where
  "first_glob_from i [] = -1"
| "first_glob_from i (el # els) =
    (if string_Pattern el \<noteq> [] then i else first_glob_from (i + 1) els)"

definition kp_FirstGlob :: "keypath option \<Rightarrow> int" where
  "kp_FirstGlob kp = (case kp of None \<Rightarrow> -1 | Some k \<Rightarrow> first_glob_from 0 (kp_path k))"

definition kp_HasTripleGlob :: "keypath option \<Rightarrow> bool" where
  "kp_HasTripleGlob kp =
    (case kp of None \<Rightarrow> False | Some k \<Rightarrow> list_ex (\<lambda>el. IsTripleGlob (string_Pattern el)) (kp_path k))"

definition kp_HasMultiGlob :: "keypath option \<Rightarrow> bool" where
  "kp_HasMultiGlob kp =
    (case kp of None \<Rightarrow> False
     | Some k \<Rightarrow> list_ex (\<lambda>el. IsDoubleGlob (string_Pattern el) \<or> IsTripleGlob (string_Pattern el))
                  (kp_path k))"

definition key_HasGlob :: "key \<Rightarrow> bool" where
  "key_HasGlob mk \<longleftrightarrow>
    kp_HasGlob (k_key mk) \<or>
    list_ex (\<lambda>e. kp_HasGlob (e_src e) \<or> kp_HasGlob (e_dst e)) (k_edges mk) \<or>
    (case k_edgeIndex mk of None \<Rightarrow> False | Some ei \<Rightarrow> ei_glob ei) \<or>
    kp_HasGlob (k_edgeKey mk)"

definition key_HasTripleGlob :: "key \<Rightarrow> bool" where
  "key_HasTripleGlob mk \<longleftrightarrow>
    kp_HasTripleGlob (k_key mk) \<or>
    list_ex (\<lambda>e. kp_HasTripleGlob (e_src e) \<or> kp_HasTripleGlob (e_dst e)) (k_edges mk) \<or>
    kp_HasTripleGlob (k_edgeKey mk)"

definition key_HasMultiGlob :: "key \<Rightarrow> bool" where
  "key_HasMultiGlob mk \<longleftrightarrow>
    kp_HasMultiGlob (k_key mk) \<or>
    list_ex (\<lambda>e. kp_HasMultiGlob (e_src e) \<or> kp_HasMultiGlob (e_dst e)) (k_edges mk) \<or>
    kp_HasMultiGlob (k_edgeKey mk)"

definition SupportsGlobFilters :: "key \<Rightarrow> bool" where
  "SupportsGlobFilters mk \<longleftrightarrow>
    (kp_HasGlob (k_key mk) \<and> k_edges mk = []) \<or>
    (case k_edgeIndex mk of None \<Rightarrow> False | Some ei \<Rightarrow> ei_glob ei \<and> k_edgeKey mk = None) \<or>
    kp_HasGlob (k_edgeKey mk)"

section \<open>Maps, keys and key paths\<close>

definition IsFileMap :: "d2map \<Rightarrow> bool" where
  "IsFileMap m \<longleftrightarrow> Line (Start (m_range m)) = 0 \<and> Column (Start (m_range m)) = 0"

primrec node_is_filter :: "map_node \<Rightarrow> bool" where
  "node_is_filter (CommentN c) = False"
| "node_is_filter (BlockCommentN c) = False"
| "node_is_filter (SubstitutionN s) = False"
| "node_is_filter (ImportN i) = False"
| "node_is_filter (KeyN k) = (k_ampersand k \<or> k_notAmpersand k)"

definition HasFilter :: "d2map \<Rightarrow> bool" where
  "HasFilter m = list_ex node_is_filter (m_nodes m)"

text \<open>\<^verbatim>\<open>SetScalar\<close>: the primary of a key whose value is not a scalar, its value otherwise.\<close>

definition SetScalar :: "key \<Rightarrow> scalar \<Rightarrow> key" where
  "SetScalar mk sc =
    (case k_value mk of
       Some v \<Rightarrow> if ScalarBox v = None then set_k_primary (Some sc) mk
                else set_k_value (Some (ScalarV sc)) mk
     | None \<Rightarrow> set_k_value (Some (ScalarV sc)) mk)"

definition MakeKeyPath :: "gostr list \<Rightarrow> keypath" where
  "MakeKeyPath a = KeyPath range0 (map (\<lambda>el. RawString el True) a)"

definition MakeKeyPathString :: "string_node list \<Rightarrow> keypath" where
  "MakeKeyPathString a =
    KeyPath range0 (map (\<lambda>el. RawString (string_ScalarString el) True) a)"

definition kp_IDA :: "keypath \<Rightarrow> string_node list" where
  "kp_IDA kp = kp_path kp"

definition kp_StringIDA :: "keypath \<Rightarrow> gostr list" where
  "kp_StringIDA kp = map string_ScalarString (kp_path kp)"

definition kp_Last :: "keypath \<Rightarrow> string_node option" where
  "kp_Last kp = (if kp_path kp = [] then None else Some (last (kp_path kp)))"

definition kp_Equals :: "keypath \<Rightarrow> keypath \<Rightarrow> bool" where
  "kp_Equals kp1 kp2 \<longleftrightarrow> kp_StringIDA kp1 = kp_StringIDA kp2"

text \<open>\<^verbatim>\<open>Edge.Equals\<close> reads through \<open>Src\<close> and \<open>Dst\<close>: None when one it reaches is nil.\<close>

definition edge_Equals :: "edge \<Rightarrow> edge \<Rightarrow> bool option" where
  "edge_Equals e1 e2 =
    (case (e_src e1, e_src e2) of
       (Some s1, Some s2) \<Rightarrow>
         (if \<not> kp_Equals s1 s2 then Some False
          else if e_srcArrow e1 \<noteq> e_srcArrow e2 then Some False
          else (case (e_dst e1, e_dst e2) of
                  (Some d1, Some d2) \<Rightarrow>
                    Some (kp_Equals d1 d2 \<and> e_dstArrow e1 = e_dstArrow e2)
                | _ \<Rightarrow> None))
     | _ \<Rightarrow> None)"

definition board_keyword :: "gostr \<Rightarrow> bool" where
  "board_keyword s \<longleftrightarrow> s = runes ''layers'' \<or> s = runes ''scenarios'' \<or> s = runes ''steps''"

primrec IsBoardNode :: "map_node \<Rightarrow> bool" where
  "IsBoardNode (CommentN c) = False"
| "IsBoardNode (BlockCommentN c) = False"
| "IsBoardNode (SubstitutionN s) = False"
| "IsBoardNode (ImportN i) = False"
| "IsBoardNode (KeyN k) =
    (case k_key k of
       None \<Rightarrow> False
     | Some kp \<Rightarrow> (case kp_path kp of [s] \<Rightarrow> board_keyword (string_ScalarString s) | _ \<Rightarrow> False))"

definition substitution_IDA :: "substitution \<Rightarrow> gostr list" where
  "substitution_IDA s = map string_ScalarString (s_path s)"

text \<open>\<^verbatim>\<open>Import.IDA\<close> slices \<open>Path[1:]\<close>, which panics on an empty path.\<close>

definition import_IDA :: "import_node \<Rightarrow> string_node list option" where
  "import_IDA i = (case i_path i of [] \<Rightarrow> None | _ # ps \<Rightarrow> Some ps)"

definition PathWithPre :: "import_node \<Rightarrow> gostr" where
  "PathWithPre i =
    (case i_path i of [] \<Rightarrow> [] | p # _ \<Rightarrow> path_join (i_pre i) (string_ScalarString p))"

definition import_Dir :: "import_node \<Rightarrow> gostr" where
  "import_Dir i = path_dir (PathWithPre i)"

end
