(* ===== verification/Parser_State.thy ===== *)
theory Parser_State
  imports Ast
begin

text \<open>
  The parser's state and its rune buffer (\<^verbatim>\<open>d2parser/parse.go\<close>, the \<^verbatim>\<open>parser\<close> struct and its
  methods \<^verbatim>\<open>_readRune\<close> to \<^verbatim>\<open>rewind\<close>).

  A parser method is a function from the state to an outcome: a result and a new state, a Go run
  time panic, or running out of the loop fuel of the model. \<open>bnd\<close> sequences two methods and
  \<open>forever\<close> runs a \<^verbatim>\<open>for {}\<close> loop whose body either continues or stops; its fuel is computed from
  the number of unread runes at the loop's entry, and \<open>Parser_Spec\<close> proves that it is enough.
\<close>

section \<open>Errors\<close>

text \<open>One constructor for each format string given to \<^verbatim>\<open>errorf\<close>; the arguments are the verbs'.\<close>

datatype message =
    MaxNestingExceeded
  | IoError gostr
  | MapsNotTerminated
  | UnexpectedMapTermination
  | UnexpectedTextAfter gostr
  | UnexpectedTextAfterBlockString gostr
  | InvalidTextBeginningKey
  | InvalidTextBeginningString
  | BlockCommentsNotTerminated
  | MapValueWithoutKey
  | MissingValueAfterColon
  | EdgeGroupsNotTerminated
  | UnterminatedEdgeIndex
  | UnexpectedCharacterInEdgeIndex
  | ConnectionMissingSource
  | ConnectionMissingDestination
  | UnterminatedConnection
  | OnlyNewlineEscapes
  | KeyLengthExceeded nat
  | NotAValidImport gostr
  | UnquotedCannotBeginImportSpread
  | UnfinishedEscape
  | DoubleQuotedNotTerminated
  | SingleQuotedNotTerminated
  | BlockStringNotTerminated gostr
  | ArraysNotTerminated
  | UnquotedCannotStartOn rune
  | SubstitutionsMustBegin
  | SubstitutionsNotTerminated

datatype error = Error (err_range: range) (err_msg: message)

section \<open>State\<close>

text \<open>
  \<open>ctx\<close> is the context: None for a nil one, else the error it reports when it is polled at a
  read count. \<open>reader\<close> holds the runes the underlying reader still delivers, \<open>reader_err\<close> the
  I/O error that ends it (None: end of file). \<open>readahead\<close> is the Go slice up to its length and
  \<open>readaheadIndex\<close> the index of its first unread rune. \<open>readCount\<close> is a \<^verbatim>\<open>uint\<close>; it is only
  tested modulo 256, which its wrap-around does not change.
\<close>

record parser =
  ctx :: "(nat \<Rightarrow> gostr option) option"
  tables :: unicode_tables
  path :: gostr
  pos :: position
  utf16Pos :: bool
  reader :: "rune list"
  reader_err :: "gostr option"
  readerPos :: position
  readahead :: "rune list"
  readaheadIndex :: nat
  lookahead :: "rune list"
  lookaheadPos :: position
  ioerr :: bool
  errs :: "error list"
  inEdgeGroup :: bool
  depth :: int
  nestingDepth :: int
  readCount :: nat
  contextErr :: "gostr option"
  halted :: bool

definition MaxNestingDepth :: int where
  "MaxNestingDepth = 128"

definition init_parser ::
  "(nat \<Rightarrow> gostr option) option \<Rightarrow> unicode_tables \<Rightarrow> gostr \<Rightarrow> bool \<Rightarrow> rune list \<Rightarrow> gostr option \<Rightarrow>
   error list \<Rightarrow> parser" where
  "init_parser c u pth utf16 inp ioe es =
    \<lparr>ctx = c, tables = u, path = pth, pos = pos0, utf16Pos = utf16, reader = inp,
     reader_err = ioe, readerPos = pos0, readahead = [], readaheadIndex = 0, lookahead = [],
     lookaheadPos = pos0, ioerr = False, errs = es, inEdgeGroup = False, depth = 0,
     nestingDepth = 0, readCount = 0, contextErr = None, halted = False\<rparr>"

section \<open>Outcomes and sequencing\<close>

datatype panic = SliceOutOfRange | SubtractNewline

datatype 'a outcome = Ok 'a parser | Panic panic | NoFuel

type_synonym 'a prs = "parser \<Rightarrow> 'a outcome"

definition ret :: "'a \<Rightarrow> 'a prs" where
  "ret x s = Ok x s"

definition bnd :: "'a prs \<Rightarrow> ('a \<Rightarrow> 'b prs) \<Rightarrow> 'b prs" where
  "bnd m f s = (case m s of Ok x t \<Rightarrow> f x t | Panic r \<Rightarrow> Panic r | NoFuel \<Rightarrow> NoFuel)"

definition gets :: "(parser \<Rightarrow> 'a) \<Rightarrow> 'a prs" where
  "gets f s = Ok (f s) s"

definition modify :: "(parser \<Rightarrow> parser) \<Rightarrow> unit prs" where
  "modify f s = Ok () (f s)"

definition panics :: "panic \<Rightarrow> 'a prs" where
  "panics r s = Panic r"

text \<open>The runes not yet read: those peeked, those read ahead, and those still in the reader.\<close>

definition unread :: "parser \<Rightarrow> rune list" where
  "unread s = drop (readaheadIndex s) (readahead s) @ reader s"

definition rest :: "parser \<Rightarrow> rune list" where
  "rest s = lookahead s @ unread s"

definition avail :: "parser \<Rightarrow> nat" where
  "avail s = length (rest s)"

text \<open>
  Every iteration of a loop either takes runes or, with the same runes, peeks further: the pair
  (\<open>avail\<close>, length of \<open>unread\<close>) decreases, and the fuel is its rank.
\<close>

definition rank :: "parser \<Rightarrow> nat" where
  "rank s = avail s * Suc (avail s) + length (unread s)"

fun loop :: "nat \<Rightarrow> ('u \<Rightarrow> ('u + 'r) prs) \<Rightarrow> 'u \<Rightarrow> 'r prs" where
  "loop 0 body u s = NoFuel"
| "loop (Suc n) body u s =
    bnd (body u) (\<lambda>x. case x of Inl u' \<Rightarrow> loop n body u' | Inr r \<Rightarrow> ret r) s"

definition forever :: "('u \<Rightarrow> ('u + 'r) prs) \<Rightarrow> 'u \<Rightarrow> 'r prs" where
  "forever body u s = loop (Suc (rank s)) body u s"

definition continue_with :: "'u \<Rightarrow> ('u + 'r) prs" where
  "continue_with u = ret (Inl u)"

definition stop_with :: "'r \<Rightarrow> ('u + 'r) prs" where
  "stop_with r = ret (Inr r)"

section \<open>Reporting errors and counting nesting\<close>

definition errorf :: "position \<Rightarrow> position \<Rightarrow> message \<Rightarrow> unit prs" where
  "errorf start end f s =
    Ok () (if halted s \<or> contextErr s \<noteq> None then s
           else s\<lparr>errs := errs s @ [Error \<lparr>rng_Path = path s, Start = start, End = end\<rparr> f]\<rparr>)"

definition enterNesting :: "position \<Rightarrow> bool prs" where
  "enterNesting start =
    bnd (gets nestingDepth) (\<lambda>d.
      if d \<ge> MaxNestingDepth then
        bnd (gets pos) (\<lambda>p.
        bnd (errorf start p MaxNestingExceeded) (\<lambda>_.
        bnd (modify (\<lambda>s. s\<lparr>halted := True\<rparr>)) (\<lambda>_.
        ret False)))
      else
        bnd (modify (\<lambda>s. s\<lparr>nestingDepth := d + 1\<rparr>)) (\<lambda>_.
        ret True))"

definition leaveNesting :: "unit prs" where
  "leaveNesting = modify (\<lambda>s. s\<lparr>nestingDepth := nestingDepth s - 1\<rparr>)"

definition incDepth :: "unit prs" where
  "incDepth = modify (\<lambda>s. s\<lparr>depth := depth s + 1\<rparr>)"

definition decDepth :: "unit prs" where
  "decDepth = modify (\<lambda>s. s\<lparr>depth := depth s - 1\<rparr>)"

section \<open>The rune buffer\<close>

text \<open>
  \<open>rewind\<close> puts the peeked runes back in front of the unread part of the read-ahead buffer. The Go
  code reuses the slices' storage; only their contents are modelled.
\<close>

definition rewind_state :: "parser \<Rightarrow> parser" where
  "rewind_state s =
    (if lookahead s = [] then s
     else s\<lparr>readahead := lookahead s @ drop (readaheadIndex s) (readahead s),
            readaheadIndex := 0, lookahead := [], lookaheadPos := pos s\<rparr>)"

definition rewind :: "unit prs" where
  "rewind = modify rewind_state"

definition commit :: "unit prs" where
  "commit = modify (\<lambda>s. s\<lparr>pos := lookaheadPos s, lookahead := []\<rparr>)"

text \<open>The next rune of the read-ahead buffer, or of the reader; \<open>True\<close> means end of input.\<close>

definition ctx_poll :: "parser \<Rightarrow> gostr option" where
  "ctx_poll s =
    (case ctx s of
       None \<Rightarrow> None
     | Some c \<Rightarrow> if readCount s mod 256 = 1 then c (readCount s) else None)"

definition read_reader :: "parser \<Rightarrow> (rune \<times> bool) \<times> parser" where
  "read_reader s0 =
    (let s = s0\<lparr>readerPos := lookaheadPos s0\<rparr>
     in case reader s of
          r # rs \<Rightarrow> ((r, False), s\<lparr>reader := rs\<rparr>)
        | [] \<Rightarrow>
            let s = s\<lparr>ioerr := True\<rparr>;
                s = (case reader_err s of
                       None \<Rightarrow> s
                     | Some e \<Rightarrow> s\<lparr>errs := errs s @
                         [Error \<lparr>rng_Path = path s, Start = readerPos s, End = readerPos s\<rparr>
                            (IoError e)]\<rparr>)
            in ((0, True), rewind_state s))"

definition read_rune :: "parser \<Rightarrow> (rune \<times> bool) \<times> parser" where
  "read_rune s0 =
    (if halted s0 \<or> contextErr s0 \<noteq> None then ((0, True), s0)
     else
       let s = s0\<lparr>readCount := readCount s0 + 1\<rparr>
       in case ctx_poll s of
            Some e \<Rightarrow> ((0, True), s\<lparr>contextErr := Some e\<rparr>)
          | None \<Rightarrow>
              if readaheadIndex s < length (readahead s) then
                let r = readahead s ! readaheadIndex s;
                    s = s\<lparr>readaheadIndex := readaheadIndex s + 1\<rparr>;
                    s = (if readaheadIndex s = length (readahead s)
                         then s\<lparr>readahead := [], readaheadIndex := 0\<rparr> else s)
                in ((r, False), s)
              else if ioerr s then ((0, True), rewind_state s)
              else read_reader s)"

definition read_state :: "parser \<Rightarrow> (rune \<times> bool) \<times> parser" where
  "read_state s0 =
    (let ((r, eof), s) = read_rune s0
     in if eof then ((0, True), s)
        else let p = Advance (pos s) r (utf16Pos s)
             in ((r, False), s\<lparr>pos := p, lookaheadPos := p\<rparr>))"

definition peek_state :: "parser \<Rightarrow> (rune \<times> bool) \<times> parser" where
  "peek_state s0 =
    (let ((r, eof), s) = read_rune s0
     in if eof then ((0, True), s)
        else ((r, False), s\<lparr>lookahead := lookahead s @ [r],
                            lookaheadPos := Advance (lookaheadPos s) r (utf16Pos s)\<rparr>))"

definition state_op :: "(parser \<Rightarrow> 'a \<times> parser) \<Rightarrow> 'a prs" where
  "state_op f s = (case f s of (x, t) \<Rightarrow> Ok x t)"

definition read :: "(rune \<times> bool) prs" where
  "read = state_op read_state"

definition peek :: "(rune \<times> bool) prs" where
  "peek = state_op peek_state"

text \<open>\<open>replay\<close> steps back over one rune, which must not be a newline, and makes it readable again.\<close>

definition replay :: "rune \<Rightarrow> unit prs" where
  "replay r s =
    (case Subtract (pos s) r (utf16Pos s) of
       None \<Rightarrow> Panic SubtractNewline
     | Some p \<Rightarrow> Ok () (rewind_state (s\<lparr>pos := p, lookahead := r # lookahead s\<rparr>)))"

text \<open>\<^verbatim>\<open>p.pos.Subtract(r, p.utf16Pos)\<close> and \<^verbatim>\<open>p.pos.SubtractString(s, p.utf16Pos)\<close>.\<close>

definition posSubtract :: "rune \<Rightarrow> position prs" where
  "posSubtract r s =
    (case Subtract (pos s) r (utf16Pos s) of None \<Rightarrow> Panic SubtractNewline | Some p \<Rightarrow> Ok p s)"

definition posSubtractString :: "gostr \<Rightarrow> position prs" where
  "posSubtractString x s =
    (case SubtractString (pos s) x (utf16Pos s) of
       None \<Rightarrow> Panic SubtractNewline | Some p \<Rightarrow> Ok p s)"

definition lookaheadPosSubtract :: "rune \<Rightarrow> position prs" where
  "lookaheadPosSubtract r s =
    (case Subtract (lookaheadPos s) r (utf16Pos s) of
       None \<Rightarrow> Panic SubtractNewline | Some p \<Rightarrow> Ok p s)"

fun peekn :: "nat \<Rightarrow> (gostr \<times> bool) prs" where
  "peekn 0 = ret ([], False)"
| "peekn (Suc n) =
    bnd peek (\<lambda>(r, eof).
      if eof then ret ([], True)
      else bnd (peekn n) (\<lambda>(rs, eof). ret (r # rs, eof)))"

definition readNotSpace :: "(rune \<times> bool) prs" where
  "readNotSpace =
    forever (\<lambda>_.
      bnd read (\<lambda>(r, eof).
        if eof then stop_with (0, True)
        else if is_space r then continue_with ()
        else stop_with (r, False))) ()"

definition peekNotSpace :: "(rune \<times> nat \<times> bool) prs" where
  "peekNotSpace =
    forever (\<lambda>newlines.
      bnd peek (\<lambda>(r, eof).
        if eof then stop_with (0, 0, True)
        else if is_space r then continue_with (if r = rNL then newlines + 1 else newlines)
        else stop_with (r, newlines, False))) 0"

definition currentRange :: "position \<Rightarrow> position \<Rightarrow> range prs" where
  "currentRange start end = gets (\<lambda>s. \<lparr>rng_Path = path s, Start = start, End = end\<rparr>)"

definition getIndent :: "gostr prs" where
  "getIndent = gets (\<lambda>s. replicate (nat (depth s * 2)) rSp)"

end
