(* ===== verification/Parser_Lex.thy ===== *)
theory Parser_Lex
  imports Parser_State
begin

text \<open>
  The leaves of the grammar (\<^verbatim>\<open>d2parser/parse.go\<close>): comments, the four kinds of strings with
  their escapes, block string indentation, substitutions, key paths, edges, edge indexes and
  imports. Keys, strings and substitutions call each other: a string in a value may hold a
  substitution, whose path is a key, whose parts are strings; a string in a key never holds a
  substitution. The functions with suffix \<open>_body\<close> take the callee as an argument, and the knot is
  tied at the end of the file; \<open>Parser_Spec\<close> shows that the tied functions satisfy the code's
  own equations.
\<close>

section \<open>Indentation of block strings and block comments\<close>

definition trimSpaceAfterLastNewline :: "gostr \<Rightarrow> gostr" where
  "trimSpaceAfterLastNewline s =
    (case split_last rNL s of
       None \<Rightarrow> trim_right s
     | Some (before, lastLine) \<Rightarrow>
         let lastLine = trim_right lastLine
         in if lastLine = [] then before else before @ rNL # lastLine)"

fun leading_indent :: "int \<Rightarrow> gostr \<Rightarrow> nat \<Rightarrow> gostr \<Rightarrow> gostr \<times> nat" where
  "leading_indent maxSpaces indentb i [] = (indentb, i)"
| "leading_indent maxSpaces indentb i (r # rs) =
    (if \<not> is_space r then (indentb, i)
     else
       let i = i + 1;
           indentb = indentb @ (if r \<noteq> rTab then [r] else [rSp, rSp])
       in if maxSpaces > -1 \<and> int (blen indentb) = maxSpaces then (indentb, i)
          else leading_indent maxSpaces indentb i rs)"

text \<open>The code counts runes in \<open>i\<close> and slices bytes: \<^verbatim>\<open>s[i:]\<close>.\<close>

definition splitLeadingIndent :: "gostr \<Rightarrow> int \<Rightarrow> gostr \<times> gostr" where
  "splitLeadingIndent s maxSpaces =
    (let (indent, i) = leading_indent maxSpaces [] 0 s in (indent, drop_bytes i s))"

definition trimIndent :: "gostr \<Rightarrow> gostr \<Rightarrow> gostr" where
  "trimIndent s indent =
    join_with [rNL]
      (map (\<lambda>l. if l = [] then l else snd (splitLeadingIndent l (int (blen indent))))
        (split_on rNL s))"

text \<open>The loop over the lines: None when a line has no indent, else the shortest one.\<close>

fun common_indent :: "gostr \<Rightarrow> gostr list \<Rightarrow> gostr option" where
  "common_indent commonIndent [] = Some commonIndent"
| "common_indent commonIndent (l # ls) =
    (if l = [] then common_indent commonIndent ls
     else
       let (lineIndent, l) = splitLeadingIndent l (-1)
       in if lineIndent = [] then None
          else if l = [] then common_indent commonIndent ls
          else if commonIndent = [] \<or> blen lineIndent < blen commonIndent
               then common_indent lineIndent ls
               else common_indent commonIndent ls)"

definition trimCommonIndent :: "gostr \<Rightarrow> gostr" where
  "trimCommonIndent s =
    (case common_indent [] (split_on rNL s) of
       None \<Rightarrow> s
     | Some commonIndent \<Rightarrow> if commonIndent = [] then s else trimIndent s commonIndent)"

section \<open>Comments\<close>

definition parseCommentLine :: "gostr \<Rightarrow> gostr prs" where
  "parseCommentLine sb0 =
    forever (\<lambda>(firstRune, sb).
      bnd peek (\<lambda>(r, eof).
        if eof then stop_with sb
        else if r = rNL then bnd rewind (\<lambda>_. stop_with sb)
        else bnd commit (\<lambda>_.
          if firstRune \<and> r = rSp then continue_with (False, sb)
          else continue_with (False, sb @ [r])))) (True, sb0)"

definition parseComment :: "comment prs" where
  "parseComment =
    bnd (posSubtract rHash) (\<lambda>start.
    bnd (parseCommentLine []) (\<lambda>sb.
    bnd (forever (\<lambda>sb.
           bnd peekNotSpace (\<lambda>(r, newlines, eof).
             if eof then stop_with sb
             else if r \<noteq> rHash \<or> newlines \<ge> 2 then bnd rewind (\<lambda>_. stop_with sb)
             else bnd commit (\<lambda>_.
                  bnd (parseCommentLine (if newlines = 1 then sb @ [rNL] else sb)) (\<lambda>sb.
                  continue_with sb)))) sb) (\<lambda>sb.
    bnd (gets pos) (\<lambda>end.
    bnd (currentRange start end) (\<lambda>rng.
    ret (Comment rng sb))))))"

text \<open>The first line of a block: True when the input ended in it.\<close>

definition blockComment_firstLine :: "position \<Rightarrow> bool prs" where
  "blockComment_firstLine start =
    forever (\<lambda>_.
      bnd peek (\<lambda>(r, eof).
        if eof then
          bnd (gets readerPos) (\<lambda>rp.
          bnd (errorf start rp BlockCommentsNotTerminated) (\<lambda>_.
          stop_with True))
        else if \<not> is_space r then bnd rewind (\<lambda>_. stop_with False)
        else bnd commit (\<lambda>_.
          if r = rNL then stop_with False else continue_with ()))) ()"

definition blockComment_text :: "position \<Rightarrow> gostr prs" where
  "blockComment_text start =
    forever (\<lambda>sb.
      bnd read (\<lambda>(r, eof).
        if eof then
          bnd (gets readerPos) (\<lambda>rp.
          bnd (errorf start rp BlockCommentsNotTerminated) (\<lambda>_.
          stop_with sb))
        else if r \<noteq> rDQ then continue_with (sb @ [r])
        else
          bnd (peekn 2) (\<lambda>(s, eof).
            if eof then
              bnd (gets readerPos) (\<lambda>rp.
              bnd (errorf start rp BlockCommentsNotTerminated) (\<lambda>_.
              stop_with sb))
            else if s \<noteq> [rDQ, rDQ] then bnd rewind (\<lambda>_. continue_with (sb @ [rDQ]))
            else bnd commit (\<lambda>_. stop_with sb)))) []"

definition parseBlockComment :: "block_comment prs" where
  "parseBlockComment =
    bnd (posSubtractString [rDQ, rDQ, rDQ]) (\<lambda>start.
    bnd incDepth (\<lambda>_.
    bnd (blockComment_firstLine start) (\<lambda>ended.
    bnd (if ended then ret [] else blockComment_text start) (\<lambda>sb.
    bnd decDepth (\<lambda>_.
    bnd (gets pos) (\<lambda>end.
    bnd (currentRange start end) (\<lambda>rng.
    ret (BlockComment rng (trimCommonIndent (trimSpaceAfterLastNewline sb))))))))))"

section \<open>Unquoted strings\<close>

definition decodeEscape :: "rune \<Rightarrow> rune" where
  "decodeEscape r2 =
    (if r2 = 97 then 7
     else if r2 = 98 then 8
     else if r2 = 102 then 12
     else if r2 = 110 then 10
     else if r2 = 114 then 13
     else if r2 = 116 then 9
     else if r2 = 118 then 11
     else if r2 = rBsl then rBsl
     else if r2 = rDQ then rDQ
     else r2)"

text \<open>The local variables of \<^verbatim>\<open>parseUnquotedString\<close>.\<close>

record ustring =
  u_sb :: gostr
  u_rawb :: gostr
  u_hasRaw :: bool
  u_lastPatternIndex :: nat
  u_value :: "interpolation_box list"
  u_pattern :: "gostr list"
  u_lastNonSpace :: position

definition u_write :: "rune \<Rightarrow> ustring \<Rightarrow> ustring" where
  "u_write r u =
    u\<lparr>u_sb := u_sb u @ [r], u_rawb := (if u_hasRaw u then u_rawb u @ [r] else u_rawb u)\<rparr>"

text \<open>A star extends the glob pattern; \<^verbatim>\<open>sb.String()[lastPatternIndex:]\<close> may be out of range.\<close>

definition u_star :: "ustring \<Rightarrow> ustring prs" where
  "u_star u =
    (if u_sb u = [] then
       ret (u\<lparr>u_pattern := u_pattern u @ [[rStar]], u_lastPatternIndex := 1\<rparr>)
     else if u_lastPatternIndex u > blen (u_sb u) then panics SliceOutOfRange
     else ret (u\<lparr>u_pattern := u_pattern u @ [drop_bytes (u_lastPatternIndex u) (u_sb u), [rStar]],
                 u_lastPatternIndex := blen (u_sb u) + 1\<rparr>))"

definition u_flush :: "ustring \<Rightarrow> ustring" where
  "u_flush u =
    (if u_sb u = [] then u
     else u\<lparr>u_value := u_value u @
              [InterpolationBox (Some (u_sb u))
                 (Some (if u_hasRaw u then u_rawb u else u_sb u)) None],
            u_sb := [], u_rawb := [], u_hasRaw := False\<rparr>)"

definition u_subst :: "substitution \<Rightarrow> ustring \<Rightarrow> ustring" where
  "u_subst x u = u\<lparr>u_value := u_value u @ [InterpolationBox None None (Some x)]\<rparr>"

definition u_escape :: "rune \<Rightarrow> ustring \<Rightarrow> ustring" where
  "u_escape r2 u =
    (let u = (if u_hasRaw u then u else u\<lparr>u_rawb := u_rawb u @ u_sb u, u_hasRaw := True\<rparr>)
     in u\<lparr>u_sb := u_sb u @ [decodeEscape r2], u_rawb := u_rawb u @ [rBsl, r2]\<rparr>)"

text \<open>The rest of the loop body once \<open>r\<close> is read: a substitution, a plain rune or an escape.\<close>

definition unquoted_text ::
  "(bool \<Rightarrow> substitution option prs) \<Rightarrow> bool \<Rightarrow> rune \<Rightarrow> ustring \<Rightarrow> (ustring + ustring) prs" where
  "unquoted_text psubst inKey r u =
    (if \<not> inKey \<and> r = rDollar then
       bnd (psubst False) (\<lambda>subst.
         case subst of
           Some x \<Rightarrow> continue_with (u_subst x (u_flush u))
         | None \<Rightarrow> continue_with u)
     else if r \<noteq> rBsl then continue_with (u_write r u)
     else
       bnd read (\<lambda>(r2, eof).
         if eof then
           bnd (posSubtract rBsl) (\<lambda>start.
           bnd (gets readerPos) (\<lambda>rp.
           bnd (errorf start rp UnfinishedEscape) (\<lambda>_.
           stop_with u)))
         else if r2 = rNL then
           bnd peekNotSpace (\<lambda>(r, newlines, eof).
             if eof \<or> newlines > 0 then bnd rewind (\<lambda>_. stop_with u)
             else bnd commit (\<lambda>_. bnd (replay r) (\<lambda>_. continue_with u)))
         else continue_with (u_escape r2 u)))"

text \<open>The part of the loop body after the delimiter checks, with \<open>r\<close> still peeked.\<close>

definition unquoted_rune ::
  "(bool \<Rightarrow> substitution option prs) \<Rightarrow> bool \<Rightarrow> ustring \<Rightarrow> rune \<Rightarrow> (ustring + ustring) prs" where
  "unquoted_rune psubst inKey u r =
    bnd (if r = rStar then u_star u else ret u) (\<lambda>u.
    bnd commit (\<lambda>_.
    bnd (gets pos) (\<lambda>p.
    unquoted_text psubst inKey r
      (if \<not> is_space r then u\<lparr>u_lastNonSpace := p\<rparr> else u))))"

text \<open>The runes that end an unquoted string, one in a key, and one after an edge group's parenthesis.\<close>

definition ends_string :: "rune \<Rightarrow> bool" where
  "ends_string r \<longleftrightarrow> r \<in> {rNL, rSemi, rHash, rLCur, rRCur, rLBr, rRBr}"

definition ends_key :: "rune \<Rightarrow> bool" where
  "ends_key r \<longleftrightarrow> r \<in> {rColon, rDot, rLt, rGt, rAmp}"

definition follows_group :: "rune \<Rightarrow> bool" where
  "follows_group r \<longleftrightarrow> r \<in> {rNL, rHash, rLCur, rRCur, rLBr, rRBr, rColon, rDot}"

text \<open>A closing parenthesis in an edge group, already peeked: the end of the group, or text.\<close>

definition unquoted_paren :: "ustring \<Rightarrow> rune \<Rightarrow> (ustring + ustring) prs" where
  "unquoted_paren u r =
    bnd peekNotSpace (\<lambda>(r2, newlines, eof).
      if eof \<or> newlines > 0 then bnd rewind (\<lambda>_. stop_with u)
      else if follows_group r2 then bnd rewind (\<lambda>_. stop_with u)
      else
        bnd rewind (\<lambda>_.
        bnd peek (\<lambda>_.
        bnd commit (\<lambda>_.
        bnd (gets pos) (\<lambda>p.
        continue_with (u_write r (u\<lparr>u_lastNonSpace := p\<rparr>)))))))"

text \<open>A dash in a key, already peeked: the begin of an edge, or text.\<close>

definition unquoted_dash ::
  "(bool \<Rightarrow> substitution option prs) \<Rightarrow> ustring \<Rightarrow> rune \<Rightarrow> (ustring + ustring) prs" where
  "unquoted_dash psubst u r =
    bnd peek (\<lambda>(r2, eof).
      if eof then stop_with u
      else if ends_string r2 then
        bnd rewind (\<lambda>_.
        bnd peek (\<lambda>_.
        bnd commit (\<lambda>_.
        stop_with (u_write r u))))
      else if r2 = rDash \<or> r2 = rGt \<or> r2 = rStar then bnd rewind (\<lambda>_. stop_with u)
      else unquoted_rune psubst True (u_write r u) r2)"

definition unquoted_step ::
  "(bool \<Rightarrow> substitution option prs) \<Rightarrow> bool \<Rightarrow> ustring \<Rightarrow> (ustring + ustring) prs" where
  "unquoted_step psubst inKey u =
    bnd peek (\<lambda>(r, eof).
      if eof then stop_with u
      else bnd (gets inEdgeGroup) (\<lambda>inGroup.
        if inGroup \<and> r = rRPar then unquoted_paren u r
        else if ends_string r then bnd rewind (\<lambda>_. stop_with u)
        else if inKey \<and> ends_key r then bnd rewind (\<lambda>_. stop_with u)
        else if inKey \<and> r = rDash then unquoted_dash psubst u r
        else unquoted_rune psubst inKey u r))"

text \<open>The deferred function: trims the text, closes the pattern, and drops an empty string.\<close>

definition unquoted_finish :: "range \<Rightarrow> ustring \<Rightarrow> string_node option" where
  "unquoted_finish rng u =
    (let sv = trim_right (u_sb u);
         rawv = (if u_hasRaw u then trim_right (u_rawb u) else sv);
         pattern = (if u_pattern u \<noteq> [] \<and> u_lastPatternIndex u < blen sv
                    then u_pattern u @ [drop_bytes (u_lastPatternIndex u) sv] else u_pattern u)
     in if sv = [] then
          (if u_value u \<noteq> [] then Some (UnquotedString rng (u_value u) pattern) else None)
        else Some (UnquotedString rng
               (u_value u @ [InterpolationBox (Some sv) (Some rawv) None]) pattern))"

text \<open>Four peeks for \<^verbatim>\<open>...@\<close>, stopping at the end of the input.\<close>

primrec peekPrefix :: "gostr \<Rightarrow> bool \<Rightarrow> bool prs" where
  "peekPrefix [] importSpread = ret importSpread"
| "peekPrefix (want # ws) importSpread =
    bnd peek (\<lambda>(r, eof).
      if eof then ret False else peekPrefix ws (importSpread \<and> r = want))"

definition parseUnquotedString_body ::
  "(bool \<Rightarrow> substitution option prs) \<Rightarrow> bool \<Rightarrow> string_node option prs" where
  "parseUnquotedString_body psubst inKey =
    bnd (gets pos) (\<lambda>start.
    bnd (peekPrefix [rDot, rDot, rDot, rAt] True) (\<lambda>importSpread.
    bnd rewind (\<lambda>_.
    bnd (gets pos) (\<lambda>p.
    bnd (gets utf16Pos) (\<lambda>utf16.
    bnd (if importSpread
         then errorf p (AdvanceString p [rDot, rDot, rDot, rAt] utf16)
                UnquotedCannotBeginImportSpread
         else ret ()) (\<lambda>_.
    bnd (forever (unquoted_step psubst inKey)
          \<lparr>u_sb = [], u_rawb = [], u_hasRaw = False, u_lastPatternIndex = 0, u_value = [],
           u_pattern = [], u_lastNonSpace = start\<rparr>) (\<lambda>u.
    bnd (currentRange start (u_lastNonSpace u)) (\<lambda>rng.
    ret (unquoted_finish rng u)))))))))"

section \<open>Quoted strings\<close>

record dqstring =
  d_sb :: gostr
  d_rawb :: gostr
  d_value :: "interpolation_box list"

definition dq_write :: "rune \<Rightarrow> dqstring \<Rightarrow> dqstring" where
  "dq_write r d = d\<lparr>d_sb := d_sb d @ [r], d_rawb := d_rawb d @ [r]\<rparr>"

text \<open>A substitution ends a text box, which keeps no raw text; \<^verbatim>\<open>rawb\<close> is not reset.\<close>

definition dq_subst :: "substitution \<Rightarrow> dqstring \<Rightarrow> dqstring" where
  "dq_subst x d =
    (let d = (if d_sb d = [] then d
              else d\<lparr>d_value := d_value d @ [text_box (d_sb d)], d_sb := []\<rparr>)
     in d\<lparr>d_value := d_value d @ [InterpolationBox None None (Some x)]\<rparr>)"

definition dq_rune :: "position \<Rightarrow> dqstring \<Rightarrow> rune \<Rightarrow> (dqstring + dqstring) prs" where
  "dq_rune start d r =
    (if r = rDQ then stop_with d
     else if r \<noteq> rBsl then continue_with (dq_write r d)
     else
       bnd read (\<lambda>(r2, eof).
         if eof then
           bnd (posSubtract rBsl) (\<lambda>p.
           bnd (gets readerPos) (\<lambda>rp.
           bnd (errorf p rp UnfinishedEscape) (\<lambda>_.
           bnd (errorf start rp DoubleQuotedNotTerminated) (\<lambda>_.
           stop_with d))))
         else if r2 = rNL then continue_with d
         else continue_with
           (d\<lparr>d_sb := d_sb d @ [decodeEscape r2], d_rawb := d_rawb d @ [rBsl, r2]\<rparr>)))"

definition dq_step ::
  "(bool \<Rightarrow> substitution option prs) \<Rightarrow> bool \<Rightarrow> position \<Rightarrow> dqstring \<Rightarrow> (dqstring + dqstring) prs"
  where
  "dq_step psubst inKey start d =
    bnd peek (\<lambda>(r, eof).
      if eof then
        bnd (gets readerPos) (\<lambda>rp.
        bnd (errorf start rp DoubleQuotedNotTerminated) (\<lambda>_.
        stop_with d))
      else if r = rNL then
        bnd rewind (\<lambda>_.
        bnd (gets pos) (\<lambda>p.
        bnd (errorf start p DoubleQuotedNotTerminated) (\<lambda>_.
        stop_with d)))
      else bnd commit (\<lambda>_.
        if \<not> inKey \<and> r = rDollar then
          bnd (psubst False) (\<lambda>subst.
            case subst of
              Some x \<Rightarrow> continue_with (dq_subst x d)
            | None \<Rightarrow> dq_rune start d r)
        else dq_rune start d r))"

definition parseDoubleQuotedString_body ::
  "(bool \<Rightarrow> substitution option prs) \<Rightarrow> bool \<Rightarrow> string_node prs" where
  "parseDoubleQuotedString_body psubst inKey =
    bnd (posSubtract rDQ) (\<lambda>start.
    bnd (forever (dq_step psubst inKey start) \<lparr>d_sb = [], d_rawb = [], d_value = []\<rparr>) (\<lambda>d.
    bnd (gets pos) (\<lambda>end.
    bnd (currentRange start end) (\<lambda>rng.
    ret (DoubleQuotedString rng
          (if d_sb d = [] then d_value d
           else d_value d @ [InterpolationBox (Some (d_sb d)) (Some (d_rawb d)) None]))))))"

definition sq_step :: "position \<Rightarrow> gostr \<Rightarrow> (gostr + gostr) prs" where
  "sq_step start sb =
    bnd peek (\<lambda>(r, eof).
      if eof then
        bnd (gets readerPos) (\<lambda>rp.
        bnd (errorf start rp SingleQuotedNotTerminated) (\<lambda>_.
        stop_with sb))
      else if r = rNL then
        bnd rewind (\<lambda>_.
        bnd (gets pos) (\<lambda>p.
        bnd (errorf start p SingleQuotedNotTerminated) (\<lambda>_.
        stop_with sb)))
      else bnd commit (\<lambda>_.
        if r = rSQ then
          bnd peek (\<lambda>(r, eof).
            if eof then stop_with sb
            else if r = rSQ then bnd commit (\<lambda>_. continue_with (sb @ [rSQ]))
            else bnd rewind (\<lambda>_. stop_with sb))
        else if r \<noteq> rBsl then continue_with (sb @ [r])
        else
          bnd peek (\<lambda>(r2, eof).
            if eof then continue_with sb
            else if r2 = rNL then bnd commit (\<lambda>_. continue_with sb)
            else bnd rewind (\<lambda>_. continue_with (sb @ [r])))))"

definition parseSingleQuotedString :: "string_node prs" where
  "parseSingleQuotedString =
    bnd (posSubtract rSQ) (\<lambda>start.
    bnd (forever (sq_step start) []) (\<lambda>sb.
    bnd (gets pos) (\<lambda>end.
    bnd (currentRange start end) (\<lambda>rng.
    ret (SingleQuotedString rng [] sb)))))"

section \<open>Block strings\<close>

text \<open>The three loops before the text return whether the input goes on.\<close>

definition blockString_fail :: "position \<Rightarrow> gostr \<Rightarrow> unit prs" where
  "blockString_fail start quote =
    bnd (gets readerPos) (\<lambda>rp.
    errorf start rp (BlockStringNotTerminated (quote @ [rPipe])))"

definition blockString_quote :: "position \<Rightarrow> (gostr \<times> bool) prs" where
  "blockString_quote start =
    forever (\<lambda>quote.
      bnd peek (\<lambda>(r, eof).
        if eof then bnd (blockString_fail start quote) (\<lambda>_. stop_with (quote, False))
        else bnd (gets tables) (\<lambda>u.
          if is_space r \<or> is_letter u r \<or> is_digit u r \<or> r = rUnd
          then bnd rewind (\<lambda>_. stop_with (quote, True))
          else bnd commit (\<lambda>_. continue_with (quote @ [r]))))) []"

definition blockString_tag :: "position \<Rightarrow> gostr \<Rightarrow> (gostr \<times> bool) prs" where
  "blockString_tag start quote =
    forever (\<lambda>tag.
      bnd peek (\<lambda>(r, eof).
        if eof then bnd (blockString_fail start quote) (\<lambda>_. stop_with (tag, False))
        else if is_space r then bnd rewind (\<lambda>_. stop_with (tag, True))
        else bnd commit (\<lambda>_. continue_with (tag @ [r])))) []"

definition blockString_firstLine :: "position \<Rightarrow> gostr \<Rightarrow> (gostr \<times> bool) prs" where
  "blockString_firstLine start quote =
    forever (\<lambda>_.
      bnd peek (\<lambda>(r, eof).
        if eof then bnd (blockString_fail start quote) (\<lambda>_. stop_with ([], False))
        else if \<not> is_space r then
          bnd getIndent (\<lambda>indent.
          bnd rewind (\<lambda>_.
          stop_with (indent, True)))
        else bnd commit (\<lambda>_.
          if r = rNL then stop_with ([], True) else continue_with ()))) ()"

text \<open>
  The terminator: the last rune of the quote as a hint, then the bytes of the quote from the size
  of that rune on, and a pipe. The code peeks as many runes as the rest has bytes.
\<close>

definition block_endHint :: "gostr \<Rightarrow> rune" where
  "block_endHint quote = (if quote = [] then rPipe else last quote)"

definition block_endRest :: "gostr \<Rightarrow> gostr" where
  "block_endRest quote =
    (if quote = [] then [] else drop_bytes (item_bytes (last quote)) quote @ [rPipe])"

definition blockString_text :: "position \<Rightarrow> gostr \<Rightarrow> gostr \<Rightarrow> gostr prs" where
  "blockString_text start quote sb0 =
    forever (\<lambda>sb.
      bnd read (\<lambda>(r, eof).
        if eof then bnd (blockString_fail start quote) (\<lambda>_. stop_with sb)
        else if r \<noteq> block_endHint quote then continue_with (sb @ [r])
        else
          bnd (peekn (blen (block_endRest quote))) (\<lambda>(s, eof).
            if eof then bnd (blockString_fail start quote) (\<lambda>_. stop_with sb)
            else if s \<noteq> block_endRest quote then
              bnd rewind (\<lambda>_. continue_with (sb @ [block_endHint quote]))
            else bnd commit (\<lambda>_. stop_with sb)))) sb0"

definition blockString_parts :: "position \<Rightarrow> (gostr \<times> gostr \<times> gostr) prs" where
  "blockString_parts start =
    bnd (blockString_quote start) (\<lambda>(quote, ok).
    if \<not> ok then ret (quote, [], [])
    else bnd (blockString_tag start quote) (\<lambda>(tag, ok).
    if \<not> ok then ret (quote, tag, [])
    else let tag = (if tag = [] then runes ''md'' else tag) in
    bnd (blockString_firstLine start quote) (\<lambda>(sb, ok).
    if \<not> ok then ret (quote, tag, [])
    else bnd (blockString_text start quote sb) (\<lambda>sb.
    ret (quote, tag, sb)))))"

definition parseBlockString :: "string_node prs" where
  "parseBlockString =
    bnd (posSubtract rPipe) (\<lambda>start.
    bnd incDepth (\<lambda>_.
    bnd (blockString_parts start) (\<lambda>(quote, tag, sb).
    bnd decDepth (\<lambda>_.
    bnd (gets pos) (\<lambda>end.
    bnd (currentRange start end) (\<lambda>rng.
    ret (BlockString rng quote tag (trimCommonIndent (trimSpaceAfterLastNewline sb)))))))))"

section \<open>Strings, key paths and substitutions\<close>

definition parseString_body ::
  "(bool \<Rightarrow> substitution option prs) \<Rightarrow> bool \<Rightarrow> string_node option prs" where
  "parseString_body psubst inKey =
    bnd peekNotSpace (\<lambda>(r, newlines, eof).
      if eof \<or> newlines > 0 then bnd rewind (\<lambda>_. ret None)
      else bnd commit (\<lambda>_.
        if r = rDQ then bnd (parseDoubleQuotedString_body psubst inKey) (\<lambda>x. ret (Some x))
        else if r = rSQ then bnd parseSingleQuotedString (\<lambda>x. ret (Some x))
        else if r = rPipe then bnd parseBlockString (\<lambda>x. ret (Some x))
        else bnd (replay r) (\<lambda>_. parseUnquotedString_body psubst inKey)))"

definition parseKey_step ::
  "string_node option prs \<Rightarrow> position \<times> string_node list \<Rightarrow>
   ((position \<times> string_node list) + (position \<times> string_node list)) prs" where
  "parseKey_step pstring k =
    bnd peekNotSpace (\<lambda>(r, newlines, eof).
      if eof then stop_with k
      else if newlines > 0 \<or> r = rLPar then bnd rewind (\<lambda>_. stop_with k)
      else if r = rDot then continue_with k
      else bnd rewind (\<lambda>_.
        bnd pstring (\<lambda>sb.
          case sb of
            None \<Rightarrow> stop_with k
          | Some s \<Rightarrow>
              bnd (if IsUnquoted s \<and> has_prefix [rAt] (string_ScalarString s)
                   then errorf (Start (string_range s)) (End (string_range s))
                          (NotAValidImport (string_ScalarString s))
                   else ret ()) (\<lambda>_.
              let k = (if snd k = [] then Start (string_range s) else fst k, snd k @ [s]) in
              bnd peekNotSpace (\<lambda>(r, newlines, eof).
                if eof then stop_with k
                else if newlines > 0 \<or> r \<noteq> rDot then bnd rewind (\<lambda>_. stop_with k)
                else bnd commit (\<lambda>_. continue_with k))))))"

text \<open>The deferred function: the end of the range, and one error for the first part too long.\<close>

definition parseKey_finish :: "position \<times> string_node list \<Rightarrow> keypath option prs" where
  "parseKey_finish k =
    (case k of (start, pth) \<Rightarrow>
      if pth = [] then ret None
      else
        let end = End (string_range (last pth)) in
        bnd (case List.find (\<lambda>part. blen (string_ScalarString part) > 518) pth of
               None \<Rightarrow> ret ()
             | Some part \<Rightarrow>
                 errorf start end (KeyLengthExceeded (blen (string_ScalarString part)))) (\<lambda>_.
        bnd (currentRange start end) (\<lambda>rng.
        ret (Some (KeyPath rng pth)))))"

definition parseKey_body :: "string_node option prs \<Rightarrow> keypath option prs" where
  "parseKey_body pstring =
    bnd (gets pos) (\<lambda>start.
    bnd (forever (parseKey_step pstring) (start, [])) (\<lambda>k.
    parseKey_finish k))"

text \<open>The start of \<^verbatim>\<open>$\<close> or \<^verbatim>\<open>...$\<close>, subtracted in two steps as the code does.\<close>

definition spreadStart :: "bool \<Rightarrow> position prs" where
  "spreadStart spread =
    bnd (posSubtractString [rDollar]) (\<lambda>p.
    if \<not> spread then ret p
    else bnd (gets utf16Pos) (\<lambda>utf16.
      case SubtractString p [rDot, rDot, rDot] utf16 of
        None \<Rightarrow> panics SubtractNewline
      | Some q \<Rightarrow> ret q))"

definition parseSubstitution_body ::
  "keypath option prs \<Rightarrow> bool \<Rightarrow> substitution option prs" where
  "parseSubstitution_body pkey spread =
    bnd (spreadStart spread) (\<lambda>start.
    bnd peekNotSpace (\<lambda>(r, newlines, eof).
      if eof then ret None
      else if newlines > 0 then bnd rewind (\<lambda>_. ret None)
      else if r \<noteq> rLCur then
        bnd rewind (\<lambda>_.
        bnd (gets readerPos) (\<lambda>rp.
        bnd (errorf start rp SubstitutionsMustBegin) (\<lambda>_.
        ret None)))
      else
        bnd commit (\<lambda>_.
        bnd pkey (\<lambda>k.
        let pth = (case k of None \<Rightarrow> [] | Some kp \<Rightarrow> kp_path kp) in
        bnd peekNotSpace (\<lambda>(r, newlines, eof).
          bnd (if eof then
                 bnd (gets readerPos) (\<lambda>rp. errorf start rp SubstitutionsNotTerminated)
               else if newlines > 0 \<or> r \<noteq> rRCur then
                 bnd rewind (\<lambda>_.
                 bnd (gets pos) (\<lambda>p. errorf start p SubstitutionsNotTerminated))
               else commit) (\<lambda>_.
          bnd (gets pos) (\<lambda>end.
          bnd (currentRange start end) (\<lambda>rng.
          ret (Some (Substitution rng spread pth)))))))))) "

text \<open>Tying the knot: a string in a key calls for no substitution.\<close>

definition no_substitution :: "bool \<Rightarrow> substitution option prs" where
  "no_substitution spread s = NoFuel"

definition parseKey :: "keypath option prs" where
  "parseKey = parseKey_body (parseString_body no_substitution True)"

definition parseSubstitution :: "bool \<Rightarrow> substitution option prs" where
  "parseSubstitution = parseSubstitution_body parseKey"

definition parseUnquotedString :: "bool \<Rightarrow> string_node option prs" where
  "parseUnquotedString = parseUnquotedString_body parseSubstitution"

definition parseDoubleQuotedString :: "bool \<Rightarrow> string_node prs" where
  "parseDoubleQuotedString = parseDoubleQuotedString_body parseSubstitution"

definition parseString :: "bool \<Rightarrow> string_node option prs" where
  "parseString = parseString_body parseSubstitution"

section \<open>Edges\<close>

definition parseEdge_step :: "position \<Rightarrow> unit \<Rightarrow> (unit + (bool \<times> gostr)) prs" where
  "parseEdge_step start _ =
    bnd peek (\<lambda>(r, eof).
      if eof then
        bnd (gets readerPos) (\<lambda>rp.
        bnd (errorf start rp UnterminatedConnection) (\<lambda>_.
        stop_with (False, [])))
      else if r = rGt \<or> r = rStar then bnd commit (\<lambda>_. stop_with (True, [r]))
      else if r = rBsl then
        bnd commit (\<lambda>_.
        bnd peekNotSpace (\<lambda>(r, newlines, eof).
          if eof then continue_with ()
          else if newlines = 0 then
            bnd rewind (\<lambda>_.
            bnd (gets readerPos) (\<lambda>rp.
            bnd (errorf start rp OnlyNewlineEscapes) (\<lambda>_.
            stop_with (False, []))))
          else if newlines > 1 then bnd rewind (\<lambda>_. continue_with ())
          else bnd commit (\<lambda>_. bnd (replay r) (\<lambda>_. continue_with ()))))
      else if r = rDash then bnd commit (\<lambda>_. continue_with ())
      else bnd rewind (\<lambda>_. stop_with (True, [])))"

definition parseEdge :: "position \<Rightarrow> (bool \<times> gostr) prs" where
  "parseEdge start = forever (parseEdge_step start) ()"

definition parseEdges_step ::
  "edge list \<times> keypath option \<Rightarrow> ((edge list \<times> keypath option) + edge list) prs" where
  "parseEdges_step = (\<lambda>(edges, src).
    bnd (gets pos) (\<lambda>p.
    let start = (case src of Some k \<Rightarrow> Start (kp_range k) | None \<Rightarrow> p) in
    bnd peekNotSpace (\<lambda>(r, newlines, eof).
      if eof then stop_with edges
      else if newlines > 0 then bnd rewind (\<lambda>_. stop_with edges)
      else if r \<noteq> rLt \<and> r \<noteq> rStar \<and> r \<noteq> rDash then bnd rewind (\<lambda>_. stop_with edges)
      else
        let srcArrow = (if r = rLt \<or> r = rStar then [r] else []) in
        bnd (if src = None then
               bnd (lookaheadPosSubtract r) (\<lambda>lp0.
               bnd (gets lookaheadPos) (\<lambda>lp.
               bnd (errorf lp0 lp ConnectionMissingSource) (\<lambda>_.
               ret lp0)))
             else ret start) (\<lambda>start.
        bnd commit (\<lambda>_.
        bnd (parseEdge start) (\<lambda>(ok, dstArrow).
        if \<not> ok then stop_with edges
        else bnd (gets pos) (\<lambda>end.
          bnd parseKey (\<lambda>dst.
          bnd (case dst of
                 None \<Rightarrow>
                   bnd (gets pos) (\<lambda>p.
                   bnd (errorf start p ConnectionMissingDestination) (\<lambda>_.
                   ret end))
               | Some d \<Rightarrow> ret (End (kp_range d))) (\<lambda>end.
          bnd (currentRange start end) (\<lambda>rng.
          continue_with (edges @ [Edge rng src srcArrow dst dstArrow], dst)))))))))))"

definition parseEdges :: "key \<Rightarrow> keypath option \<Rightarrow> key prs" where
  "parseEdges mk src =
    bnd (forever parseEdges_step (k_edges mk, src)) (\<lambda>edges.
    ret (set_k_edges edges mk))"

text \<open>The digits of an index up to the bracket: None when they are not terminated.\<close>

definition edgeIndex_step :: "position \<Rightarrow> gostr \<Rightarrow> (gostr + gostr option) prs" where
  "edgeIndex_step start sb =
    bnd peekNotSpace (\<lambda>(r, newlines, eof).
      if eof \<or> newlines > 0 then
        bnd rewind (\<lambda>_.
        bnd (gets pos) (\<lambda>p.
        bnd (errorf start p UnterminatedEdgeIndex) (\<lambda>_.
        stop_with None)))
      else if r = rRBr then bnd rewind (\<lambda>_. stop_with (Some sb))
      else bnd commit (\<lambda>_.
        bnd (gets tables) (\<lambda>u.
        if \<not> is_digit u r then
          bnd (posSubtract r) (\<lambda>p0.
          bnd (gets pos) (\<lambda>p.
          bnd (errorf p0 p UnexpectedCharacterInEdgeIndex) (\<lambda>_.
          continue_with sb)))
        else continue_with (sb @ [r]))))"

definition edgeIndex_digits :: "position \<Rightarrow> rune \<Rightarrow> gostr option prs" where
  "edgeIndex_digits start r = forever (edgeIndex_step start) [r]"

text \<open>The first half of \<^verbatim>\<open>parseEdgeIndex\<close>: None to return nil, else the \<open>Int\<close> and \<open>Glob\<close> fields.\<close>

definition edgeIndex_value :: "position \<Rightarrow> rune \<Rightarrow> (int option \<times> bool) option prs" where
  "edgeIndex_value start r =
    bnd (gets tables) (\<lambda>u.
    if is_digit u r then
      bnd commit (\<lambda>_.
      bnd (edgeIndex_digits start r) (\<lambda>ds.
      ret (case ds of None \<Rightarrow> None | Some sb \<Rightarrow> Some (Some (fst (atoi sb)), False))))
    else if r = rStar then bnd commit (\<lambda>_. ret (Some (None, True)))
    else
      bnd (posSubtract r) (\<lambda>p0.
      bnd (gets pos) (\<lambda>p.
      bnd (errorf p0 p UnexpectedCharacterInEdgeIndex) (\<lambda>_.
      ret (Some (None, False))))))"

definition parseEdgeIndex :: "edge_index option prs" where
  "parseEdgeIndex =
    bnd (posSubtract rLBr) (\<lambda>start.
    bnd peekNotSpace (\<lambda>(r, newlines, eof).
      if eof \<or> newlines > 0 then bnd rewind (\<lambda>_. ret None)
      else bnd (edgeIndex_value start r) (\<lambda>v.
        case v of
          None \<Rightarrow> ret None
        | Some (i, glob) \<Rightarrow>
            bnd peekNotSpace (\<lambda>(r, newlines, eof).
            bnd (if eof \<or> newlines > 0 \<or> r \<noteq> rRBr then
                   bnd rewind (\<lambda>_.
                   bnd (gets pos) (\<lambda>p. errorf start p UnterminatedEdgeIndex))
                 else commit) (\<lambda>_.
            bnd (gets pos) (\<lambda>end.
            bnd (currentRange start end) (\<lambda>rng.
            ret (Some (EdgeIndex rng i glob)))))))))"

section \<open>Imports\<close>

definition import_pre :: "gostr prs" where
  "import_pre =
    forever (\<lambda>pre.
      bnd peek (\<lambda>(r, eof).
        if eof then stop_with pre
        else if r \<noteq> rDot \<and> r \<noteq> rSlash then bnd rewind (\<lambda>_. stop_with pre)
        else bnd commit (\<lambda>_. continue_with (pre @ [r])))) []"

text \<open>An unquoted \<open>d2\<close> after an unquoted first part is the file extension, and is dropped.\<close>

definition drop_d2_extension :: "string_node list \<Rightarrow> string_node list" where
  "drop_d2_extension pth =
    (case pth of
       p0 # p1 # ps \<Rightarrow>
         if IsUnquoted p0 \<and> IsUnquoted p1 \<and> string_ScalarString p1 = runes ''d2''
         then p0 # ps else pth
     | _ \<Rightarrow> pth)"

definition parseImport :: "bool \<Rightarrow> import_node prs" where
  "parseImport spread =
    bnd (spreadStart spread) (\<lambda>start.
    bnd import_pre (\<lambda>pre.
    bnd parseKey (\<lambda>k.
    let pth = (case k of None \<Rightarrow> [] | Some kp \<Rightarrow> drop_d2_extension (kp_path kp)) in
    bnd (gets pos) (\<lambda>end.
    bnd (currentRange start end) (\<lambda>rng.
    ret (Import rng spread pre pth))))))"

end
