(* ===== verification/Parser.thy ===== *)
theory Parser
  imports Parser_Lex
begin

text \<open>
  The recursive part of the grammar (\<^verbatim>\<open>d2parser/parse.go\<close>): maps, map keys and their values,
  edge groups, arrays and values, and the entry points. A value may be a map or an array, whose
  nodes hold values: the functions below take the parser of values \<open>pv\<close> as an argument, and
  \<open>parseValue_level n\<close> gives them itself with one level less. \<^verbatim>\<open>MaxNestingDepth\<close> bounds the nesting,
  so \<open>parse_level = MaxNestingDepth + 1\<close> levels are enough, which \<open>Parser_Spec\<close> proves.
\<close>

section \<open>Map keys\<close>

definition empty_key :: "range \<Rightarrow> key" where
  "empty_key rng = Key rng False False None [] None None None None"

text \<open>The value after \<^verbatim>\<open>:\<close> or before \<^verbatim>\<open>{\<close>, and the primary of a composite.\<close>

definition mapKey_value :: "val option prs \<Rightarrow> key \<Rightarrow> key prs" where
  "mapKey_value pv mk =
    bnd pv (\<lambda>v.
    let mk = set_k_value v mk in
    bnd (if v = None then
           bnd (posSubtract rColon) (\<lambda>p0.
           bnd (gets pos) (\<lambda>p. errorf p0 p MissingValueAfterColon))
         else ret ()) (\<lambda>_.
    case (case v of None \<Rightarrow> None | Some x \<Rightarrow> ScalarBox x) of
      None \<Rightarrow> ret mk
    | Some sb \<Rightarrow>
        bnd peekNotSpace (\<lambda>(r, newlines, eof).
          if eof \<or> newlines > 0 \<or> r \<noteq> rLCur then bnd rewind (\<lambda>_. ret mk)
          else
            bnd commit (\<lambda>_.
            bnd (replay r) (\<lambda>_.
            bnd pv (\<lambda>v.
            ret (set_k_value v (set_k_primary (Some sb) mk))))))))"

definition parseMapKeyValue :: "val option prs \<Rightarrow> key \<Rightarrow> key prs" where
  "parseMapKeyValue pv mk =
    bnd peekNotSpace (\<lambda>(r, newlines, eof).
      if eof then ret mk
      else if newlines > 0 then bnd rewind (\<lambda>_. ret mk)
      else if r = rLCur then
        bnd rewind (\<lambda>_.
        if k_key mk = None \<and> k_edges mk = [] then ret mk
        else mapKey_value pv mk)
      else if r = rColon then
        bnd commit (\<lambda>_.
        bnd (if k_key mk = None \<and> k_edges mk = [] then
               bnd (gets pos) (\<lambda>p. errorf (Start (k_range mk)) p MapValueWithoutKey)
             else ret ()) (\<lambda>_.
        mapKey_value pv mk))
      else bnd rewind (\<lambda>_. ret mk))"

text \<open>After the closing parenthesis: an index, an edge key, and the value.\<close>

definition edgeGroup_index :: "key \<Rightarrow> (key \<times> bool) prs" where
  "edgeGroup_index mk =
    bnd peekNotSpace (\<lambda>(r, newlines, eof).
      if eof \<or> newlines > 0 then bnd rewind (\<lambda>_. ret (mk, False))
      else if r = rLBr then
        bnd commit (\<lambda>_.
        bnd parseEdgeIndex (\<lambda>ei.
        ret (set_k_edgeIndex ei mk, True)))
      else bnd rewind (\<lambda>_. ret (mk, True)))"

definition edgeGroup_key :: "key \<Rightarrow> (key \<times> bool) prs" where
  "edgeGroup_key mk =
    bnd peekNotSpace (\<lambda>(r, newlines, eof).
      if eof \<or> newlines > 0 then bnd rewind (\<lambda>_. ret (mk, False))
      else if r = rDot then
        bnd commit (\<lambda>_.
        bnd parseKey (\<lambda>k.
        ret (set_k_edgeKey k mk, True)))
      else bnd rewind (\<lambda>_. ret (mk, True)))"

definition setInEdgeGroup :: "bool \<Rightarrow> unit prs" where
  "setInEdgeGroup b = modify (\<lambda>s. s\<lparr>inEdgeGroup := b\<rparr>)"

text \<open>The body of \<^verbatim>\<open>parseEdgeGroup\<close>; the deferred reset of \<^verbatim>\<open>inEdgeGroup\<close> follows it.\<close>

definition edgeGroup_body :: "val option prs \<Rightarrow> key \<Rightarrow> key prs" where
  "edgeGroup_body pv mk =
    bnd (setInEdgeGroup True) (\<lambda>_.
    bnd parseKey (\<lambda>src.
    bnd (parseEdges mk src) (\<lambda>mk.
    bnd peekNotSpace (\<lambda>(r, newlines, eof).
      if eof \<or> newlines > 0 then bnd rewind (\<lambda>_. ret mk)
      else if r \<noteq> rRPar then
        bnd rewind (\<lambda>_.
        bnd (gets pos) (\<lambda>p.
        bnd (errorf (Start (k_range mk)) p EdgeGroupsNotTerminated) (\<lambda>_.
        ret mk)))
      else
        bnd commit (\<lambda>_.
        bnd (edgeGroup_index mk) (\<lambda>(mk, ok).
        if \<not> ok then ret mk
        else bnd (edgeGroup_key mk) (\<lambda>(mk, ok).
        if \<not> ok then ret mk
        else bnd (setInEdgeGroup False) (\<lambda>_.
        parseMapKeyValue pv mk))))))))"

definition parseEdgeGroup :: "val option prs \<Rightarrow> key \<Rightarrow> key prs" where
  "parseEdgeGroup pv mk =
    bnd (edgeGroup_body pv mk) (\<lambda>mk.
    bnd (setInEdgeGroup False) (\<lambda>_.
    ret mk))"

text \<open>The ampersand of a filter: whether the input went on, and the key with its flags.\<close>

definition mapKey_ampersand :: "key \<Rightarrow> (key \<times> bool) prs" where
  "mapKey_ampersand mk =
    bnd peek (\<lambda>(r, eof).
      if eof then ret (mk, False)
      else if r = rBang then
        bnd peek (\<lambda>(r, eof).
          if eof then ret (mk, False)
          else if r = rAmp then bnd commit (\<lambda>_. ret (set_k_notAmpersand True mk, True))
          else bnd rewind (\<lambda>_. ret (mk, True)))
      else if r = rAmp then bnd commit (\<lambda>_. ret (set_k_ampersand True mk, True))
      else bnd rewind (\<lambda>_. ret (mk, True)))"

definition mapKey_body :: "val option prs \<Rightarrow> key \<Rightarrow> key prs" where
  "mapKey_body pv mk =
    bnd (mapKey_ampersand mk) (\<lambda>(mk, ok).
    if \<not> ok then ret mk
    else bnd peek (\<lambda>(r, eof).
      if eof then ret mk
      else if r = rLPar then bnd commit (\<lambda>_. parseEdgeGroup pv mk)
      else bnd rewind (\<lambda>_.
        bnd parseKey (\<lambda>k.
        let mk = (case k of None \<Rightarrow> mk | Some kp \<Rightarrow> set_k_key (Some kp) mk) in
        bnd peekNotSpace (\<lambda>(r, newlines, eof).
          if eof then ret mk
          else if newlines > 0 then bnd rewind (\<lambda>_. ret mk)
          else if r = rLPar then bnd commit (\<lambda>_. parseEdgeGroup pv mk)
          else if r = rLt \<or> r = rGt \<or> r = rDash then
            bnd rewind (\<lambda>_.
            bnd (parseEdges (set_k_key None mk) k) (\<lambda>mk.
            parseMapKeyValue pv mk))
          else bnd rewind (\<lambda>_. parseMapKeyValue pv mk))))))"

definition parseMapKey :: "val option prs \<Rightarrow> key option prs" where
  "parseMapKey pv =
    bnd (gets pos) (\<lambda>start.
    bnd (currentRange start pos0) (\<lambda>rng.
    bnd (mapKey_body pv (empty_key rng)) (\<lambda>mk.
    bnd (gets pos) (\<lambda>end.
    bnd (currentRange start end) (\<lambda>rng.
    ret (if k_key mk = None \<and> k_edges mk = [] then None else Some (set_k_range rng mk)))))))"

section \<open>Maps\<close>

text \<open>
  The comments, block comments and spreads shared by map and array nodes: \<open>Inr\<close> a node (which may
  be nil), or \<open>Inl\<close> when none of them begins here.
\<close>

datatype special_node =
    SpComment comment
  | SpBlockComment block_comment
  | SpSubstitution "substitution option"
  | SpImport import_node

definition parseSpecialNode :: "rune \<Rightarrow> special_node option prs" where
  "parseSpecialNode r =
    (if r = rHash then bnd parseComment (\<lambda>c. ret (Some (SpComment c)))
     else if r = rDQ then
       bnd (peekn 2) (\<lambda>(s, eof).
         if eof then ret None
         else if s \<noteq> [rDQ, rDQ] then bnd rewind (\<lambda>_. ret None)
         else bnd commit (\<lambda>_. bnd parseBlockComment (\<lambda>c. ret (Some (SpBlockComment c)))))
     else if r = rDot then
       bnd (peekn 2) (\<lambda>(s, eof).
         if eof then ret None
         else if s \<noteq> [rDot, rDot] then bnd rewind (\<lambda>_. ret None)
         else bnd peek (\<lambda>(r, eof).
           if eof then ret None
           else if r = rDollar then
             bnd commit (\<lambda>_. bnd (parseSubstitution True) (\<lambda>x. ret (Some (SpSubstitution x))))
           else if r = rAt then
             bnd commit (\<lambda>_. bnd (parseImport True) (\<lambda>x. ret (Some (SpImport x))))
           else bnd rewind (\<lambda>_. ret None)))
     else ret None)"

definition parseMapNode :: "val option prs \<Rightarrow> rune \<Rightarrow> map_node option prs" where
  "parseMapNode pv r =
    bnd (parseSpecialNode r) (\<lambda>sp.
    case sp of
      Some (SpComment c) \<Rightarrow> ret (Some (CommentN c))
    | Some (SpBlockComment c) \<Rightarrow> ret (Some (BlockCommentN c))
    | Some (SpSubstitution x) \<Rightarrow> ret (map_option SubstitutionN x)
    | Some (SpImport x) \<Rightarrow> ret (Some (ImportN x))
    | None \<Rightarrow>
        bnd (replay r) (\<lambda>_.
        bnd (parseMapKey pv) (\<lambda>mk.
        ret (map_option KeyN mk))))"

text \<open>The runes after a node up to the next delimiter or line.\<close>

definition skipToDelimiter :: "rune \<Rightarrow> unit prs" where
  "skipToDelimiter close =
    forever (\<lambda>_.
      bnd peekNotSpace (\<lambda>(r, newlines, eof).
        if eof \<or> newlines \<noteq> 0 \<or> r = rSemi \<or> r = close \<or> r = rHash then
          bnd rewind (\<lambda>_. stop_with ())
        else bnd commit (\<lambda>_. continue_with ()))) ()"

definition is_block_string :: "val \<Rightarrow> bool" where
  "is_block_string v =
    (case v of ScalarV (String (BlockString r q t x)) \<Rightarrow> True | _ \<Rightarrow> False)"

text \<open>The message for text after a node of a map.\<close>

definition map_after_message :: "map_node option \<Rightarrow> message" where
  "map_after_message n =
    (case n of
       None \<Rightarrow> InvalidTextBeginningKey
     | Some nd \<Rightarrow>
         (case nd of
            KeyN mk \<Rightarrow>
              (case k_value mk of
                 None \<Rightarrow> UnexpectedTextAfter (node_Type (map_node_node nd))
               | Some v \<Rightarrow>
                   if is_block_string v then UnexpectedTextAfterBlockString (node_Type (val_node v))
                   else UnexpectedTextAfter (node_Type (val_node v)))
          | _ \<Rightarrow> UnexpectedTextAfter (node_Type (map_node_node nd))))"

definition is_block_comment :: "map_node option \<Rightarrow> bool" where
  "is_block_comment n = (case n of Some (BlockCommentN c) \<Rightarrow> True | _ \<Rightarrow> False)"

definition parseMap_step ::
  "val option prs \<Rightarrow> bool \<Rightarrow> position \<Rightarrow> map_node list \<Rightarrow> (map_node list + map_node list) prs" where
  "parseMap_step pv isFileMap start nodes =
    bnd readNotSpace (\<lambda>(r, eof).
      if eof then
        bnd (if \<not> isFileMap then
               bnd (gets readerPos) (\<lambda>rp. errorf start rp MapsNotTerminated)
             else ret ()) (\<lambda>_.
        stop_with nodes)
      else if r = rSemi then continue_with nodes
      else if r = rRCur then
        (if isFileMap then
           bnd (posSubtract r) (\<lambda>p0.
           bnd (gets pos) (\<lambda>p.
           bnd (errorf p0 p UnexpectedMapTermination) (\<lambda>_.
           continue_with nodes)))
         else stop_with nodes)
      else
        bnd (parseMapNode pv r) (\<lambda>n.
        let nodes = (case n of None \<Rightarrow> nodes | Some nd \<Rightarrow> nodes @ [nd]) in
        if is_block_comment n then continue_with nodes
        else
          bnd (gets pos) (\<lambda>after.
          bnd (skipToDelimiter rRCur) (\<lambda>_.
          bnd (gets pos) (\<lambda>p.
          bnd (if after \<noteq> p then errorf after p (map_after_message n) else ret ()) (\<lambda>_.
          continue_with nodes))))))"

text \<open>The nodes of a map or array that is not the file: None of them beyond the nesting limit.\<close>

definition nested :: "position \<Rightarrow> 'n list prs \<Rightarrow> 'n list prs" where
  "nested start nodes =
    bnd (enterNesting start) (\<lambda>ok.
    if \<not> ok then ret []
    else
      bnd incDepth (\<lambda>_.
      bnd nodes (\<lambda>ns.
      bnd decDepth (\<lambda>_.
      bnd leaveNesting (\<lambda>_.
      ret ns)))))"

definition parseMap :: "val option prs \<Rightarrow> bool \<Rightarrow> d2map prs" where
  "parseMap pv isFileMap =
    bnd (if isFileMap then gets pos else posSubtract rLCur) (\<lambda>start.
    bnd (if isFileMap then forever (parseMap_step pv isFileMap start) []
         else nested start (forever (parseMap_step pv isFileMap start) [])) (\<lambda>nodes.
    bnd (gets pos) (\<lambda>end.
    bnd (currentRange start end) (\<lambda>rng.
    ret (Map rng nodes)))))"

section \<open>Arrays\<close>

text \<open>An unquoted string that stopped on its first rune, without a substitution.\<close>

definition empty_unquoted :: "val option \<Rightarrow> bool" where
  "empty_unquoted v =
    (case v of
       Some (ScalarV (String (UnquotedString r bs p))) \<Rightarrow>
         boxes_String bs = [] \<and> \<not> (bs \<noteq> [] \<and> ib_subst (hd bs) \<noteq> None)
     | _ \<Rightarrow> False)"

definition parseArrayNode :: "val option prs \<Rightarrow> rune \<Rightarrow> array_node option prs" where
  "parseArrayNode pv r =
    bnd (parseSpecialNode r) (\<lambda>sp.
    case sp of
      Some (SpComment c) \<Rightarrow> ret (Some (ACommentN c))
    | Some (SpBlockComment c) \<Rightarrow> ret (Some (ABlockCommentN c))
    | Some (SpSubstitution x) \<Rightarrow> ret (map_option ASubstitutionN x)
    | Some (SpImport x) \<Rightarrow> ret (Some (AImportN x))
    | None \<Rightarrow>
        bnd (replay r) (\<lambda>_.
        bnd pv (\<lambda>v.
        bnd (if empty_unquoted v then
               bnd (gets pos) (\<lambda>p.
               bnd (gets utf16Pos) (\<lambda>utf16.
               errorf p (Advance p r utf16) (UnquotedCannotStartOn r)))
             else ret ()) (\<lambda>_.
        ret (case v of None \<Rightarrow> None | Some x \<Rightarrow> MakeArrayNodeBox x)))))"

definition array_after_message :: "array_node option \<Rightarrow> message" where
  "array_after_message n =
    (case n of
       None \<Rightarrow> InvalidTextBeginningString
     | Some nd \<Rightarrow> UnexpectedTextAfter (node_Type (array_node_node nd)))"

definition is_array_block_comment :: "array_node option \<Rightarrow> bool" where
  "is_array_block_comment n = (case n of Some (ABlockCommentN c) \<Rightarrow> True | _ \<Rightarrow> False)"

definition parseArray_step ::
  "val option prs \<Rightarrow> position \<Rightarrow> array_node list \<Rightarrow> (array_node list + array_node list) prs" where
  "parseArray_step pv start nodes =
    bnd readNotSpace (\<lambda>(r, eof).
      if eof then
        bnd (gets readerPos) (\<lambda>rp.
        bnd (errorf start rp ArraysNotTerminated) (\<lambda>_.
        stop_with nodes))
      else if r = rSemi then continue_with nodes
      else if r = rRBr then stop_with nodes
      else
        bnd (parseArrayNode pv r) (\<lambda>n.
        let nodes = (case n of None \<Rightarrow> nodes | Some nd \<Rightarrow> nodes @ [nd]) in
        if is_array_block_comment n then continue_with nodes
        else
          bnd (gets pos) (\<lambda>after.
          bnd (skipToDelimiter rRBr) (\<lambda>_.
          bnd (gets pos) (\<lambda>p.
          bnd (if after \<noteq> p then errorf after p (array_after_message n) else ret ()) (\<lambda>_.
          continue_with nodes))))))"

text \<open>The end of an array's range is the reader's position.\<close>

definition parseArray :: "val option prs \<Rightarrow> array prs" where
  "parseArray pv =
    bnd (posSubtract rLBr) (\<lambda>start.
    bnd (nested start (forever (parseArray_step pv start) [])) (\<lambda>nodes.
    bnd (gets readerPos) (\<lambda>end.
    bnd (currentRange start end) (\<lambda>rng.
    ret (Array rng nodes)))))"

section \<open>Values\<close>

text \<open>An unquoted string that is a keyword or a number is one; other strings are themselves.\<close>

definition string_value :: "string_node \<Rightarrow> scalar" where
  "string_value x =
    (if \<not> IsUnquoted x then String x
     else
       let s = string_ScalarString x; rng = string_range x in
       if equal_fold s (runes ''null'') then Null rng
       else if equal_fold s (runes ''suspend'') then Suspension rng True
       else if equal_fold s (runes ''unsuspend'') then Suspension rng False
       else if equal_fold s (runes ''true'') then Boolean rng True
       else if equal_fold s (runes ''false'') then Boolean rng False
       else (case rat_set_string s of
               Some q \<Rightarrow> Number rng s q
             | None \<Rightarrow> String x))"

definition parseValue_body :: "val option prs \<Rightarrow> val option prs" where
  "parseValue_body pv =
    bnd peekNotSpace (\<lambda>(r, newlines, eof).
      if eof \<or> newlines > 0 then bnd rewind (\<lambda>_. ret None)
      else bnd commit (\<lambda>_.
        if r = rLBr then bnd (parseArray pv) (\<lambda>a. ret (Some (ArrayV a)))
        else if r = rLCur then bnd (parseMap pv False) (\<lambda>m. ret (Some (MapV m)))
        else if r = rAt then bnd (parseImport False) (\<lambda>i. ret (Some (ImportV i)))
        else
          bnd (replay r) (\<lambda>_.
          bnd (parseString False) (\<lambda>sb.
          ret (map_option (\<lambda>x. ScalarV (string_value x)) sb)))))"

fun parseValue_level :: "nat \<Rightarrow> val option prs" where
  "parseValue_level 0 s = NoFuel"
| "parseValue_level (Suc n) s = parseValue_body (parseValue_level n) s"

definition parse_level :: nat where
  "parse_level = 129"

definition parseValue :: "val option prs" where
  "parseValue = parseValue_level parse_level"

section \<open>Entry points\<close>

text \<open>The result of an entry point: the value and the error, as the pair Go returns.\<close>

datatype go_error =
    ContextError gostr
  | ParseErrors "error list"
  | FailedToParse gostr "error list"
  | EmptyInput gostr

datatype 'a result = Returned 'a "go_error option" | Panicked panic | Diverged

text \<open>
  The input of \<^verbatim>\<open>ParseContext\<close>: the runes the buffered reader delivers and how it ends. \<open>bom\<close>
  says that the first two bytes are \<^verbatim>\<open>FF FE\<close>, when the runes are those of the UTF-16 decoder of
  \<^verbatim>\<open>golang.org/x/text\<close>; \<open>opts_err\<close> holds the errors of the \<^verbatim>\<open>ParseError\<close> given in the options.
\<close>

record parse_input =
  in_bom :: bool
  in_runes :: "rune list"
  in_err :: "gostr option"

record parse_options =
  opt_utf16 :: bool
  opt_errs :: "error list"

definition ParseContext ::
  "(nat \<Rightarrow> gostr option) \<Rightarrow> unicode_tables \<Rightarrow> gostr \<Rightarrow> parse_input \<Rightarrow> parse_options option \<Rightarrow>
   d2map result" where
  "ParseContext c u pth inp opts =
    (let (utf16, es) = (case opts of None \<Rightarrow> (False, []) | Some x \<Rightarrow> (opt_utf16 x, opt_errs x));
         p = init_parser (Some c) u pth (utf16 \<or> in_bom inp) (in_runes inp) (in_err inp) es
     in case parseMap parseValue True p of
          Ok m s \<Rightarrow>
            Returned m
              (case contextErr s of
                 Some e \<Rightarrow> Some (ContextError e)
               | None \<Rightarrow> if errs s \<noteq> [] then Some (ParseErrors (errs s)) else None)
        | Panic r \<Rightarrow> Panicked r
        | NoFuel \<Rightarrow> Diverged)"

definition background :: "nat \<Rightarrow> gostr option" where
  "background n = None"

definition Parse ::
  "unicode_tables \<Rightarrow> gostr \<Rightarrow> parse_input \<Rightarrow> parse_options option \<Rightarrow> d2map result" where
  "Parse = ParseContext background"

definition string_parser :: "unicode_tables \<Rightarrow> gostr \<Rightarrow> parser" where
  "string_parser u s = init_parser None u [] False (map range_rune s) None []"

text \<open>The common shape of the string entry points: an error for errors or for a nil result.\<close>

definition parse_string_with :: "'a option prs \<Rightarrow> unicode_tables \<Rightarrow> gostr \<Rightarrow> 'a option result" where
  "parse_string_with m u s =
    (case m (string_parser u s) of
       Ok x t \<Rightarrow>
         if errs t \<noteq> [] then Returned None (Some (FailedToParse s (errs t)))
         else (case x of
                 None \<Rightarrow> Returned None (Some (EmptyInput s))
               | Some k \<Rightarrow> Returned (Some k) None)
     | Panic r \<Rightarrow> Panicked r
     | NoFuel \<Rightarrow> Diverged)"

definition ParseKey :: "unicode_tables \<Rightarrow> gostr \<Rightarrow> keypath option result" where
  "ParseKey = parse_string_with parseKey"

definition ParseMapKey :: "unicode_tables \<Rightarrow> gostr \<Rightarrow> key option result" where
  "ParseMapKey = parse_string_with (parseMapKey parseValue)"

definition ParseValue :: "unicode_tables \<Rightarrow> gostr \<Rightarrow> val option result" where
  "ParseValue = parse_string_with parseValue"

end
