(* ===== verification/Parser_Spec.thy ===== *)
theory Parser_Spec
  imports Parser
begin

text \<open>
  A weakest-precondition calculus for the parser (\<^verbatim>\<open>d2parser/parse.go\<close>), and what it shows of the
  leaves of the grammar. The rune buffer has an abstract view, the runes still to come (\<open>rest\<close>):
  \<open>reach s0 cs la s\<close> says that from \<open>s0\<close> to \<open>s\<close> the parser took the runes \<open>cs\<close>, advanced its
  position over them and has peeked \<open>la\<close>. The rules in \<open>wp_rules\<close> give every buffer operation in
  this view. \<open>steps A m\<close> is the contract that every parse function keeps: started with
  nothing peeked it returns, in a state with nothing peeked, having taken some runes, and it
  panics at most with a panic of \<open>A\<close>. In particular the fuel of every loop is enough.
\<close>

named_theorems wp_intros \<open>weakest-precondition rules without a movement premise\<close>

section \<open>Outcomes, well-formed states and movement\<close>

definition wp :: "panic set \<Rightarrow> 'a prs \<Rightarrow> ('a \<Rightarrow> parser \<Rightarrow> bool) \<Rightarrow> parser \<Rightarrow> bool" where
  "wp A m Q s = (case m s of Ok x t \<Rightarrow> Q x t | Panic r \<Rightarrow> r \<in> A | NoFuel \<Rightarrow> False)"

definition stuck :: "parser \<Rightarrow> bool" where
  "stuck s \<longleftrightarrow> halted s \<or> contextErr s \<noteq> None"

definition buffer_ok :: "parser \<Rightarrow> bool" where
  "buffer_ok s \<longleftrightarrow>
    lookaheadPos s = AdvanceString (pos s) (lookahead s) (utf16Pos s) \<and>
    (ioerr s \<longrightarrow> reader s = []) \<and>
    0 \<le> nestingDepth s \<and> nestingDepth s \<le> MaxNestingDepth"

text \<open>\<open>moved s0 cs s\<close>: from \<open>s0\<close> to \<open>s\<close> the parser took exactly the runes \<open>cs\<close>.\<close>

definition moved :: "parser \<Rightarrow> rune list \<Rightarrow> parser \<Rightarrow> bool" where
  "moved s0 cs s \<longleftrightarrow>
    rest s0 = cs @ rest s \<and>
    pos s = AdvanceString (pos s0) cs (utf16Pos s0) \<and>
    utf16Pos s = utf16Pos s0 \<and>
    nestingDepth s = nestingDepth s0"

text \<open>
  \<open>reach s0 cs la s\<close>: besides, the runes \<open>la\<close> are peeked, unless the parser was halted or cancelled,
  after which nothing is read any more.
\<close>

definition reach :: "parser \<Rightarrow> rune list \<Rightarrow> rune list \<Rightarrow> parser \<Rightarrow> bool" where
  "reach s0 cs la s \<longleftrightarrow> buffer_ok s \<and> moved s0 cs s \<and> (stuck s \<or> lookahead s = la)"

definition reaches :: "parser \<Rightarrow> parser \<Rightarrow> bool" where
  "reaches s0 s \<longleftrightarrow> (\<exists>cs. reach s0 cs [] s)"

lemma reachesI: "reach s0 cs [] s \<Longrightarrow> reaches s0 s"
  by (auto simp: reaches_def)

lemma moved_refl [simp]: "moved s [] s"
  by (simp add: moved_def)

lemma moved_trans: "moved s0 cs s1 \<Longrightarrow> moved s1 ds s2 \<Longrightarrow> moved s0 (cs @ ds) s2"
  by (auto simp: moved_def)

lemma reach_trans: "reach s0 cs la s1 \<Longrightarrow> reach s1 ds lb s2 \<Longrightarrow> reach s0 (cs @ ds) lb s2"
  by (auto simp: reach_def intro: moved_trans)

lemma reach_start: "reach s0 cs la s \<Longrightarrow> reach s [] la s"
  by (simp add: reach_def)

lemma reach_same: "reach s0 cs la s \<Longrightarrow> reach s0 cs lb t \<Longrightarrow> reach s [] lb t"
  by (auto simp: reach_def moved_def)

section \<open>Rules for sequencing\<close>

lemma wp_mono: "wp A m Q s \<Longrightarrow> (\<And>x t. Q x t \<Longrightarrow> R x t) \<Longrightarrow> A \<subseteq> B \<Longrightarrow> wp B m R s"
  by (auto simp: wp_def split: outcome.splits)

lemma wp_bnd [simp]: "wp A (bnd m f) Q s = wp A m (\<lambda>x t. wp A (f x) Q t) s"
  by (simp add: wp_def bnd_def split: outcome.splits)

lemma wp_ret [simp]: "wp A (ret x) Q s = Q x s"
  by (simp add: wp_def ret_def)

lemma wp_gets [simp]: "wp A (gets f) Q s = Q (f s) s"
  by (simp add: wp_def gets_def)

lemma wp_modify [simp]: "wp A (modify f) Q s = Q () (f s)"
  by (simp add: wp_def modify_def)

lemma wp_panics [simp]: "wp A (panics r) Q s = (r \<in> A)"
  by (simp add: wp_def panics_def)

lemma wp_currentRange [simp]:
  "wp A (currentRange a b) Q s = Q \<lparr>rng_Path = path s, Start = a, End = b\<rparr> s"
  by (simp add: currentRange_def)

lemma wp_getIndent [simp]: "wp A getIndent Q s = Q (replicate (nat (depth s * 2)) 32) s"
  by (simp add: getIndent_def)

lemma wp_if [simp]: "wp A (if b then m else n) Q s = (if b then wp A m Q s else wp A n Q s)"
  by simp

lemma wp_Let [simp]: "wp A (Let x f) Q s = wp A (f x) Q s"
  by simp

lemma wp_prod [simp]: "wp A (case x of (a, b) \<Rightarrow> f a b) Q s = (case x of (a, b) \<Rightarrow> wp A (f a b) Q s)"
  by (simp split: prod.splits)

lemma wp_option [simp]:
  "wp A (case x of None \<Rightarrow> m | Some y \<Rightarrow> f y) Q s =
    (case x of None \<Rightarrow> wp A m Q s | Some y \<Rightarrow> wp A (f y) Q s)"
  by (simp split: option.splits)

lemma wp_continue [simp]: "wp A (continue_with u) Q s = Q (Inl u) s"
  by (simp add: continue_with_def)

lemma wp_stop [simp]: "wp A (stop_with r) Q s = Q (Inr r) s"
  by (simp add: stop_with_def)

section \<open>Loops\<close>

text \<open>What every iteration of a loop that goes on decreases.\<close>

definition work :: "parser \<Rightarrow> nat" where
  "work s = (if stuck s then 0 else rank s)"

lemma loop_Suc:
  "loop (Suc n) body u =
    bnd (body u) (\<lambda>x. case x of Inl u' \<Rightarrow> loop n body u' | Inr r \<Rightarrow> ret r)"
  by (rule ext) simp

lemma loop_rule:
  assumes "\<And>u s. P u s \<Longrightarrow>
      wp A (body u) (\<lambda>x t. case x of Inl u' \<Rightarrow> P u' t \<and> work t < work s | Inr r \<Rightarrow> Q r t) s"
    and "P u s" and "work s < n"
  shows "wp A (loop n body u) Q s"
  using assms(2,3)
proof (induction n arbitrary: u s)
  case 0
  then show ?case by simp
next
  case (Suc n)
  have "wp A (body u) (\<lambda>x t. wp A (case x of Inl u' \<Rightarrow> loop n body u' | Inr r \<Rightarrow> ret r) Q t) s"
    by (rule wp_mono [OF assms(1) [OF Suc.prems(1)]])
      (use Suc.prems(2) in \<open>auto split: sum.splits intro: Suc.IH\<close>)
  then show ?case
    by (simp only: loop_Suc wp_bnd)
qed

lemma forever_rule:
  assumes "\<And>u s. P u s \<Longrightarrow>
      wp A (body u) (\<lambda>x t. case x of Inl u' \<Rightarrow> P u' t \<and> work t < work s | Inr r \<Rightarrow> Q r t) s"
    and "P u s"
  shows "wp A (forever body u) Q s"
proof -
  have "wp A (loop (Suc (rank s)) body u) Q s"
    by (rule loop_rule [where P = P, OF assms(1) assms(2)]) (auto simp: work_def)
  then show ?thesis
    by (simp add: wp_def forever_def)
qed

section \<open>The rune buffer\<close>

lemma rest_rewind [simp]: "rest (rewind_state s) = rest s"
  by (simp add: rewind_state_def rest_def unread_def)

lemma rewind_fields [simp]:
  "lookahead (rewind_state s) = []" "pos (rewind_state s) = pos s"
  "utf16Pos (rewind_state s) = utf16Pos s" "nestingDepth (rewind_state s) = nestingDepth s"
  "stuck (rewind_state s) = stuck s" "reader (rewind_state s) = reader s"
  "ioerr (rewind_state s) = ioerr s" "halted (rewind_state s) = halted s"
  "contextErr (rewind_state s) = contextErr s" "ctx (rewind_state s) = ctx s"
  by (auto simp: rewind_state_def stuck_def)

lemma buffer_ok_rewind: "buffer_ok s \<Longrightarrow> buffer_ok (rewind_state s)"
  by (auto simp: buffer_ok_def rewind_state_def)

lemma reach_rewind: "reach s0 cs la s \<Longrightarrow> reach s0 cs [] (rewind_state s)"
  by (auto simp: reach_def buffer_ok_rewind moved_def)


lemma drop_one_left: "Suc i = length xs \<Longrightarrow> drop i xs = [xs ! i]"
  by (simp flip: Cons_nth_drop_Suc)

lemma read_rune_live:
  assumes "read_rune s = ((r, False), t)"
  shows "\<not> stuck s \<and> \<not> stuck t \<and> unread s = r # unread t \<and> lookahead t = lookahead s \<and>
    pos t = pos s \<and> lookaheadPos t = lookaheadPos s \<and> utf16Pos t = utf16Pos s \<and>
    nestingDepth t = nestingDepth s \<and> ioerr t = ioerr s \<and> (ioerr s \<longrightarrow> reader t = reader s)"
  using assms
  by (auto simp: read_rune_def read_reader_def unread_def stuck_def Let_def Cons_nth_drop_Suc drop_one_left
      split: if_splits option.splits list.splits)

lemma read_rune_eof:
  assumes "read_rune s = ((r, True), t)" and "ioerr s \<longrightarrow> reader s = []"
  shows "r = 0 \<and> rest t = rest s \<and> pos t = pos s \<and> utf16Pos t = utf16Pos s \<and>
    nestingDepth t = nestingDepth s \<and> (ioerr t \<longrightarrow> reader t = []) \<and>
    (stuck t \<and> lookahead t = lookahead s \<and> lookaheadPos t = lookaheadPos s \<or>
     \<not> stuck s \<and> lookahead t = [] \<and> unread s = [] \<and>
     lookaheadPos t = (if lookahead s = [] then lookaheadPos s else pos s))"
  using assms
  by (auto simp: read_rune_def read_reader_def unread_def rest_def stuck_def Let_def rewind_state_def
      split: if_splits option.splits list.splits)

lemma peek_live:
  assumes "reach s0 cs la s" and "peek_state s = ((r, False), t)"
  shows "reach s0 cs (la @ [r]) t \<and> \<not> stuck s \<and> \<not> stuck t \<and> unread s = r # unread t"
proof -
  obtain t' where 1: "read_rune s = ((r, False), t')"
    and t: "t = t'\<lparr>lookahead := lookahead t' @ [r],
                lookaheadPos := Advance (lookaheadPos t') r (utf16Pos t')\<rparr>"
    using assms(2) by (auto simp: peek_state_def split: prod.splits if_splits)
  show ?thesis
    using read_rune_live [OF 1] assms(1) unfolding t
    by (auto simp: reach_def buffer_ok_def moved_def stuck_def rest_def unread_def)
qed


lemma peek_eof:
  assumes "reach s0 cs la s" and "peek_state s = ((r, True), t)"
  shows "r = 0 \<and> reach s0 cs [] t \<and> (stuck t \<or> rest t = la) \<and>
    (lookahead s = [] \<longrightarrow> lookahead t = [])"
proof -
  obtain r' where "read_rune s = ((r', True), t)" and "r = 0"
    using assms(2) by (auto simp: peek_state_def Let_def split: prod.splits if_splits)
  from this(2) read_rune_eof [OF this(1)] show ?thesis
    using assms(1) by (auto simp: reach_def buffer_ok_def moved_def rest_def)
qed

lemma read_live:
  assumes "reach s0 cs [] s" and "read_state s = ((r, False), t)"
  shows "reach s0 (cs @ [r]) [] t \<and> \<not> stuck s \<and> \<not> stuck t \<and> rest s = r # rest t"
proof -
  obtain t' where 1: "read_rune s = ((r, False), t')"
    and t: "t = t'\<lparr>pos := Advance (pos t') r (utf16Pos t'),
                lookaheadPos := Advance (pos t') r (utf16Pos t')\<rparr>"
    using assms(2) by (auto simp: read_state_def Let_def split: prod.splits if_splits)
  show ?thesis
    using read_rune_live [OF 1] assms(1) unfolding t
    by (auto simp: reach_def buffer_ok_def moved_def stuck_def rest_def unread_def)
qed

lemma read_eof:
  assumes "reach s0 cs [] s" and "read_state s = ((r, True), t)"
  shows "r = 0 \<and> reach s0 cs [] t \<and> (stuck t \<or> rest t = [])"
proof -
  obtain r' where "read_rune s = ((r', True), t)" and "r = 0"
    using assms(2) by (auto simp: read_state_def Let_def split: prod.splits if_splits)
  from this(2) read_rune_eof [OF this(1)] show ?thesis
    using assms(1) by (auto simp: reach_def buffer_ok_def moved_def rest_def)
qed

lemma wp_peek [wp_rules]:
  assumes "reach s0 cs la s"
    and "\<And>r t. reach s0 cs (la @ [r]) t \<Longrightarrow> \<not> stuck s \<Longrightarrow> \<not> stuck t \<Longrightarrow>
           length (unread s) = Suc (length (unread t)) \<Longrightarrow> Q (r, False) t"
    and "\<And>t. reach s0 cs [] t \<Longrightarrow> stuck t \<or> rest t = la \<Longrightarrow>
           (lookahead s = [] \<Longrightarrow> lookahead t = []) \<Longrightarrow> Q (0, True) t"
  shows "wp A peek Q s"
proof -
  obtain r e t where 1: "peek_state s = ((r, e), t)"
    by (metis surj_pair)
  show ?thesis
  proof (cases e)
    case True
    then show ?thesis
      using peek_eof [OF assms(1)] 1 assms(3) by (auto simp: wp_def peek_def state_op_def)
  next
    case False
    then show ?thesis
      using peek_live [OF assms(1)] 1 assms(2) by (auto simp: wp_def peek_def state_op_def)
  qed
qed

lemma wp_read [wp_rules]:
  assumes "reach s0 cs [] s"
    and "\<And>r t. reach s0 (cs @ [r]) [] t \<Longrightarrow> \<not> stuck s \<Longrightarrow> \<not> stuck t \<Longrightarrow>
           rest s = r # rest t \<Longrightarrow> Q (r, False) t"
    and "\<And>t. reach s0 cs [] t \<Longrightarrow> stuck t \<or> rest t = [] \<Longrightarrow> Q (0, True) t"
  shows "wp A read Q s"
proof -
  obtain r e t where 1: "read_state s = ((r, e), t)"
    by (metis surj_pair)
  show ?thesis
  proof (cases e)
    case True
    then show ?thesis
      using read_eof [OF assms(1)] 1 assms(3) by (auto simp: wp_def read_def state_op_def)
  next
    case False
    then show ?thesis
      using read_live [OF assms(1)] 1 assms(2) by (auto simp: wp_def read_def state_op_def)
  qed
qed

lemma wp_rewind [wp_rules]:
  assumes "reach s0 cs la s"
    and "\<And>t. reach s0 cs [] t \<Longrightarrow> lookahead t = [] \<Longrightarrow> stuck t = stuck s \<Longrightarrow> rest t = rest s \<Longrightarrow> Q () t"
  shows "wp A rewind Q s"
  using assms(2) [of "rewind_state s"] reach_rewind [OF assms(1)]
  by (simp add: rewind_def)

lemma wp_commit [wp_rules]:
  assumes "reach s0 cs la s" and "\<not> stuck s \<or> lookahead s = la"
    and "\<And>t. reach s0 (cs @ la) [] t \<Longrightarrow> stuck t = stuck s \<Longrightarrow> lookahead t = [] \<Longrightarrow>
           rest s = la @ rest t \<Longrightarrow> Q () t"
  shows "wp A commit Q s"
  using assms(3) [of "s\<lparr>pos := lookaheadPos s, lookahead := []\<rparr>"] assms(1,2)
  by (auto simp: commit_def reach_def buffer_ok_def moved_def stuck_def rest_def unread_def)

lemma wp_errorf [wp_rules]:
  assumes "reach s0 cs la s"
    and "\<And>t. reach s0 cs la t \<Longrightarrow> stuck t = stuck s \<Longrightarrow> lookahead t = lookahead s \<Longrightarrow>
           rest t = rest s \<Longrightarrow> Q () t"
  shows "wp A (errorf a b m) Q s"
  using assms(2) [of "s\<lparr>errs := errs s @ [Error \<lparr>rng_Path = path s, Start = a, End = b\<rparr> m]\<rparr>"]
    assms(2) [of s] assms(1)
  by (auto simp: wp_def errorf_def reach_def buffer_ok_def moved_def stuck_def rest_def unread_def)

lemma wp_posSubtract [wp_intros]:
  assumes "r \<noteq> rNL" and "\<And>p. Q p s"
  shows "wp A (posSubtract r) Q s"
  using assms by (simp add: wp_def posSubtract_def Subtract_def Let_def)

lemma wp_lookaheadPosSubtract [wp_intros]:
  assumes "r \<noteq> rNL" and "\<And>p. Q p s"
  shows "wp A (lookaheadPosSubtract r) Q s"
  using assms by (simp add: wp_def lookaheadPosSubtract_def Subtract_def Let_def)

lemma SubtractString_total: "rNL \<notin> set x \<Longrightarrow> \<exists>q. SubtractString p x u = Some q"
  by (induction x arbitrary: p) (auto simp: Subtract_def Let_def)

lemma wp_posSubtractString [wp_intros]:
  assumes "rNL \<notin> set x" and "\<And>p. Q p s"
  shows "wp A (posSubtractString x) Q s"
  using assms SubtractString_total [OF assms(1), of "pos s" "utf16Pos s"]
  by (auto simp: wp_def posSubtractString_def)

lemma wp_replay [wp_rules]:
  assumes "reach s0 ds [] s" and "ds \<noteq> []" and "last ds = r" and "r \<noteq> rNL"
    and "\<And>t. reach s0 (butlast ds) [] t \<Longrightarrow> stuck t = stuck s \<Longrightarrow> lookahead t = [] \<Longrightarrow>
           rest t = r # rest s \<Longrightarrow> Q () t"
  shows "wp A (replay r) Q s"
proof -
  obtain cs where ds: "ds = cs @ [r]"
    using assms(2,3) by (metis append_butlast_last_id)
  define t where "t = rewind_state (s\<lparr>pos := AdvanceString (pos s0) cs (utf16Pos s0),
    lookahead := r # lookahead s\<rparr>)"
  have "replay r s = Ok () t"
    using assms(1,4) unfolding ds
    by (auto simp: replay_def t_def Subtract_Advance reach_def moved_def)
  moreover have "reach s0 cs [] t" "stuck t = stuck s" "lookahead t = []" "rest t = r # rest s"
    using assms(1) unfolding ds t_def
    by (auto simp: reach_def moved_def buffer_ok_def stuck_def rest_def unread_def rewind_state_def)
  ultimately show ?thesis
    using assms(5) by (simp add: wp_def ds)
qed


section \<open>Progress\<close>

lemma unread_le_avail: "length (unread s) \<le> avail s"
  by (simp add: avail_def rest_def)

lemma rank_less: "avail t < avail s \<Longrightarrow> rank t < rank s"
proof -
  assume a: "avail t < avail s"
  have "rank t \<le> avail t * Suc (avail t) + avail t"
    using unread_le_avail [of t] by (simp add: rank_def)
  also have "\<dots> < Suc (avail t) * Suc (Suc (avail t))"
    by simp
  also have "\<dots> \<le> avail s * Suc (avail s)"
    using a by (intro mult_le_mono) auto
  also have "\<dots> \<le> rank s"
    by (simp add: rank_def)
  finally show ?thesis .
qed

lemma work_consume:
  "reach s0 cs la s \<Longrightarrow> reach s0 (cs @ ds) lb t \<Longrightarrow> ds \<noteq> [] \<Longrightarrow> \<not> stuck s \<Longrightarrow> work t < work s"
proof -
  assume r: "reach s0 cs la s" "reach s0 (cs @ ds) lb t" "ds \<noteq> []" "\<not> stuck s"
  then have "avail t < avail s"
    by (auto simp: reach_def moved_def avail_def)
  then have "rank t < rank s"
    by (rule rank_less)
  then show ?thesis
    using r by (auto simp: work_def)
qed

lemma work_take: "reach s cs la t \<Longrightarrow> \<not> stuck s \<Longrightarrow> cs \<noteq> [] \<Longrightarrow> work t < work s"
proof -
  assume r: "reach s cs la t" "\<not> stuck s" "cs \<noteq> []"
  then have "avail t < avail s"
    by (auto simp: reach_def moved_def avail_def)
  then have "rank t < rank s"
    by (rule rank_less)
  then show ?thesis
    using r by (auto simp: work_def)
qed

lemma work_peek:
  "reach s [] la t \<Longrightarrow> \<not> stuck s \<Longrightarrow> length (unread t) < length (unread s) \<Longrightarrow> work t < work s"
  by (auto simp: work_def rank_def reach_def moved_def avail_def)

lemma work_stuck: "stuck t \<Longrightarrow> \<not> stuck s \<Longrightarrow> rest s \<noteq> [] \<Longrightarrow> work t < work s"
  by (auto simp: work_def rank_def avail_def)

lemma work_eof:
  "reach s [] la t \<Longrightarrow> stuck t \<or> rest t = [] \<Longrightarrow> \<not> stuck s \<Longrightarrow> rest s \<noteq> [] \<Longrightarrow> work t < work s"
proof -
  assume a: "reach s [] la t" "stuck t \<or> rest t = []" "\<not> stuck s" "rest s \<noteq> []"
  have "rest t = rest s"
    using a(1) by (simp add: reach_def moved_def)
  then show ?thesis
    using a(2-4) by (auto intro: work_stuck)
qed

section \<open>Shared lexical helpers\<close>

text \<open>\<open>steps A m\<close>: between two calls nothing is peeked, and \<open>m\<close> only takes runes.\<close>

definition steps :: "panic set \<Rightarrow> 'a prs \<Rightarrow> bool" where
  "steps A m \<longleftrightarrow> (\<forall>s. reach s [] [] s \<longrightarrow> wp A m (\<lambda>x t. reaches s t) s)"

lemma stepsI: "(\<And>s. reach s [] [] s \<Longrightarrow> wp A m (\<lambda>x t. reaches s t) s) \<Longrightarrow> steps A m"
  by (simp add: steps_def)

lemma wp_steps:
  assumes "reach s0 cs [] s" and "steps A m"
    and "\<And>x t ds. reach s0 (cs @ ds) [] t \<Longrightarrow> Q x t"
  shows "wp A m Q s"
proof -
  have "wp A m (\<lambda>x t. reaches s t) s"
    using assms(2) reach_start [OF assms(1)] by (auto simp: steps_def)
  then show ?thesis
  proof (rule wp_mono)
    fix x t assume "reaches s t"
    then show "Q x t"
      unfolding reaches_def by (auto intro: assms(3) reach_trans [OF assms(1)])
  qed simp
qed

lemma reaches_trans: "reaches s0 s1 \<Longrightarrow> reaches s1 s2 \<Longrightarrow> reaches s0 s2"
  by (auto simp: reaches_def intro: reach_trans)

lemma reaches_start: "reaches s0 s \<Longrightarrow> reach s [] [] s"
  by (auto simp: reaches_def intro: reach_start)

text \<open>The loops of the leaves: every iteration takes a rune or stops.\<close>

lemma steps_forever_inv:
  assumes "\<And>u s. I u \<Longrightarrow> reach s [] [] s \<Longrightarrow> wp A (body u)
      (\<lambda>x t. reaches s t \<and> (case x of Inl u' \<Rightarrow> I u' \<and> work t < work s | Inr r \<Rightarrow> True)) s"
    and "I u"
  shows "steps A (forever body u)"
proof (rule stepsI)
  fix s0 assume s0: "reach s0 [] [] s0"
  show "wp A (forever body u) (\<lambda>x t. reaches s0 t) s0"
  proof (rule forever_rule [where P = "\<lambda>u s. I u \<and> reaches s0 s"])
    show "I u \<and> reaches s0 s0"
      using s0 assms(2) by (auto intro: reachesI)
    fix u s assume s: "I u \<and> reaches s0 s"
    then have "wp A (body u)
      (\<lambda>x t. reaches s t \<and> (case x of Inl u' \<Rightarrow> I u' \<and> work t < work s | Inr r \<Rightarrow> True)) s"
      by (auto intro: assms(1) reaches_start)
    then show "wp A (body u) (\<lambda>x t. case x of
        Inl u' \<Rightarrow> (I u' \<and> reaches s0 t) \<and> work t < work s | Inr r \<Rightarrow> reaches s0 t) s"
      by (rule wp_mono) (use s in \<open>auto split: sum.splits intro: reaches_trans\<close>)
  qed
qed

lemma steps_forever:
  assumes "\<And>u s. reach s [] [] s \<Longrightarrow> wp A (body u)
      (\<lambda>x t. reaches s t \<and> (isl x \<longrightarrow> work t < work s)) s"
  shows "steps A (forever body u)"
  by (rule steps_forever_inv [where I = "\<lambda>_. True"])
    (auto intro!: wp_mono [OF assms] split: sum.splits)

lemma wp_peekn [wp_rules]:
  assumes "reach s0 cs la s"
    and "\<And>rs t. reach s0 cs (la @ rs) t \<Longrightarrow> length rs = n \<Longrightarrow> (rs \<noteq> [] \<Longrightarrow> \<not> stuck t) \<Longrightarrow>
       (rs = [] \<Longrightarrow> t = s) \<Longrightarrow> Q (rs, False) t"
    and "\<And>rs t. reach s0 cs [] t \<Longrightarrow> Q (rs, True) t"
  shows "wp A (peekn n) Q s"
  using assms
proof (induction n arbitrary: la s Q)
  case 0
  then show ?case by simp
next
  case (Suc n)
  show ?case
    using Suc.prems(3)
    by (auto intro!: wp_peek [OF Suc.prems(1)] Suc.IH Suc.prems(2))
qed

lemma wp_readNotSpace [wp_rules]:
  assumes "reach s0 cs [] s"
    and "\<And>ws r t. reach s0 (cs @ ws @ [r]) [] t \<Longrightarrow> \<not> stuck s \<Longrightarrow> \<not> stuck t \<Longrightarrow>
       \<not> is_space r \<Longrightarrow> list_all is_space ws \<Longrightarrow> rest s = ws @ r # rest t \<Longrightarrow> Q (r, False) t"
    and "\<And>ws t. reach s0 (cs @ ws) [] t \<Longrightarrow> stuck t \<or> rest t = [] \<Longrightarrow> Q (0, True) t"
  shows "wp A readNotSpace Q s"
  unfolding readNotSpace_def
proof (rule forever_rule [where P = "\<lambda>u t. \<exists>ws. reach s0 (cs @ ws) [] t \<and> list_all is_space ws \<and>
    rest s = ws @ rest t \<and> (stuck s \<longrightarrow> stuck t)"])
  show "\<exists>ws. reach s0 (cs @ ws) [] s \<and> list_all is_space ws \<and> rest s = ws @ rest s \<and> (stuck s \<longrightarrow> stuck s)"
    by (rule exI [of _ "[]"]) (simp add: assms(1))
next
  fix u t
  assume "\<exists>ws. reach s0 (cs @ ws) [] t \<and> list_all is_space ws \<and> rest s = ws @ rest t \<and>
    (stuck s \<longrightarrow> stuck t)"
  then obtain ws where ws: "reach s0 (cs @ ws) [] t" "list_all is_space ws" "rest s = ws @ rest t"
    "stuck s \<longrightarrow> stuck t"
    by blast
  show "wp A (bnd read (\<lambda>(r, eof).
        if eof then stop_with (0, True)
        else if is_space r then continue_with ()
        else stop_with (r, False)))
      (\<lambda>x t'. case x of Inl u' \<Rightarrow> (\<exists>ws. reach s0 (cs @ ws) [] t' \<and> list_all is_space ws \<and>
          rest s = ws @ rest t' \<and> (stuck s \<longrightarrow> stuck t')) \<and> work t' < work t | Inr r \<Rightarrow> Q r t') t"
    using ws(2-4)
    by (auto intro!: wp_read [OF ws(1)] assms(2,3) work_consume [OF ws(1)] exI [of _ "ws @ [_]"])
qed

lemma wp_peekNotSpace [wp_rules]:
  assumes "reach s0 cs la s"
    and "\<And>ws r t. reach s0 cs (la @ ws @ [r]) t \<Longrightarrow> \<not> stuck s \<Longrightarrow> \<not> stuck t \<Longrightarrow>
       length (unread s) = Suc (length ws + length (unread t)) \<Longrightarrow>
       \<not> is_space r \<Longrightarrow> list_all is_space ws \<Longrightarrow> Q (r, count_list ws rNL, False) t"
    and "\<And>ws t. reach s0 cs [] t \<Longrightarrow> list_all is_space ws \<Longrightarrow> stuck t \<or> rest t = la @ ws \<Longrightarrow>
       Q (0, 0, True) t"
  shows "wp A peekNotSpace Q s"
  unfolding peekNotSpace_def
proof (rule forever_rule [where P = "\<lambda>n t. \<exists>ws. reach s0 cs (la @ ws) t \<and> list_all is_space ws \<and>
    n = count_list ws rNL \<and> length (unread s) = length ws + length (unread t) \<and>
    (stuck s \<longrightarrow> stuck t)"])
  show "\<exists>ws. reach s0 cs (la @ ws) s \<and> list_all is_space ws \<and> 0 = count_list ws rNL \<and>
      length (unread s) = length ws + length (unread s) \<and> (stuck s \<longrightarrow> stuck s)"
    by (rule exI [of _ "[]"]) (simp add: assms(1))
next
  fix n t
  assume "\<exists>ws. reach s0 cs (la @ ws) t \<and> list_all is_space ws \<and> n = count_list ws rNL \<and>
    length (unread s) = length ws + length (unread t) \<and> (stuck s \<longrightarrow> stuck t)"
  then obtain ws where ws: "reach s0 cs (la @ ws) t" "list_all is_space ws" "n = count_list ws rNL"
    "length (unread s) = length ws + length (unread t)" "stuck s \<longrightarrow> stuck t"
    by blast
  show "wp A (bnd peek (\<lambda>(r, eof).
        if eof then stop_with (0, 0, True)
        else if is_space r then continue_with (if r = rNL then n + 1 else n)
        else stop_with (r, n, False)))
      (\<lambda>x t'. case x of Inl n \<Rightarrow> (\<exists>ws. reach s0 cs (la @ ws) t' \<and> list_all is_space ws \<and>
          n = count_list ws rNL \<and> length (unread s) = length ws + length (unread t') \<and>
          (stuck s \<longrightarrow> stuck t')) \<and> work t' < work t | Inr r \<Rightarrow> Q r t') t"
    using ws(2-5)
    by (auto intro!: wp_peek [OF ws(1)] assms(2,3) work_peek [OF reach_same [OF ws(1)]] exI [of _ "ws @ [_]"])
qed


section \<open>Comments\<close>

lemma steps_parseCommentLine: "steps A (parseCommentLine sb)"
  unfolding parseCommentLine_def
  by (rule steps_forever, auto elim!: wp_rules intro!: wp_intros split: prod.splits) (auto intro: reachesI work_take)

lemma steps_parseComment: "steps A parseComment"
proof -
  have 1: "steps A (forever (\<lambda>sb.
           bnd peekNotSpace (\<lambda>(r, newlines, eof).
             if eof then stop_with sb
             else if r \<noteq> rHash \<or> newlines \<ge> 2 then bnd rewind (\<lambda>_. stop_with sb)
             else bnd commit (\<lambda>_.
                  bnd (parseCommentLine (if newlines = 1 then sb @ [rNL] else sb)) (\<lambda>sb.
                  continue_with sb)))) sb)" for sb
    by (rule steps_forever, auto elim!: wp_rules wp_steps [OF _ steps_parseCommentLine] intro!: wp_intros) (auto intro: reachesI work_take)
  show ?thesis
    unfolding parseComment_def
    by (rule stepsI, auto elim!: wp_rules wp_steps [OF _ steps_parseCommentLine] wp_steps [OF _ 1] intro!: wp_intros) (auto intro: reachesI)
qed


lemma wp_incDepth [wp_rules]:
  assumes "reach s0 cs la s"
    and "\<And>t. reach s0 cs la t \<Longrightarrow> stuck t = stuck s \<Longrightarrow> lookahead t = lookahead s \<Longrightarrow> rest t = rest s \<Longrightarrow> Q () t"
  shows "wp A incDepth Q s"
  using assms(2) [of "s\<lparr>depth := depth s + 1\<rparr>"] assms(1)
  by (auto simp: incDepth_def reach_def buffer_ok_def moved_def stuck_def rest_def unread_def)

lemma wp_decDepth [wp_rules]:
  assumes "reach s0 cs la s"
    and "\<And>t. reach s0 cs la t \<Longrightarrow> stuck t = stuck s \<Longrightarrow> lookahead t = lookahead s \<Longrightarrow> rest t = rest s \<Longrightarrow> Q () t"
  shows "wp A decDepth Q s"
  using assms(2) [of "s\<lparr>depth := depth s - 1\<rparr>"] assms(1)
  by (auto simp: decDepth_def reach_def buffer_ok_def moved_def stuck_def rest_def unread_def)

lemma steps_blockComment_firstLine: "steps A (blockComment_firstLine start)"
  unfolding blockComment_firstLine_def
  by (rule steps_forever, auto elim!: wp_rules intro!: wp_intros) (auto intro: reachesI work_take)

lemma steps_blockComment_text: "steps A (blockComment_text start)"
  unfolding blockComment_text_def
  by (rule steps_forever, auto elim!: wp_rules intro!: wp_intros) (auto intro: reachesI work_take)

lemma steps_parseBlockComment: "steps A parseBlockComment"
  unfolding parseBlockComment_def
  by (rule stepsI, auto elim!: wp_rules wp_steps [OF _ steps_blockComment_firstLine] wp_steps [OF _ steps_blockComment_text] intro!: wp_intros) (auto intro: reachesI)

section \<open>Quoted strings\<close>

lemma steps_sq_loop: "steps A (forever (sq_step start) sb)"
  unfolding sq_step_def
  by (rule steps_forever, auto elim!: wp_rules intro!: wp_intros) (auto intro: reachesI work_take)

lemma steps_parseSingleQuotedString: "steps A parseSingleQuotedString"
  unfolding parseSingleQuotedString_def
  by (rule stepsI, auto elim!: wp_rules wp_steps [OF _ steps_sq_loop] intro!: wp_intros) (auto intro: reachesI)

lemma steps_dq_loop:
  assumes "\<not> inKey \<Longrightarrow> steps A (psubst False)"
  shows "steps A (forever (dq_step psubst inKey start) d)"
  unfolding dq_step_def dq_rune_def
  by (rule steps_forever, auto elim!: wp_rules wp_steps [OF _ assms] intro!: wp_intros split: option.split)
    (auto intro: reachesI work_take)

lemma steps_parseDoubleQuotedString_body:
  assumes "\<not> inKey \<Longrightarrow> steps A (psubst False)"
  shows "steps A (parseDoubleQuotedString_body psubst inKey)"
  unfolding parseDoubleQuotedString_body_def
  by (rule stepsI, auto elim!: wp_rules wp_steps [OF _ steps_dq_loop] intro!: wp_intros assms) (auto intro: reachesI)

section \<open>Block strings\<close>

lemma wp_blockString_fail [wp_rules]:
  assumes "reach s0 cs la s"
    and "\<And>t. reach s0 cs la t \<Longrightarrow> stuck t = stuck s \<Longrightarrow> lookahead t = lookahead s \<Longrightarrow> rest t = rest s \<Longrightarrow> Q () t"
  shows "wp A (blockString_fail start quote) Q s"
  unfolding blockString_fail_def using assms by (auto elim!: wp_rules intro!: wp_intros)

lemma steps_blockString_quote: "steps A (blockString_quote start)"
  unfolding blockString_quote_def
  by (rule steps_forever, auto elim!: wp_rules intro!: wp_intros) (auto intro: reachesI work_take)

lemma steps_blockString_tag: "steps A (blockString_tag start quote)"
  unfolding blockString_tag_def
  by (rule steps_forever, auto elim!: wp_rules intro!: wp_intros) (auto intro: reachesI work_take)

lemma steps_blockString_firstLine: "steps A (blockString_firstLine start quote)"
  unfolding blockString_firstLine_def
  by (rule steps_forever, auto elim!: wp_rules intro!: wp_intros) (auto intro: reachesI work_take)

lemma steps_blockString_text: "steps A (blockString_text start quote sb)"
  unfolding blockString_text_def
  by (rule steps_forever, auto elim!: wp_rules intro!: wp_intros) (auto intro: reachesI work_take)

lemma steps_blockString_parts: "steps A (blockString_parts start)"
  unfolding blockString_parts_def
  by (rule stepsI, auto elim!: wp_rules wp_steps [OF _ steps_blockString_quote] wp_steps [OF _ steps_blockString_tag] wp_steps [OF _ steps_blockString_firstLine] wp_steps [OF _ steps_blockString_text] intro!: wp_intros) (auto intro: reachesI)

lemma steps_parseBlockString: "steps A parseBlockString"
  unfolding parseBlockString_def
  by (rule stepsI, auto elim!: wp_rules wp_steps [OF _ steps_blockString_parts] intro!: wp_intros) (auto intro: reachesI)


section \<open>Unquoted strings\<close>

text \<open>The index of the last star is in range; only a substitution breaks this.\<close>

definition star_ok :: "panic set \<Rightarrow> nat \<Rightarrow> ustring \<Rightarrow> bool" where
  "star_ok A k u \<longleftrightarrow> SliceOutOfRange \<in> A \<or> u_lastPatternIndex u \<le> blen (u_sb u) + k"

lemma star_ok_mono: "star_ok A 0 u \<Longrightarrow> star_ok A k u"
  by (auto simp: star_ok_def)

lemma star_ok_update [simp]:
  "star_ok A k (u\<lparr>u_lastNonSpace := p\<rparr>) = star_ok A k u"
  by (simp add: star_ok_def)

lemma star_ok_write: "star_ok A (Suc 0) u \<Longrightarrow> star_ok A 0 (u_write r u)"
  using item_bytes_pos [of r] by (auto simp: star_ok_def u_write_def simp del: item_bytes_pos)

lemma star_ok_escape: "star_ok A 0 u \<Longrightarrow> star_ok A 0 (u_escape r u)"
  by (auto simp: star_ok_def u_escape_def Let_def)

lemma wp_u_star:
  assumes "star_ok A 0 u" and "\<And>v. star_ok A (Suc 0) v \<Longrightarrow> Q v s"
  shows "wp A (u_star u) Q s"
  using assms by (auto simp: u_star_def star_ok_def)


lemma star_ok_write0 [simp]: "star_ok A 0 u \<Longrightarrow> star_ok A 0 (u_write r u)"
  by (rule star_ok_write) (rule star_ok_mono)

lemma wp_unquoted_text:
  assumes "reach s0 cs [] s" and "cs \<noteq> []" and "\<not> stuck s"
    and "star_ok A (if r = rStar then Suc 0 else 0) u"
    and "\<not> inKey \<Longrightarrow> steps A (psubst False)" and "\<not> inKey \<Longrightarrow> SliceOutOfRange \<in> A"
    and "\<And>v t ds. star_ok A 0 v \<Longrightarrow> reach s0 ds [] t \<Longrightarrow> ds \<noteq> [] \<Longrightarrow> Q (Inl v) t"
    and "\<And>v t. reaches s0 t \<Longrightarrow> Q (Inr v) t"
  shows "wp A (unquoted_text psubst inKey r u) Q s"
proof -
  have stop: "reach s0 ds [] t \<Longrightarrow> Q (Inr v) t" for v t ds
    using assms(8) by (blast intro: reachesI)
  show ?thesis
    unfolding unquoted_text_def using assms(1-4,6)
    apply (auto elim!: wp_rules wp_steps [OF _ assms(5)] intro!: wp_intros split: option.split)
    apply (auto simp: butlast_append star_ok_def
      intro!: assms(7) stop star_ok_write star_ok_escape split: if_splits)
    done
qed

lemma wp_unquoted_rune:
  assumes "reach s0 cs la s" and "\<not> stuck s" and "la \<noteq> []" and "star_ok A 0 u"
    and "\<not> inKey \<Longrightarrow> steps A (psubst False)" and "\<not> inKey \<Longrightarrow> SliceOutOfRange \<in> A"
    and "\<And>v t ds. star_ok A 0 v \<Longrightarrow> reach s0 ds [] t \<Longrightarrow> ds \<noteq> [] \<Longrightarrow> Q (Inl v) t"
    and "\<And>v t. reaches s0 t \<Longrightarrow> Q (Inr v) t"
  shows "wp A (unquoted_rune psubst inKey u r) Q s"
  unfolding unquoted_rune_def using assms
  by (auto elim!: wp_rules wp_unquoted_text intro!: wp_u_star)

lemma wp_unquoted_paren:
  assumes "reach s [] [r] t" and "\<not> stuck s" and "rest s \<noteq> []" and "star_ok A 0 u"
  shows "wp A (unquoted_paren u r) (\<lambda>x t. reaches s t \<and> (case x of
      Inl v \<Rightarrow> star_ok A 0 v \<and> work t < work s | Inr v \<Rightarrow> True)) t"
  unfolding unquoted_paren_def using assms
  apply (auto elim!: wp_rules)
  apply (auto intro: reachesI work_take work_eof)
  done

lemma wp_unquoted_dash:
  assumes "reach s [] [r] t" and "\<not> stuck s" and "\<not> stuck t" and "star_ok A 0 u"
  shows "wp A (unquoted_dash psubst u r) (\<lambda>x t. reaches s t \<and> (case x of
      Inl v \<Rightarrow> star_ok A 0 v \<and> work t < work s | Inr v \<Rightarrow> True)) t"
  unfolding unquoted_dash_def using assms
  apply (auto elim!: wp_rules wp_unquoted_rune)
  apply (auto intro: reachesI work_take)
  done

lemma steps_unquoted_loop:
  assumes "\<not> inKey \<Longrightarrow> steps A (psubst False)" and "\<not> inKey \<Longrightarrow> SliceOutOfRange \<in> A"
    and "star_ok A 0 u"
  shows "steps A (forever (unquoted_step psubst inKey) u)"
  unfolding unquoted_step_def
  apply (rule steps_forever_inv [where I = "star_ok A 0", OF _ assms(3)], auto elim!: wp_rules wp_unquoted_rune intro!: wp_intros assms(1,2) wp_unquoted_dash wp_unquoted_paren)
    apply (auto simp: rest_def intro: reachesI work_take work_eof star_ok_mono star_ok_write)
  done

lemma wp_peekPrefix [wp_rules]:
  assumes "reach s0 cs la s" and "\<And>b lb t. reach s0 cs lb t \<Longrightarrow> Q b t"
  shows "wp A (peekPrefix ws b) Q s"
  using assms
  by (induction ws arbitrary: la s b) (auto elim!: wp_rules)

lemma steps_parseUnquotedString_body:
  assumes "\<not> inKey \<Longrightarrow> steps A (psubst False)" and "\<not> inKey \<Longrightarrow> SliceOutOfRange \<in> A"
  shows "steps A (parseUnquotedString_body psubst inKey)"
  unfolding parseUnquotedString_body_def
  by (rule stepsI, auto elim!: wp_rules wp_steps [OF _ steps_unquoted_loop]
        intro!: assms simp: star_ok_def)
    (auto intro: reachesI)

section \<open>Strings, keys and substitutions\<close>

lemma steps_parseString_body:
  assumes "\<not> inKey \<Longrightarrow> steps A (psubst False)" and "\<not> inKey \<Longrightarrow> SliceOutOfRange \<in> A"
  shows "steps A (parseString_body psubst inKey)"
  unfolding parseString_body_def
  by (rule stepsI, auto elim!: wp_rules wp_steps [OF _ steps_parseDoubleQuotedString_body]
        wp_steps [OF _ steps_parseSingleQuotedString] wp_steps [OF _ steps_parseBlockString]
        wp_steps [OF _ steps_parseUnquotedString_body] intro!: assms)
    (auto intro: reachesI)

lemma wp_parseKey_finish:
  assumes "reach s0 cs la s" and "\<And>x t. reach s0 cs la t \<Longrightarrow> Q x t"
  shows "wp A (parseKey_finish k) Q s"
  unfolding parseKey_finish_def using assms
  by (auto simp: Let_def elim!: wp_rules split: prod.splits option.splits)


lemma wp_parseKey_loop:
  assumes "steps A pstring" and "reach s0 [] [] s0"
    and "\<And>x t. reaches s0 t \<Longrightarrow> Q x t"
  shows "wp A (forever (parseKey_step pstring) k) Q s0"
proof (rule forever_rule [where P = "\<lambda>k s. \<exists>cs la. reach s0 cs la s"])
  show "\<exists>cs la. reach s0 cs la s0"
    using assms(2) by blast
  fix k s assume "\<exists>cs la. reach s0 cs la s"
  then obtain cs la where s: "reach s0 cs la s"
    by blast
  have "reach s [] la s"
    using s by (rule reach_start)
  then have "wp A (parseKey_step pstring k) (\<lambda>x t. case x of
      Inl _ \<Rightarrow> (\<exists>ds lb. reach s ds lb t) \<and> work t < work s | Inr _ \<Rightarrow> reaches s t) s"
    unfolding parseKey_step_def Let_def
    apply (auto elim!: wp_rules wp_steps [OF _ assms(1)] split: option.split)
    apply (auto intro: reachesI work_take work_peek)
    done
  moreover have "reaches s0 t" if "reaches s t" for t
    using that reach_trans [OF s] unfolding reaches_def by blast
  moreover have "\<exists>cs la. reach s0 cs la t" if "\<exists>ds lb. reach s ds lb t" for t
    using that reach_trans [OF s] by blast
  ultimately show "wp A (parseKey_step pstring k) (\<lambda>x t. case x of
      Inl k' \<Rightarrow> (\<exists>cs la. reach s0 cs la t) \<and> work t < work s | Inr k' \<Rightarrow> Q k' t) s"
    by (elim wp_mono) (auto split: sum.splits intro: assms(3))
qed

lemma steps_parseKey_body: "steps A pstring \<Longrightarrow> steps A (parseKey_body pstring)"
  unfolding parseKey_body_def
  by (rule stepsI) (auto simp: reaches_def intro!: wp_parseKey_loop elim!: wp_parseKey_finish)

lemma wp_spreadStart [wp_intros]: "(\<And>p. Q p s) \<Longrightarrow> wp A (spreadStart spread) Q s"
  unfolding spreadStart_def
  by (auto simp: Subtract_def Let_def intro!: wp_intros)

lemma steps_parseSubstitution_body: "steps A pkey \<Longrightarrow> steps A (parseSubstitution_body pkey spread)"
  unfolding parseSubstitution_body_def Let_def
  by (rule stepsI, auto elim!: wp_rules wp_steps [where m = pkey] intro!: wp_intros)
    (auto intro: reachesI)

text \<open>The tied functions. A key, and so a substitution, never panics.\<close>

lemma steps_parseKey: "steps A parseKey"
  unfolding parseKey_def by (intro steps_parseKey_body steps_parseString_body) auto

lemma steps_parseSubstitution: "steps A (parseSubstitution spread)"
  unfolding parseSubstitution_def by (intro steps_parseSubstitution_body steps_parseKey)

lemma steps_parseString: "inKey \<or> SliceOutOfRange \<in> A \<Longrightarrow> steps A (parseString inKey)"
  unfolding parseString_def by (intro steps_parseString_body steps_parseSubstitution) auto

section \<open>Edges and imports\<close>

lemma steps_parseEdge: "steps A (parseEdge start)"
  unfolding parseEdge_def parseEdge_step_def
  by (rule steps_forever, auto elim!: wp_rules) (auto intro: reachesI work_take)

lemma steps_parseEdges_loop: "steps A (forever parseEdges_step e)"
  unfolding parseEdges_step_def Let_def
  by (rule steps_forever, auto elim!: wp_rules wp_steps [OF _ steps_parseEdge]
        wp_steps [OF _ steps_parseKey] intro!: wp_intros split: prod.splits option.split)
    (auto intro: reachesI work_take)

lemma steps_parseEdges: "steps A (parseEdges mk src)"
  unfolding parseEdges_def
  by (rule stepsI, auto elim!: wp_steps [OF _ steps_parseEdges_loop]) (auto intro: reachesI)

lemma steps_edgeIndex_digits: "steps A (edgeIndex_digits start r)"
  unfolding edgeIndex_digits_def edgeIndex_step_def
  by (rule steps_forever, auto elim!: wp_rules intro!: wp_intros) (auto intro: reachesI work_take)

lemma steps_import_pre: "steps A import_pre"
  unfolding import_pre_def
  by (rule steps_forever, auto elim!: wp_rules) (auto intro: reachesI work_take)

lemma steps_parseImport: "steps A (parseImport spread)"
  unfolding parseImport_def Let_def
  by (rule stepsI, auto elim!: wp_rules wp_steps [OF _ steps_import_pre]
      wp_steps [OF _ steps_parseKey] intro!: wp_intros) (auto intro: reachesI)

end
