(* ===== verification/Parser_Total.thy ===== *)
theory Parser_Total
  imports Parser_Spec
begin

text \<open>
  The contract of \<open>Parser_Spec\<close> for the recursive grammar (\<^verbatim>\<open>d2parser/parse.go\<close>): map keys, maps,
  arrays, values and the entry points. Parsing a value calls itself only one nesting level deeper,
  so the contract is stated at a nesting depth (\<open>steps_at\<close>), and the levels of
  \<open>parseValue_level\<close> are enough because \<^verbatim>\<open>enterNesting\<close> refuses the 129th.
\<close>

section \<open>Edge indexes\<close>

lemma wp_edgeIndex_value:
  assumes "reach s0 cs la s" and "\<not> stuck s" and "\<not> is_space r"
    and "\<And>x t ds lb. reach s0 ds lb t \<Longrightarrow> (x = None \<Longrightarrow> lb = []) \<Longrightarrow> Q x t"
  shows "wp A (edgeIndex_value start r) Q s"
  unfolding edgeIndex_value_def using assms
  by (auto elim!: wp_rules wp_steps [OF _ steps_edgeIndex_digits] intro!: wp_intros split: option.split)

lemma steps_parseEdgeIndex: "steps A parseEdgeIndex"
  unfolding parseEdgeIndex_def
  by (rule stepsI, auto elim!: wp_rules wp_edgeIndex_value intro!: wp_intros split: option.split)
    (auto intro: reachesI)

section \<open>The contract at a nesting depth\<close>

definition steps_at :: "int \<Rightarrow> panic set \<Rightarrow> 'a prs \<Rightarrow> bool" where
  "steps_at k A m \<longleftrightarrow>
    (\<forall>s. reach s [] [] s \<longrightarrow> nestingDepth s = k \<longrightarrow> wp A m (\<lambda>x t. reaches s t) s)"

lemma steps_atI:
  "(\<And>s. reach s [] [] s \<Longrightarrow> nestingDepth s = k \<Longrightarrow> wp A m (\<lambda>x t. reaches s t) s) \<Longrightarrow> steps_at k A m"
  by (simp add: steps_at_def)

lemma reach_depth: "reach s0 cs la s \<Longrightarrow> nestingDepth s = nestingDepth s0"
  by (simp add: reach_def moved_def)

lemma wp_steps_at:
  assumes "reach s0 cs [] s" and "steps_at k A m" and "nestingDepth s0 = k"
    and "\<And>x t ds. reach s0 (cs @ ds) [] t \<Longrightarrow> Q x t"
  shows "wp A m Q s"
proof -
  have "wp A m (\<lambda>x t. reaches s t) s"
    using assms(2,3) reach_start [OF assms(1)] reach_depth [OF assms(1)] by (auto simp: steps_at_def)
  then show ?thesis
  proof (rule wp_mono)
    fix x t assume "reaches s t"
    then show "Q x t"
      unfolding reaches_def by (auto intro: assms(4) reach_trans [OF assms(1)])
  qed simp
qed

section \<open>Map keys\<close>

lemma wp_setInEdgeGroup [wp_rules]:
  assumes "reach s0 cs la s"
    and "\<And>t. reach s0 cs la t \<Longrightarrow> stuck t = stuck s \<Longrightarrow> lookahead t = lookahead s \<Longrightarrow>
           rest t = rest s \<Longrightarrow> Q () t"
  shows "wp A (setInEdgeGroup b) Q s"
  using assms(2) [of "s\<lparr>inEdgeGroup := b\<rparr>"] assms(1)
  by (auto simp: setInEdgeGroup_def reach_def buffer_ok_def moved_def stuck_def rest_def unread_def)

lemma steps_at_mapKey_value:
  assumes "steps_at k A pv"
  shows "steps_at k A (mapKey_value pv mk)"
  unfolding mapKey_value_def Let_def
  by (rule steps_atI, auto elim!: wp_rules wp_steps_at [OF _ assms] intro!: wp_intros split: option.splits)
    (auto intro: reachesI)

lemma steps_at_parseMapKeyValue:
  assumes "steps_at k A pv"
  shows "steps_at k A (parseMapKeyValue pv mk)"
  unfolding parseMapKeyValue_def
  by (rule steps_atI, auto elim!: wp_rules wp_steps_at [OF _ steps_at_mapKey_value [OF assms]])
    (auto intro: reachesI)

lemma steps_edgeGroup_index: "steps A (edgeGroup_index mk)"
  unfolding edgeGroup_index_def
  by (rule stepsI, auto elim!: wp_rules wp_steps [OF _ steps_parseEdgeIndex]) (auto intro: reachesI)

lemma steps_edgeGroup_key: "steps A (edgeGroup_key mk)"
  unfolding edgeGroup_key_def
  by (rule stepsI, auto elim!: wp_rules wp_steps [OF _ steps_parseKey]) (auto intro: reachesI)

lemma steps_at_edgeGroup_body:
  assumes "steps_at k A pv"
  shows "steps_at k A (edgeGroup_body pv mk)"
  unfolding edgeGroup_body_def
  by (rule steps_atI, auto elim!: wp_rules wp_steps [OF _ steps_parseKey] wp_steps [OF _ steps_parseEdges]
      wp_steps [OF _ steps_edgeGroup_index] wp_steps [OF _ steps_edgeGroup_key]
      wp_steps_at [OF _ steps_at_parseMapKeyValue [OF assms]])
    (auto intro: reachesI)

lemma steps_at_parseEdgeGroup:
  assumes "steps_at k A pv"
  shows "steps_at k A (parseEdgeGroup pv mk)"
  unfolding parseEdgeGroup_def
  by (rule steps_atI, auto elim!: wp_rules wp_steps_at [OF _ steps_at_edgeGroup_body [OF assms]])
    (auto intro: reachesI)

lemma steps_mapKey_ampersand: "steps A (mapKey_ampersand mk)"
  unfolding mapKey_ampersand_def
  by (rule stepsI, auto elim!: wp_rules) (auto intro: reachesI)

lemma steps_at_mapKey_body:
  assumes "steps_at k A pv"
  shows "steps_at k A (mapKey_body pv mk)"
  unfolding mapKey_body_def Let_def
  by (rule steps_atI, auto elim!: wp_rules wp_steps [OF _ steps_mapKey_ampersand]
      wp_steps [OF _ steps_parseKey] wp_steps [OF _ steps_parseEdges]
      wp_steps_at [OF _ steps_at_parseEdgeGroup [OF assms]]
      wp_steps_at [OF _ steps_at_parseMapKeyValue [OF assms]])
    (auto intro: reachesI)

lemma steps_at_parseMapKey:
  assumes "steps_at k A pv"
  shows "steps_at k A (parseMapKey pv)"
  unfolding parseMapKey_def
  by (rule steps_atI, auto elim!: wp_steps_at [OF _ steps_at_mapKey_body [OF assms]])
    (auto intro: reachesI)

section \<open>Nodes of maps and arrays\<close>

text \<open>Without a node nothing was taken; a comment took at least its first rune.\<close>

lemma wp_parseSpecialNode:
  assumes "reach s0 cs [] s"
    and "\<And>t. reach s0 cs [] t \<Longrightarrow> r \<noteq> rHash \<Longrightarrow> Q None t"
    and "\<And>x t ds. reach s0 (cs @ ds) [] t \<Longrightarrow> Q (Some x) t"
  shows "wp A (parseSpecialNode r) Q s"
  unfolding parseSpecialNode_def using assms
  by (auto elim!: wp_rules wp_steps [OF _ steps_parseComment] wp_steps [OF _ steps_parseBlockComment]
      wp_steps [OF _ steps_parseSubstitution] wp_steps [OF _ steps_parseImport])

definition skip_stops :: "rune \<Rightarrow> rune list \<Rightarrow> bool" where
  "skip_stops close rs \<longleftrightarrow>
    rs = [] \<or> is_space (hd rs) \<or> hd rs = rSemi \<or> hd rs = close \<or> hd rs = rHash"

lemma skip_stops_spaces: "list_all is_space ws \<Longrightarrow> skip_stops close ws"
  by (cases ws) (auto simp: skip_stops_def)

lemma skip_stops_prefix:
  "list_all is_space ws \<Longrightarrow> ws \<noteq> [] \<or> r = rSemi \<or> r = close \<or> r = rHash \<Longrightarrow>
   skip_stops close (ws @ r # xs)"
  by (cases ws) (auto simp: skip_stops_def)

lemma count_space: "count_list ws x \<noteq> 0 \<Longrightarrow> ws \<noteq> []"
  by auto

text \<open>Skipping takes something unless the runes to come begin with a delimiter.\<close>

lemma wp_skipToDelimiter:
  assumes "reach s0 cs [] s"
    and "\<And>t. reach s0 cs [] t \<Longrightarrow> stuck t \<or> skip_stops close (rest s) \<Longrightarrow> Q () t"
    and "\<And>t ds. reach s0 (cs @ ds) [] t \<Longrightarrow> ds \<noteq> [] \<Longrightarrow> Q () t"
  shows "wp A (skipToDelimiter close) Q s"
  unfolding skipToDelimiter_def
proof (rule forever_rule [where P = "\<lambda>u t. \<exists>ds. reach s0 (cs @ ds) [] t"])
  show "\<exists>ds. reach s0 (cs @ ds) [] s"
    by (rule exI [of _ "[]"]) (simp add: assms(1))
  fix u t assume "\<exists>ds. reach s0 (cs @ ds) [] t"
  then obtain ds where t: "reach s0 (cs @ ds) [] t"
    by blast
  have same: "rest t = rest s" if "ds = []"
    using that t assms(1) by (auto simp: reach_def moved_def)
  have stop: "Q () t'" if "reach t [] [] t'" "stuck t' \<or> skip_stops close (rest t)" for t'
  proof -
    have "reach s0 (cs @ ds) [] t'"
      using reach_trans [OF t that(1)] by simp
    then show ?thesis
      using that(2) same by (cases "ds = []") (auto intro: assms(2,3))
  qed
  have peeked: "rest t = ws @ r # unread t'" if "reach t [] (ws @ [r]) t'" "\<not> stuck t'" for ws r t'
    using that by (auto simp: reach_def moved_def rest_def)
  have go: "(\<exists>ds. reach s0 (cs @ ds) [] t') \<and> work t' < work t"
    if "reach t (ws @ [r]) [] t'" "\<not> stuck t" for ws r t'
    using that reach_trans [OF t that(1)] by (auto intro: work_take)
  show "wp A (bnd peekNotSpace (\<lambda>(r, newlines, eof).
        if eof \<or> newlines \<noteq> 0 \<or> r = rSemi \<or> r = close \<or> r = rHash then
          bnd rewind (\<lambda>_. stop_with ())
        else bnd commit (\<lambda>_. continue_with ())))
      (\<lambda>x t'. case x of Inl u \<Rightarrow> (\<exists>ds. reach s0 (cs @ ds) [] t') \<and> work t' < work t
                     | Inr r \<Rightarrow> Q r t') t"
    unfolding wp_bnd
  proof (rule wp_peekNotSpace [OF reach_start [OF t]], goal_cases)
    case (1 ws r t')
    then have rest: "rest t = ws @ r # unread t'"
      by (auto intro: peeked)
    have halt: "Q () t2" if "reach t [] [] t2" "ws \<noteq> [] \<or> r = rSemi \<or> r = close \<or> r = rHash" for t2
      using that 1(6) by (auto intro!: stop skip_stops_prefix simp: rest)
    show ?case
      using 1(1-3) by (auto elim!: wp_rewind wp_commit intro: halt conjunct1 [OF go] conjunct2 [OF go] dest: count_space)
  next
    case (2 ws t')
    have "rest t' = rest t"
      using 2(1) by (simp add: reach_def moved_def)
    then have halt: "Q () t2" if "reach t [] [] t2" "stuck t' = stuck t2" for t2
      using that 2(2,3) by (auto intro!: stop skip_stops_spaces)
    show ?case
      using 2(1) by (auto elim!: wp_rewind intro: halt)
  qed
qed

text \<open>A node of a map or array, after its first rune \<open>r\<close> was read.\<close>

lemma wp_parseMapNode:
  assumes "reach s0 (cs @ [r]) [] s" and "r \<noteq> rNL" and "steps_at (nestingDepth s0) A pv"
    and "\<And>n t ds. reach s0 (cs @ ds) [] t \<Longrightarrow> (r = rHash \<or> is_block_comment n \<Longrightarrow> ds \<noteq> []) \<Longrightarrow> Q n t"
  shows "wp A (parseMapNode pv r) Q s"
proof -
  have node: "Q n t" if "reach s0 (cs @ r # ds) [] t" for n t ds
    using assms(4) [of "r # ds" t n] that by simp
  have key: "Q (map_option KeyN mk) t" if "reach s0 (cs @ ds) [] t" "r \<noteq> rHash" for mk t ds
    using that by (intro assms(4) [of ds]) (auto simp: is_block_comment_def split: option.splits)
  show ?thesis
    unfolding parseMapNode_def using assms(1-3)
    by (auto elim!: wp_parseSpecialNode wp_rules wp_steps_at [OF _ steps_at_parseMapKey]
        split: option.split special_node.split intro: node key)
qed

lemma wp_parseArrayNode:
  assumes "reach s0 (cs @ [r]) [] s" and "r \<noteq> rNL" and "steps_at (nestingDepth s0) A pv"
    and "\<And>n t ds. reach s0 (cs @ ds) [] t \<Longrightarrow> (r = rHash \<or> is_array_block_comment n \<Longrightarrow> ds \<noteq> []) \<Longrightarrow>
       Q n t"
  shows "wp A (parseArrayNode pv r) Q s"
proof -
  have node: "Q n t" if "reach s0 (cs @ r # ds) [] t" for n t ds
    using assms(4) [of "r # ds" t n] that by simp
  have val: "Q (case v of None \<Rightarrow> None | Some x \<Rightarrow> MakeArrayNodeBox x) t"
    if "reach s0 (cs @ ds) [] t" "r \<noteq> rHash" for v t ds
    using that
    by (intro assms(4) [of ds])
      (auto simp: is_array_block_comment_def MakeArrayNodeBox_def split: option.splits val.splits scalar.splits)
  show ?thesis
    unfolding parseArrayNode_def using assms(1-3)
    by (auto elim!: wp_parseSpecialNode wp_rules wp_steps_at [where m = pv]
        split: option.split special_node.split intro: node val)
qed

section \<open>Maps and arrays\<close>

text \<open>
  An iteration that goes on took a rune, or the parser got stuck in it: a node that took nothing
  leaves a rune that is no delimiter, so the skipping takes it.
\<close>

lemma work_end:
  assumes "reach s es [] t" and "es \<noteq> [] \<or> stuck t" and "\<not> stuck s" and "rest s = ws @ r # xs"
  shows "work t < work s"
  using assms work_stuck [of t s] by (cases "es = []") (auto intro: work_take)

lemma wp_nodes_skip:
  assumes "reach s (ws @ ds) [] u" and "rest s = ws @ r # xs" and "\<not> is_space r"
    and "r = rHash \<Longrightarrow> ds \<noteq> []" and "r \<noteq> rSemi" and "r \<noteq> close"
    and "\<And>t es. reach s es [] t \<Longrightarrow> es \<noteq> [] \<or> stuck t \<Longrightarrow> Q () t"
  shows "wp A (skipToDelimiter close) Q u"
proof (rule wp_skipToDelimiter [OF assms(1)])
  fix t assume t: "reach s (ws @ ds) [] t" "stuck t \<or> skip_stops close (rest u)"
  have "\<not> skip_stops close (rest u)" if "ws @ ds = []"
  proof -
    have "rest u = r # xs"
      using assms(1,2) that by (auto simp: reach_def moved_def)
    then show ?thesis
      using that assms(3-6) by (auto simp: skip_stops_def)
  qed
  then show "Q () t"
    using t by (intro assms(7) [of "ws @ ds"]) auto
next
  fix t es assume "reach s ((ws @ ds) @ es) [] t" "es \<noteq> []"
  then show "Q () t"
    by (intro assms(7) [of "(ws @ ds) @ es"]) auto
qed

lemma wp_parseMap_step:
  assumes "reach s [] [] s" and "steps_at (nestingDepth s) A pv"
  shows "wp A (parseMap_step pv isFileMap start nodes) (\<lambda>x t. reaches s t \<and> (case x of
      Inl u \<Rightarrow> work t < work s | Inr u \<Rightarrow> isFileMap \<longrightarrow> stuck t \<or> rest t = [])) s"
  unfolding parseMap_step_def Let_def using assms
  apply (auto elim!: wp_readNotSpace wp_errorf wp_parseMapNode wp_nodes_skip intro!: wp_intros)
  apply (auto intro: reachesI work_take work_end)
  done

lemma wp_parseMap_loop:
  assumes "reach s0 [] [] s0" and "steps_at (nestingDepth s0) A pv"
    and "\<And>x t. reaches s0 t \<Longrightarrow> (isFileMap \<Longrightarrow> stuck t \<or> rest t = []) \<Longrightarrow> Q x t"
  shows "wp A (forever (parseMap_step pv isFileMap start) ns) Q s0"
proof (rule forever_rule [where P = "\<lambda>u s. reaches s0 s"])
  show "reaches s0 s0"
    using assms(1) by (rule reachesI)
  fix nodes s assume s: "reaches s0 s"
  then have "nestingDepth s = nestingDepth s0"
    by (auto simp: reaches_def reach_def moved_def)
  with assms(2) have "wp A (parseMap_step pv isFileMap start nodes) (\<lambda>x t. reaches s t \<and> (case x of
      Inl u \<Rightarrow> work t < work s | Inr u \<Rightarrow> isFileMap \<longrightarrow> stuck t \<or> rest t = [])) s"
    by (intro wp_parseMap_step reaches_start [OF s]) simp
  then show "wp A (parseMap_step pv isFileMap start nodes) (\<lambda>x t. case x of
      Inl u \<Rightarrow> reaches s0 t \<and> work t < work s | Inr u \<Rightarrow> Q u t) s"
    by (rule wp_mono) (auto split: sum.splits intro: assms(3) reaches_trans [OF s])
qed

lemma steps_at_parseMap_loop:
  assumes "steps_at k A pv"
  shows "steps_at k A (forever (parseMap_step pv isFileMap start) ns)"
  by (rule steps_atI, rule wp_parseMap_loop) (use assms in auto)

lemma steps_at_parseArray_loop:
  assumes "steps_at k A pv"
  shows "steps_at k A (forever (parseArray_step pv start) ns)"
proof (rule steps_atI)
  fix s0 assume s0: "reach s0 [] [] s0" "nestingDepth s0 = k"
  show "wp A (forever (parseArray_step pv start) ns) (\<lambda>x t. reaches s0 t) s0"
  proof (rule forever_rule [where P = "\<lambda>u s. reaches s0 s"])
    show "reaches s0 s0"
      using s0(1) by (rule reachesI)
    fix nodes s assume s: "reaches s0 s"
    then have "steps_at (nestingDepth s) A pv"
      using assms s0(2) by (auto simp: reaches_def reach_def moved_def)
    with reaches_start [OF s] have "wp A (parseArray_step pv start nodes)
      (\<lambda>x t. reaches s t \<and> (case x of Inl u \<Rightarrow> work t < work s | Inr u \<Rightarrow> True)) s"
      unfolding parseArray_step_def Let_def
      apply (auto elim!: wp_readNotSpace wp_errorf wp_parseArrayNode wp_nodes_skip intro!: wp_intros)
      apply (auto intro: reachesI work_take work_end)
      done
    then show "wp A (parseArray_step pv start nodes) (\<lambda>x t. case x of
        Inl u \<Rightarrow> reaches s0 t \<and> work t < work s | Inr u \<Rightarrow> reaches s0 t) s"
      by (rule wp_mono) (auto split: sum.splits intro: reaches_trans [OF s])
  qed
qed

text \<open>The body of a nested map or array runs one level deeper, if there is one.\<close>

lemma wp_nested:
  assumes "reach s0 cs [] s" and "steps_at (nestingDepth s0 + 1) A nodes"
    and "\<And>x t ds. reach s0 (cs @ ds) [] t \<Longrightarrow> Q x t"
  shows "wp A (nested start nodes) Q s"
proof (cases "nestingDepth s \<ge> MaxNestingDepth")
  case True
  have "Q [] (t\<lparr>halted := True\<rparr>)" if "reach s0 cs [] t" for t
    using that by (intro assms(3) [of "[]"]) (auto simp: reach_def buffer_ok_def moved_def stuck_def rest_def unread_def)
  then show ?thesis
    using assms(1) True by (auto simp: nested_def enterNesting_def elim!: wp_errorf)
next
  case False
  define s1 where "s1 = s\<lparr>nestingDepth := nestingDepth s + 1\<rparr>"
  have s1: "reach s1 [] [] s1" "nestingDepth s1 = nestingDepth s0 + 1"
    using assms(1) False
    by (auto simp: s1_def reach_def buffer_ok_def moved_def stuck_def rest_def unread_def)
  have leave: "Q x (t\<lparr>nestingDepth := nestingDepth t - 1\<rparr>)" if "reach s1 ds [] t" for x t ds
    using that assms(1)
    by (intro assms(3) [of ds])
      (auto simp: s1_def reach_def buffer_ok_def moved_def stuck_def rest_def unread_def)
  have "wp A (bnd incDepth (\<lambda>_. bnd nodes (\<lambda>ns. bnd decDepth (\<lambda>_. bnd leaveNesting (\<lambda>_. ret ns))))) Q s1"
    using s1 by (auto simp: leaveNesting_def elim!: wp_rules wp_steps_at [OF _ assms(2)] intro: leave)
  then show ?thesis
    using False by (simp add: nested_def enterNesting_def s1_def)
qed

lemma steps_at_parseMap:
  assumes "steps_at (k + 1) A pv"
  shows "steps_at k A (parseMap pv False)"
  unfolding parseMap_def using assms
  by (intro steps_atI, auto elim!: wp_nested [OF _ steps_at_parseMap_loop] intro!: wp_intros)
    (auto intro: reachesI)

lemma steps_at_parseArray:
  assumes "steps_at (k + 1) A pv"
  shows "steps_at k A (parseArray pv)"
  unfolding parseArray_def using assms
  by (intro steps_atI, auto elim!: wp_nested [OF _ steps_at_parseArray_loop] intro!: wp_intros)
    (auto intro: reachesI)

section \<open>Values\<close>

lemma steps_at_parseValue_body:
  assumes "steps_at (k + 1) A pv" and "SliceOutOfRange \<in> A"
  shows "steps_at k A (parseValue_body pv)"
  unfolding parseValue_body_def
  by (rule steps_atI, auto elim!: wp_rules wp_steps_at [OF _ steps_at_parseArray [OF assms(1)]]
      wp_steps_at [OF _ steps_at_parseMap [OF assms(1)]] wp_steps [OF _ steps_parseImport]
      wp_steps [OF _ steps_parseString] simp: assms(2))
    (auto intro: reachesI)

text \<open>With \<open>n\<close> levels left, values parse at every depth above \<open>MaxNestingDepth - n\<close>.\<close>

lemma steps_at_parseValue_level:
  "SliceOutOfRange \<in> A \<Longrightarrow> MaxNestingDepth < k + int n \<Longrightarrow> steps_at k A (parseValue_level n)"
proof (induction n arbitrary: k)
  case 0
  then show ?case
    by (auto simp: steps_at_def reach_def buffer_ok_def)
next
  case (Suc n)
  have eq: "parseValue_level (Suc n) = parseValue_body (parseValue_level n)"
    by (rule ext) simp
  have "steps_at (k + 1) A (parseValue_level n)"
    using Suc.prems by (intro Suc.IH) auto
  then show ?case
    unfolding eq using Suc.prems(1) by (rule steps_at_parseValue_body)
qed

lemma steps_at_parseValue: "SliceOutOfRange \<in> A \<Longrightarrow> 0 \<le> k \<Longrightarrow> steps_at k A parseValue"
  unfolding parseValue_def
  by (rule steps_at_parseValue_level) (auto simp: MaxNestingDepth_def parse_level_def)

section \<open>Entry points\<close>

lemma init_reach: "reach (init_parser c u pth b inp e es) [] [] (init_parser c u pth b inp e es)"
  by (simp add: init_parser_def reach_def buffer_ok_def MaxNestingDepth_def pos0_def)

lemma init_fields [simp]:
  "rest (init_parser c u pth b inp e es) = inp" "pos (init_parser c u pth b inp e es) = pos0"
  "nestingDepth (init_parser c u pth b inp e es) = 0" "utf16Pos (init_parser c u pth b inp e es) = b"
  by (auto simp: init_parser_def rest_def unread_def)

lemma wp_file_map:
  assumes "SliceOutOfRange \<in> A" and "reach s0 [] [] s0" and "nestingDepth s0 = 0"
  shows "wp A (parseMap parseValue True) (\<lambda>m t. reaches s0 t \<and> (stuck t \<or> rest t = []) \<and>
    m_range m = \<lparr>rng_Path = path t, Start = pos s0, End = pos t\<rparr>) s0"
  unfolding parseMap_def using assms
  by (auto intro!: wp_parseMap_loop steps_at_parseValue)

end
