(* ===== verification/Parser_Frame.thy ===== *)
theory Parser_Frame
  imports Parser_Spec
begin

text \<open>
  What every parser method keeps. A relation between the states before and after a call that
  is reflexive, transitive and kept by the primitive state changes of \<open>Parser_State\<close> is kept by every
  parse function (\<^verbatim>\<open>d2parser/parse.go\<close>): the locale \<open>parser_frame\<close> proves this once, and its
  interpretations give the facts about errors, configuration, cancellation and halting.
\<close>

locale parser_frame =
  fixes R :: "parser \<Rightarrow> parser \<Rightarrow> bool"
  assumes R_refl: "R s s"
    and R_trans: "R s t \<Longrightarrow> R t v \<Longrightarrow> R s v"
    and R_peek: "R s (snd (peek_state s))"
    and R_read: "R s (snd (read_state s))"
    and R_rewind: "R s (rewind_state s)"
    and R_commit: "R s (s\<lparr>pos := lookaheadPos s, lookahead := []\<rparr>)"
    and R_replay: "R s (s\<lparr>pos := p, lookahead := r # lookahead s\<rparr>)"
    and R_errorf: "errorf a b m s = Ok () t \<Longrightarrow> R s t"
    and R_enter: "enterNesting a s = Ok ok t \<Longrightarrow> R s t"
    and R_nesting: "R s (s\<lparr>nestingDepth := d\<rparr>)"
    and R_depth: "R s (s\<lparr>depth := d\<rparr>)"
    and R_group: "R s (s\<lparr>inEdgeGroup := g\<rparr>)"
begin

definition keeps :: "'a prs \<Rightarrow> bool" where
  "keeps m \<longleftrightarrow> (\<forall>s x t. m s = Ok x t \<longrightarrow> R s t)"

lemma keepsD: "keeps m \<Longrightarrow> m s = Ok x t \<Longrightarrow> R s t"
  by (auto simp: keeps_def)

subsection \<open>Control\<close>

lemma keeps_ret [frame_rules]: "keeps (ret x)"
  by (simp add: keeps_def ret_def R_refl)

lemma keeps_continue [frame_rules]: "keeps (continue_with u)"
  by (simp add: continue_with_def keeps_ret)

lemma keeps_stop [frame_rules]: "keeps (stop_with r)"
  by (simp add: stop_with_def keeps_ret)

lemma keeps_gets [frame_rules]: "keeps (gets f)"
  by (simp add: keeps_def gets_def R_refl)

lemma keeps_panics [frame_rules]: "keeps (panics r)"
  by (simp add: keeps_def panics_def)

lemma keeps_bnd [frame_rules]: "keeps m \<Longrightarrow> (\<And>x. keeps (f x)) \<Longrightarrow> keeps (bnd m f)"
  unfolding keeps_def bnd_def by (auto split: outcome.splits) (meson R_trans)

lemma keeps_if [frame_rules]: "keeps m \<Longrightarrow> keeps n \<Longrightarrow> keeps (if b then m else n)"
  by simp

lemma keeps_prod [frame_rules]: "(\<And>a b. keeps (f a b)) \<Longrightarrow> keeps (case x of (a, b) \<Rightarrow> f a b)"
  by (simp split: prod.splits)

lemma keeps_option [frame_rules]:
  "keeps m \<Longrightarrow> (\<And>y. keeps (f y)) \<Longrightarrow> keeps (case x of None \<Rightarrow> m | Some y \<Rightarrow> f y)"
  by (simp split: option.splits)

lemma keeps_special [frame_rules]:
  "(\<And>c. keeps (f c)) \<Longrightarrow> (\<And>c. keeps (g c)) \<Longrightarrow> (\<And>c. keeps (h c)) \<Longrightarrow> (\<And>c. keeps (i c)) \<Longrightarrow>
   keeps (case x of SpComment c \<Rightarrow> f c | SpBlockComment c \<Rightarrow> g c | SpSubstitution c \<Rightarrow> h c | SpImport c \<Rightarrow> i c)"
  by (simp split: special_node.splits)

lemma keeps_Let [frame_rules]: "keeps (f x) \<Longrightarrow> keeps (Let x f)"
  by simp

lemma keeps_loop: "(\<And>u. keeps (body u)) \<Longrightarrow> keeps (loop n body u)"
proof (induction n arbitrary: u)
  case 0
  then show ?case by (simp add: keeps_def)
next
  case (Suc n)
  then show ?case
    unfolding loop_Suc by (intro keeps_bnd) (auto split: sum.splits intro: keeps_ret)
qed

lemma keeps_forever [frame_rules]: "(\<And>u. keeps (body u)) \<Longrightarrow> keeps (forever body u)"
proof -
  assume "\<And>u. keeps (body u)"
  then have "keeps (loop n body u)" for n
    by (rule keeps_loop)
  then show ?thesis
    by (simp add: keeps_def forever_def del: loop.simps)
qed

subsection \<open>Primitives\<close>

lemma keeps_peek [frame_rules]: "keeps peek"
  using R_peek by (auto simp: keeps_def peek_def state_op_def split: prod.splits) (metis snd_conv)

lemma keeps_read [frame_rules]: "keeps read"
  using R_read by (auto simp: keeps_def read_def state_op_def split: prod.splits) (metis snd_conv)

lemma keeps_rewind [frame_rules]: "keeps rewind"
  by (simp add: keeps_def rewind_def modify_def R_rewind)

lemma keeps_commit [frame_rules]: "keeps commit"
  by (simp add: keeps_def commit_def modify_def R_commit)

lemma keeps_replay [frame_rules]: "keeps (replay r)"
  by (auto simp: keeps_def replay_def split: option.splits intro: R_trans R_replay R_rewind)

lemma keeps_errorf [frame_rules]: "keeps (errorf a b m)"
  by (auto simp: keeps_def intro: R_errorf)

lemma keeps_enterNesting [frame_rules]: "keeps (enterNesting a)"
  by (auto simp: keeps_def intro: R_enter)

lemma keeps_leaveNesting [frame_rules]: "keeps leaveNesting"
  by (simp add: keeps_def leaveNesting_def modify_def R_nesting)

lemma keeps_incDepth [frame_rules]: "keeps incDepth"
  by (simp add: keeps_def incDepth_def modify_def R_depth)

lemma keeps_decDepth [frame_rules]: "keeps decDepth"
  by (simp add: keeps_def decDepth_def modify_def R_depth)

lemma keeps_setInEdgeGroup [frame_rules]: "keeps (setInEdgeGroup b)"
  by (simp add: keeps_def setInEdgeGroup_def modify_def R_group)

lemma keeps_posSubtract [frame_rules]: "keeps (posSubtract r)" "keeps (lookaheadPosSubtract r)"
  "keeps (posSubtractString x)"
  by (auto simp: keeps_def posSubtract_def lookaheadPosSubtract_def posSubtractString_def R_refl
      split: option.splits)

lemma keeps_lookups [frame_rules]: "keeps (currentRange a b)" "keeps getIndent"
  by (auto simp: currentRange_def getIndent_def intro: keeps_gets)

lemma keeps_peekn [frame_rules]: "keeps (peekn n)"
  by (induction n) (auto intro!: frame_rules)

lemma keeps_peekPrefix [frame_rules]: "keeps (peekPrefix ws b)"
  by (induction ws arbitrary: b) (auto intro!: frame_rules)

lemma keeps_spaces [frame_rules]: "keeps readNotSpace" "keeps peekNotSpace" "keeps (spreadStart b)"
  unfolding readNotSpace_def peekNotSpace_def spreadStart_def by (intro frame_rules)+

subsection \<open>Comments and strings\<close>

lemma keeps_comment [frame_rules]: "keeps parseComment" "keeps parseBlockComment"
  unfolding parseComment_def parseCommentLine_def parseBlockComment_def blockComment_firstLine_def
    blockComment_text_def
  by (intro frame_rules)+

lemma keeps_singleQuoted [frame_rules]: "keeps parseSingleQuotedString"
  unfolding parseSingleQuotedString_def sq_step_def by (intro frame_rules)

lemma keeps_doubleQuoted:
  "(\<And>b. keeps (psubst b)) \<Longrightarrow> keeps (parseDoubleQuotedString_body psubst inKey)"
  unfolding parseDoubleQuotedString_body_def dq_step_def dq_rune_def by (intro frame_rules)

lemma keeps_blockString [frame_rules]: "keeps parseBlockString"
  unfolding parseBlockString_def blockString_parts_def blockString_quote_def blockString_tag_def
    blockString_firstLine_def blockString_text_def blockString_fail_def
  by (intro frame_rules)

lemma keeps_unquoted_rune:
  "(\<And>b. keeps (psubst b)) \<Longrightarrow> keeps (unquoted_rune psubst inKey u r)"
  unfolding unquoted_rune_def unquoted_text_def u_star_def by (intro frame_rules)

lemma keeps_unquoted:
  "(\<And>b. keeps (psubst b)) \<Longrightarrow> keeps (parseUnquotedString_body psubst inKey)"
  unfolding parseUnquotedString_body_def unquoted_step_def unquoted_paren_def unquoted_dash_def
  by (intro frame_rules keeps_unquoted_rune)

lemma keeps_string_body:
  "(\<And>b. keeps (psubst b)) \<Longrightarrow> keeps (parseString_body psubst inKey)"
  unfolding parseString_body_def by (intro frame_rules keeps_unquoted keeps_doubleQuoted)

lemma keeps_no_substitution: "keeps (no_substitution b)"
  by (simp add: keeps_def no_substitution_def)

lemma keeps_key [frame_rules]: "keeps parseKey"
  unfolding parseKey_def parseKey_body_def parseKey_step_def parseKey_finish_def
  by (intro frame_rules keeps_string_body keeps_no_substitution)

lemma keeps_substitution [frame_rules]: "keeps (parseSubstitution spread)"
  unfolding parseSubstitution_def parseSubstitution_body_def by (intro frame_rules)

lemma keeps_string [frame_rules]: "keeps (parseString inKey)"
  unfolding parseString_def by (intro keeps_string_body keeps_substitution)

lemma keeps_import [frame_rules]: "keeps (parseImport spread)"
  unfolding parseImport_def import_pre_def by (intro frame_rules)

subsection \<open>Keys, maps, arrays and values\<close>

lemma keeps_edges [frame_rules]: "keeps (parseEdges mk src)"
  unfolding parseEdges_def parseEdges_step_def parseEdge_def parseEdge_step_def by (intro frame_rules)

lemma keeps_edgeIndex [frame_rules]: "keeps parseEdgeIndex"
  unfolding parseEdgeIndex_def edgeIndex_value_def edgeIndex_digits_def edgeIndex_step_def by (intro frame_rules)

lemma keeps_mapKeyValue: "keeps pv \<Longrightarrow> keeps (parseMapKeyValue pv mk)"
  unfolding parseMapKeyValue_def mapKey_value_def by (intro frame_rules)

lemma keeps_edgeGroup: "keeps pv \<Longrightarrow> keeps (parseEdgeGroup pv mk)"
  unfolding parseEdgeGroup_def edgeGroup_body_def edgeGroup_index_def edgeGroup_key_def
  by (intro frame_rules keeps_mapKeyValue)

lemma keeps_mapKey: "keeps pv \<Longrightarrow> keeps (parseMapKey pv)"
  unfolding parseMapKey_def mapKey_body_def mapKey_ampersand_def
  by (intro frame_rules keeps_edgeGroup keeps_mapKeyValue)

lemma keeps_specialNode [frame_rules]: "keeps (parseSpecialNode r)"
  unfolding parseSpecialNode_def by (intro frame_rules)

lemma keeps_map: "keeps pv \<Longrightarrow> keeps (parseMap pv isFileMap)"
  unfolding parseMap_def nested_def parseMap_step_def parseMapNode_def skipToDelimiter_def
  by (intro frame_rules keeps_mapKey)

lemma keeps_array: "keeps pv \<Longrightarrow> keeps (parseArray pv)"
  unfolding parseArray_def nested_def parseArray_step_def parseArrayNode_def skipToDelimiter_def
  by (intro frame_rules)

lemma keeps_value_body: "keeps pv \<Longrightarrow> keeps (parseValue_body pv)"
  unfolding parseValue_body_def by (intro frame_rules keeps_map keeps_array)

lemma keeps_value_level: "keeps (parseValue_level n)"
proof (induction n)
  case 0
  then show ?case by (simp add: keeps_def)
next
  case (Suc n)
  have "parseValue_level (Suc n) = parseValue_body (parseValue_level n)"
    by (rule ext) simp
  with Suc show ?case
    by (simp add: keeps_value_body)
qed

lemma keeps_value: "keeps parseValue"
  unfolding parseValue_def by (rule keeps_value_level)

end

section \<open>Errors are only added\<close>

text \<open>The errors of \<open>t\<close> extend those of \<open>s\<close>, and every new one is in the parsed file.\<close>

definition errs_extend :: "parser \<Rightarrow> parser \<Rightarrow> bool" where
  "errs_extend s t \<longleftrightarrow> path t = path s \<and>
    (\<exists>es. errs t = errs s @ es \<and> (\<forall>e \<in> set es. rng_Path (err_range e) = path s))"

lemma errs_extend_same: "errs t = errs s \<Longrightarrow> path t = path s \<Longrightarrow> errs_extend s t"
  by (simp add: errs_extend_def)

lemma rewind_errs [simp]: "errs (rewind_state s) = errs s" "path (rewind_state s) = path s"
  "readCount (rewind_state s) = readCount s" "tables (rewind_state s) = tables s"
  "reader_err (rewind_state s) = reader_err s"
  by (auto simp: rewind_state_def)

lemma errs_extend_read_rune: "errs_extend s (snd (read_rune s))"
  by (auto simp: read_rune_def read_reader_def errs_extend_def Let_def split: option.splits list.splits)

interpretation errors: parser_frame errs_extend
proof unfold_locales
  show "errs_extend s v" if "errs_extend s t" "errs_extend t v" for s t v
    using that by (auto simp: errs_extend_def)
  show "errs_extend s (snd (peek_state s))" for s
    using errs_extend_read_rune [of s] by (auto simp: peek_state_def errs_extend_def split: prod.splits)
  show "errs_extend s (snd (read_state s))" for s
    using errs_extend_read_rune [of s]
    by (auto simp: read_state_def errs_extend_def Let_def split: prod.splits)
qed (auto simp: errs_extend_def errorf_def enterNesting_def bnd_def gets_def modify_def ret_def
    split: if_splits)

section \<open>Configuration\<close>

definition same_config :: "parser \<Rightarrow> parser \<Rightarrow> bool" where
  "same_config s t \<longleftrightarrow> ctx t = ctx s \<and> tables t = tables s \<and> path t = path s \<and>
    utf16Pos t = utf16Pos s \<and> reader_err t = reader_err s"

lemma same_config_read_rune: "same_config s (snd (read_rune s))"
  by (auto simp: read_rune_def read_reader_def same_config_def Let_def split: option.splits list.splits)

interpretation config: parser_frame same_config
proof unfold_locales
  show "same_config s (snd (peek_state s))" for s
    using same_config_read_rune [of s] by (auto simp: peek_state_def same_config_def split: prod.splits)
  show "same_config s (snd (read_state s))" for s
    using same_config_read_rune [of s]
    by (auto simp: read_state_def same_config_def Let_def split: prod.splits)
qed (auto simp: same_config_def errorf_def enterNesting_def bnd_def gets_def modify_def ret_def
    split: if_splits)

section \<open>A halted or cancelled parser is frozen\<close>

text \<open>It stays so, reads nothing more from the reader, polls no context and reports nothing.\<close>

definition frozen :: "parser \<Rightarrow> parser \<Rightarrow> bool" where
  "frozen s t \<longleftrightarrow> (halted s \<longrightarrow> halted t) \<and> (\<forall>e. contextErr s = Some e \<longrightarrow> contextErr t = Some e) \<and>
    (stuck s \<longrightarrow> errs t = errs s \<and> reader t = reader s \<and> readCount t = readCount s)"

lemma frozen_read_rune: "frozen s (snd (read_rune s))"
  by (auto simp: read_rune_def read_reader_def frozen_def stuck_def Let_def split: option.splits list.splits)

interpretation frozen: parser_frame frozen
proof unfold_locales
  show "frozen s v" if "frozen s t" "frozen t v" for s t v
    using that by (auto simp: frozen_def stuck_def)
  show "frozen s (snd (peek_state s))" for s
    using frozen_read_rune [of s] by (auto simp: peek_state_def frozen_def split: prod.splits)
  show "frozen s (snd (read_state s))" for s
    using frozen_read_rune [of s] by (auto simp: read_state_def frozen_def Let_def split: prod.splits)
qed (auto simp: frozen_def stuck_def errorf_def enterNesting_def bnd_def gets_def modify_def ret_def
    split: if_splits)

section \<open>Halting is the last thing reported\<close>

text \<open>
  A parser that is halted or cancelled reports nothing, and one that is halted on the way has reported the nesting
  limit last.
\<close>

definition last_word :: "parser \<Rightarrow> parser \<Rightarrow> bool" where
  "last_word s t \<longleftrightarrow> (\<forall>e. contextErr s = Some e \<longrightarrow> contextErr t = Some e) \<and> (halted s \<longrightarrow> halted t) \<and>
    (\<exists>new. errs t = errs s @ new \<and> (stuck s \<longrightarrow> new = []) \<and>
      (\<not> halted s \<and> halted t \<and> contextErr t = None \<longrightarrow> new \<noteq> [] \<and> err_msg (last new) = MaxNestingExceeded))"

lemma last_word_trans:
  assumes "last_word s t" "last_word t v"
  shows "last_word s v"
proof -
  obtain a where a: "errs t = errs s @ a" "stuck s \<longrightarrow> a = []"
    "\<not> halted s \<and> halted t \<and> contextErr t = None \<longrightarrow> a \<noteq> [] \<and> err_msg (last a) = MaxNestingExceeded"
    using assms(1) by (auto simp: last_word_def)
  obtain b where b: "errs v = errs t @ b" "stuck t \<longrightarrow> b = []"
    "\<not> halted t \<and> halted v \<and> contextErr v = None \<longrightarrow> b \<noteq> [] \<and> err_msg (last b) = MaxNestingExceeded"
    using assms(2) by (auto simp: last_word_def)
  have keep: "stuck s \<Longrightarrow> stuck t" "halted t \<Longrightarrow> b = []" "contextErr v = None \<Longrightarrow> contextErr t = None"
    using assms b(2) by (auto simp: last_word_def stuck_def)
  have "err_msg (last (a @ b)) = MaxNestingExceeded \<and> a @ b \<noteq> []" if "\<not> halted s" "halted v" "contextErr v = None"
    using that a(3) b(3) keep by (cases "halted t") auto
  then show ?thesis
    unfolding last_word_def using assms a(1,2) b(1,2) keep(1)
    by (intro conjI exI [of _ "a @ b"]) (auto simp: last_word_def)
qed

lemma last_word_read_rune: "last_word s (snd (read_rune s))"
  by (auto simp: last_word_def stuck_def read_rune_def read_reader_def Let_def split: option.splits list.splits)

interpretation reports: parser_frame last_word
proof unfold_locales
  show "last_word s v" if "last_word s t" "last_word t v" for s t v
    using that by (rule last_word_trans)
  show "last_word s (snd (peek_state s))" for s
    using last_word_read_rune [of s] by (auto simp: peek_state_def last_word_def split: prod.splits)
  show "last_word s (snd (read_state s))" for s
    using last_word_read_rune [of s] by (auto simp: read_state_def last_word_def Let_def split: prod.splits)
qed (auto simp: last_word_def stuck_def errorf_def enterNesting_def bnd_def gets_def modify_def ret_def
    split: if_splits)

section \<open>Why the parser stops early\<close>

text \<open>
  Halting reports that the nesting is too deep, unless the parser was cancelled; and a
  cancelled parser holds the error of its context at a read count it polls.
\<close>

definition polled :: "parser \<Rightarrow> gostr \<Rightarrow> bool" where
  "polled s e \<longleftrightarrow> (\<exists>c n. ctx s = Some c \<and> n mod 256 = 1 \<and> c n = Some e)"

definition explained :: "parser \<Rightarrow> parser \<Rightarrow> bool" where
  "explained s t \<longleftrightarrow> errs_extend s t \<and> ctx t = ctx s \<and>
    (halted t \<longrightarrow> halted s \<or> contextErr t \<noteq> None \<or> MaxNestingExceeded \<in> err_msg ` set (errs t)) \<and>
    (contextErr s \<noteq> None \<longrightarrow> contextErr t = contextErr s) \<and>
    (\<forall>e. contextErr t = Some e \<longrightarrow> contextErr s = Some e \<or> polled s e)"

lemma explained_read_rune: "explained s (snd (read_rune s))"
  using errs_extend_read_rune [of s]
  by (auto simp: explained_def read_rune_def read_reader_def polled_def ctx_poll_def Let_def
      split: option.splits list.splits if_splits)

interpretation stops: parser_frame explained
proof unfold_locales
  show "explained s v" if "explained s t" "explained t v" for s t v
    using that errors.R_trans [of s t v]
    by (auto simp: explained_def polled_def errs_extend_def)
  show "explained s (snd (peek_state s))" for s
    using explained_read_rune [of s]
    by (auto simp: peek_state_def explained_def errs_extend_def split: prod.splits)
  show "explained s (snd (read_state s))" for s
    using explained_read_rune [of s]
    by (auto simp: read_state_def explained_def errs_extend_def Let_def split: prod.splits)
qed (auto simp: explained_def errs_extend_def errorf_def enterNesting_def bnd_def gets_def modify_def
    ret_def split: if_splits)

end
