(* ===== verification/Parser_Entry.thy ===== *)
theory Parser_Entry
  imports Parser_Total Parser_Frame
begin

text \<open>
  What the contract of \<open>Parser_Total\<close> and the frames of \<open>Parser_Frame\<close> say of the entry points
  \<^verbatim>\<open>ParseContext\<close>, \<^verbatim>\<open>ParseKey\<close>, \<^verbatim>\<open>ParseMapKey\<close> and \<^verbatim>\<open>ParseValue\<close> (\<^verbatim>\<open>d2parser/parse.go\<close>): the parser
  they start with, and how their result follows from the state they end in.
\<close>

section \<open>Files\<close>

text \<open>The parser a file is parsed with.\<close>

definition file_parser ::
  "(nat \<Rightarrow> gostr option) \<Rightarrow> unicode_tables \<Rightarrow> gostr \<Rightarrow> parse_input \<Rightarrow> parse_options option \<Rightarrow> parser" where
  "file_parser c u pth inp opts =
    init_parser (Some c) u pth ((case opts of None \<Rightarrow> False | Some x \<Rightarrow> opt_utf16 x) \<or> in_bom inp)
      (in_runes inp) (in_err inp) (case opts of None \<Rightarrow> [] | Some x \<Rightarrow> opt_errs x)"

definition file_error :: "parser \<Rightarrow> go_error option" where
  "file_error s =
    (case contextErr s of
       Some e \<Rightarrow> Some (ContextError e)
     | None \<Rightarrow> if errs s \<noteq> [] then Some (ParseErrors (errs s)) else None)"

lemma ParseContext_eq:
  "ParseContext c u pth inp opts =
    (case parseMap parseValue True (file_parser c u pth inp opts) of
       Ok m s \<Rightarrow> Returned m (file_error s)
     | Panic r \<Rightarrow> Panicked r
     | NoFuel \<Rightarrow> Diverged)"
  by (cases opts)
    (simp_all add: ParseContext_def file_parser_def file_error_def Let_def split: outcome.split)

lemma file_parser_reach:
  "reach (file_parser c u pth inp opts) [] [] (file_parser c u pth inp opts)"
  "rest (file_parser c u pth inp opts) = in_runes inp"
  "pos (file_parser c u pth inp opts) = pos0"
  "nestingDepth (file_parser c u pth inp opts) = 0"
  by (simp_all add: file_parser_def init_reach)

lemma file_parser_fields [simp]:
  "ctx (file_parser c u pth inp opts) = Some c" "path (file_parser c u pth inp opts) = pth"
  "halted (file_parser c u pth inp opts) = False" "contextErr (file_parser c u pth inp opts) = None"
  "errs (file_parser c u pth inp opts) = (case opts of None \<Rightarrow> [] | Some x \<Rightarrow> opt_errs x)"
  "utf16Pos (file_parser c u pth inp opts) =
     ((case opts of None \<Rightarrow> False | Some x \<Rightarrow> opt_utf16 x) \<or> in_bom inp)"
  by (simp_all add: file_parser_def init_parser_def)

text \<open>What holds of the parser when the file's map is returned.\<close>

lemma file_map_wp:
  "wp {SliceOutOfRange} (parseMap parseValue True) (\<lambda>m t.
     reaches (file_parser c u pth inp opts) t \<and> (stuck t \<or> rest t = []) \<and>
     m_range m = \<lparr>rng_Path = path t, Start = pos0, End = pos t\<rparr>) (file_parser c u pth inp opts)"
  using wp_file_map [OF _ file_parser_reach(1,4), of "{SliceOutOfRange}"]
  by (simp add: file_parser_reach)

lemma file_map_returned:
  assumes "ParseContext c u pth inp opts = Returned m err"
  obtains t where "parseMap parseValue True (file_parser c u pth inp opts) = Ok m t"
    and "err = file_error t" and "reaches (file_parser c u pth inp opts) t"
    and "stuck t \<or> rest t = []" and "m_range m = \<lparr>rng_Path = pth, Start = pos0, End = pos t\<rparr>"
    and "explained (file_parser c u pth inp opts) t"
proof -
  from assms obtain t where t: "parseMap parseValue True (file_parser c u pth inp opts) = Ok m t"
    "err = file_error t"
    by (auto simp: ParseContext_eq split: outcome.splits)
  moreover have "explained (file_parser c u pth inp opts) t"
    using stops.keepsD [OF stops.keeps_map [OF stops.keeps_value] t(1)] .
  moreover from this have "path t = pth"
    by (simp add: explained_def errs_extend_def)
  ultimately show thesis
    using that file_map_wp [of c u pth inp opts] by (auto simp: wp_def)
qed

section \<open>Strings\<close>

lemma string_parser_reach:
  "reach (string_parser u s) [] [] (string_parser u s)" "nestingDepth (string_parser u s) = 0"
  by (simp_all add: string_parser_def init_reach)

lemma parse_string_with_cases:
  assumes "wp A m Q (string_parser u s)"
  shows "(\<exists>k e. parse_string_with m u s = Returned k e) \<or>
    (\<exists>r \<in> A. parse_string_with m u s = Panicked r)"
  using assms by (auto simp: wp_def parse_string_with_def split: outcome.splits option.splits)

lemma parse_string_with_total:
  assumes "steps_at 0 A m"
  shows "(\<exists>k e. parse_string_with m u s = Returned k e) \<or>
    (\<exists>r \<in> A. parse_string_with m u s = Panicked r)"
  using assms string_parser_reach [of u s]
  by (intro parse_string_with_cases [where Q = "\<lambda>_ t. reaches (string_parser u s) t"])
    (auto simp: steps_at_def)

lemma steps_at_steps: "steps A m \<Longrightarrow> steps_at k A m"
  by (simp add: steps_def steps_at_def)

end
