(* ===== verification/Parser_Knot.thy ===== *)
theory Parser_Knot
  imports Parser_Total
begin

text \<open>
  The equations of the code for the functions the model ties by hand (\<^verbatim>\<open>d2parser/parse.go\<close>).
  \<open>parseValue\<close> is a level of \<open>parseValue_level\<close>; \<open>approx m m'\<close> says that \<open>m'\<close> does what \<open>m\<close> does
  wherever \<open>m\<close> has fuel, and each parse function of \<open>Parser\<close> is monotone in it, so that one more level
  changes nothing. A string in a key calls for no substitution, so its callee does not matter.
\<close>

definition approx :: "'a prs \<Rightarrow> 'a prs \<Rightarrow> bool" where
  "approx m m' \<longleftrightarrow> (\<forall>s. m s = NoFuel \<or> m s = m' s)"

named_theorems approx_rules \<open>closure rules of the approximation order\<close>

lemma approx_refl [approx_rules]: "approx m m"
  by (simp add: approx_def)

lemma approx_bnd [approx_rules]:
  assumes "approx m m'" and "\<And>x. approx (f x) (f' x)"
  shows "approx (bnd m f) (bnd m' f')"
  unfolding approx_def
proof
  fix s
  show "bnd m f s = NoFuel \<or> bnd m f s = bnd m' f' s"
  proof (cases "m s = NoFuel")
    case False
    then have "m' s = m s"
      using assms(1) unfolding approx_def by metis
    then show ?thesis
      using assms(2) by (auto simp: bnd_def approx_def split: outcome.split)
  qed (simp add: bnd_def)
qed

lemma approx_if [approx_rules]:
  "approx m m' \<Longrightarrow> approx n n' \<Longrightarrow> approx (if b then m else n) (if b then m' else n')"
  by simp

lemma approx_prod [approx_rules]:
  "(\<And>a b. approx (f a b) (f' a b)) \<Longrightarrow> approx (case x of (a, b) \<Rightarrow> f a b) (case x of (a, b) \<Rightarrow> f' a b)"
  by (simp split: prod.split)

lemma approx_option [approx_rules]:
  "approx m m' \<Longrightarrow> (\<And>y. approx (f y) (f' y)) \<Longrightarrow>
   approx (case x of None \<Rightarrow> m | Some y \<Rightarrow> f y) (case x of None \<Rightarrow> m' | Some y \<Rightarrow> f' y)"
  by (simp split: option.split)

lemma approx_special [approx_rules]:
  "(\<And>c. approx (a c) (a' c)) \<Longrightarrow> (\<And>c. approx (b c) (b' c)) \<Longrightarrow> (\<And>x. approx (d x) (d' x)) \<Longrightarrow>
   (\<And>i. approx (e i) (e' i)) \<Longrightarrow>
   approx (case x of SpComment c \<Rightarrow> a c | SpBlockComment c \<Rightarrow> b c | SpSubstitution s \<Rightarrow> d s | SpImport i \<Rightarrow> e i)
     (case x of SpComment c \<Rightarrow> a' c | SpBlockComment c \<Rightarrow> b' c | SpSubstitution s \<Rightarrow> d' s | SpImport i \<Rightarrow> e' i)"
  by (simp split: special_node.split)

lemma approx_sum [approx_rules]:
  "(\<And>u. approx (f u) (f' u)) \<Longrightarrow> (\<And>r. approx (g r) (g' r)) \<Longrightarrow>
   approx (case x of Inl u \<Rightarrow> f u | Inr r \<Rightarrow> g r) (case x of Inl u \<Rightarrow> f' u | Inr r \<Rightarrow> g' r)"
  by (simp split: sum.split)

lemma approx_loop: "(\<And>u. approx (body u) (body' u)) \<Longrightarrow> approx (loop n body u) (loop n body' u)"
proof (induction n arbitrary: u)
  case 0
  then show ?case by (simp add: approx_def)
next
  case (Suc n)
  then show ?case
    unfolding loop_Suc by (intro approx_rules) auto
qed

lemma approx_forever [approx_rules]:
  "(\<And>u. approx (body u) (body' u)) \<Longrightarrow> approx (forever body u) (forever body' u)"
  using approx_loop [of body body'] unfolding approx_def forever_def by blast

lemma approx_mapKey:
  assumes "approx pv pv'"
  shows "approx (parseMapKey pv) (parseMapKey pv')"
  unfolding parseMapKey_def mapKey_body_def parseEdgeGroup_def edgeGroup_body_def
    parseMapKeyValue_def mapKey_value_def Let_def
  by (intro approx_rules assms)

lemma approx_map:
  assumes "approx pv pv'"
  shows "approx (parseMap pv isFileMap) (parseMap pv' isFileMap)"
  unfolding parseMap_def nested_def parseMap_step_def parseMapNode_def Let_def
  by (intro approx_rules approx_mapKey assms)

lemma approx_array:
  assumes "approx pv pv'"
  shows "approx (parseArray pv) (parseArray pv')"
  unfolding parseArray_def nested_def parseArray_step_def parseArrayNode_def Let_def
  by (intro approx_rules assms)

lemma approx_value_body:
  assumes "approx pv pv'"
  shows "approx (parseValue_body pv) (parseValue_body pv')"
  unfolding parseValue_body_def by (intro approx_rules approx_map approx_array assms)

lemma parseValue_level_Suc: "parseValue_level (Suc n) = parseValue_body (parseValue_level n)"
  by (rule ext) simp

lemma approx_level: "approx (parseValue_level n) (parseValue_level (Suc n))"
proof (induction n)
  case 0
  then show ?case by (simp add: approx_def)
next
  case (Suc n)
  show ?case
    unfolding parseValue_level_Suc by (rule approx_value_body [OF Suc.IH [unfolded parseValue_level_Suc]])
qed

lemma parseValue_total:
  assumes "buffer_ok s" and "lookahead s = []"
  shows "wp {SliceOutOfRange} parseValue (\<lambda>_ t. reaches s t) s"
  using assms steps_at_parseValue [of "{SliceOutOfRange}" "nestingDepth s"]
  by (auto simp: steps_at_def buffer_ok_def reach_def)

lemma parseValue_next_level:
  assumes "buffer_ok s" and "lookahead s = []"
  shows "parseValue s = parseValue_level (Suc parse_level) s"
proof -
  have "parseValue s \<noteq> NoFuel"
    using parseValue_total [OF assms] by (auto simp: wp_def)
  then show ?thesis
    using approx_level [of parse_level] unfolding approx_def parseValue_def by metis
qed

lemma in_key_substitution:
  "parseUnquotedString_body psubst True = parseUnquotedString_body psubst' True"
  "parseDoubleQuotedString_body psubst True = parseDoubleQuotedString_body psubst' True"
proof -
  have t: "unquoted_text psubst True = unquoted_text psubst' True" 
    by (intro ext) (simp add: unquoted_text_def)
  show "parseUnquotedString_body psubst True = parseUnquotedString_body psubst' True"
    unfolding parseUnquotedString_body_def unquoted_step_def [abs_def] unquoted_dash_def unquoted_rune_def t ..
  show "parseDoubleQuotedString_body psubst True = parseDoubleQuotedString_body psubst' True"
    unfolding parseDoubleQuotedString_body_def dq_step_def [abs_def] not_True_eq_False simp_thms if_False ..
qed

end
