(* ===== verification/Format.thy ===== *)
theory Format
  imports Ast "HOL-Library.Monad_Syntax"
begin

text \<open>
  The formatter (\<^verbatim>\<open>d2format/escape.go\<close>, \<^verbatim>\<open>format.go\<close>, \<^verbatim>\<open>keypath.go\<close>): the three escapers, and the
  printer as functions from the printer's state to the next one. None is a nil dereference: a text
  box without text, or an edge index with neither a number nor a star. The Go printer caches
  the escaped text in a single quoted node and the trimmed text in a block string; a node is
  printed once per call, so the model does not carry these assignments.
\<close>

section \<open>Escaping\<close>

fun escapeSingleQuotedValue :: "gostr \<Rightarrow> gostr" where
  "escapeSingleQuotedValue [] = []"
| "escapeSingleQuotedValue (r # rs) =
    (if r = rSQ then [rSQ, rSQ]
     else if r = rNL then [rBsl, 110]
     else [range_rune r]) @ escapeSingleQuotedValue rs"

fun escapeDoubledQuotedValue :: "gostr \<Rightarrow> bool \<Rightarrow> gostr" where
  "escapeDoubledQuotedValue [] inKey = []"
| "escapeDoubledQuotedValue (r # rs) inKey =
    (if r = rDQ \<or> r = rBsl then [rBsl, r]
     else if r = rNL then [rBsl, 110]
     else if \<not> inKey \<and> r = rDollar then [rBsl, r]
     else [range_rune r]) @ escapeDoubledQuotedValue rs inKey"

fun escape_unquoted_from :: "bool \<Rightarrow> bool \<Rightarrow> gostr \<Rightarrow> gostr" where
  "escape_unquoted_from inKey first [] = []"
| "escape_unquoted_from inKey first (r # rs) =
    (if r = rSQ \<or> r = rDQ \<or> r = rPipe then (if first then [rBsl, r] else [r])
     else if r = rNL then [rBsl, 110]
     else if inKey then
       (if r = rDash then (if rs \<noteq> [] \<and> hd rs = rDash then [rBsl, r] else [r])
        else if r = rAmp then (if first then [rBsl, r] else [r])
        else if r \<in> set UnquotedKeySpecials then [rBsl, r]
        else [range_rune r])
     else if r \<in> set UnquotedValueSpecials then [rBsl, r]
     else [range_rune r]) @ escape_unquoted_from inKey False rs"

definition escapeUnquotedValue :: "gostr \<Rightarrow> bool \<Rightarrow> gostr" where
  "escapeUnquotedValue s inKey =
    (if s = [] then [rDQ, rDQ]
     else if equal_fold s (runes ''null'') then [rSQ] @ runes ''null'' @ [rSQ]
     else escape_unquoted_from inKey True s)"

section \<open>The printer\<close>

record printer =
  p_sb :: gostr
  p_indentStr :: gostr
  p_inKey :: bool

definition p_write :: "gostr \<Rightarrow> printer \<Rightarrow> printer" where
  "p_write s p = p\<lparr>p_sb := p_sb p @ s\<rparr>"

definition p_indent :: "printer \<Rightarrow> printer" where
  "p_indent p = p\<lparr>p_indentStr := p_indentStr p @ [rSp, rSp]\<rparr>"

definition p_deindent :: "printer \<Rightarrow> printer" where
  "p_deindent p = p\<lparr>p_indentStr := take (length (p_indentStr p) - 2) (p_indentStr p)\<rparr>"

definition p_newline :: "printer \<Rightarrow> printer" where
  "p_newline p = p_write (rNL # p_indentStr p) p"

fun p_comment_lines :: "gostr list \<Rightarrow> printer \<Rightarrow> printer" where
  "p_comment_lines [] p = p"
| "p_comment_lines (l # ls) p =
    (let p = p_write ((if l \<noteq> [] then [rHash, rSp] else [rHash]) @ l) p
     in p_comment_lines ls (if ls \<noteq> [] then p_newline p else p))"

definition p_comment :: "comment \<Rightarrow> printer \<Rightarrow> printer" where
  "p_comment c = p_comment_lines (split_on rNL (c_value c))"

text \<open>The lines of a block comment or block string, each on its own line unless in one line.\<close>

fun p_block_lines :: "bool \<Rightarrow> gostr list \<Rightarrow> printer \<Rightarrow> printer" where
  "p_block_lines oneLine [] p = p"
| "p_block_lines oneLine (l # ls) p =
    (let p = (if oneLine then p else if l = [] then p_write [rNL] p else p_newline p)
     in p_block_lines oneLine ls (p_write l p))"

definition p_blockComment :: "block_comment \<Rightarrow> printer \<Rightarrow> printer" where
  "p_blockComment bc p =
    (let oneLine = OneLine (bc_range bc);
         p = p_write ([rDQ, rDQ, rDQ] @ (if oneLine then [rSp] else [])) p;
         p = p_block_lines oneLine (split_on rNL (bc_value bc)) p;
         p = (if oneLine then p_write [rSp] p else p_newline p)
     in p_write [rDQ, rDQ, rDQ] p)"

subsection \<open>Block strings\<close>

text \<open>\<^verbatim>\<open>string(quote[len(quote)-1])\<close>: the last byte, as a code point.\<close>

definition last_byte_rune :: "gostr \<Rightarrow> rune" where
  "last_byte_rune q =
    (let r = last q in if r < 0 then - r else if r \<le> 0x7F then r else 0x80 + r mod 64)"

lemma has_prefix_length: "has_prefix p s \<Longrightarrow> length p \<le> length s"
  by (induction p arbitrary: s) (auto split: list.splits)

lemma contains_str_length: "contains_str p s \<Longrightarrow> length p \<le> length s"
  by (induction s) (auto dest: has_prefix_length)

function grow_quote_front :: "gostr \<Rightarrow> gostr \<Rightarrow> gostr" where
  "grow_quote_front v quote =
    (if contains_str (rPipe # quote) v
     then grow_quote_front v (if quote = [] then [rPipe] else quote @ [last_byte_rune quote])
     else quote)"
  by pat_completeness auto
termination
  by (relation "measure (\<lambda>(v, q). length v - length q)")
    (auto dest: contains_str_length)

function grow_quote_back :: "gostr \<Rightarrow> gostr \<Rightarrow> gostr" where
  "grow_quote_back v quote =
    (if contains_str (quote @ [rPipe]) v
     then grow_quote_back v (quote @ [last_byte_rune quote])
     else quote)"
  by pat_completeness auto
termination
  by (relation "measure (\<lambda>(v, q). length v - length q)")
    (auto dest: contains_str_length)

declare grow_quote_front.simps [simp del] grow_quote_back.simps [simp del]

definition block_quote :: "gostr \<Rightarrow> gostr \<Rightarrow> gostr" where
  "block_quote v quote = grow_quote_back v (grow_quote_front v quote)"

definition p_blockString :: "range \<Rightarrow> gostr \<Rightarrow> gostr \<Rightarrow> gostr \<Rightarrow> printer \<Rightarrow> printer" where
  "p_blockString rng quote0 tag v0 p =
    (let quote = block_quote v0 quote0;
         (rng, v) =
           (if rng = range0 then
              (if rNL \<in> set v0 then MakeRange (runes '',1:0:0-2:0:0'') else rng, trim_space v0)
            else (rng, v0));
         oneLine = OneLine rng;
         p = p_write (rPipe # quote @ tag) p;
         p = (if \<not> oneLine then p_indent p else p_write [rSp] p);
         p = p_block_lines oneLine (split_on rNL v) p;
         p = (if \<not> oneLine then p_newline (p_deindent p)
              else if v \<noteq> [] then p_write [rSp] p else p)
     in p_write (quote @ [rPipe]) p)"

subsection \<open>Strings, substitutions and paths\<close>

text \<open>The text printed for a box without a substitution; \<open>afterSubst\<close>: the box before has one.\<close>

definition box_text :: "bool \<Rightarrow> bool \<Rightarrow> bool \<Rightarrow> interpolation_box \<Rightarrow> gostr option" where
  "box_text inKey isDouble afterSubst b =
    Option.bind
      (case ib_raw b of
         None \<Rightarrow>
           map_option (\<lambda>s. if isDouble then escapeDoubledQuotedValue s inKey
                           else escapeUnquotedValue s inKey) (ib_string b)
       | Some raw \<Rightarrow> if afterSubst then ib_string b else Some raw)
      (\<lambda>s. Some (if \<not> isDouble \<and> is_reserved (to_lower s) then to_lower s else s))"

fun p_string :: "string_node \<Rightarrow> printer \<Rightarrow> printer option"
  and p_boxes :: "bool \<Rightarrow> bool \<Rightarrow> interpolation_box list \<Rightarrow> printer \<Rightarrow> printer option"
  and p_box :: "bool \<Rightarrow> bool \<Rightarrow> interpolation_box \<Rightarrow> printer \<Rightarrow> printer option"
  and p_substitution :: "substitution \<Rightarrow> printer \<Rightarrow> printer option"
  and p_path :: "string_node list \<Rightarrow> printer \<Rightarrow> printer option"
where
  "p_string (UnquotedString r v pt) p = p_boxes False False v p"
| "p_string (DoubleQuotedString r v) p =
    map_option (p_write [rDQ]) (p_boxes True False v (p_write [rDQ] p))"
| "p_string (SingleQuotedString r w v) p =
    Some (p_write (rSQ # escapeSingleQuotedValue v @ [rSQ]) p)"
| "p_string (BlockString r q t v) p = Some (p_blockString r q t v p)"
| "p_boxes isDouble afterSubst [] p = Some p"
| "p_boxes isDouble afterSubst (b # bs) p =
    Option.bind (p_box isDouble afterSubst b p) (p_boxes isDouble (ib_subst b \<noteq> None) bs)"
| "p_box isDouble afterSubst (InterpolationBox str raw sub) p =
    (case sub of
       Some x \<Rightarrow> p_substitution x p
     | None \<Rightarrow>
         map_option (\<lambda>s. p_write s p)
           (box_text (p_inKey p) isDouble afterSubst (InterpolationBox str raw sub)))"
| "p_substitution (Substitution r spread pth) p =
    map_option (p_write [rRCur])
      (p_path pth (p_write ((if spread then [rDot, rDot, rDot] else []) @ [rDollar, rLCur]) p))"
| "p_path [] p = Some p"
| "p_path (s # ss) p =
    Option.bind (p_string s p) (\<lambda>p. p_path ss (if ss \<noteq> [] then p_write [rDot] p else p))"

definition p_import :: "import_node \<Rightarrow> printer \<Rightarrow> printer option" where
  "p_import i p =
    (let p = p_write ((if i_spread i then [rDot, rDot, rDot] else []) @ [rAt]) p;
         pre = path_clean (i_pre i);
         p = (if pre \<noteq> [rDot] then p_write (pre @ [rSlash]) p else p)
     in p_path
          (case i_path i of
             [] \<Rightarrow> []
           | x # xs \<Rightarrow> RawString (path_clean (string_ScalarString x)) True # xs) p)"

definition p_scalar :: "scalar \<Rightarrow> printer \<Rightarrow> printer option" where
  "p_scalar sc p =
    (case sc of
       Null r \<Rightarrow> Some (p_write (runes ''null'') p)
     | Suspension r b \<Rightarrow> Some (p_write (if b then runes ''suspend'' else runes ''unsuspend'') p)
     | Boolean r b \<Rightarrow> Some (p_write (format_bool b) p)
     | Number r raw q \<Rightarrow> Some (p_write raw p)
     | String s \<Rightarrow> p_string s p)"

text \<open>A key path is printed with \<open>inKey\<close> set, which is then cleared.\<close>

definition p_key :: "keypath \<Rightarrow> printer \<Rightarrow> printer option" where
  "p_key k p =
    map_option (\<lambda>p. p\<lparr>p_inKey := False\<rparr>) (p_path (kp_path k) (p\<lparr>p_inKey := True\<rparr>))"

definition p_edgeArrowAndDst :: "edge \<Rightarrow> printer \<Rightarrow> printer option" where
  "p_edgeArrowAndDst e p =
    (let p = p_write (if e_srcArrow e = [] then [rDash] else e_srcArrow e) p;
         p = (if e_dstArrow e = [] then p_write [rDash] p
              else p_write ((if e_srcArrow e \<noteq> [] then [rDash] else []) @ e_dstArrow e) p)
     in case e_dst e of None \<Rightarrow> Some p | Some d \<Rightarrow> p_key d (p_write [rSp] p))"

definition p_edge :: "edge \<Rightarrow> printer \<Rightarrow> printer option" where
  "p_edge e p =
    Option.bind
      (case e_src e of None \<Rightarrow> Some p | Some s \<Rightarrow> map_option (p_write [rSp]) (p_key s p))
      (p_edgeArrowAndDst e)"

definition p_edgeIndex :: "edge_index \<Rightarrow> printer \<Rightarrow> printer option" where
  "p_edgeIndex ei p =
    (if ei_glob ei then Some (p_write [rLBr, rStar, rRBr] p)
     else (case ei_int ei of
             None \<Rightarrow> None
           | Some i \<Rightarrow> Some (p_write (rLBr # itoa i @ [rRBr]) p)))"

fun p_edges :: "edge list \<Rightarrow> printer \<Rightarrow> printer option" where
  "p_edges [] p = Some p"
| "p_edges (e # es) p =
    Option.bind (p_edgeArrowAndDst e p)
      (\<lambda>p. p_edges es (if es \<noteq> [] then p_write [rSp] p else p))"

text \<open>The edges of a key with the source of the first one, its index and its edge key.\<close>

definition p_keyEdges :: "key \<Rightarrow> printer \<Rightarrow> printer option" where
  "p_keyEdges mk p =
    (case k_edges mk of
       [] \<Rightarrow> Some p
     | e # _ \<Rightarrow>
         let group = (k_key mk \<noteq> None \<or> k_edgeIndex mk \<noteq> None \<or> k_edgeKey mk \<noteq> None);
             p = (if k_key mk \<noteq> None then p_write [rDot] p else p);
             p = (if group then p_write [rLPar] p else p)
         in do {
           p \<leftarrow> (case e_src e of
                  None \<Rightarrow> Some p | Some s \<Rightarrow> map_option (p_write [rSp]) (p_key s p));
           p \<leftarrow> p_edges (k_edges mk) p;
           p \<leftarrow> Some (if group then p_write [rRPar] p else p);
           p \<leftarrow> (case k_edgeIndex mk of None \<Rightarrow> Some p | Some ei \<Rightarrow> p_edgeIndex ei p);
           (case k_edgeKey mk of None \<Rightarrow> Some p | Some k \<Rightarrow> p_key k (p_write [rDot] p))
         })"

subsection \<open>Maps, arrays and values\<close>

text \<open>Whether a comment stands at the end of the line of the node before it.\<close>

definition inline_comment :: "node \<Rightarrow> range \<Rightarrow> bool" where
  "inline_comment n prevRange \<longleftrightarrow>
    (case n of NComment c \<Rightarrow> True | NBlockComment c \<Rightarrow> True | _ \<Rightarrow> False) \<and>
    Line (Start (GetRange n)) = Line (End prevRange) \<and> OneLine (GetRange n)"

text \<open>What separates a node from the one before: \<open>prev = None\<close> stands for the container itself.\<close>

definition p_separator ::
  "bool \<Rightarrow> bool \<Rightarrow> bool \<Rightarrow> range option \<Rightarrow> range \<Rightarrow> printer \<Rightarrow> printer" where
  "p_separator oneLine isFileMap first prev rng p =
    (if \<not> oneLine then
       (let p = (case prev of
                   None \<Rightarrow> p
                 | Some pr \<Rightarrow> if Line (Start rng) - Line (End pr) > 1 then p_write [rNL] p else p)
        in if \<not> isFileMap \<or> \<not> first then p_newline p else p)
     else if \<not> first then p_write [rSemi, rSp] p else p)"

definition is_printed_board :: "map_node \<Rightarrow> bool" where
  "is_printed_board n \<longleftrightarrow>
    IsBoardNode n \<and>
    (case n of
       KeyN k \<Rightarrow> (case k_value k of Some (MapV m) \<Rightarrow> m_nodes m \<noteq> [] | _ \<Rightarrow> False)
     | _ \<Rightarrow> False)"

definition p_keyHead :: "key \<Rightarrow> printer \<Rightarrow> printer option" where
  "p_keyHead mk p =
    do {
      p \<leftarrow> Some (if k_ampersand mk then p_write [rAmp] p
                else if k_notAmpersand mk then p_write [rBang, rAmp] p else p);
      p \<leftarrow> (case k_key mk of None \<Rightarrow> Some p | Some k \<Rightarrow> p_key k p);
      p \<leftarrow> p_keyEdges mk p;
      (case k_primary mk of None \<Rightarrow> Some p | Some sc \<Rightarrow> p_scalar sc (p_write [rColon, rSp] p))
    }"

fun p_val :: "val \<Rightarrow> printer \<Rightarrow> printer option"
  and p_array :: "array \<Rightarrow> printer \<Rightarrow> printer option"
  and p_array_nodes :: "range \<Rightarrow> bool \<Rightarrow> range option \<Rightarrow> array_node list \<Rightarrow> printer \<Rightarrow> printer option"
  and p_array_node :: "array_node \<Rightarrow> printer \<Rightarrow> printer option"
  and p_map :: "d2map \<Rightarrow> printer \<Rightarrow> printer option"
  and p_map_nodes ::
    "range \<Rightarrow> bool \<Rightarrow> bool \<Rightarrow> range option \<Rightarrow> map_node list \<Rightarrow> printer \<Rightarrow> printer option"
  and p_boards :: "bool \<Rightarrow> map_node list \<Rightarrow> printer \<Rightarrow> printer option"
  and p_map_node :: "map_node \<Rightarrow> printer \<Rightarrow> printer option"
  and p_mapKey :: "key \<Rightarrow> printer \<Rightarrow> printer option"
  and p_keyValue :: "bool \<Rightarrow> val option \<Rightarrow> printer \<Rightarrow> printer option"
where
  "p_val (ScalarV sc) p = p_scalar sc p"
| "p_val (ArrayV a) p = p_array a p"
| "p_val (MapV m) p = p_map m p"
| "p_val (ImportV i) p = p_import i p"
| "p_array (Array rng nodes) p =
    (let p = p_write [rLBr] p;
         p = (if OneLine rng then p else p_indent p)
     in map_option (\<lambda>p. p_write [rRBr] (if OneLine rng then p else p_newline (p_deindent p)))
          (p_array_nodes rng True None nodes p))"
| "p_array_nodes rng first prev [] p = Some p"
| "p_array_nodes rng first prev (nb # nodes) p =
    (let n = array_node_node nb; r = GetRange n in
     if \<not> first \<and> inline_comment n (case prev of None \<Rightarrow> rng | Some pr \<Rightarrow> pr) then
       Option.bind (p_array_node nb (p_write [rSp] p)) (p_array_nodes rng False prev nodes)
     else
       Option.bind (p_array_node nb (p_separator (OneLine rng) False first prev r p))
         (p_array_nodes rng False (Some r) nodes))"
| "p_array_node (ACommentN c) p = Some (p_comment c p)"
| "p_array_node (ABlockCommentN c) p = Some (p_blockComment c p)"
| "p_array_node (ASubstitutionN s) p = p_substitution s p"
| "p_array_node (AImportN i) p = p_import i p"
| "p_array_node (AValueN v) p = p_val v p"
| "p_map (Map rng nodes) p =
    (let isFile = IsFileMap (Map rng nodes);
         nBoards = length (filter is_printed_board nodes);
         p = (if isFile then p
              else let p = p_write [rLCur] p in if OneLine rng then p else p_indent p)
     in do {
       p \<leftarrow> p_map_nodes rng isFile True None nodes p;
       p \<leftarrow> p_boards (nBoards < length nodes) nodes p;
       Some (if \<not> isFile
             then p_write [rRCur] (if OneLine rng then p else p_newline (p_deindent p))
             else if nodes \<noteq> [] then p_write [rNL] p else p)
     })"
| "p_map_nodes rng isFile first prev [] p = Some p"
| "p_map_nodes rng isFile first prev (nb # nodes) p =
    (let n = map_node_node nb; r = GetRange n in
     if IsBoardNode nb then p_map_nodes rng isFile False (Some r) nodes p
     else if \<not> first \<and> inline_comment n (case prev of None \<Rightarrow> rng | Some pr \<Rightarrow> pr) then
       Option.bind (p_map_node nb (p_write [rSp] p)) (p_map_nodes rng isFile False prev nodes)
     else
       Option.bind (p_map_node nb (p_separator (OneLine rng) isFile first prev r p))
         (p_map_nodes rng isFile False (Some r) nodes))"
| "p_boards blank [] p = Some p"
| "p_boards blank (nb # nodes) p =
    (if is_printed_board nb then
       (let p = (if Line (Start (GetRange (map_node_node nb))) \<noteq> 0 then p_write [rNL] p else p);
            p = (if blank then p_write [rNL] p else p);
            p = p_write (p_indentStr p) p
        in Option.bind (p_map_node nb p) (p_boards True nodes))
     else p_boards blank nodes p)"
| "p_map_node (CommentN c) p = Some (p_comment c p)"
| "p_map_node (BlockCommentN c) p = Some (p_blockComment c p)"
| "p_map_node (SubstitutionN s) p = p_substitution s p"
| "p_map_node (ImportN i) p = p_import i p"
| "p_map_node (KeyN k) p = p_mapKey k p"
| "p_mapKey (Key rng amp namp k es ei ek prim v) p =
    Option.bind (p_keyHead (Key rng amp namp k es ei ek prim v) p) (p_keyValue (prim \<noteq> None) v)"
| "p_keyValue hasPrimary None p = Some p"
| "p_keyValue hasPrimary (Some v) p =
    (case val_map v of
       Some m \<Rightarrow>
         if m_nodes m = [] then Some p
         else p_val v (p_write (if hasPrimary then [rSp] else [rColon, rSp]) p)
     | None \<Rightarrow> p_val v (p_write (if hasPrimary then [rSp] else [rColon, rSp]) p))"

section \<open>Entry points\<close>

definition p_node :: "node \<Rightarrow> printer \<Rightarrow> printer option" where
  "p_node n p =
    (case n of
       NComment c \<Rightarrow> Some (p_comment c p)
     | NBlockComment c \<Rightarrow> Some (p_blockComment c p)
     | NScalar sc \<Rightarrow> p_scalar sc p
     | NSubstitution s \<Rightarrow> p_substitution s p
     | NImport i \<Rightarrow> p_import i p
     | NArray a \<Rightarrow> p_array a p
     | NMap m \<Rightarrow> p_map m p
     | NKey k \<Rightarrow> p_mapKey k p
     | NKeyPath k \<Rightarrow> p_key k p
     | NEdge e \<Rightarrow> p_edge e p
     | NEdgeIndex i \<Rightarrow> p_edgeIndex i p)"

definition new_printer :: printer where
  "new_printer = \<lparr>p_sb = [], p_indentStr = [], p_inKey = False\<rparr>"

definition Format :: "node \<Rightarrow> gostr option" where
  "Format n = map_option p_sb (p_node n new_printer)"

text \<open>\<^verbatim>\<open>KeyPath\<close>: each part of a key path, formatted so that it can be parsed again.\<close>

definition format_KeyPath :: "keypath \<Rightarrow> gostr option list" where
  "format_KeyPath kp =
    map (\<lambda>s. Format (NKeyPath (KeyPath range0 [RawString (string_ScalarString s) True])))
      (kp_path kp)"

definition plainKey :: "gostr \<Rightarrow> bool" where
  "plainKey s \<longleftrightarrow>
    s \<noteq> [] \<and>
    list_all (\<lambda>c. (97 \<le> c \<and> c \<le> 122) \<or> (65 \<le> c \<and> c \<le> 90) \<or> (48 \<le> c \<and> c \<le> 57) \<or> c = rUnd) s"

definition fmt_key_part :: "gostr \<Rightarrow> printer \<Rightarrow> printer option" where
  "fmt_key_part v p =
    (if plainKey v \<and> \<not> (\<exists>r \<in> set v. r \<in> set UnquotedKeySpecials) then
       (let lower = to_lower v in
        if lower = runes ''null'' then Some (p_write ([rSQ] @ runes ''null'' @ [rSQ]) p)
        else if is_reserved lower then Some (p_write lower p)
        else Some (p_write v p))
     else p_string (RawString v True) p)"

fun fmt_key_parts :: "bool \<Rightarrow> string_node list \<Rightarrow> printer \<Rightarrow> printer option" where
  "fmt_key_parts first [] p = Some p"
| "fmt_key_parts first (s # ss) p =
    Option.bind (fmt_key_part (string_ScalarString s) (if first then p else p_write [rDot] p))
      (fmt_key_parts False ss)"

definition FormatKeyPath :: "string_node list \<Rightarrow> gostr option" where
  "FormatKeyPath a = map_option p_sb (fmt_key_parts True a (new_printer\<lparr>p_inKey := True\<rparr>))"

end
