(* ===== verification/Parser_View.thy ===== *)
theory Parser_View
  imports Parser_Total Format
begin

text \<open>
  Parsing a known text. \<open>view s0 cs la rs s\<close> describes the parser exactly: reached from \<open>s0\<close> by taking
  the runes \<open>cs\<close>, with the runes \<open>la\<close> peeked and \<open>rs\<close> after them, and nothing to stop it. The
  rules of \<open>view_rules\<close> execute the buffer operations of \<^verbatim>\<open>d2parser/parse.go\<close> on such a state, and
  the rest of the theory uses them to parse what the escapers of \<^verbatim>\<open>d2format/escape.go\<close> print: double
  quoted strings, single quoted strings and the unquoted strings of a key.
\<close>

section \<open>Exact states\<close>

text \<open>A parser that nothing stops, with exactly the runes \<open>la\<close> peeked and \<open>rs\<close> after them.\<close>

definition view :: "parser \<Rightarrow> rune list \<Rightarrow> rune list \<Rightarrow> rune list \<Rightarrow> parser \<Rightarrow> bool" where
  "view s0 cs la rs s \<longleftrightarrow> reach s0 cs la s \<and> lookahead s = la \<and> unread s = rs \<and> \<not> stuck s \<and>
    ctx s = None \<and> reader_err s = None \<and> inEdgeGroup s = False \<and> errs s = errs s0"

named_theorems view_rules \<open>rules for parsing a known text\<close>

lemma view_reach: "view s0 cs la rs s \<Longrightarrow> reach s0 cs la s"
  by (simp add: view_def)

lemma wp_weaken: "wp A m Q s \<Longrightarrow> (\<And>x t. Q x t \<Longrightarrow> R x t) \<Longrightarrow> wp A m R s"
  by (erule wp_mono) simp_all

lemma view_work:
  "view s0 cs la rs s \<Longrightarrow> view s0 ds lb xs t \<Longrightarrow> length lb + length xs < length la + length rs \<Longrightarrow>
   work t < work s"
  by (auto simp: view_def work_def avail_def rest_def intro: rank_less)

lemma read_rune_view:
  assumes "view s0 cs la (r # rs) s"
  shows "\<exists>t. read_rune s = ((r, False), t) \<and> ctx t = None \<and> reader_err t = None \<and>
    inEdgeGroup t = False \<and> errs t = errs s"
proof (cases "drop (readaheadIndex s) (readahead s)")
  case Nil
  then show ?thesis
    using assms
    by (auto simp: view_def read_rune_def read_reader_def unread_def stuck_def ctx_poll_def reach_def
        buffer_ok_def Let_def)
next
  case (Cons x xs)
  then have "readaheadIndex s < length (readahead s)"
    by (metis drop_all leI list.distinct(1))
  moreover have "readahead s ! readaheadIndex s = x"
    using Cons by (rule nth_via_drop)
  ultimately show ?thesis
    using assms Cons
    by (auto simp: view_def read_rune_def unread_def stuck_def ctx_poll_def Let_def)
qed

lemma read_rune_view_end:
  assumes "view s0 cs la [] s"
  shows "\<exists>t. read_rune s = ((0, True), t) \<and> ctx t = None \<and> reader_err t = None \<and> \<not> stuck t \<and>
    inEdgeGroup t = False \<and> errs t = errs s"
  using assms
  by (auto simp: view_def read_rune_def read_reader_def unread_def stuck_def ctx_poll_def Let_def
      rewind_state_def split: option.splits)

lemma view_peek [view_rules]:
  assumes "view s0 cs la (r # rs) s" and "\<And>t. view s0 cs (la @ [r]) rs t \<Longrightarrow> Q (r, False) t"
  shows "wp A peek Q s"
proof -
  obtain t where t: "read_rune s = ((r, False), t)" "ctx t = None" "reader_err t = None"
    "inEdgeGroup t = False" "errs t = errs s"
    using read_rune_view [OF assms(1)] by blast
  define t' where "t' = t\<lparr>lookahead := lookahead t @ [r],
    lookaheadPos := Advance (lookaheadPos t) r (utf16Pos t)\<rparr>"
  have p: "peek_state s = ((r, False), t')"
    by (simp add: peek_state_def t(1) t'_def)
  have "lookahead t' = la @ [r]"
    using read_rune_live [OF t(1)] assms(1) by (simp add: t'_def view_def)
  then have "view s0 cs (la @ [r]) rs t'"
    using peek_live [OF view_reach [OF assms(1)] p] t assms(1) by (auto simp: view_def t'_def)
  then show ?thesis
    using assms(2) p by (simp add: wp_def peek_def state_op_def)
qed

lemma view_peek_end [view_rules]:
  assumes "view s0 cs la [] s" and "\<And>t. view s0 cs [] la t \<Longrightarrow> Q (0, True) t"
  shows "wp A peek Q s"
proof -
  obtain t where t: "read_rune s = ((0, True), t)" "ctx t = None" "reader_err t = None"
    "inEdgeGroup t = False" "errs t = errs s" "\<not> stuck t"
    using read_rune_view_end [OF assms(1)] by blast
  have p: "peek_state s = ((0, True), t)"
    by (simp add: peek_state_def t(1))
  have "reach s0 cs [] t" "rest t = la" "lookahead t = []"
    using peek_eof [OF view_reach [OF assms(1)] p] t(6) by (auto simp: reach_def)
  then have "view s0 cs [] la t"
    using t assms(1) by (auto simp: view_def rest_def)
  then show ?thesis
    using assms(2) p by (simp add: wp_def peek_def state_op_def)
qed

lemma view_rewind [view_rules]:
  assumes "view s0 cs la rs s" and "\<And>t. view s0 cs [] (la @ rs) t \<Longrightarrow> Q () t"
  shows "wp A rewind Q s"
proof -
  have "inEdgeGroup (rewind_state s) = inEdgeGroup s" "reader_err (rewind_state s) = reader_err s"
    "errs (rewind_state s) = errs s" "unread (rewind_state s) = lookahead s @ unread s"
    by (simp_all add: rewind_state_def unread_def)
  then have "view s0 cs [] (la @ rs) (rewind_state s)"
    using assms(1) reach_rewind [OF view_reach [OF assms(1)]] by (simp add: view_def)
  then show ?thesis
    using assms(2) by (simp add: rewind_def)
qed

lemma view_commit [view_rules]:
  assumes "view s0 cs la rs s" and "\<And>t. view s0 (cs @ la) [] rs t \<Longrightarrow> Q () t"
  shows "wp A commit Q s"
  using assms(2) [of "s\<lparr>pos := lookaheadPos s, lookahead := []\<rparr>"] assms(1)
  by (auto simp: commit_def view_def reach_def buffer_ok_def moved_def stuck_def rest_def unread_def)

lemma view_replay [view_rules]:
  assumes "view s0 (cs @ [r]) [] rs s" and "r \<noteq> rNL" and "\<And>t. view s0 cs [] (r # rs) t \<Longrightarrow> Q () t"
  shows "wp A (replay r) Q s"
proof -
  define t where "t = rewind_state (s\<lparr>pos := AdvanceString (pos s0) cs (utf16Pos s0),
    lookahead := r # lookahead s\<rparr>)"
  have "replay r s = Ok () t"
    using assms(1,2) by (auto simp: replay_def t_def Subtract_Advance view_def reach_def moved_def)
  moreover have "view s0 cs [] (r # rs) t"
    using assms(1) unfolding t_def
    by (auto simp: view_def reach_def moved_def buffer_ok_def stuck_def rest_def unread_def
        rewind_state_def)
  ultimately show ?thesis
    using assms(3) by (simp add: wp_def)
qed

lemma view_read [view_rules]:
  assumes "view s0 cs [] (r # rs) s" and "\<And>t. view s0 (cs @ [r]) [] rs t \<Longrightarrow> Q (r, False) t"
  shows "wp A read Q s"
proof -
  obtain t where t: "read_rune s = ((r, False), t)" "ctx t = None" "reader_err t = None"
    "inEdgeGroup t = False" "errs t = errs s"
    using read_rune_view [OF assms(1)] by blast
  define t' where "t' = t\<lparr>pos := Advance (pos t) r (utf16Pos t),
    lookaheadPos := Advance (pos t) r (utf16Pos t)\<rparr>"
  have p: "read_state s = ((r, False), t')"
    by (simp add: read_state_def t(1) t'_def Let_def)
  have "lookahead t' = []" "unread t' = rs"
    using read_rune_live [OF t(1)] assms(1) by (auto simp: t'_def view_def unread_def)
  then have "view s0 (cs @ [r]) [] rs t'"
    using read_live [OF view_reach [OF assms(1)] p] t assms(1) by (auto simp: view_def t'_def)
  then show ?thesis
    using assms(2) p by (simp add: wp_def read_def state_op_def)
qed

lemma view_peekNotSpace [view_rules]:
  assumes "view s0 cs la (r # rs) s" and "\<not> is_space r"
    and "\<And>t. view s0 cs (la @ [r]) rs t \<Longrightarrow> Q (r, 0, False) t"
  shows "wp A peekNotSpace Q s"
  unfolding peekNotSpace_def
  by (rule forever_rule [where P = "\<lambda>n t. n = 0 \<and> t = s"])
    (use assms in \<open>auto elim!: view_peek\<close>)

lemma view_peekNotSpace_end [view_rules]:
  assumes "view s0 cs la [] s" and "\<And>t. view s0 cs [] la t \<Longrightarrow> Q (0, 0, True) t"
  shows "wp A peekNotSpace Q s"
  unfolding peekNotSpace_def
  by (rule forever_rule [where P = "\<lambda>n t. n = 0 \<and> t = s"])
    (use assms in \<open>auto elim!: view_peek_end\<close>)

section \<open>Scanning an escaped text\<close>

text \<open>
  The loops that read the runes of a string one after the other share a contract: one iteration
  takes what is printed for some of the value and accumulates it, and the iteration that meets the
  end takes the closing runes, if any, and returns. \<open>scan\<close> says what the loop returns.
\<close>

locale text_scanner =
  fixes body :: "'u \<Rightarrow> ('u + 'r) prs"
    and printed :: "rune list \<Rightarrow> rune list"
    and holds :: "rune list \<Rightarrow> 'u \<Rightarrow> bool"
    and good :: "rune list \<Rightarrow> bool"
    and close :: "rune list"
    and follow :: "rune list \<Rightarrow> bool"
    and result :: "rune list \<Rightarrow> 'r \<Rightarrow> bool"
  assumes printed_append: "printed (x @ y) = printed x @ printed y"
    and printed_some: "x \<noteq> [] \<Longrightarrow> printed x \<noteq> []"
    and scan_step: "holds x u \<Longrightarrow> good y \<Longrightarrow> y \<noteq> [] \<Longrightarrow> follow rs \<Longrightarrow>
      view s0 cs [] (printed y @ close @ rs) t \<Longrightarrow>
      wp A (body u) (\<lambda>r t'. \<exists>u' a b. r = Inl u' \<and> y = a @ b \<and> a \<noteq> [] \<and> good b \<and> holds (x @ a) u' \<and>
        view s0 (cs @ printed a) [] (printed b @ close @ rs) t') t"
    and scan_close: "holds x u \<Longrightarrow> follow rs \<Longrightarrow> view s0 cs [] (close @ rs) t \<Longrightarrow>
      wp A (body u) (\<lambda>r t'. \<exists>z. r = Inr z \<and> result x z \<and> view s0 (cs @ close) [] rs t') t"
begin

definition scanning ::
  "rune list \<Rightarrow> parser \<Rightarrow> rune list \<Rightarrow> rune list \<Rightarrow> 'u \<Rightarrow> parser \<Rightarrow> bool" where
  "scanning v s0 cs rs u t \<longleftrightarrow> (\<exists>x y. v = x @ y \<and> good y \<and> holds x u \<and>
    view s0 (cs @ printed x) [] (printed y @ close @ rs) t)"

lemma scan:
  assumes "view s0 cs [] (printed v @ close @ rs) s" and "holds [] u" and "good v" and "follow rs"
    and "\<And>t z. view s0 (cs @ printed v @ close) [] rs t \<Longrightarrow> result v z \<Longrightarrow> Q z t"
  shows "wp A (forever body u) Q s"
proof (rule forever_rule [where P = "scanning v s0 cs rs"])
  have "printed [] = []"
    using printed_append [of "[]" "[]"] by simp
  then show "scanning v s0 cs rs u s"
    using assms(1-3) unfolding scanning_def by (intro exI [of _ "[]"] exI [of _ v]) simp
next
  fix u t
  assume "scanning v s0 cs rs u t"
  then obtain x y where v: "v = x @ y" "good y" "holds x u"
    and t: "view s0 (cs @ printed x) [] (printed y @ close @ rs) t"
    unfolding scanning_def by blast
  show "wp A (body u) (\<lambda>r t'. case r of
     Inl u \<Rightarrow> scanning v s0 cs rs u t' \<and> work t' < work t | Inr z \<Rightarrow> Q z t') t"
  proof (cases "y = []")
    case True
    then have "view s0 (cs @ printed x) [] (close @ rs) t"
      using t printed_append [of "[]" "[]"] by simp
    from scan_close [OF v(3) assms(4) this] show ?thesis
      by (rule wp_weaken) (use assms(5) v True in auto)
  next
    case False
    show ?thesis
    proof (rule wp_weaken [OF scan_step [OF v(3,2) False assms(4) t]], clarify)
      fix r t' u' a b
      assume b: "y = a @ b" "a \<noteq> []" "good b" "holds (x @ a) u'"
        and t': "view s0 ((cs @ printed x) @ printed a) [] (printed b @ close @ rs) t'"
      have "work t' < work t"
        using view_work [OF t t'] b(1) printed_some [OF b(2)] by (simp add: printed_append)
      moreover have "scanning v s0 cs rs u' t'"
        unfolding scanning_def using b v t'
        by (intro exI [of _ "x @ a"] exI [of _ b]) (simp add: printed_append)
      ultimately show "case Inl u' of
          Inl u \<Rightarrow> scanning v s0 cs rs u t' \<and> work t' < work t | Inr z \<Rightarrow> Q z t'"
        by simp
    qed
  qed
qed

end

section \<open>Double quoted strings\<close>

lemma escapeDoubled_append:
  "escapeDoubledQuotedValue (xs @ ys) b = escapeDoubledQuotedValue xs b @ escapeDoubledQuotedValue ys b"
  by (induction xs) auto

lemma decodeEscape_dq [simp]:
  "decodeEscape rDQ = rDQ" "decodeEscape rBsl = rBsl" "decodeEscape 110 = rNL"
  "decodeEscape rDollar = rDollar"
  by (simp_all add: decodeEscape_def)

lemma view_dq_step:
  assumes "view s0 cs [] (escapeDoubledQuotedValue [r] inKey @ zs) t"
  shows "wp A (dq_step psubst inKey start d) (\<lambda>x t'.
     x = Inl (d\<lparr>d_sb := d_sb d @ [range_rune r],
                d_rawb := d_rawb d @ escapeDoubledQuotedValue [r] inKey\<rparr>) \<and>
     view s0 (cs @ escapeDoubledQuotedValue [r] inKey) [] zs t') t"
proof -
  consider "r = rDQ \<or> r = rBsl" | "r = rNL" | "\<not> inKey" "r = rDollar"
    | "r \<noteq> rDQ" "r \<noteq> rBsl" "r \<noteq> rNL" "inKey \<or> r \<noteq> rDollar"
    by blast
  then show ?thesis
  proof cases
    case 4
    then have "range_rune r \<noteq> rDQ" "range_rune r \<noteq> rBsl" "range_rune r \<noteq> rNL"
      "inKey \<or> range_rune r \<noteq> rDollar"
      by (auto simp: range_rune_def)
    with 4 show ?thesis
      using assms unfolding dq_step_def dq_rune_def by (auto elim!: view_rules simp: dq_write_def)
  qed (use assms in \<open>auto elim!: view_rules simp: dq_step_def dq_rune_def range_rune_def\<close>)
qed

lemma view_dq_end:
  "view s0 cs [] (rDQ # rs) t \<Longrightarrow>
   wp A (dq_step psubst inKey start d) (\<lambda>x t'. x = Inr d \<and> view s0 (cs @ [rDQ]) [] rs t') t"
  unfolding dq_step_def dq_rune_def by (auto elim!: view_rules)

definition dq_holds :: "bool \<Rightarrow> gostr \<Rightarrow> dqstring \<Rightarrow> bool" where
  "dq_holds inKey v d \<longleftrightarrow> d_sb d = map range_rune v \<and> d_rawb d = escapeDoubledQuotedValue v inKey \<and>
    d_value d = []"

interpretation dq: text_scanner "dq_step psubst inKey start" "\<lambda>v. escapeDoubledQuotedValue v inKey"
  "dq_holds inKey" "\<lambda>_. True" "[rDQ]" "\<lambda>_. True" "dq_holds inKey"
  for psubst inKey start
proof unfold_locales
  show "escapeDoubledQuotedValue x inKey \<noteq> []" if "x \<noteq> []" for x
    using that by (cases x) auto
next
  fix x u y rs s0 cs t A
  assume u: "dq_holds inKey x u" and "y \<noteq> []"
    and t: "view s0 cs [] (escapeDoubledQuotedValue y inKey @ [rDQ] @ rs) t"
  then obtain r b where y: "y = r # b"
    by (cases y) auto
  have "view s0 cs [] (escapeDoubledQuotedValue [r] inKey @ escapeDoubledQuotedValue b inKey @ [rDQ] @ rs) t"
    using t y escapeDoubled_append [of "[r]" b inKey] by simp
  from view_dq_step [OF this] show "wp A (dq_step psubst inKey start u) (\<lambda>r t'. \<exists>u' a b. r = Inl u' \<and>
      y = a @ b \<and> a \<noteq> [] \<and> True \<and> dq_holds inKey (x @ a) u' \<and>
      view s0 (cs @ escapeDoubledQuotedValue a inKey) []
        (escapeDoubledQuotedValue b inKey @ [rDQ] @ rs) t') t"
  proof (rule wp_weaken, intro exI conjI)
    show "y = [r] @ b"
      using y by simp
  qed (use u in \<open>auto simp: dq_holds_def escapeDoubled_append\<close>)
next
  fix x u rs s0 cs t A
  assume "dq_holds inKey x u" and "view s0 cs [] ([rDQ] @ rs) t"
  then show "wp A (dq_step psubst inKey start u) (\<lambda>r t'. \<exists>z. r = Inr z \<and> dq_holds inKey x z \<and>
      view s0 (cs @ [rDQ]) [] rs t') t"
    by (auto intro: wp_weaken [OF view_dq_end])
qed (rule escapeDoubled_append)

lemma view_doubleQuoted:
  assumes "view s0 (cs @ [rDQ]) [] (escapeDoubledQuotedValue v inKey @ rDQ # rs) s"
    and "\<And>t rng. view s0 (cs @ rDQ # escapeDoubledQuotedValue v inKey @ [rDQ]) [] rs t \<Longrightarrow>
      Q (DoubleQuotedString rng (if v = [] then [] else
          [InterpolationBox (Some (map range_rune v)) (Some (escapeDoubledQuotedValue v inKey)) None])) t"
  shows "wp A (parseDoubleQuotedString_body psubst inKey) Q s"
  unfolding parseDoubleQuotedString_body_def wp_bnd
  using assms by (auto intro!: wp_intros dq.scan [where v = v and rs = rs] simp: dq_holds_def)

section \<open>Single quoted strings\<close>

lemma escapeSingle_append:
  "escapeSingleQuotedValue (xs @ ys) = escapeSingleQuotedValue xs @ escapeSingleQuotedValue ys"
  by (induction xs) auto

lemma escapeSingle_hd: "rNL \<notin> set v \<Longrightarrow> hd (escapeSingleQuotedValue v @ rSQ # rs) \<noteq> rNL"
  by (cases v) (auto simp: range_rune_def)

lemma view_sq_step:
  assumes "view s0 cs [] (escapeSingleQuotedValue [r] @ zs) t" and "r \<noteq> rNL" and "zs \<noteq> []" and "hd zs \<noteq> rNL"
  shows "wp A (sq_step start sb) (\<lambda>x t'. x = Inl (sb @ [range_rune r]) \<and>
     view s0 (cs @ escapeSingleQuotedValue [r]) [] zs t') t"
proof -
  obtain z zs' where zs: "zs = z # zs'" "z \<noteq> rNL"
    using assms(3,4) by (cases zs) auto
  consider "r = rSQ" | "r \<noteq> rSQ" "r = rBsl" | "r \<noteq> rSQ" "r \<noteq> rBsl"
    by blast
  then show ?thesis
  proof cases
    case 3
    then have "range_rune r \<noteq> rSQ" "range_rune r \<noteq> rBsl" "range_rune r \<noteq> rNL"
      using assms(2) by (auto simp: range_rune_def)
    with 3 show ?thesis
      using assms(1,2) unfolding sq_step_def zs by (auto elim!: view_rules)
  qed (use assms(1,2) zs in \<open>auto elim!: view_rules simp: sq_step_def range_rune_def\<close>)
qed

lemma view_sq_end:
  assumes "view s0 cs [] (rSQ # rs) t" and "rs = [] \<or> hd rs \<noteq> rSQ"
  shows "wp A (sq_step start sb) (\<lambda>x t'. x = Inr sb \<and> view s0 (cs @ [rSQ]) [] rs t') t"
  using assms unfolding sq_step_def by (cases rs) (auto elim!: view_rules)

interpretation sq: text_scanner "sq_step start" escapeSingleQuotedValue
  "\<lambda>v sb. sb = map range_rune v" "\<lambda>v. rNL \<notin> set v" "[rSQ]" "\<lambda>rs. rs = [] \<or> hd rs \<noteq> rSQ"
  "\<lambda>v sb. sb = map range_rune v"
  for start
proof unfold_locales
  show "escapeSingleQuotedValue x \<noteq> []" if "x \<noteq> []" for x
    using that by (cases x) auto
next
  fix x :: gostr and u y rs s0 cs t A
  assume u: "u = map range_rune x" and nl: "rNL \<notin> set y" and "y \<noteq> []"
    and t: "view s0 cs [] (escapeSingleQuotedValue y @ [rSQ] @ rs) t"
  then obtain r b where y: "y = r # b"
    by (cases y) auto
  let ?zs = "escapeSingleQuotedValue b @ [rSQ] @ rs"
  have "view s0 cs [] (escapeSingleQuotedValue [r] @ ?zs) t"
    using t y escapeSingle_append [of "[r]" b] by simp
  moreover have "r \<noteq> rNL" "?zs \<noteq> []" "hd ?zs \<noteq> rNL"
    using nl y escapeSingle_hd [of b rs] by auto
  ultimately show "wp A (sq_step start u) (\<lambda>r t'. \<exists>u' a b. r = Inl u' \<and> y = a @ b \<and> a \<noteq> [] \<and>
      rNL \<notin> set b \<and> u' = map range_rune (x @ a) \<and>
      view s0 (cs @ escapeSingleQuotedValue a) [] (escapeSingleQuotedValue b @ [rSQ] @ rs) t') t"
  proof (rule wp_weaken [OF view_sq_step], intro exI conjI)
    show "y = [r] @ b"
      using y by simp
  qed (use u nl y in auto)
next
  fix x :: gostr and u rs s0 cs t A
  assume "u = map range_rune x" and "rs = [] \<or> hd rs \<noteq> rSQ" and "view s0 cs [] ([rSQ] @ rs) t"
  then show "wp A (sq_step start u) (\<lambda>r t'. \<exists>z. r = Inr z \<and> z = map range_rune x \<and>
      view s0 (cs @ [rSQ]) [] rs t') t"
    by (auto intro: wp_weaken [OF view_sq_end])
qed (rule escapeSingle_append)

lemma view_singleQuoted:
  assumes "view s0 (cs @ [rSQ]) [] (escapeSingleQuotedValue v @ rSQ # rs) s" and "rNL \<notin> set v"
    and "rs = [] \<or> hd rs \<noteq> rSQ"
    and "\<And>t rng. view s0 (cs @ rSQ # escapeSingleQuotedValue v @ [rSQ]) [] rs t \<Longrightarrow>
      Q (SingleQuotedString rng [] (map range_rune v)) t"
  shows "wp A parseSingleQuotedString Q s"
  unfolding parseSingleQuotedString_def wp_bnd
  using assms by (auto intro!: wp_intros sq.scan [where v = v and rs = rs])

section \<open>Unquoted keys\<close>

text \<open>The runes of an unquoted key: no special one, except a dash before a rune that is none.\<close>

definition safe :: "rune \<Rightarrow> bool" where
  "safe r \<longleftrightarrow> r \<notin> set UnquotedKeySpecials"

fun safe_key :: "gostr \<Rightarrow> bool" where
  "safe_key [] = True"
| "safe_key (r # rs) = ((safe r \<or> r = rDash \<and> rs \<noteq> [] \<and> safe (hd rs)) \<and> safe_key rs)"

lemma safe_iff: "safe r \<longleftrightarrow> \<not> ends_string r \<and> \<not> ends_key r \<and> r \<noteq> rBsl \<and> r \<noteq> rSQ \<and> r \<noteq> rDQ \<and>
    r \<noteq> rPipe \<and> r \<noteq> rDash \<and> r \<noteq> rStar \<and> r \<noteq> rLPar \<and> r \<noteq> rRPar \<and> r \<noteq> rAt"
  by (auto simp: safe_def UnquotedKeySpecials_def ends_string_def ends_key_def)

lemma not_safe_dash [simp]: "\<not> safe rDash"
  by (simp add: safe_iff)

lemma special_safe: "r \<in> set UnquotedKeySpecials \<longleftrightarrow> \<not> safe r"
  by (simp add: safe_def)

lemma safe_key_needs: "safe_key s \<longleftrightarrow> \<not> key_needs_quotes s"
proof (induction s)
  case Nil
  then show ?case by simp
next
  case (Cons r s)
  then show ?case
    by (cases s) (auto simp: special_safe)
qed

text \<open>One iteration over a safe rune, or over a dash and the safe rune after it.\<close>

definition plain_ustring :: "gostr \<Rightarrow> ustring \<Rightarrow> bool" where
  "plain_ustring v u \<longleftrightarrow> u_sb u = v \<and> u_hasRaw u = False \<and> u_value u = [] \<and> u_pattern u = []"

lemma plain_ustring_write [simp]:
  "plain_ustring v u \<Longrightarrow> plain_ustring (v @ [r]) (u_write r u)"
  "plain_ustring v (u\<lparr>u_lastNonSpace := p\<rparr>) = plain_ustring v u"
  by (auto simp: plain_ustring_def u_write_def)

lemma view_unquoted_rune:
  assumes "view s0 cs la rs s" and "safe r" and "plain_ustring v u"
    and "\<And>w t. view s0 (cs @ la) [] rs t \<Longrightarrow> plain_ustring (v @ [r]) w \<Longrightarrow> Q (Inl w) t"
  shows "wp A (unquoted_rune psubst True u r) Q s"
  unfolding unquoted_rune_def unquoted_text_def using assms
  by (auto elim!: view_rules simp: safe_iff)

lemma view_unquoted_step:
  assumes "view s0 cs [] (r # rs) s" and "safe r" and "plain_ustring v u"
  shows "wp A (unquoted_step psubst True u) (\<lambda>x t. \<exists>w. x = Inl w \<and> plain_ustring (v @ [r]) w \<and>
    view s0 (cs @ [r]) [] rs t) s"
  unfolding unquoted_step_def using assms
  by (auto elim!: view_rules view_unquoted_rune simp: safe_iff)

lemma view_unquoted_dash:
  assumes "view s0 cs [] (rDash # r # rs) s" and "safe r" and "plain_ustring v u"
  shows "wp A (unquoted_step psubst True u) (\<lambda>x t. \<exists>w. x = Inl w \<and> plain_ustring (v @ [rDash, r]) w \<and>
    view s0 (cs @ [rDash, r]) [] rs t) s"
proof -
  have "plain_ustring (v @ [rDash]) (u_write rDash u)"
    using assms(3) by simp
  moreover have "\<not> ends_string rDash" "\<not> ends_key rDash"
    by (simp_all add: ends_string_def ends_key_def)
  moreover have "r \<noteq> rDash" "r \<noteq> rGt" "r \<noteq> rStar" "\<not> ends_string r"
    using assms(2) by (auto simp: safe_iff ends_key_def)
  ultimately show ?thesis
    unfolding unquoted_step_def unquoted_dash_def using assms(1,2)
    by (auto elim!: view_rules view_unquoted_rune [where v = "v @ [rDash]"])
qed

lemma view_unquoted_end:
  assumes "view s0 cs [] rs s" and "rs = [] \<or> hd rs = rDot"
  shows "wp A (unquoted_step psubst True u) (\<lambda>x t. x = Inr u \<and> view s0 cs [] rs t) s"
proof -
  have "\<not> ends_string rDot" "ends_key rDot"
    by (simp_all add: ends_string_def ends_key_def)
  then show ?thesis
    unfolding unquoted_step_def using assms by (cases rs) (auto elim!: view_rules)
qed

interpretation uq: text_scanner "unquoted_step psubst True" "\<lambda>v. v" plain_ustring safe_key "[]"
  "\<lambda>rs. rs = [] \<or> hd rs = rDot" plain_ustring
  for psubst
proof unfold_locales
  fix x u y rs s0 cs t A
  assume u: "plain_ustring x u" and y: "safe_key y" "y \<noteq> []" and t: "view s0 cs [] (y @ [] @ rs) t"
  obtain r b where r: "y = r # b"
    using y(2) by (cases y) auto
  show "wp A (unquoted_step psubst True u) (\<lambda>r t'. \<exists>u' a b. r = Inl u' \<and> y = a @ b \<and> a \<noteq> [] \<and>
      safe_key b \<and> plain_ustring (x @ a) u' \<and> view s0 (cs @ a) [] (b @ [] @ rs) t') t"
  proof (cases "safe r")
    case True
    have "view s0 cs [] (r # b @ rs) t"
      using t r by simp
    from view_unquoted_step [OF this True u] show ?thesis
    proof (rule wp_weaken, clarify, intro exI conjI)
      show "y = [r] @ b"
        using r by simp
    qed (use y r in auto)
  next
    case False
    then obtain r2 c where c: "r = rDash" "b = r2 # c" "safe r2"
      using y(1) r by (cases b) auto
    have "view s0 cs [] (rDash # r2 # c @ rs) t"
      using t r c by simp
    from view_unquoted_dash [OF this c(3) u] show ?thesis
    proof (rule wp_weaken, clarify, intro exI conjI)
      show "y = [rDash, r2] @ c"
        using r c by simp
    qed (use y r c in auto)
  qed
next
  fix x u rs s0 cs t A
  assume "plain_ustring x u" and "rs = [] \<or> hd rs = rDot" and "view s0 cs [] ([] @ rs) t"
  then show "wp A (unquoted_step psubst True u) (\<lambda>r t'. \<exists>z. r = Inr z \<and> plain_ustring x z \<and>
      view s0 (cs @ []) [] rs t') t"
    by (auto intro: wp_weaken [OF view_unquoted_end])
qed simp_all

text \<open>The prefix check peeks up to four runes; the first rune of a safe text is no dot.\<close>

lemma view_peekPrefix:
  assumes "view s0 cs la rs s"
    and "\<And>t lb xs. view s0 cs lb xs t \<Longrightarrow> lb @ xs = la @ rs \<Longrightarrow> Q False t"
  shows "wp A (peekPrefix ws False) Q s"
  using assms
proof (induction ws arbitrary: la rs s)
  case Nil
  then show ?case by simp
next
  case (Cons w ws)
  then show ?case
    by (cases rs) (auto elim!: view_rules)
qed

lemma view_peekPrefix_first:
  assumes "view s0 cs [] (r # rs) s" and "r \<noteq> w"
    and "\<And>t lb xs. view s0 cs lb xs t \<Longrightarrow> lb @ xs = r # rs \<Longrightarrow> Q False t"
  shows "wp A (peekPrefix (w # ws) True) Q s"
  using assms(1,2)
  by (auto elim!: view_rules) (erule view_peekPrefix, erule assms(3), simp)

lemma view_unquoted:
  assumes "view s0 cs [] (v @ rs) s" and "safe_key v" and "v \<noteq> []" and "\<not> is_space (last v)"
    and "rs = [] \<or> hd rs = rDot"
    and "\<And>t rng. view s0 (cs @ v) [] rs t \<Longrightarrow>
      Q (Some (UnquotedString rng [InterpolationBox (Some v) (Some v) None] [])) t"
  shows "wp A (parseUnquotedString_body psubst True) Q s"
proof -
  obtain r v' where v: "v = r # v'" "r \<noteq> rDot"
    using assms(2,3) by (cases v) (auto simp: safe_iff ends_key_def)
  have finish: "Q (unquoted_finish rng u) t"
    if "view s0 (cs @ v) [] rs t" "plain_ustring v u" for rng u t
    using that assms(3,4,6)
    by (simp add: unquoted_finish_def plain_ustring_def trim_right_id)
  have loop: "wp A (forever (unquoted_step psubst True) u)
      (\<lambda>u t. Q (unquoted_finish (f u t) u) t) t"
    if "view s0 cs [] (v @ rs) t" "plain_ustring [] u" for u t and f :: "ustring \<Rightarrow> parser \<Rightarrow> range"
    by (rule uq.scan [where v = v and rs = rs and cs = cs and ?s0.0 = s0, OF _ that(2) assms(2,5)])
      (use that(1) in simp, simp add: finish)
  show ?thesis
    unfolding parseUnquotedString_body_def using assms(1) v
    by (auto elim!: view_peekPrefix_first view_rewind intro!: loop simp: plain_ustring_def
        simp del: peekPrefix.simps)
qed

end
