(* ===== verification/Key_Roundtrip.thy ===== *)
theory Key_Roundtrip
  imports Parser_View
begin

text \<open>
  Printing a key path (\<^verbatim>\<open>FormatKeyPath\<close> of \<^verbatim>\<open>d2format/keypath.go\<close>) and parsing it again (\<^verbatim>\<open>ParseKey\<close>
  of \<^verbatim>\<open>d2parser/parse.go\<close>). \<open>part\<close> says what one printed part must satisfy for the parser to take it
  whole, \<open>prints_ex\<close> that each branch of the printer satisfies it, and the last section runs the
  loop of \<^verbatim>\<open>parseKey\<close> over the parts and the dots between them.
\<close>

section \<open>The parts of a key path\<close>

text \<open>
  \<open>part txt val\<close>: wherever \<open>txt\<close> is followed by the end or by a dot, \<^verbatim>\<open>parseString\<close> takes exactly
  \<open>txt\<close> and returns a string whose value is \<open>val\<close>.
\<close>

definition part :: "gostr \<Rightarrow> gostr \<Rightarrow> bool" where
  "part txt val \<longleftrightarrow> txt \<noteq> [] \<and> \<not> is_space (hd txt) \<and> hd txt \<noteq> rDot \<and> hd txt \<noteq> rLPar \<and>
    map range_rune txt = txt \<and>
    (\<forall>A s0 cs rs s psubst Q. (rs = [] \<or> hd rs = rDot) \<longrightarrow> view s0 cs [] (txt @ rs) s \<longrightarrow>
      (\<forall>t x. view s0 (cs @ txt) [] rs t \<longrightarrow> string_ScalarString x = val \<longrightarrow>
         (IsUnquoted x \<longrightarrow> \<not> has_prefix [rAt] val) \<longrightarrow> Q (Some x) t) \<longrightarrow>
      wp A (parseString_body psubst True) Q s)"

lemma partI:
  assumes "txt \<noteq> []" and "\<not> is_space (hd txt)" and "hd txt \<noteq> rDot" and "hd txt \<noteq> rLPar"
    and "map range_rune txt = txt"
    and "\<And>A s0 cs rs s psubst Q. rs = [] \<or> hd rs = rDot \<Longrightarrow> view s0 cs [] (txt @ rs) s \<Longrightarrow>
      (\<And>t x. view s0 (cs @ txt) [] rs t \<Longrightarrow> string_ScalarString x = val \<Longrightarrow>
         (IsUnquoted x \<Longrightarrow> \<not> has_prefix [rAt] val) \<Longrightarrow> Q (Some x) t) \<Longrightarrow>
      wp A (parseString_body psubst True) Q s"
  shows "part txt val"
  using assms unfolding part_def by blast

lemma part_wp:
  assumes "part txt val" and "rs = [] \<or> hd rs = rDot" and "view s0 cs [] (txt @ rs) s"
    and "\<And>t x. view s0 (cs @ txt) [] rs t \<Longrightarrow> string_ScalarString x = val \<Longrightarrow>
         (IsUnquoted x \<Longrightarrow> \<not> has_prefix [rAt] val) \<Longrightarrow> Q (Some x) t"
  shows "wp A (parseString_body psubst True) Q s"
  using assms unfolding part_def by blast

lemma partD:
  assumes "part txt val"
  shows "txt \<noteq> []" and "\<not> is_space (hd txt)" and "hd txt \<noteq> rDot" and "hd txt \<noteq> rLPar"
    and "map range_rune txt = txt"
  using assms unfolding part_def by auto

lemma range_rune_idem [simp]: "range_rune (range_rune r) = range_rune r"
  by (simp add: range_rune_def)

lemma range_rune_escapes:
  "map range_rune (escapeDoubledQuotedValue v b) = escapeDoubledQuotedValue v b"
  "map range_rune (escapeSingleQuotedValue v) = escapeSingleQuotedValue v"
  by (induction v) (auto simp: range_rune_def)

lemma part_doubleQuoted: "part (rDQ # escapeDoubledQuotedValue v True @ [rDQ]) (map range_rune v)"
proof (rule partI)
  fix A s0 cs rs s psubst Q
  assume start: "view s0 cs [] ((rDQ # escapeDoubledQuotedValue v True @ [rDQ]) @ rs) s"
    and Q: "\<And>t x. view s0 (cs @ rDQ # escapeDoubledQuotedValue v True @ [rDQ]) [] rs t \<Longrightarrow>
      string_ScalarString x = map range_rune v \<Longrightarrow>
      (IsUnquoted x \<Longrightarrow> \<not> has_prefix [rAt] (map range_rune v)) \<Longrightarrow> Q (Some x) t"
  show "wp A (parseString_body psubst True) Q s"
    unfolding parseString_body_def using start
    by (auto elim!: view_rules intro!: view_doubleQuoted [where v = v] Q
        simp: is_space_def boxes_String_def)
qed (simp_all add: is_space_def range_rune_escapes, simp_all add: range_rune_def)

lemma part_singleQuoted:
  assumes "rNL \<notin> set v"
  shows "part (rSQ # escapeSingleQuotedValue v @ [rSQ]) (map range_rune v)"
proof (rule partI)
  fix A s0 cs rs s psubst Q
  assume start: "view s0 cs [] ((rSQ # escapeSingleQuotedValue v @ [rSQ]) @ rs) s"
    and rs: "rs = [] \<or> hd rs = rDot"
    and Q: "\<And>t x. view s0 (cs @ rSQ # escapeSingleQuotedValue v @ [rSQ]) [] rs t \<Longrightarrow>
      string_ScalarString x = map range_rune v \<Longrightarrow>
      (IsUnquoted x \<Longrightarrow> \<not> has_prefix [rAt] (map range_rune v)) \<Longrightarrow> Q (Some x) t"
  show "wp A (parseString_body psubst True) Q s"
    unfolding parseString_body_def using start assms rs
    by (auto elim!: view_rules intro!: view_singleQuoted [where v = v] Q simp: is_space_def)
qed (simp_all add: is_space_def range_rune_escapes, simp_all add: range_rune_def)

lemma part_unquoted:
  assumes "safe_key v" and "v \<noteq> []" and "\<not> is_space (hd v)" and "\<not> is_space (last v)"
    and "map range_rune v = v"
  shows "part v v"
proof (rule partI)
  have hd: "hd v \<noteq> rDot \<and> hd v \<noteq> rLPar \<and> hd v \<noteq> rDQ \<and> hd v \<noteq> rSQ \<and> hd v \<noteq> rPipe \<and> hd v \<noteq> rAt"
    using assms(1,2) by (cases v) (auto simp: safe_iff ends_key_def)
  then show "hd v \<noteq> rDot" "hd v \<noteq> rLPar"
    by simp_all
  fix A s0 cs rs s psubst Q
  assume start: "view s0 cs [] (v @ rs) s" and rs: "rs = [] \<or> hd rs = rDot"
    and Q: "\<And>t x. view s0 (cs @ v) [] rs t \<Longrightarrow> string_ScalarString x = v \<Longrightarrow>
      (IsUnquoted x \<Longrightarrow> \<not> has_prefix [rAt] v) \<Longrightarrow> Q (Some x) t"
  have at: "\<not> has_prefix [rAt] v"
    using hd by (cases v) auto
  have unquoted: "wp A (parseUnquotedString_body psubst True) Q t" if "view s0 cs [] (v @ rs) t" for t
    using that assms rs at by (auto intro!: view_unquoted [where v = v] Q simp: boxes_String_def)
  obtain r v' where v: "v = r # v'" "r \<noteq> rNL"
    using assms(2,3) by (cases v) (auto, metis is_space_newline)
  show "wp A (parseString_body psubst True) Q s"
    unfolding parseString_body_def using start assms(3) v hd
    by (auto elim!: view_rules intro!: unquoted)
qed (use assms in simp_all)

section \<open>What the formatter prints\<close>

text \<open>The value a part is read back as: \<^verbatim>\<open>null\<close> and the reserved keywords in lower case.\<close>

definition canon :: "gostr \<Rightarrow> gostr" where
  "canon v =
    (let w = map range_rune v; l = to_lower w in if l = runes ''null'' \<or> is_reserved l then l else w)"

lemma safe_lower: "safe (lower_rune r) \<Longrightarrow> safe r"
  by (auto simp: safe_def UnquotedKeySpecials_def lower_rune_def split: if_splits)

lemma lower_dash [simp]: "lower_rune r = 45 \<longleftrightarrow> r = 45"
  by (auto simp: lower_rune_def)

lemma safe_key_lower: "safe_key (to_lower w) \<Longrightarrow> safe_key w"
proof (induction w)
  case Nil
  then show ?case by simp
next
  case (Cons r w)
  then show ?case
    by (cases w) (auto simp: to_lower_def dest: safe_lower)
qed

lemma range_rune_safe [simp]: "safe (range_rune r) = safe r"
  by (auto simp: safe_def UnquotedKeySpecials_def range_rune_def)

lemma range_rune_dash [simp]: "range_rune r = 45 \<longleftrightarrow> r = 45"
  by (auto simp: range_rune_def)

lemma safe_key_range [simp]: "safe_key (map range_rune v) = safe_key v"
proof (induction v)
  case Nil
  then show ?case by simp
next
  case (Cons r v)
  then show ?case
    by (cases v) auto
qed

lemma space_lower [simp]: "is_space (lower_rune r) = is_space r"
  by (auto simp: lower_rune_def is_space_def)

lemma space_range [simp]: "is_space (range_rune r) = is_space r"
  by (auto simp: range_rune_def is_space_def)

lemma keyword_safe:
  "k \<in> set ReservedKeywords \<or> k = runes ''null'' \<Longrightarrow>
   safe_key k \<and> k \<noteq> [] \<and> \<not> is_space (hd k) \<and> \<not> is_space (last k)"
  (is "_ \<Longrightarrow> ?thesis")
proof -
  have "list_all (\<lambda>k. safe_key k \<and> k \<noteq> [] \<and> \<not> is_space (hd k) \<and> \<not> is_space (last k))
    (runes ''null'' # ReservedKeywords)"
    by code_simp
  then show "k \<in> set ReservedKeywords \<or> k = runes ''null'' \<Longrightarrow> ?thesis"
    by (auto simp: list_all_iff)
qed

lemma keyword_like:
  assumes "to_lower (map range_rune v) = runes ''null'' \<or> is_reserved (to_lower (map range_rune v))"
  shows "safe_key v" and "v \<noteq> []" and "\<not> is_space (hd v)" and "\<not> is_space (last v)"
proof -
  let ?k = "to_lower (map range_rune v)"
  have k: "safe_key ?k" "?k \<noteq> []" "\<not> is_space (hd ?k)" "\<not> is_space (last ?k)"
    using keyword_safe [of ?k] assms by (auto simp: is_reserved_def)
  show v: "v \<noteq> []"
    using k(2) by (auto simp: to_lower_def)
  show "safe_key v"
    using safe_key_lower [OF k(1)] by simp
  show "\<not> is_space (hd v)" "\<not> is_space (last v)"
    using k(3,4) v by (simp_all add: to_lower_def hd_map last_map)
qed

lemma canon_quoted:
  "v = [] \<or> key_needs_quotes v \<or> hasSurroundingWhitespace v \<Longrightarrow> canon v = map range_rune v"
  using keyword_like [of v] by (auto simp: canon_def Let_def safe_key_needs hasSurroundingWhitespace_def)


lemma equal_fold_null: "equal_fold v (runes ''null'') \<longleftrightarrow> to_lower (map range_rune v) = runes ''null''"
proof -
  have "fold_ascii r = c \<longleftrightarrow> lower_rune (range_rune r) = c" if "c \<in> {110, 117, 108}" for r c
    using that by (auto simp: fold_ascii_def lower_rune_def range_rune_def)
  then show ?thesis
    by (auto simp: equal_fold_def to_lower_def map_eq_Cons_conv Cons_eq_map_conv)
qed

lemma escape_safe:
  "safe_key v \<Longrightarrow> escape_unquoted_from True first v = map range_rune v"
proof (induction v arbitrary: first)
  case Nil
  then show ?case by simp
next
  case (Cons r v)
  then show ?case
    by (cases v) (auto simp: safe_def UnquotedKeySpecials_def range_rune_def)
qed

lemma canon_unquoted:
  assumes "safe_key v" and "v \<noteq> []" and "\<not> hasSurroundingWhitespace v"
    and "to_lower (map range_rune v) \<noteq> runes ''null''"
  shows "(let s = map range_rune v in if is_reserved (to_lower s) then to_lower s else s) = canon v"
    and "part (canon v) (canon v)"
proof -
  have ends: "\<not> is_space (hd v)" "\<not> is_space (last v)"
    using assms(2,3) by (auto simp: hasSurroundingWhitespace_def)
  show "(let s = map range_rune v in if is_reserved (to_lower s) then to_lower s else s) = canon v"
    using assms(4) by (simp add: canon_def Let_def)
  show "part (canon v) (canon v)"
  proof (cases "is_reserved (to_lower (map range_rune v))")
    case True
    let ?k = "to_lower (map range_rune v)"
    have "canon v = ?k"
      using True by (simp add: canon_def Let_def)
    moreover have "map range_rune ?k = ?k"
      by (auto simp: to_lower_def range_rune_def lower_rune_def)
    ultimately show ?thesis
      using keyword_safe [of ?k] True by (auto simp: is_reserved_def intro: part_unquoted)
  next
    case False
    then have "canon v = map range_rune v"
      using assms(4) by (simp add: canon_def Let_def)
    then show ?thesis
      using assms(1,2) ends by (auto simp: hd_map last_map intro!: part_unquoted)
  qed
qed

lemma part_null: "part (rSQ # runes ''null'' @ [rSQ]) (runes ''null'')"
  using part_singleQuoted [of "runes ''null''"] by (simp add: range_rune_def)

text \<open>Every branch of the formatter prints a part that is read back as \<open>canon\<close> of the value.\<close>

definition prints :: "gostr \<Rightarrow> gostr \<Rightarrow> bool" where
  "prints v txt \<longleftrightarrow> part txt (canon v) \<and>
    (\<forall>p. p_inKey p \<longrightarrow> fmt_key_part v p = Some (p_write txt p))"

lemma p_write_append: "p_write y (p_write x p) = p_write (x @ y) p"
  by (simp add: p_write_def)

lemma fmt_quoted:
  assumes "\<not> plainKey v" and "RawString v True = FlatDoubleQuotedString v" and "canon v = map range_rune v"
  shows "prints v (rDQ # escapeDoubledQuotedValue v True @ [rDQ])"
  using part_doubleQuoted [of v] assms
  by (simp add: prints_def fmt_key_part_def FlatDoubleQuotedString_def text_box_def box_text_def
      p_write_append) (simp add: p_write_def)

lemma plain_rune_safe:
  "(97 \<le> c \<and> c \<le> 122) \<or> (65 \<le> c \<and> c \<le> 90) \<or> (48 \<le> c \<and> c \<le> 57) \<or> c = rUnd \<Longrightarrow>
   safe c \<and> \<not> is_space c \<and> range_rune c = c"
  by (auto simp: safe_def UnquotedKeySpecials_def is_space_def range_rune_def)

lemma safe_key_all: "list_all safe v \<Longrightarrow> safe_key v"
  by (induction v) auto

lemma plainKey_safe:
  assumes "plainKey v"
  shows "safe_key v \<and> v \<noteq> [] \<and> \<not> hasSurroundingWhitespace v \<and> map range_rune v = v \<and>
    \<not> (\<exists>r \<in> set v. r \<in> set UnquotedKeySpecials)"
proof -
  have "\<forall>r \<in> set v. safe r \<and> \<not> is_space r \<and> range_rune r = r" and v: "v \<noteq> []"
    using assms plain_rune_safe unfolding plainKey_def list_all_iff by blast+
  then show ?thesis
    by (auto simp: hasSurroundingWhitespace_def list_all_iff map_idI safe_def intro!: safe_key_all)
qed

lemma not_reserved_null [simp]:
  "\<not> is_reserved (to_lower (rSQ # runes ''null'' @ [rSQ]))"
  using keyword_safe [of "to_lower (rSQ # runes ''null'' @ [rSQ])"]
  by (auto simp: is_reserved_def to_lower_def lower_rune_def safe_iff)

lemma prints_plain:
  assumes "plainKey v"
  shows "\<exists>txt. prints v txt"
proof (cases "to_lower v = runes ''null''")
  case True
  then show ?thesis
    using part_null plainKey_safe [OF assms] assms
    by (intro exI [of _ "rSQ # runes ''null'' @ [rSQ]"])
      (simp add: prints_def fmt_key_part_def canon_def)
next
  case False
  then show ?thesis
    using canon_unquoted [of v] plainKey_safe [OF assms] assms
    by (intro exI [of _ "canon v"]) (auto simp: prints_def fmt_key_part_def canon_def Let_def)
qed

lemma prints_unquoted:
  assumes "\<not> plainKey v" and "safe_key v" and "v \<noteq> []" and "\<not> hasSurroundingWhitespace v"
  shows "\<exists>txt. prints v txt"
proof -
  have raw: "RawString v True = FlatUnquotedString v"
    using assms by (simp add: RawString_def safe_key_needs)
  show ?thesis
  proof (cases "to_lower (map range_rune v) = runes ''null''")
    case True
    have "canon v = runes ''null''"
      using True by (simp add: canon_def)
    moreover have "escapeUnquotedValue v True = rSQ # runes ''null'' @ [rSQ]"
      using True assms(3) by (simp add: escapeUnquotedValue_def equal_fold_null del: runes.simps)
    ultimately show ?thesis
      using part_null assms(1) raw not_reserved_null
      by (intro exI [of _ "rSQ # runes ''null'' @ [rSQ]"])
        (simp add: prints_def fmt_key_part_def FlatUnquotedString_def text_box_def box_text_def
          del: runes.simps)
  next
    case False
    then have "escapeUnquotedValue v True = map range_rune v"
      using assms(2,3) by (simp add: escapeUnquotedValue_def equal_fold_null escape_safe del: runes.simps)
    then show ?thesis
      using canon_unquoted [OF assms(2-4) False] assms(1) raw
      by (intro exI [of _ "canon v"])
        (simp add: prints_def fmt_key_part_def FlatUnquotedString_def text_box_def box_text_def Let_def)
  qed
qed

lemma prints_quoted:
  assumes "\<not> plainKey v" and "v = [] \<or> key_needs_quotes v \<or> hasSurroundingWhitespace v"
  shows "\<exists>txt. prints v txt"
proof (cases "RawString v True = FlatDoubleQuotedString v")
  case True
  then show ?thesis
    using fmt_quoted [OF assms(1) _ canon_quoted] assms(2) by blast
next
  case False
  then have raw: "RawString v True = SingleQuotedString range0 [] v" and nl: "rNL \<notin> set v"
    using assms(2) by (auto simp: RawString_def split: if_splits)
  then show ?thesis
    using part_singleQuoted [OF nl] canon_quoted [OF assms(2)] assms(1)
    by (intro exI [of _ "rSQ # escapeSingleQuotedValue v @ [rSQ]"])
      (simp add: prints_def fmt_key_part_def)
qed

lemma prints_ex: "\<exists>txt. prints v txt"
  using prints_plain prints_quoted prints_unquoted safe_key_needs by blast

section \<open>Key paths\<close>

lemma fmt_key_parts_write:
  assumes "list_all2 (\<lambda>s t. prints (string_ScalarString s) t) a ts" and "p_inKey p"
  shows "fmt_key_parts first a p =
    Some (p_write ((if first \<or> ts = [] then [] else [rDot]) @ join_with [rDot] ts) p)"
  using assms
proof (induction a ts arbitrary: first p rule: list_all2_induct)
  case Nil
  then show ?case by (simp add: p_write_def)
next
  case (Cons s a t ts)
  have keeps_inKey: "p_inKey (p_write x p)" for x
    using Cons.prems by (simp add: p_write_def)
  have "fmt_key_part (string_ScalarString s) q = Some (p_write t q)" if "p_inKey q" for q
    using Cons.hyps(1) that by (simp add: prints_def)
  then show ?case
    using keeps_inKey Cons.prems Cons.IH [of _ False]
    by (auto simp: p_write_append join_Cons)
qed

text \<open>One iteration of the loop over the parts.\<close>

lemma view_parseKey_part:
  assumes "view s0 cs [] (txt @ rs) s" and "part txt val" and "rs = [] \<or> hd rs = rDot"
    and "\<And>x k' t. string_ScalarString x = val \<Longrightarrow> snd k' = snd k @ [x] \<Longrightarrow>
      view s0 (cs @ txt @ take 1 rs) [] (drop 1 rs) t \<Longrightarrow>
      Q (if rs = [] then Inr k' else Inl k') t"
  shows "wp A (parseKey_step (parseString_body psubst True) k) Q s"
proof -
  obtain r w where tx: "txt = r # w" "\<not> is_space r" "r \<noteq> rDot" "r \<noteq> rLPar"
    using partD [OF assms(2)] by (cases "txt") auto
  have parsed: "wp A (parseString_body psubst True) R t"
    if "view s0 cs [] (txt @ rs) t"
      "\<And>t x. view s0 (cs @ txt) [] rs t \<Longrightarrow> string_ScalarString x = val \<Longrightarrow>
         (IsUnquoted x \<Longrightarrow> \<not> has_prefix [rAt] val) \<Longrightarrow> R (Some x) t" for R t
    by (rule part_wp [OF assms(2,3) that(1)]) (rule that(2))
  show ?thesis
  proof (cases rs)
    case Nil
    then show ?thesis
      unfolding parseKey_step_def using assms(1,4) tx
      by (auto elim!: view_rules intro!: parsed simp: Let_def)
  next
    case (Cons z zs)
    then have "z = rDot" "\<not> is_space rDot"
      using assms(3) by (auto simp: is_space_def)
    then show ?thesis
      unfolding parseKey_step_def using assms(1,4) tx Cons
      by (auto elim!: view_rules intro!: parsed simp: Let_def)
  qed
qed

definition parts_at ::
  "gostr list \<Rightarrow> gostr list \<Rightarrow> parser \<Rightarrow> position \<times> string_node list \<Rightarrow> parser \<Rightarrow> bool" where
  "parts_at ts vs s0 k t \<longleftrightarrow> (\<exists>n cs. n < length ts \<and> map string_ScalarString (snd k) = take n vs \<and>
    view s0 cs [] (join_with [rDot] (drop n ts)) t)"

lemma view_parseKey_loop:
  assumes "view s0 [] [] (join_with [rDot] ts) s" and "list_all2 part ts vs" and "ts \<noteq> []"
    and "\<And>k cs t. view s0 cs [] [] t \<Longrightarrow> map string_ScalarString (snd k) = vs \<Longrightarrow> Q k t"
  shows "wp A (forever (parseKey_step (parseString_body psubst True)) (p, [])) Q s"
proof (rule forever_rule [where P = "parts_at ts vs s0"])
  show "parts_at ts vs s0 (p, []) s"
    using assms(1,3) unfolding parts_at_def by (intro exI [of _ 0] exI [of _ "[]"]) simp
next
  fix k t
  assume "parts_at ts vs s0 k t"
  then obtain n cs where n: "n < length ts" "map string_ScalarString (snd k) = take n vs"
    and t: "view s0 cs [] (join_with [rDot] (drop n ts)) t"
    unfolding parts_at_def by blast
  have len: "length vs = length ts"
    using assms(2) by (simp add: list_all2_lengthD)
  have part: "part (ts ! n) (vs ! n)"
    using assms(2) n(1) by (simp add: list_all2_conv_all_nth)
  let ?rs = "if drop (Suc n) ts = [] then [] else rDot # join_with [rDot] (drop (Suc n) ts)"
  have t': "view s0 cs [] (ts ! n @ ?rs) t"
    using t unfolding take_append_drop_nth [OF n(1)] join_Cons by (simp split: if_splits)
  show "wp A (parseKey_step (parseString_body psubst True) k) (\<lambda>x t'. case x of
     Inl k \<Rightarrow> parts_at ts vs s0 k t' \<and> work t' < work t | Inr k \<Rightarrow> Q k t') t"
  proof (rule view_parseKey_part [OF t' part])
    show "?rs = [] \<or> hd ?rs = rDot"
      by simp
  next
    fix x u and k' :: "position \<times> string_node list"
    assume x: "string_ScalarString x = vs ! n" "snd k' = snd k @ [x]"
      and u: "view s0 (cs @ ts ! n @ take 1 ?rs) [] (drop 1 ?rs) u"
    have vals: "map string_ScalarString (snd k') = take (Suc n) vs"
      using n x len by (simp add: take_Suc_conv_app_nth)
    have "work u < work t"
      by (rule view_work [OF t' u]) (use partD [OF part] in simp)
    moreover have "parts_at ts vs s0 k' u" if "?rs \<noteq> []"
      unfolding parts_at_def using that vals u by (intro exI [of _ "Suc n"]) (auto split: if_splits)
    moreover have "Q k' u" if "?rs = []"
      using assms(4) [OF _ , of _ u k'] u vals that len by (auto split: if_splits)
    ultimately show "case if ?rs = [] then Inr k' else Inl k' of
        Inl k \<Rightarrow> parts_at ts vs s0 k u \<and> work u < work t | Inr k \<Rightarrow> Q k u"
      by simp
  qed
qed

lemma view_string_parser:
  "map range_rune s = s \<Longrightarrow> view (string_parser u s) [] [] s (string_parser u s)"
  by (simp add: view_def string_parser_def init_reach)
    (simp add: init_parser_def unread_def stuck_def)

text \<open>Parsing a key path that fits the grammar part by part.\<close>

lemma ParseKey_parts:
  assumes "list_all2 part ts vs" and "ts \<noteq> []" and "list_all (\<lambda>v. blen v \<le> 518) vs"
  shows "\<exists>k. ParseKey u (join_with [rDot] ts) = Returned (Some k) None \<and>
    map string_ScalarString (kp_path k) = vs"
proof -
  have "map range_rune (join_with [rDot] ts) = join_with [rDot] ts"
    using assms(1)
    by (induction ts vs rule: list_all2_induct) (auto simp: join_Cons partD, simp add: range_rune_def)
  then have start: "view (string_parser u (join_with [rDot] ts)) [] [] (join_with [rDot] ts)
      (string_parser u (join_with [rDot] ts))"
    by (rule view_string_parser)
  have "wp {} parseKey (\<lambda>k t. errs t = [] \<and>
      (\<exists>kp. k = Some kp \<and> map string_ScalarString (kp_path kp) = vs))
    (string_parser u (join_with [rDot] ts))"
    unfolding parseKey_def parseKey_body_def wp_bnd wp_gets
  proof (rule view_parseKey_loop [OF start assms(1,2)])
    fix k :: "position \<times> string_node list" and cs t
    assume t: "view (string_parser u (join_with [rDot] ts)) cs [] [] t"
      and k: "map string_ScalarString (snd k) = vs"
    have "snd k \<noteq> []"
      using k assms(1,2) by auto
    moreover have "List.find (\<lambda>part. blen (string_ScalarString part) > 518) (snd k) = None"
      using assms(3) k by (auto simp: find_None_iff list_all_iff not_less)
    moreover have "errs t = []"
      using t by (simp add: view_def string_parser_def init_parser_def)
    ultimately show "wp {} (parseKey_finish k) (\<lambda>k t. errs t = [] \<and>
      (\<exists>kp. k = Some kp \<and> map string_ScalarString (kp_path kp) = vs)) t"
      using k by (cases k) (simp add: parseKey_finish_def)
  qed
  then show ?thesis
    by (auto simp: wp_def ParseKey_def parse_string_with_def split: outcome.splits)
qed

text \<open>Every key path is printed, and what is printed is parsed back.\<close>

lemma FormatKeyPath_parts:
  "\<exists>ts. FormatKeyPath a = Some (join_with [rDot] ts) \<and>
    list_all2 part ts (map (canon \<circ> string_ScalarString) a) \<and> length ts = length a"
proof -
  have "\<exists>ts. list_all2 (\<lambda>s t. prints (string_ScalarString s) t) a ts"
  proof (induction a)
    case Nil
    then show ?case by simp
  next
    case (Cons s a)
    then show ?case
      using prints_ex [of "string_ScalarString s"] by (auto simp: list_all2_Cons1)
  qed
  then obtain ts where ts: "list_all2 (\<lambda>s t. prints (string_ScalarString s) t) a ts"
    by blast
  have "FormatKeyPath a = Some (join_with [rDot] ts)"
    using fmt_key_parts_write [OF ts, of "new_printer\<lparr>p_inKey := True\<rparr>" True]
    by (simp add: FormatKeyPath_def new_printer_def p_write_def)
  moreover have "list_all2 part ts (map (canon \<circ> string_ScalarString) a)"
    using ts by (auto simp: list_all2_conv_all_nth prints_def)
  ultimately show ?thesis
    using list_all2_lengthD [OF ts] by auto
qed

end
