(* ===== verification/Value_Roundtrip.thy ===== *)
theory Value_Roundtrip
  imports Key_Roundtrip
begin

text \<open>
  More of what is printed by \<^verbatim>\<open>d2format\<close> and parsed by \<^verbatim>\<open>d2parser\<close>: the fast path of
  \<^verbatim>\<open>FormatKeyPath\<close> prints what the regular printer prints; a value that begins with a quote is read
  as that quoted string; and an edge index is read back from its digits.
\<close>

section \<open>The fast path of key paths\<close>

lemma fmt_key_part_reference:
  assumes "p_inKey p"
  shows "fmt_key_part v p = p_string (RawString v True) p"
proof (cases "plainKey v")
  case True
  have raw: "RawString v True = FlatUnquotedString v"
    using plainKey_safe [OF True] by (simp add: RawString_def safe_key_needs)
  show ?thesis
  proof (cases "to_lower v = runes ''null''")
    case null: True
    have "escapeUnquotedValue v True = rSQ # runes ''null'' @ [rSQ]"
      using plainKey_safe [OF True] null by (simp add: escapeUnquotedValue_def equal_fold_null del: runes.simps)
    then show ?thesis
      using plainKey_safe [OF True] True raw assms null not_reserved_null
      by (simp add: fmt_key_part_def FlatUnquotedString_def text_box_def box_text_def del: runes.simps)
  next
    case False
    then have "escapeUnquotedValue v True = v"
      using plainKey_safe [OF True] by (simp add: escapeUnquotedValue_def equal_fold_null escape_safe del: runes.simps)
    then show ?thesis
      using plainKey_safe [OF True] True raw assms False
      by (simp add: fmt_key_part_def FlatUnquotedString_def text_box_def box_text_def del: runes.simps)
  qed
qed (simp add: fmt_key_part_def)

lemma p_path_step:
  "p_path (s # ss) p =
    Option.bind (p_string s p) (\<lambda>p. if ss = [] then Some p else p_path ss (p_write [rDot] p))"
  by (cases ss) simp_all

lemma p_path_Nil: "p_path [] p = Some p"
  by simp

lemma fmt_key_parts_reference:
  assumes "p_inKey p"
  shows "fmt_key_parts first a p =
    p_path (map (\<lambda>s. RawString (string_ScalarString s) True) a)
      (if first \<or> a = [] then p else p_write [rDot] p)"
  using assms
proof (induction a arbitrary: first p)
  case Nil
  then show ?case by simp
next
  case (Cons s a)
  let ?p = "if first then p else p_write [rDot] p"
  have k: "p_inKey ?p"
    using Cons.prems by (simp add: p_write_def)
  obtain x where x: "fmt_key_part (string_ScalarString s) ?p = Some (p_write x ?p)"
    using prints_ex [of "string_ScalarString s"] k by (auto simp: prints_def)
  moreover have "p_inKey (p_write x ?p)"
    using k by (simp add: p_write_def)
  ultimately show ?case
    using Cons.IH [of "p_write x ?p" False] fmt_key_part_reference [OF k, of "string_ScalarString s"]
    by (simp add: p_path_step del: p_path.simps(2))
qed

section \<open>Quoted values\<close>

lemma parseValue_unfold: "\<exists>pv. parseValue = parseValue_body pv"
  by (intro exI [of _ "parseValue_level 128"] ext) (simp add: parseValue_def parse_level_def numeral_eq_Suc)

lemma view_replay_first:
  assumes "view s0 [r] [] rs s" and "r \<noteq> rNL" and "\<And>t. view s0 [] [] (r # rs) t \<Longrightarrow> Q () t"
  shows "wp A (replay r) Q s"
  using view_replay [of s0 "[]" r rs s Q A] assms by simp

text \<open>A value that begins with a quote is the quoted string there.\<close>

lemma ParseValue_quoted:
  assumes "map range_rune txt = txt" and "txt = q # w" and "q = rDQ \<or> q = rSQ"
    and "\<And>s t0 Q. view s [] [] txt t0 \<Longrightarrow>
      (\<And>x t. view s txt [] [] t \<Longrightarrow> P x \<Longrightarrow> \<not> IsUnquoted x \<Longrightarrow> Q (Some x) t) \<Longrightarrow>
      wp {} (parseString False) Q t0"
  shows "\<exists>x. ParseValue u txt = Returned (Some (ScalarV (String x))) None \<and> P x"
proof -
  obtain pv where pv: "parseValue = parseValue_body pv"
    using parseValue_unfold by blast
  have finish: "errs t = []" if "view (string_parser u z) cs la rs t" for z cs la rs t
    using that by (simp add: view_def string_parser_def init_parser_def)
  have "wp {} parseValue
      (\<lambda>v t. errs t = [] \<and> (\<exists>x. v = Some (ScalarV (string_value x)) \<and> P x \<and> \<not> IsUnquoted x))
    (string_parser u txt)"
    unfolding pv parseValue_body_def using view_string_parser [OF assms(1), of u] assms(2,3)
    by (auto elim!: view_rules view_replay_first intro!: assms(4) simp: is_space_def)
      (auto intro: finish)
  then show ?thesis
    by (auto simp: wp_def ParseValue_def parse_string_with_def string_value_def split: outcome.splits)
qed

section \<open>Edge indexes\<close>

interpretation digits: text_scanner "edgeIndex_step start" "\<lambda>v. v" "\<lambda>v sb. sb = d # v"
  "list_all ascii_digit" "[]" "\<lambda>rs. rs \<noteq> [] \<and> hd rs = rRBr" "\<lambda>v z. z = Some (d # v)"
  for start d
proof unfold_locales
  fix x u y rs s0 cs t A
  assume u: "u = d # x" and y: "list_all ascii_digit y" "y \<noteq> []" and t: "view s0 cs [] (y @ [] @ rs) t"
  then obtain r b where r: "y = r # b"
    by (cases y) auto
  have "is_digit w r" "\<not> is_space r" "r \<noteq> rRBr" for w
    using y(1) r by (auto simp: is_digit_def ascii_digit_def is_space_def)
  then have "wp A (edgeIndex_step start u) (\<lambda>z t'. z = Inl (u @ [r]) \<and> view s0 (cs @ [r]) [] (b @ rs) t') t"
    unfolding edgeIndex_step_def using t r by (auto elim!: view_rules)
  then show "wp A (edgeIndex_step start u) (\<lambda>z t'. \<exists>u' a b. z = Inl u' \<and> y = a @ b \<and> a \<noteq> [] \<and>
      list_all ascii_digit b \<and> u' = d # x @ a \<and> view s0 (cs @ a) [] (b @ [] @ rs) t') t"
  proof (rule wp_weaken, intro exI conjI)
    show "y = [r] @ b"
      using r by simp
  qed (use u y r in auto)
next
  fix x u rs s0 cs t A
  assume "u = d # x" and "rs \<noteq> [] \<and> hd rs = rRBr" and "view s0 cs [] ([] @ rs) t"
  then show "wp A (edgeIndex_step start u) (\<lambda>z t'. \<exists>w. z = Inr w \<and> w = Some (d # x) \<and>
      view s0 (cs @ []) [] rs t') t"
    unfolding edgeIndex_step_def by (cases rs) (auto elim!: view_rules simp: is_space_def)
qed simp_all

lemma view_edgeIndex_digits:
  assumes "view s0 cs [] (ds @ rRBr # rs) s" and "list_all ascii_digit ds"
    and "\<And>t. view s0 (cs @ ds) [] (rRBr # rs) t \<Longrightarrow> Q (Some (d # ds)) t"
  shows "wp A (edgeIndex_digits start d) Q s"
  unfolding edgeIndex_digits_def
  by (rule digits.scan [where v = ds and rs = "rRBr # rs" and cs = cs and ?s0.0 = s0])
    (use assms(1,2) in \<open>auto intro: assms(3)\<close>)

text \<open>The index after its bracket is read: its number, or a star.\<close>

lemma view_edgeIndex:
  assumes "view s0 [rLBr] [] (txt @ [rRBr]) s" and "txt = rStar # [] \<and> i = None \<or>
      txt = itoa n \<and> 0 \<le> n \<and> n \<le> max_int \<and> i = Some n"
    and "\<And>t rng. view s0 (rLBr # txt @ [rRBr]) [] [] t \<Longrightarrow> Q (Some (EdgeIndex rng i (i = None))) t"
  shows "wp A parseEdgeIndex Q s"
  using assms(2)
proof
  assume "txt = [rStar] \<and> i = None"
  then show ?thesis
    unfolding parseEdgeIndex_def edgeIndex_value_def using assms(1,3)
    by (auto elim!: view_rules intro!: wp_intros simp: is_space_def is_digit_def ascii_digit_def)
next
  assume n: "txt = itoa n \<and> 0 \<le> n \<and> n \<le> max_int \<and> i = Some n"
  then obtain d ds where tx: "txt = d # ds" and ds: "list_all ascii_digit (d # ds)"
    using digits_of_ascii [of "nat n"] by (cases "digits_of (nat n)") (auto simp: itoa_def)
  have d: "is_digit u d" "\<not> is_space d" for u
    using ds by (auto simp: is_digit_def ascii_digit_def is_space_def)
  have "atoi (d # ds) = (n, True)"
    using n tx atoi_itoa [of n] by (simp add: min_int_def)
  moreover have "view s0 [rLBr] [] (d # ds @ [rRBr]) s"
    using assms(1) tx by simp
  moreover have "Q (Some (EdgeIndex rng (Some n) False)) t"
    if "view s0 (rLBr # d # ds @ [rRBr]) [] [] t" for t rng
    using assms(3) [of t rng] that tx n by simp
  moreover have "list_all ascii_digit ds"
    using ds by simp
  ultimately show ?thesis
    unfolding parseEdgeIndex_def edgeIndex_value_def using d
    by (auto elim!: view_rules intro!: wp_intros view_edgeIndex_digits [where ds = ds and rs = "[]"]
        simp: is_space_def)
qed

end
