(* ===== verification/Block_Indent.thy ===== *)
theory Block_Indent
  imports Parser_Lex
begin

text \<open>
  The indentation of block strings and block comments (\<^verbatim>\<open>trimCommonIndent\<close> of
  \<^verbatim>\<open>d2parser/parse.go\<close>): what it does to lines that are indented alike.
\<close>

lemma leading_indent_spaces:
  "l = [] \<or> \<not> is_space (hd l) \<Longrightarrow>
   leading_indent (-1) b i (replicate n rSp @ l) = (b @ replicate n rSp, i + n)"
proof (induction n arbitrary: b i)
  case 0
  then show ?case by (cases l) simp_all
next
  case (Suc n)
  then show ?case by (simp add: is_space_def Let_def)
qed

lemma leading_indent_bounded:
  "leading_indent (int (blen b + Suc n)) b i (replicate (Suc n) rSp @ l) = (b @ replicate (Suc n) rSp, i + Suc n)"
proof (induction n arbitrary: b i)
  case 0
  then show ?case by (simp add: is_space_def item_bytes_def)
next
  case (Suc n)
  have "leading_indent (int (blen (b @ [rSp]) + Suc n)) (b @ [rSp]) (Suc i) (replicate (Suc n) rSp @ l) =
      ((b @ [rSp]) @ replicate (Suc n) rSp, Suc i + Suc n)"
    by (rule Suc.IH)
  then show ?case
    by (simp add: is_space_def item_bytes_def)
qed

lemma blen_spaces [simp]: "blen (replicate n rSp) = n"
  by (induction n) (simp_all add: item_bytes_def)

lemma drop_bytes_spaces: "drop_bytes n (replicate n rSp @ l) = l"
  using drop_bytes_blen [of "replicate n rSp" l] by simp

text \<open>Lines that begin with no space, indented by the same number of spaces.\<close>

definition indent_line :: "nat \<Rightarrow> gostr \<Rightarrow> gostr" where
  "indent_line n l = (if l = [] then l else replicate n rSp @ l)"

lemma split_indent_line:
  "l \<noteq> [] \<Longrightarrow> \<not> is_space (hd l) \<Longrightarrow> splitLeadingIndent (indent_line n l) (-1) = (replicate n rSp, l)"
  using leading_indent_spaces [of l "[]" 0 n]
  by (simp add: splitLeadingIndent_def indent_line_def drop_bytes_spaces)

lemma trim_indent_line:
  "l \<noteq> [] \<Longrightarrow> splitLeadingIndent (indent_line (Suc n) l) (int (Suc n)) = (replicate (Suc n) rSp, l)"
  using leading_indent_bounded [of "[]" n 0 l] drop_bytes_spaces [of "Suc n" l]
  by (simp add: splitLeadingIndent_def indent_line_def del: replicate.simps)

lemma common_indent_lines:
  assumes "\<forall>l \<in> set ls. l \<noteq> [] \<longrightarrow> \<not> is_space (hd l)" and "c = [] \<or> c = replicate (Suc n) rSp"
  shows "common_indent c (map (indent_line (Suc n)) ls) =
    Some (if list_all (\<lambda>l. l = []) ls then c else replicate (Suc n) rSp)"
  using assms
proof (induction ls arbitrary: c)
  case Nil
  then show ?case by simp
next
  case (Cons l ls)
  show ?case
  proof (cases "l = []")
    case True
    then show ?thesis
      using Cons by (simp add: indent_line_def)
  next
    case False
    then have "splitLeadingIndent (indent_line (Suc n) l) (-1) = (replicate (Suc n) rSp, l)"
      "indent_line (Suc n) l \<noteq> []"
      using Cons.prems by (simp_all add: split_indent_line del: replicate.simps) (simp add: indent_line_def)
    then show ?thesis
      using Cons False by (auto simp del: replicate.simps)
  qed
qed

lemma trimCommonIndent_lines:
  assumes "\<forall>l \<in> set (split_on rNL s). l \<noteq> [] \<longrightarrow> \<not> is_space (hd l)"
  shows "trimCommonIndent (join_with [rNL] (map (indent_line (Suc n)) (split_on rNL s))) = s"
proof -
  let ?ls = "split_on rNL s"
  have "\<forall>l \<in> set (map (indent_line (Suc n)) ?ls). rNL \<notin> set l"
    using split_on_parts [of _ rNL s] by (auto simp: indent_line_def)
  then have lines: "split_on rNL (join_with [rNL] (map (indent_line (Suc n)) ?ls)) = map (indent_line (Suc n)) ?ls"
    by (intro split_join) simp_all
  have indent: "common_indent [] (map (indent_line (Suc n)) ?ls) =
      Some (if list_all (\<lambda>l. l = []) ?ls then [] else replicate (Suc n) rSp)"
    by (rule common_indent_lines [OF assms]) simp
  have line: "(if indent_line (Suc n) l = [] then indent_line (Suc n) l
      else snd (splitLeadingIndent (indent_line (Suc n) l) (int (Suc n)))) = l" for l
    using trim_indent_line [of l n] by (cases "l = []") (simp_all add: indent_line_def)
  show ?thesis
  proof (cases "list_all (\<lambda>l. l = []) ?ls")
    case True
    then have "map (indent_line (Suc n)) ?ls = ?ls"
      by (auto simp: list_all_iff indent_line_def intro: map_idI)
    then show ?thesis
      using indent True lines by (simp add: trimCommonIndent_def join_split_on)
  next
    case False
    have "trimCommonIndent (join_with [rNL] (map (indent_line (Suc n)) ?ls)) =
        trimIndent (join_with [rNL] (map (indent_line (Suc n)) ?ls)) (replicate (Suc n) rSp)"
      unfolding trimCommonIndent_def lines indent using False by simp
    also have "\<dots> = join_with [rNL] (map (\<lambda>l. if indent_line (Suc n) l = [] then indent_line (Suc n) l
      else snd (splitLeadingIndent (indent_line (Suc n) l) (int (Suc n)))) ?ls)"
      unfolding trimIndent_def lines blen_spaces map_map comp_def ..
    also have "\<dots> = s"
      unfolding line by (simp add: join_split_on)
    finally show ?thesis .
  qed
qed
end
