(* ===== verification/Format_Spec.thy ===== *)
theory Format_Spec
  imports Format
begin

text \<open>
  What the printer of \<^verbatim>\<open>d2format/format.go\<close> keeps: whatever it prints is appended to the buffer, and
  the indentation is the same afterwards, for every node. Besides, the quote it chooses for a block
  string does not occur next to a pipe in the text.
\<close>

section \<open>The quote of a block string\<close>

lemma grow_quote_front_safe: "\<not> contains_str (rPipe # grow_quote_front v q) v"
proof (induction v q rule: grow_quote_front.induct)
  case (1 v q)
  then show ?case
    by (cases "contains_str (rPipe # q) v") (simp_all add: grow_quote_front.simps [of v q])
qed

lemma grow_quote_back_safe: "\<not> contains_str (grow_quote_back v q @ [rPipe]) v"
proof (induction v q rule: grow_quote_back.induct)
  case (1 v q)
  then show ?case
    by (cases "contains_str (q @ [rPipe]) v") (simp_all add: grow_quote_back.simps [of v q])
qed

lemma grow_quote_back_extends: "\<exists>w. grow_quote_back v q = q @ w"
proof (induction v q rule: grow_quote_back.induct)
  case (1 v q)
  then show ?case
    by (cases "contains_str (q @ [rPipe]) v") (auto simp: grow_quote_back.simps [of v q])
qed

section \<open>Buffer and indentation\<close>

text \<open>\<open>grown i p q\<close>: the buffer of \<open>q\<close> extends that of \<open>p\<close>, and its indentation is \<open>i\<close>.\<close>

definition grown :: "gostr \<Rightarrow> printer \<Rightarrow> printer \<Rightarrow> bool" where
  "grown i p q \<longleftrightarrow> (\<exists>x. p_sb q = p_sb p @ x) \<and> p_indentStr q = i"

named_theorems grown_rules \<open>what each printing step leaves of the indentation\<close>

lemma grown_start [grown_rules]: "p_indentStr p = i \<Longrightarrow> grown i p p"
  by (simp add: grown_def)

lemma grown_write [grown_rules]: "grown i p q \<Longrightarrow> grown i p (p_write x q)"
  by (auto simp: grown_def p_write_def)

lemma grown_newline [grown_rules]: "grown i p q \<Longrightarrow> grown i p (p_newline q)"
  by (auto simp: grown_def p_newline_def p_write_def)

lemma grown_inKey [grown_rules]: "grown i p q \<Longrightarrow> grown i p (q\<lparr>p_inKey := b\<rparr>)"
  by (simp add: grown_def)

lemma grown_indent [grown_rules]: "grown i p q \<Longrightarrow> grown (i @ [rSp, rSp]) p (p_indent q)"
  by (auto simp: grown_def p_indent_def)

lemma grown_deindent [grown_rules]: "grown (i @ [rSp, rSp]) p q \<Longrightarrow> grown i p (p_deindent q)"
  by (auto simp: grown_def p_deindent_def)

lemma grown_if [grown_rules]:
  "(b \<Longrightarrow> grown i p q) \<Longrightarrow> (\<not> b \<Longrightarrow> grown i p r) \<Longrightarrow> grown i p (if b then q else r)"
  by simp

lemma grown_Let [grown_rules]: "grown i p (f x) \<Longrightarrow> grown i p (Let x f)"
  by simp

lemma grown_comment_lines [grown_rules]: "grown i p q \<Longrightarrow> grown i p (p_comment_lines ls q)"
proof (induction ls arbitrary: q)
  case (Cons l ls)
  show ?case
    unfolding p_comment_lines.simps by (intro grown_rules Cons.IH Cons.prems)
qed simp

lemma grown_block_lines [grown_rules]: "grown i p q \<Longrightarrow> grown i p (p_block_lines oneLine ls q)"
proof (induction ls arbitrary: q)
  case (Cons l ls)
  show ?case
    unfolding p_block_lines.simps by (intro grown_rules Cons.IH Cons.prems)
qed simp

lemma grown_comment [grown_rules]: "grown i p q \<Longrightarrow> grown i p (p_comment c q)"
  unfolding p_comment_def by (intro grown_rules)

lemma grown_blockComment [grown_rules]: "grown i p q \<Longrightarrow> grown i p (p_blockComment c q)"
  unfolding p_blockComment_def by (intro grown_rules)

lemma grown_blockString [grown_rules]: "grown i p q \<Longrightarrow> grown i p (p_blockString r qt t v q)"
proof -
  assume q: "grown i p q"
  define rv where "rv = (if r = range0 then
    (if rNL \<in> set v then MakeRange (runes '',1:0:0-2:0:0'') else r, trim_space v) else (r, v))"
  obtain rng va where rv: "rv = (rng, va)"
    by fastforce
  show ?thesis
    unfolding p_blockString_def Let_def rv_def [symmetric] rv prod.case
    by (cases "OneLine rng") (simp_all only: not_True_eq_False not_False_eq_True if_True if_False,
      (intro grown_rules q)+)
qed

text \<open>The same of an operation that may fail.\<close>

definition grows :: "gostr \<Rightarrow> printer \<Rightarrow> printer option \<Rightarrow> bool" where
  "grows i p m \<longleftrightarrow> (\<forall>q. m = Some q \<longrightarrow> grown i p q)"

lemma grows_Some [grown_rules]: "grown i p q \<Longrightarrow> grows i p (Some q)"
  by (simp add: grows_def)

lemma grows_bind [grown_rules]:
  "grows i p m \<Longrightarrow> (\<And>q. m = Some q \<Longrightarrow> grown i p q \<Longrightarrow> grows i p (f q)) \<Longrightarrow>
   grows i p (Option.bind m f)"
  by (auto simp: grows_def split: bind_splits)

lemma grows_bind_at:
  "grows j p m \<Longrightarrow> (\<And>q. m = Some q \<Longrightarrow> grown j p q \<Longrightarrow> grows i p (f q)) \<Longrightarrow>
   grows i p (Option.bind m f)"
  by (auto simp: grows_def split: bind_splits)

lemma grows_map_option [grown_rules]:
  "grows j p m \<Longrightarrow> (\<And>q. grown j p q \<Longrightarrow> grown i p (f q)) \<Longrightarrow> grows i p (map_option f m)"
  by (auto simp: grows_def)

lemma grows_if [grown_rules]:
  "(b \<Longrightarrow> grows i p m) \<Longrightarrow> (\<not> b \<Longrightarrow> grows i p n) \<Longrightarrow> grows i p (if b then m else n)"
  by simp

lemma grows_Let [grown_rules]: "grows i p (f x) \<Longrightarrow> grows i p (Let x f)"
  by simp

lemma grows_option [grown_rules]:
  "grows i p m \<Longrightarrow> (\<And>y. grows i p (f y)) \<Longrightarrow> grows i p (case x of None \<Rightarrow> m | Some y \<Rightarrow> f y)"
  by (simp split: option.split)

lemma grows_string:
  "grown i p0 p \<Longrightarrow> grows i p0 (p_string x p)"
  "grown i p0 p \<Longrightarrow> grows i p0 (p_boxes d a bs p)"
  "grown i p0 p \<Longrightarrow> grows i p0 (p_box d a b p)"
  "grown i p0 p \<Longrightarrow> grows i p0 (p_substitution y p)"
  "grown i p0 p \<Longrightarrow> grows i p0 (p_path ss p)"
proof (induction x p and d a bs p and d a b p and y p and ss p
    rule: p_string_p_boxes_p_box_p_substitution_p_path.induct)
  case (1 r v pt p)
  then show ?case by simp
next
  case (2 r v p)
  show ?case
    unfolding p_string.simps by (rule grown_rules 2 | assumption)+
next
  case (3 r w v p)
  show ?case
    unfolding p_string.simps by (rule grown_rules 3 | assumption)+
next
  case (4 r qt t v p)
  show ?case
    unfolding p_string.simps by (rule grown_rules 4 | assumption)+
next
  case (5 d a p)
  then show ?case
    unfolding p_boxes.simps by (rule grown_rules)
next
  case (6 d a b bs p)
  show ?case
    unfolding p_boxes.simps by (auto simp: grows_def split: bind_splits) (use 6 in \<open>auto simp: grows_def\<close>)
next
  case (7 d a str raw sub p)
  show ?case
  proof (cases sub)
    case None
    then show ?thesis
      using 7(2) by (auto simp: grows_def grown_write)
  next
    case (Some x)
    then show ?thesis
      using 7 by simp
  qed
next
  case (8 r spread pth p)
  show ?case
    unfolding p_substitution.simps by (rule grown_rules 8 | assumption)+
next
  case (9 p)
  then show ?case
    unfolding p_path.simps by (rule grown_rules)
next
  case (10 s ss p)
  show ?case
    unfolding p_path.simps by (auto simp: grows_def split: bind_splits) (use 10 in \<open>auto simp: grows_def grown_write\<close>)
qed

lemmas [grown_rules] = grows_string(1,4,5)

lemma grows_import [grown_rules]: "grown i p0 p \<Longrightarrow> grows i p0 (p_import x p)"
  unfolding p_import_def by (rule grown_rules | assumption)+

lemma grows_scalar [grown_rules]: "grown i p0 p \<Longrightarrow> grows i p0 (p_scalar x p)"
  unfolding p_scalar_def by (cases x) (simp_all only: scalar.case, (rule grown_rules | assumption)+)

lemma grows_key [grown_rules]: "grown i p0 p \<Longrightarrow> grows i p0 (p_key k p)"
  unfolding p_key_def by (rule grown_rules | assumption)+

lemma grows_arrow [grown_rules]: "grown i p0 p \<Longrightarrow> grows i p0 (p_edgeArrowAndDst e p)"
  unfolding p_edgeArrowAndDst_def by (rule grown_rules | assumption)+

lemma grows_edge [grown_rules]: "grown i p0 p \<Longrightarrow> grows i p0 (p_edge e p)"
  unfolding p_edge_def by (rule grown_rules | assumption)+

lemma grows_edgeIndex [grown_rules]: "grown i p0 p \<Longrightarrow> grows i p0 (p_edgeIndex e p)"
  unfolding p_edgeIndex_def by (rule grown_rules | assumption | simp add: grows_def)+

lemma grows_edges [grown_rules]: "grown i p0 p \<Longrightarrow> grows i p0 (p_edges es p)"
proof (induction es arbitrary: p)
  case Nil
  then show ?case by (simp add: grows_def)
next
  case (Cons e es)
  show ?case
    unfolding p_edges.simps by (rule grown_rules Cons.IH Cons.prems | assumption)+
qed

lemma grows_keyEdges [grown_rules]: "grown i p0 p \<Longrightarrow> grows i p0 (p_keyEdges mk p)"
  unfolding p_keyEdges_def by (cases "k_edges mk") (simp_all only: list.case, (rule grown_rules | assumption)+)

lemma grows_keyHead [grown_rules]: "grown i p0 p \<Longrightarrow> grows i p0 (p_keyHead mk p)"
  unfolding p_keyHead_def by (rule grown_rules | assumption)+

lemma grown_separator [grown_rules]: "grown i p q \<Longrightarrow> grown i p (p_separator oneLine isFile first prev rng q)"
  by (auto simp: p_separator_def Let_def split: option.split intro!: grown_write grown_newline)

lemma grows_val:
  "grown i p0 p \<Longrightarrow> grows i p0 (p_val v p)"
  "grown i p0 p \<Longrightarrow> grows i p0 (p_array ar p)"
  "grown i p0 p \<Longrightarrow> grows i p0 (p_array_nodes rng first prev ans p)"
  "grown i p0 p \<Longrightarrow> grows i p0 (p_array_node an p)"
  "grown i p0 p \<Longrightarrow> grows i p0 (p_map m p)"
  "grown i p0 p \<Longrightarrow> grows i p0 (p_map_nodes rng isFile first prev mns p)"
  "grown i p0 p \<Longrightarrow> grows i p0 (p_boards blank mns p)"
  "grown i p0 p \<Longrightarrow> grows i p0 (p_map_node mn p)"
  "grown i p0 p \<Longrightarrow> grows i p0 (p_mapKey k p)"
  "grown i p0 p \<Longrightarrow> grows i p0 (p_keyValue hp vo p)"
proof (induction v p and ar p and rng first prev ans p and an p and m p and rng isFile first prev mns p
    and blank mns p and mn p and k p and hp vo p arbitrary: i and i and i and i and i and i and i and i and i and i
    rule: p_val_p_array_p_array_nodes_p_array_node_p_map_p_map_nodes_p_boards_p_map_node_p_mapKey_p_keyValue.induct)
  case (5 rng nodes p)
  show ?case
  proof (cases "OneLine rng")
    case True
    then have IH: "grown j p0 (p_write [rLBr] p) \<Longrightarrow>
        grows j p0 (p_array_nodes rng True None nodes (p_write [rLBr] p))" for j
      using 5(1) [OF refl refl] by simp
    show ?thesis
      unfolding p_array.simps Let_def using True
      by (simp only: if_True) (rule IH grown_rules 5(2) | assumption)+
  next
    case False
    then have IH: "grown j p0 (p_indent (p_write [rLBr] p)) \<Longrightarrow>
        grows j p0 (p_array_nodes rng True None nodes (p_indent (p_write [rLBr] p)))" for j
      using 5(1) [OF refl refl] by simp
    show ?thesis
      unfolding p_array.simps Let_def using False
      by (simp only: if_False) (rule IH grown_rules 5(2) | assumption)+
  qed
next
  case (7 rng first prev nb nodes p)
  show ?case
    unfolding p_array_nodes.simps
    by (rule grown_rules 7 refl | assumption)+
next
  case (13 rng nodes p)
  let ?file = "IsFileMap (Map rng nodes)"
  let ?open = "p_write [rLCur] p"
  let ?start = "if ?file then p else if OneLine rng then ?open else p_indent ?open"
  let ?i = "if ?file \<or> OneLine rng then i else i @ [rSp, rSp]"
  have nodes: "grown j p0 ?start \<Longrightarrow> grows j p0 (p_map_nodes rng ?file True None nodes ?start)" for j
    by (rule 13(1) [OF refl refl, unfolded Let_def, OF refl])
  have boards: "p_map_nodes rng ?file True None nodes ?start = Some q \<Longrightarrow> grown j p0 q \<Longrightarrow>
      grows j p0 (p_boards (length (filter is_printed_board nodes) < length nodes) nodes q)" for j q
    by (rule 13(2) [OF refl refl, unfolded Let_def, OF refl])
  have start: "grown ?i p0 ?start"
    using 13(3) by (simp add: grown_write grown_indent)
  have close: "grown ?i p0 q \<Longrightarrow> grows i p0 (Some (if \<not> ?file
       then p_write [rRCur] (if OneLine rng then q else p_newline (p_deindent q))
       else if nodes \<noteq> [] then p_write [rNL] q else q))" for q
    by (auto simp: grows_def intro!: grown_write grown_newline grown_deindent)
  show ?case
    unfolding p_map.simps Let_def
    by (rule grows_bind_at [OF nodes [OF start]], rule grows_bind_at, erule boards, assumption, rule close)
next
  case (15 rng isFile first prev nb nodes p)
  show ?case
    unfolding p_map_nodes.simps
    by (rule grown_rules 15 refl | assumption)+
next
  case (17 blank nb nodes p)
  show ?case
    unfolding p_boards.simps
    by (rule grown_rules 17 refl | assumption)+
next
  case (25 hp v p)
  show ?case
    unfolding p_keyValue.simps
    by (cases "val_map v") (simp_all only: option.case, (rule grown_rules 25 | assumption)+)
qed (simp_all, (rule grown_rules | assumption)+)

end
