(* ===== verification/Ir_Names.thy ===== *)
theory Ir_Names
  imports Ast
begin

text \<open>
  Names and edge identifiers of the intermediate representation (\<^verbatim>\<open>d2ir/d2ir.go\<close>): case folding, the
  keys of the lookup indexes of a map, \<^verbatim>\<open>EdgeID\<close> and its comparisons.
  \<^verbatim>\<open>unicode.SimpleFold\<close> is the parameter \<open>sf\<close>: its table depends on the Unicode version Go ships.
  \<open>fold_ok\<close> is its documentation: it cycles through the runes equal under simple case folding (an orbit
  has at most four runes), and the values the documentation gives for the letters of ASCII.
\<close>

section \<open>Case folding\<close>

definition ascii_simple_fold :: "rune \<Rightarrow> rune" where
  "ascii_simple_fold r =
    (if r = 107 then 0x212A else if r = 115 then 0x17F
     else if r = 0x212A then 75 else if r = 0x17F then 83
     else if 65 \<le> r \<and> r \<le> 90 then r + 32 else if 97 \<le> r \<and> r \<le> 122 then r - 32 else r)"

definition fold_orbit :: "(rune \<Rightarrow> rune) \<Rightarrow> rune \<Rightarrow> rune list" where
  "fold_orbit sf r = [r, sf r, sf (sf r), sf (sf (sf r))]"

definition fold_ok :: "(rune \<Rightarrow> rune) \<Rightarrow> bool" where
  "fold_ok sf \<longleftrightarrow>
    (\<forall>r. r = sf r \<or> r = sf (sf r) \<or> r = sf (sf (sf r)) \<or> r = sf (sf (sf (sf r)))) \<and>
    (\<forall>r. 0 \<le> r \<longrightarrow> 0 \<le> sf r) \<and>
    (\<forall>r. (0 \<le> r \<and> r \<le> 127) \<or> r = 0x212A \<or> r = 0x17F \<or> r = 0x130 \<longrightarrow> sf r = ascii_simple_fold r)"

text \<open>The loop of \<^verbatim>\<open>foldString\<close> over the orbit of a rune: the smallest rune of the orbit.\<close>

primrec fold_min :: "nat \<Rightarrow> (rune \<Rightarrow> rune) \<Rightarrow> rune \<Rightarrow> rune \<Rightarrow> rune \<Rightarrow> rune" where
  "fold_min 0 sf r nxt m = m"
| "fold_min (Suc n) sf r nxt m =
    (if nxt = r then m else fold_min n sf r (sf nxt) (if nxt < m then nxt else m))"

definition foldRune :: "(rune \<Rightarrow> rune) \<Rightarrow> rune \<Rightarrow> rune" where
  "foldRune sf r = fold_min 4 sf r (sf r) r"

definition is_ascii :: "rune \<Rightarrow> bool" where
  "is_ascii r \<longleftrightarrow> 0 \<le> r \<and> r \<le> 127"

definition upper_ascii :: "rune \<Rightarrow> rune" where
  "upper_ascii r = (if 97 \<le> r \<and> r \<le> 122 then r - 32 else r)"

definition foldString :: "(rune \<Rightarrow> rune) \<Rightarrow> gostr \<Rightarrow> gostr" where
  "foldString sf s =
    (if list_all is_ascii s then
       (if list_ex (\<lambda>r. 97 \<le> r \<and> r \<le> 122) s then map upper_ascii s else s)
     else map (\<lambda>r. foldRune sf (range_rune r)) s)"

text \<open>\<^verbatim>\<open>strings.EqualFold\<close>: rune by rune, equal under simple case folding.\<close>

definition fold_same :: "(rune \<Rightarrow> rune) \<Rightarrow> rune \<Rightarrow> rune \<Rightarrow> bool" where
  "fold_same sf a b \<longleftrightarrow> b \<in> set (fold_orbit sf a)"

definition EqualFold :: "(rune \<Rightarrow> rune) \<Rightarrow> gostr \<Rightarrow> gostr \<Rightarrow> bool" where
  "EqualFold sf s t \<longleftrightarrow> list_all2 (\<lambda>a b. fold_same sf (range_rune a) (range_rune b)) s t"

lemma fold_ok_cycle:
  "fold_ok sf \<Longrightarrow> r = sf r \<or> r = sf (sf r) \<or> r = sf (sf (sf r)) \<or> r = sf (sf (sf (sf r)))"
  by (simp add: fold_ok_def)

lemma fold_ok_ascii:
  "fold_ok sf \<Longrightarrow> is_ascii r \<or> r = 0x212A \<or> r = 0x17F \<or> r = 0x130 \<Longrightarrow> sf r = ascii_simple_fold r"
  unfolding fold_ok_def is_ascii_def by blast

lemma orbit_step: "fold_ok sf \<Longrightarrow> set (fold_orbit sf (sf r)) = set (fold_orbit sf r)"
  using fold_ok_cycle [of sf r] by (auto simp: fold_orbit_def)

lemma orbit_mem: "fold_ok sf \<Longrightarrow> x \<in> set (fold_orbit sf r) \<Longrightarrow> set (fold_orbit sf x) = set (fold_orbit sf r)"
  using orbit_step [of sf r] orbit_step [of sf "sf r"] orbit_step [of sf "sf (sf r)"]
  by (auto simp: fold_orbit_def)

lemma foldRune_Min:
  assumes "fold_ok sf"
  shows "foldRune sf r = Min (set (fold_orbit sf r))"
proof -
  have num: "(4::nat) = Suc (Suc (Suc (Suc 0)))" by simp
  show ?thesis
    using fold_ok_cycle [OF assms, of r]
    by (auto simp: foldRune_def fold_orbit_def num min_def)
qed

lemma fold_same_refl [simp]: "fold_same sf a a"
  by (simp add: fold_same_def fold_orbit_def)

lemma foldRune_eq:
  assumes "fold_ok sf"
  shows "foldRune sf a = foldRune sf b \<longleftrightarrow> fold_same sf a b"
proof
  assume "foldRune sf a = foldRune sf b"
  then have "Min (set (fold_orbit sf a)) = Min (set (fold_orbit sf b))"
    by (simp add: foldRune_Min assms)
  moreover have "Min (set (fold_orbit sf x)) \<in> set (fold_orbit sf x)" for x
    by (rule Min_in) (simp_all add: fold_orbit_def)
  ultimately have "set (fold_orbit sf a) = set (fold_orbit sf b)"
    using orbit_mem [OF assms] by metis
  then show "fold_same sf a b"
    by (simp add: fold_same_def fold_orbit_def)
next
  assume "fold_same sf a b"
  then have "set (fold_orbit sf b) = set (fold_orbit sf a)"
    using orbit_mem [OF assms] by (simp add: fold_same_def)
  then show "foldRune sf a = foldRune sf b"
    by (simp add: foldRune_Min assms)
qed

lemma ascii_orbit:
  assumes "fold_ok sf" "is_ascii r"
  shows "set (fold_orbit sf r) =
    (if r = 75 \<or> r = 107 then {75, 107, 0x212A} else if r = 83 \<or> r = 115 then {83, 115, 0x17F}
     else if 65 \<le> r \<and> r \<le> 90 then {r, r + 32} else if 97 \<le> r \<and> r \<le> 122 then {r - 32, r} else {r})"
proof -
  have s: "x = 0x212A \<or> x = 0x17F \<or> is_ascii x \<Longrightarrow> sf x = ascii_simple_fold x" for x
    using fold_ok_ascii [OF assms(1)] by blast
  show ?thesis
    using assms(2) by (auto simp: fold_orbit_def s ascii_simple_fold_def is_ascii_def)
qed

lemma foldRune_ascii: "fold_ok sf \<Longrightarrow> is_ascii r \<Longrightarrow> foldRune sf r = upper_ascii r"
  by (auto simp: foldRune_Min ascii_orbit upper_ascii_def is_ascii_def)

lemma foldString_map:
  assumes "fold_ok sf"
  shows "foldString sf s = map (\<lambda>r. foldRune sf (range_rune r)) s"
proof (cases "list_all is_ascii s")
  case True
  have "map (\<lambda>r. foldRune sf (range_rune r)) s = map upper_ascii s"
    using True assms by (auto simp: list_all_iff foldRune_ascii range_rune_def is_ascii_def)
  moreover have "foldString sf s = map upper_ascii s"
    using True map_idI [of s upper_ascii] by (auto simp: foldString_def list_ex_iff upper_ascii_def)
  ultimately show ?thesis by simp
qed (auto simp: foldString_def)

lemma foldString_eq:
  assumes "fold_ok sf"
  shows "foldString sf s = foldString sf t \<longleftrightarrow> EqualFold sf s t"
  unfolding foldString_map [OF assms] EqualFold_def
  by (simp add: list_eq_iff_nth_eq list_all2_conv_all_nth foldRune_eq [OF assms] cong: conj_cong)

lemma EqualFold_refl [simp]: "EqualFold sf s s"
  by (simp add: EqualFold_def list_all2_refl)

lemma EqualFold_sym: "fold_ok sf \<Longrightarrow> EqualFold sf s t \<longleftrightarrow> EqualFold sf t s"
  using foldString_eq [of sf s t] foldString_eq [of sf t s] by auto

section \<open>Keys of the field index\<close>

record field_key =
  fk_folded :: gostr
  fk_unquotedReserved :: bool

definition makeFieldIndexKey :: "(rune \<Rightarrow> rune) \<Rightarrow> string_node \<Rightarrow> field_key" where
  "makeFieldIndexKey sf s =
    (let name = string_ScalarString s
     in \<lparr>fk_folded = foldString sf name,
         fk_unquotedReserved = (is_reserved (to_lower name) \<and> IsUnquoted s)\<rparr>)"

text \<open>The test of \<^verbatim>\<open>getFieldLinear\<close>: the name \<open>f\<close> of a field against the key \<open>s\<close> looked up.\<close>

definition name_matches :: "(rune \<Rightarrow> rune) \<Rightarrow> string_node \<Rightarrow> string_node \<Rightarrow> bool" where
  "name_matches sf f s \<longleftrightarrow>
    EqualFold sf (string_ScalarString f) (string_ScalarString s) \<and>
    \<not> (is_reserved (to_lower (string_ScalarString s)) \<and> IsUnquoted f \<noteq> IsUnquoted s)"

lemma lower_same:
  assumes "fold_ok sf" "fold_same sf (range_rune a) (range_rune b)" "a \<noteq> 0x17F" "b \<noteq> 0x17F"
    and l: "l = 45 \<or> (97 \<le> l \<and> l \<le> 122) \<or> (48 \<le> l \<and> l \<le> 57)" and la: "lower_rune a = l"
  shows "lower_rune b = l"
proof -
  have sp: "set (fold_orbit sf 0x212A) = {75, 107, 0x212A}" "set (fold_orbit sf 0x130) = {0x130}"
  proof -
    show "set (fold_orbit sf 0x212A) = {75, 107, 0x212A}"
      using orbit_mem [OF assms(1), of "0x212A" 75] by (simp add: ascii_orbit [OF assms(1)] is_ascii_def)
    show "set (fold_orbit sf 0x130) = {0x130}"
      using fold_ok_ascii [OF assms(1), of "0x130"] by (auto simp: fold_orbit_def ascii_simple_fold_def)
  qed
  have a: "is_ascii a \<or> a = 0x212A \<or> a = 0x130"
    using l la by (auto simp: lower_rune_def is_ascii_def split: if_splits)
  then have ra: "range_rune a = a" by (auto simp: range_rune_def is_ascii_def)
  have "range_rune b \<in> set (fold_orbit sf a)"
    using assms(2) ra by (simp add: fold_same_def)
  then have "range_rune b = b"
    using a assms(1) by (auto simp: ascii_orbit sp range_rune_def is_ascii_def split: if_splits)
  with \<open>range_rune b \<in> set (fold_orbit sf a)\<close> have b: "b \<in> set (fold_orbit sf a)" by simp
  from a show ?thesis
  proof (elim disjE)
    assume "is_ascii a"
    with b la l assms(3,4) show ?thesis
      by (auto simp: ascii_orbit [OF assms(1)] lower_rune_def is_ascii_def split: if_splits)
  next
    assume "a = 0x212A"
    with b la show ?thesis by (auto simp: sp lower_rune_def)
  next
    assume "a = 0x130"
    with b la show ?thesis by (auto simp: sp)
  qed
qed

text \<open>Without LATIN SMALL LETTER LONG S, names equal under folding are both reserved or both not.\<close>

lemma reserved_fold1:
  assumes "fold_ok sf" "EqualFold sf s t" "0x17F \<notin> set s" "0x17F \<notin> set t" "is_reserved (to_lower s)"
  shows "to_lower t = to_lower s"
proof -
  have k: "list_all (\<lambda>r. r = 45 \<or> (97 \<le> r \<and> r \<le> 122) \<or> (48 \<le> r \<and> r \<le> 57)) (to_lower s)"
    using assms(5) keywords_runes by (auto simp: is_reserved_def)
  have len: "length s = length t"
    using assms(2) by (auto simp: EqualFold_def dest: list_all2_lengthD)
  have "lower_rune (t ! i) = lower_rune (s ! i)" if i: "i < length t" for i
  proof (rule lower_same [OF assms(1)])
    show "fold_same sf (range_rune (s ! i)) (range_rune (t ! i))"
      using assms(2) i len by (auto simp: EqualFold_def list_all2_conv_all_nth)
    show "s ! i \<noteq> 0x17F" "t ! i \<noteq> 0x17F"
      using assms(3,4) i len by (metis nth_mem)+
    show "lower_rune (s ! i) = 45 \<or> (97 \<le> lower_rune (s ! i) \<and> lower_rune (s ! i) \<le> 122) \<or>
      (48 \<le> lower_rune (s ! i) \<and> lower_rune (s ! i) \<le> 57)"
      using k i len by (auto simp: to_lower_def list_all_length)
  qed simp
  with len show ?thesis
    by (auto simp: to_lower_def intro!: nth_equalityI)
qed

lemma reserved_fold:
  assumes "fold_ok sf" "EqualFold sf s t" "0x17F \<notin> set s" "0x17F \<notin> set t"
  shows "is_reserved (to_lower s) \<longleftrightarrow> is_reserved (to_lower t)"
  using reserved_fold1 [OF assms] reserved_fold1 [OF assms(1) _ assms(4,3)] assms(2)
  by (metis EqualFold_sym [OF assms(1)])

lemma field_key_eq:
  assumes "fold_ok sf"
    and "0x17F \<notin> set (string_ScalarString f)" "0x17F \<notin> set (string_ScalarString s)"
  shows "makeFieldIndexKey sf f = makeFieldIndexKey sf s \<longleftrightarrow> name_matches sf f s"
  using reserved_fold [OF assms(1) _ assms(2,3)]
  by (auto simp: makeFieldIndexKey_def Let_def name_matches_def foldString_eq [OF assms(1)])

text \<open>The parameter exists: folding that knows the letters of ASCII only.\<close>

lemma ascii_fold_ok: "fold_ok ascii_simple_fold"
  unfolding fold_ok_def
proof (intro conjI allI impI)
  fix r :: rune
  show "r = ascii_simple_fold r \<or> r = ascii_simple_fold (ascii_simple_fold r) \<or>
    r = ascii_simple_fold (ascii_simple_fold (ascii_simple_fold r)) \<or>
    r = ascii_simple_fold (ascii_simple_fold (ascii_simple_fold (ascii_simple_fold r)))"
  proof (cases "r = 75 \<or> r = 83 \<or> r = 107 \<or> r = 115 \<or> r = 0x212A \<or> r = 0x17F")
    case True
    then show ?thesis by (auto simp: ascii_simple_fold_def)
  next
    case False
    then have "r = ascii_simple_fold (ascii_simple_fold r)" by (auto simp: ascii_simple_fold_def)
    then show ?thesis by blast
  qed
qed (auto simp: ascii_simple_fold_def)

end
