(* ===== verification/Ir_Edge_ID.thy ===== *)
theory Ir_Edge_ID
  imports Ir_Names
begin

text \<open>
  \<^verbatim>\<open>EdgeID\<close> of \<^verbatim>\<open>d2ir/d2ir.go\<close>: how an edge is identified inside a map, how identifiers match, the key
  of the edge index, and the resolution of underscores and common containers. The maps around the map an
  identifier is resolved in are given by \<open>parent_names\<close>, the names of the fields between it and the root.
\<close>

record edge_id =
  eid_SrcPath :: "string_node list"
  eid_SrcArrow :: bool
  eid_DstPath :: "string_node list"
  eid_DstArrow :: bool
  eid_Index :: "int option"
  eid_Glob :: bool

text \<open>\<^verbatim>\<open>NewEdgeIDs\<close> reads through \<open>Src\<close> and \<open>Dst\<close> of every edge: None when one is nil.\<close>

definition edge_id_of :: "edge_index option \<Rightarrow> edge \<Rightarrow> edge_id option" where
  "edge_id_of ei ke =
    (case (e_src ke, e_dst ke) of
       (Some s, Some d) \<Rightarrow>
         Some \<lparr>eid_SrcPath = kp_IDA s, eid_SrcArrow = (e_srcArrow ke = [rLt]),
               eid_DstPath = kp_IDA d, eid_DstArrow = (e_dstArrow ke = [rGt]),
               eid_Index = (case ei of None \<Rightarrow> None | Some i \<Rightarrow> ei_int i),
               eid_Glob = (case ei of None \<Rightarrow> False | Some i \<Rightarrow> ei_glob i)\<rparr>
     | _ \<Rightarrow> None)"

primrec edge_ids_of :: "edge_index option \<Rightarrow> edge list \<Rightarrow> edge_id list option" where
  "edge_ids_of ei [] = Some []"
| "edge_ids_of ei (ke # kes) =
    (case edge_id_of ei ke of
       None \<Rightarrow> None
     | Some x \<Rightarrow> (case edge_ids_of ei kes of None \<Rightarrow> None | Some xs \<Rightarrow> Some (x # xs)))"

definition NewEdgeIDs :: "key \<Rightarrow> edge_id list option" where
  "NewEdgeIDs k = edge_ids_of (k_edgeIndex k) (k_edges k)"

section \<open>Matching\<close>

definition edgePathEqual :: "(rune \<Rightarrow> rune) \<Rightarrow> string_node list \<Rightarrow> string_node list \<Rightarrow> bool" where
  "edgePathEqual sf p1 p2 \<longleftrightarrow>
    length p1 = length p2 \<and>
    list_all (\<lambda>(s, t). EqualFold sf (string_ScalarString s) (string_ScalarString t)) (zip p1 p2)"

definition edge_Match :: "(rune \<Rightarrow> rune) \<Rightarrow> edge_id \<Rightarrow> edge_id \<Rightarrow> bool" where
  "edge_Match sf e e2 \<longleftrightarrow>
    \<not> (case (eid_Index e, eid_Index e2) of (Some i, Some j) \<Rightarrow> i \<noteq> j | _ \<Rightarrow> False) \<and>
    ((edgePathEqual sf (eid_SrcPath e) (eid_SrcPath e2) \<and> eid_SrcArrow e = eid_SrcArrow e2 \<and>
      edgePathEqual sf (eid_DstPath e) (eid_DstPath e2) \<and> eid_DstArrow e = eid_DstArrow e2) \<or>
     (edgePathEqual sf (eid_SrcPath e) (eid_DstPath e2) \<and> eid_SrcArrow e = eid_DstArrow e2 \<and>
      edgePathEqual sf (eid_DstPath e) (eid_SrcPath e2) \<and> eid_DstArrow e = eid_SrcArrow e2))"

section \<open>The key of the edge index\<close>

definition appendEdgePathKey :: "(rune \<Rightarrow> rune) \<Rightarrow> string_node list \<Rightarrow> gostr" where
  "appendEdgePathKey sf path =
    itoa (int (length path)) @ [rColon] @
    concat (map (\<lambda>part. let folded = foldString sf (string_ScalarString part)
                        in itoa (int (blen folded)) @ [rColon] @ folded) path)"

text \<open>
  Go compares strings by their bytes; on valid UTF-8, which the keys are, that is the order of the
  runes.
\<close>

fun str_less :: "gostr \<Rightarrow> gostr \<Rightarrow> bool" where
  "str_less [] t = (t \<noteq> [])"
| "str_less (a # s) [] = False"
| "str_less (a # s) (b # t) = (a < b \<or> (a = b \<and> str_less s t))"

definition edge_end_key :: "(rune \<Rightarrow> rune) \<Rightarrow> string_node list \<Rightarrow> bool \<Rightarrow> gostr" where
  "edge_end_key sf path arrow = appendEdgePathKey sf path @ (if arrow then [rStar] else [rDash])"

definition pair_key :: "gostr \<times> gostr \<Rightarrow> gostr" where
  "pair_key p = itoa (int (blen (fst p))) @ [rColon] @ fst p @ itoa (int (blen (snd p))) @ [rColon] @ snd p"

definition makeEdgeIndexKey :: "(rune \<Rightarrow> rune) \<Rightarrow> edge_id \<Rightarrow> gostr" where
  "makeEdgeIndexKey sf eid =
    (let src = edge_end_key sf (eid_SrcPath eid) (eid_SrcArrow eid);
         dst = edge_end_key sf (eid_DstPath eid) (eid_DstArrow eid);
         first = (if str_less dst src then dst else src);
         second = (if str_less dst src then src else dst)
     in pair_key (first, second))"

lemma str_less_total: "\<not> str_less s t \<Longrightarrow> \<not> str_less t s \<Longrightarrow> s = t"
  by (induction s t rule: str_less.induct) (auto simp: neq_iff split: list.splits)

lemma str_less_asym: "str_less s t \<Longrightarrow> \<not> str_less t s"
proof (induction s t rule: str_less.induct)
  case (1 t)
  then show ?case by (cases t) auto
qed auto

text \<open>A text behind its length is read back from the front of a longer text.\<close>

lemma blen_prefix_eq: "a @ x = b @ y \<Longrightarrow> blen a = blen b \<Longrightarrow> a = b \<and> x = y"
proof (induction a arbitrary: b)
  case Nil
  then show ?case by (metis append_Nil blen.simps(1) blen_0)
next
  case (Cons r a)
  then show ?case using item_bytes_pos [of r] by (cases b) (auto simp del: item_bytes_pos)
qed

lemma itoa_prefix_inj:
  assumes "itoa (int m) @ [rColon] @ x = itoa (int n) @ [rColon] @ y"
  shows "m = n \<and> x = y"
proof -
  have "takeWhile (\<lambda>c. c \<noteq> rColon) (itoa k @ [rColon] @ z) = itoa k" for k z
    using itoa_no_colon(2) [of k] by (subst takeWhile_append2) auto
  then have "itoa (int m) = itoa (int n)"
    using assms by metis
  with assms have "itoa (int m) = itoa (int n) \<and> x = y" by simp
  moreover have "itoa (int k) = digits_of k" for k by (simp add: itoa_def)
  ultimately show ?thesis
    using digits_val_of by (metis of_nat_eq_iff)
qed

lemma netstring_inj:
  assumes "itoa (int (blen a)) @ [rColon] @ a @ x = itoa (int (blen b)) @ [rColon] @ b @ y"
  shows "a = b \<and> x = y"
  using itoa_prefix_inj [OF assms] blen_prefix_eq by blast

lemma parts_key_inj:
  assumes "length p = length q"
    and "concat (map (\<lambda>f. itoa (int (blen f)) @ [rColon] @ f) p) @ x =
         concat (map (\<lambda>f. itoa (int (blen f)) @ [rColon] @ f) q) @ y"
  shows "p = q \<and> x = y"
  using assms
proof (induction p q rule: list_induct2)
  case (Cons a p b q)
  then show ?case
    using netstring_inj [of a "concat (map (\<lambda>f. itoa (int (blen f)) @ [rColon] @ f) p) @ x" b
        "concat (map (\<lambda>f. itoa (int (blen f)) @ [rColon] @ f) q) @ y"] by simp
qed simp

lemma appendEdgePathKey_parts:
  "appendEdgePathKey sf p =
    itoa (int (length (map (foldString sf \<circ> string_ScalarString) p))) @ [rColon] @
    concat (map (\<lambda>f. itoa (int (blen f)) @ [rColon] @ f) (map (foldString sf \<circ> string_ScalarString) p))"
  by (simp add: appendEdgePathKey_def Let_def comp_def)

lemma edge_end_key_inj:
  assumes "edge_end_key sf p a = edge_end_key sf q b"
  shows "map (foldString sf \<circ> string_ScalarString) p = map (foldString sf \<circ> string_ScalarString) q \<and> a = b"
proof -
  let ?m = "map (foldString sf \<circ> string_ScalarString)"
  let ?c = "\<lambda>p. concat (map (\<lambda>f. itoa (int (blen f)) @ [rColon] @ f) p)"
  let ?e = "\<lambda>a. if a then [rStar] else [rDash]"
  have "itoa (int (length (?m p))) @ [rColon] @ (?c (?m p) @ ?e a) =
    itoa (int (length (?m q))) @ [rColon] @ (?c (?m q) @ ?e b)"
    using assms unfolding edge_end_key_def appendEdgePathKey_parts by (simp only: append_assoc)
  then have "length (?m p) = length (?m q) \<and> ?c (?m p) @ ?e a = ?c (?m q) @ ?e b"
    by (rule itoa_prefix_inj)
  then have "?m p = ?m q \<and> ?e a = ?e b"
    using parts_key_inj by blast
  then show ?thesis by (auto split: if_splits)
qed

lemma edge_end_key_eq:
  assumes "fold_ok sf"
  shows "edge_end_key sf p a = edge_end_key sf q b \<longleftrightarrow> edgePathEqual sf p q \<and> a = b"
proof -
  have "map (foldString sf \<circ> string_ScalarString) p = map (foldString sf \<circ> string_ScalarString) q \<longleftrightarrow>
    edgePathEqual sf p q"
    unfolding edgePathEqual_def foldString_eq [OF assms, symmetric]
    by (auto simp: list_eq_iff_nth_eq list_all_length)
  moreover have "map (foldString sf \<circ> string_ScalarString) p = map (foldString sf \<circ> string_ScalarString) q \<Longrightarrow>
    edge_end_key sf p a = edge_end_key sf q a"
    unfolding edge_end_key_def appendEdgePathKey_parts by (simp only:)
  ultimately show ?thesis
    using edge_end_key_inj [of sf p a q b] by blast
qed

text \<open>The key holds the two ends in their order as strings, so it forgets their direction.\<close>

lemma in_order_eq:
  "(if str_less d s then (d, s) else (s, d)) = (if str_less d2 s2 then (d2, s2) else (s2, d2)) \<longleftrightarrow>
   (s = s2 \<and> d = d2) \<or> (s = d2 \<and> d = s2)"
  using str_less_total [of d s] str_less_asym [of d s] str_less_total [of d2 s2] str_less_asym [of d2 s2]
  by (auto split: if_splits)

lemma makeEdgeIndexKey_ends:
  "makeEdgeIndexKey sf e = pair_key
     (if str_less (edge_end_key sf (eid_DstPath e) (eid_DstArrow e)) (edge_end_key sf (eid_SrcPath e) (eid_SrcArrow e))
      then (edge_end_key sf (eid_DstPath e) (eid_DstArrow e), edge_end_key sf (eid_SrcPath e) (eid_SrcArrow e))
      else (edge_end_key sf (eid_SrcPath e) (eid_SrcArrow e), edge_end_key sf (eid_DstPath e) (eid_DstArrow e)))"
  by (simp add: makeEdgeIndexKey_def pair_key_def Let_def)

lemma pair_key_inj: "pair_key p = pair_key q \<longleftrightarrow> p = q"
proof
  assume "pair_key p = pair_key q"
  then have *: "fst p = fst q \<and> itoa (int (blen (snd p))) @ [rColon] @ snd p =
    itoa (int (blen (snd q))) @ [rColon] @ snd q"
    unfolding pair_key_def by (rule netstring_inj)
  then have "snd p = snd q"
    using netstring_inj [of "snd p" "[]" "snd q" "[]"] by simp
  with * show "p = q" by (simp add: prod_eq_iff)
qed simp

text \<open>Identifiers have the same key exactly when they match with their indexes forgotten.\<close>

lemma makeEdgeIndexKey_Match:
  assumes "fold_ok sf"
  shows "makeEdgeIndexKey sf e = makeEdgeIndexKey sf e2 \<longleftrightarrow>
    edge_Match sf (e\<lparr>eid_Index := None\<rparr>) e2"
  unfolding makeEdgeIndexKey_ends pair_key_inj in_order_eq edge_end_key_eq [OF assms] edge_Match_def
  by simp

lemma edge_Match_key:
  "fold_ok sf \<Longrightarrow> edge_Match sf e e2 \<Longrightarrow> makeEdgeIndexKey sf e = makeEdgeIndexKey sf e2"
  unfolding makeEdgeIndexKey_Match by (simp add: edge_Match_def)

section \<open>Keywords in edge paths\<close>

text \<open>The index of the first part for which \<open>P\<close> holds, or -1.\<close>

fun find_part_from :: "int \<Rightarrow> (string_node \<Rightarrow> bool) \<Rightarrow> string_node list \<Rightarrow> int" where
  "find_part_from i P [] = -1"
| "find_part_from i P (s # ss) = (if P s then i else find_part_from (i + 1) P ss)"

definition findBoardKeyword :: "string_node list \<Rightarrow> int" where
  "findBoardKeyword ida =
    find_part_from 0 (\<lambda>s. to_lower (string_ScalarString s) \<in> set BoardKeywords \<and> IsUnquoted s) ida"

definition findProhibitedEdgeKeyword :: "string_node list \<Rightarrow> int" where
  "findProhibitedEdgeKeyword ida =
    find_part_from 0 (\<lambda>s. (string_ScalarString s \<in> set SimpleReservedKeywords \<and> IsUnquoted s) \<or>
                           (string_ScalarString s \<in> set ReservedKeywordHolders \<and> IsUnquoted s)) ida"

section \<open>Resolving underscores and common containers\<close>

text \<open>Results of operations that may return an error or panic.\<close>

datatype 'a go_res = GoPanic | GoErr gostr | GoOk 'a

definition is_underscore :: "string_node \<Rightarrow> bool" where
  "is_underscore s \<longleftrightarrow> string_ScalarString s = [rUnd] \<and> IsUnquoted s"

fun count_underscores_from :: "nat \<Rightarrow> string_node list \<Rightarrow> nat" where
  "count_underscores_from i [] = 0"
| "count_underscores_from i (el # els) =
    (if \<not> is_underscore el then i else count_underscores_from (i + 1) els)"

definition countUnderscores :: "string_node list \<Rightarrow> nat" where
  "countUnderscores p = count_underscores_from 0 p"

text \<open>
  One round of the first loop on one path: indexing the empty path panics. \<open>up\<close> lists, from the map
  outwards and without the root, the name of the field \<^verbatim>\<open>ParentField\<close> finds; the root's is \<open>root\<close>.
\<close>

fun lift_path :: "string_node \<Rightarrow> string_node list \<Rightarrow> string_node list option" where
  "lift_path mf [] = None"
| "lift_path mf (p # ps) = Some (if is_underscore p then ps else mf # p # ps)"

definition parent_name :: "string_node list \<Rightarrow> string_node" where
  "parent_name up = (case up of [] \<Rightarrow> FlatUnquotedString (runes ''root'') | n # _ \<Rightarrow> n)"

primrec resolve_up :: "nat \<Rightarrow> string_node list \<Rightarrow> nat \<Rightarrow> edge_id \<Rightarrow> (edge_id \<times> nat) go_res" where
  "resolve_up 0 up k eid = GoOk (eid, k)"
| "resolve_up (Suc n) up k eid =
    (case lift_path (parent_name up) (eid_SrcPath eid) of
       None \<Rightarrow> GoPanic
     | Some src \<Rightarrow>
         (case lift_path (parent_name up) (eid_DstPath eid) of
            None \<Rightarrow> GoPanic
          | Some dst \<Rightarrow>
              (case up of
                 [] \<Rightarrow> GoErr (runes ''invalid underscore'')
               | _ # up' \<Rightarrow> resolve_up n up' (Suc k) (eid\<lparr>eid_SrcPath := src, eid_DstPath := dst\<rparr>))))"

fun resolve_common ::
  "(rune \<Rightarrow> rune) \<Rightarrow> string_node list \<Rightarrow> string_node list \<Rightarrow> string_node list \<Rightarrow>
   string_node list \<times> string_node list \<times> string_node list" where
  "resolve_common sf (s # s' # ss) (d # d' # ds) common =
    (if \<not> EqualFold sf (string_ScalarString s) (string_ScalarString d) \<or>
        rStar \<in> set (string_ScalarString s)
     then (s # s' # ss, d # d' # ds, common)
     else resolve_common sf (s' # ss) (d' # ds) (common @ [s]))"
| "resolve_common sf src dst common = (src, dst, common)"

text \<open>The resolved identifier, how many maps up it is resolved in, and the common containers.\<close>

definition edge_resolve ::
  "(rune \<Rightarrow> rune) \<Rightarrow> string_node list \<Rightarrow> edge_id \<Rightarrow> (edge_id \<times> nat \<times> string_node list) go_res" where
  "edge_resolve sf up eid =
    (case resolve_up (max (countUnderscores (eid_SrcPath eid)) (countUnderscores (eid_DstPath eid))) up 0 eid of
       GoPanic \<Rightarrow> GoPanic
     | GoErr e \<Rightarrow> GoErr e
     | GoOk (eid1, k) \<Rightarrow>
         (case resolve_common sf (eid_SrcPath eid1) (eid_DstPath eid1) [] of
            (src, dst, common) \<Rightarrow> GoOk (eid1\<lparr>eid_SrcPath := src, eid_DstPath := dst\<rparr>, k, common)))"

subsection \<open>What a path denotes\<close>

text \<open>
  The absolute path of a path written in a map: each underscore in front steps out of one map.
\<close>

definition abs_path :: "string_node list \<Rightarrow> string_node list \<Rightarrow> string_node list" where
  "abs_path up p = rev (drop (countUnderscores p) up) @ drop (countUnderscores p) p"

definition path_ok :: "string_node list \<Rightarrow> bool" where
  "path_ok p \<longleftrightarrow> list_ex (\<lambda>s. \<not> is_underscore s) p"

lemma count_from: "path_ok p \<Longrightarrow> count_underscores_from i p = i + length (takeWhile is_underscore p)"
  by (induction p arbitrary: i) (auto simp: path_ok_def)

lemma count_Cons:
  "path_ok (p # ps) \<Longrightarrow>
   countUnderscores (p # ps) = (if is_underscore p then Suc (countUnderscores ps) else 0)"
  using count_from [of "p # ps" 0] count_from [of ps 0]
  by (auto simp: countUnderscores_def path_ok_def)

lemma path_ok_tl: "path_ok (p # ps) \<Longrightarrow> is_underscore p \<Longrightarrow> path_ok ps"
  by (simp add: path_ok_def)

definition lifted :: "nat \<Rightarrow> string_node list \<Rightarrow> string_node list \<Rightarrow> string_node list" where
  "lifted n up p =
    rev (take (n - countUnderscores p) (drop (countUnderscores p) up)) @ drop (countUnderscores p) p"

lemma lift_path_lifted:
  assumes "path_ok p" "countUnderscores p \<le> Suc n" "\<not> is_underscore u"
  shows "\<exists>q. lift_path u p = Some q \<and> path_ok q \<and> countUnderscores q \<le> n \<and>
    lifted n up q = lifted (Suc n) (u # up) p"
proof (cases p)
  case Nil
  with assms show ?thesis by (simp add: path_ok_def)
next
  case (Cons a ps)
  show ?thesis
  proof (cases "is_underscore a")
    case True
    then show ?thesis
      using assms Cons by (auto simp: count_Cons path_ok_tl lifted_def)
  next
    case False
    moreover have "path_ok (u # p)" using assms by (simp add: path_ok_def)
    ultimately show ?thesis
      using assms Cons by (auto simp: count_Cons lifted_def path_ok_def)
  qed
qed

lemma resolve_up_lifted:
  assumes "path_ok (eid_SrcPath e)" "path_ok (eid_DstPath e)"
    and "countUnderscores (eid_SrcPath e) \<le> n" "countUnderscores (eid_DstPath e) \<le> n"
    and "n \<le> length up" "list_all (\<lambda>s. \<not> is_underscore s) up"
  shows "resolve_up n up k e =
    GoOk (e\<lparr>eid_SrcPath := lifted n up (eid_SrcPath e), eid_DstPath := lifted n up (eid_DstPath e)\<rparr>, k + n)"
  using assms
proof (induction n arbitrary: up k e)
  case 0
  then show ?case by (simp add: lifted_def)
next
  case (Suc n)
  then obtain u up' where up: "up = u # up'" by (cases up) auto
  with Suc.prems have u: "\<not> is_underscore u" by simp
  obtain s where s: "lift_path u (eid_SrcPath e) = Some s" "path_ok s" "countUnderscores s \<le> n"
    "lifted n up' s = lifted (Suc n) up (eid_SrcPath e)"
    using lift_path_lifted [OF Suc.prems(1,3) u] up by blast
  obtain d where d: "lift_path u (eid_DstPath e) = Some d" "path_ok d" "countUnderscores d \<le> n"
    "lifted n up' d = lifted (Suc n) up (eid_DstPath e)"
    using lift_path_lifted [OF Suc.prems(2,4) u] up by blast
  show ?case
    using Suc.IH [of "e\<lparr>eid_SrcPath := s, eid_DstPath := d\<rparr>" up' "Suc k"] Suc.prems(5,6) s d up
    by (simp add: parent_name_def)
qed

lemma resolve_up_error:
  assumes "path_ok (eid_SrcPath e)" "path_ok (eid_DstPath e)"
    and "countUnderscores (eid_SrcPath e) \<le> n" "countUnderscores (eid_DstPath e) \<le> n"
    and "length up < n" "list_all (\<lambda>s. \<not> is_underscore s) up"
  shows "resolve_up n up k e = GoErr (runes ''invalid underscore'')"
  using assms
proof (induction n arbitrary: up k e)
  case 0
  then show ?case by simp
next
  case (Suc n)
  have u: "\<not> is_underscore (parent_name up)"
    using Suc.prems(6) by (cases up) (auto simp: parent_name_def is_underscore_def FlatUnquotedString_def
        boxes_String_def text_box_def)
  obtain s where s: "lift_path (parent_name up) (eid_SrcPath e) = Some s" "path_ok s" "countUnderscores s \<le> n"
    using lift_path_lifted [OF Suc.prems(1,3) u] by blast
  obtain d where d: "lift_path (parent_name up) (eid_DstPath e) = Some d" "path_ok d" "countUnderscores d \<le> n"
    using lift_path_lifted [OF Suc.prems(2,4) u] by blast
  show ?case
    using Suc.IH [of "e\<lparr>eid_SrcPath := s, eid_DstPath := d\<rparr>" "tl up" "Suc k"] Suc.prems(5,6) s d
    by (cases up) simp_all
qed

lemma resolve_common_paths:
  "resolve_common sf src dst common = (src', dst', common') \<Longrightarrow>
   \<exists>c. common' = common @ c \<and> src = c @ src' \<and>
       (\<exists>c2. edgePathEqual sf c c2 \<and> dst = c2 @ dst')"
proof (induction sf src dst common rule: resolve_common.induct)
  case (1 sf s s' ss d d' ds common)
  show ?case
  proof (cases "\<not> EqualFold sf (string_ScalarString s) (string_ScalarString d) \<or>
      rStar \<in> set (string_ScalarString s)")
    case True
    with 1(2) show ?thesis by (intro exI [of _ "[]"]) (auto simp: edgePathEqual_def)
  next
    case False
    then obtain c c2 where "common' = (common @ [s]) @ c" "s' # ss = c @ src'"
      "edgePathEqual sf c c2" "d' # ds = c2 @ dst'"
      using 1 by auto
    with False show ?thesis
      by (intro exI [of _ "s # c"]) (auto simp: edgePathEqual_def intro!: exI [of _ "d # c2"])
  qed
qed (auto simp: edgePathEqual_def)

lemma lifted_abs:
  "countUnderscores p \<le> n \<Longrightarrow> rev (drop n up) @ lifted n up p = abs_path up p"
  by (simp add: lifted_def abs_path_def flip: rev_append append_assoc)
    (metis append_take_drop_id drop_drop le_add_diff_inverse2)

end
