(* ===== verification/Ir_Index.thy ===== *)
theory Ir_Index
  imports Ir_Edge_ID "HOL-Library.Word"
begin

text \<open>
  The lookup indexes a \<^verbatim>\<open>Map\<close> of \<^verbatim>\<open>d2ir/d2ir.go\<close> derives from its fields and edges, with the operations
  that read and change them. A field or an edge is here its pointer: an address and the name or identifier
  the object has, which is never reassigned. None is a nil pointer, and a nil name is None as well.
  \<open>versions\<close> holds the \<^verbatim>\<open>structureVersion\<close> of the map and of the maps around it, outwards.
\<close>

datatype 'n pointer = Pointer (p_addr: nat) (p_name: "'n option")

type_synonym 'n ptr = "'n pointer option"

definition ptr_name :: "'n ptr \<Rightarrow> 'n option" where
  "ptr_name f = (case f of None \<Rightarrow> None | Some p \<Rightarrow> p_name p)"

record map_tables =
  Fields :: "string_node ptr list"
  fieldIndex :: "(field_key \<rightharpoonup> string_node ptr) option"
  fieldIndexSize :: int
  Edges :: "edge_id ptr list"
  edgeIndex :: "(gostr \<Rightarrow> edge_id ptr list) option"
  edgeIndexSize :: int
  versions :: "64 word list"

definition empty_tables :: map_tables where
  "empty_tables = \<lparr>Fields = [], fieldIndex = None, fieldIndexSize = 0,
    Edges = [], edgeIndex = None, edgeIndexSize = 0, versions = []\<rparr>"

text \<open>\<^verbatim>\<open>markStructureChanged\<close>: the counters wrap around at 64 bits.\<close>

definition markStructureChanged :: "map_tables \<Rightarrow> map_tables" where
  "markStructureChanged m = m\<lparr>versions := map (\<lambda>v. v + 1) (versions m)\<rparr>"

section \<open>The field index\<close>

text \<open>An entry is added only when the key has none yet: the first field of a key wins.\<close>

definition index_field ::
  "(rune \<Rightarrow> rune) \<Rightarrow> string_node ptr \<Rightarrow> (field_key \<rightharpoonup> string_node ptr) \<Rightarrow> field_key \<rightharpoonup> string_node ptr" where
  "index_field sf f ix =
    (case ptr_name f of
       None \<Rightarrow> ix
     | Some name \<Rightarrow>
         (let key = makeFieldIndexKey sf name
          in if ix key = None then ix(key \<mapsto> f) else ix))"

definition ensureFieldIndex :: "(rune \<Rightarrow> rune) \<Rightarrow> map_tables \<Rightarrow> map_tables" where
  "ensureFieldIndex sf m =
    (if fieldIndex m \<noteq> None \<and> fieldIndexSize m = int (length (Fields m)) then m
     else m\<lparr>fieldIndex := Some (fold (index_field sf) (Fields m) Map.empty),
            fieldIndexSize := int (length (Fields m))\<rparr>)"

definition lookupField ::
  "(rune \<Rightarrow> rune) \<Rightarrow> string_node \<Rightarrow> map_tables \<Rightarrow> string_node ptr \<times> map_tables" where
  "lookupField sf name m =
    (let m1 = ensureFieldIndex sf m
     in (case fieldIndex m1 of
           None \<Rightarrow> (None, m1)
         | Some ix \<Rightarrow> ((case ix (makeFieldIndexKey sf name) of None \<Rightarrow> None | Some f \<Rightarrow> f), m1)))"

text \<open>What an insertion does to the index: kept up if it was current before and the field has a name.\<close>

definition index_inserted ::
  "(rune \<Rightarrow> rune) \<Rightarrow> int \<Rightarrow> string_node ptr \<Rightarrow> map_tables \<Rightarrow> map_tables" where
  "index_inserted sf oldLen f m =
    (case (fieldIndex m, ptr_name f) of
       (Some ix, Some name) \<Rightarrow>
         (if fieldIndexSize m = oldLen
          then m\<lparr>fieldIndex := Some (index_field sf f ix), fieldIndexSize := fieldIndexSize m + 1\<rparr>
          else m\<lparr>fieldIndex := None, fieldIndexSize := 0\<rparr>)
     | _ \<Rightarrow> m\<lparr>fieldIndex := None, fieldIndexSize := 0\<rparr>)"

definition appendField :: "(rune \<Rightarrow> rune) \<Rightarrow> string_node ptr \<Rightarrow> map_tables \<Rightarrow> map_tables" where
  "appendField sf f m =
    (let oldLen = int (length (Fields m));
         m1 = m\<lparr>Fields := Fields m @ [f]\<rparr>
     in markStructureChanged (index_inserted sf oldLen f m1))"

text \<open>\<^verbatim>\<open>insertField\<close> and \<^verbatim>\<open>removeField\<close> slice by the index: None where that panics.\<close>

definition insertField :: "(rune \<Rightarrow> rune) \<Rightarrow> int \<Rightarrow> string_node ptr \<Rightarrow> map_tables \<Rightarrow> map_tables option" where
  "insertField sf index f m =
    (if index < 0 \<or> int (length (Fields m)) < index then None
     else let oldLen = int (length (Fields m));
              i = nat index;
              m1 = m\<lparr>Fields := take i (Fields m) @ f # drop i (Fields m)\<rparr>
          in Some (markStructureChanged (index_inserted sf oldLen f m1)))"

definition removeField :: "int \<Rightarrow> map_tables \<Rightarrow> (string_node ptr \<times> map_tables) option" where
  "removeField index m =
    (if index < 0 \<or> int (length (Fields m)) \<le> index then None
     else let i = nat index;
              m1 = m\<lparr>Fields := take i (Fields m) @ drop (Suc i) (Fields m),
                     fieldIndex := None, fieldIndexSize := 0\<rparr>
          in Some (Fields m ! i, markStructureChanged m1))"

section \<open>The edge index\<close>

definition index_edge ::
  "(rune \<Rightarrow> rune) \<Rightarrow> edge_id ptr \<Rightarrow> (gostr \<Rightarrow> edge_id ptr list) \<Rightarrow> gostr \<Rightarrow> edge_id ptr list" where
  "index_edge sf e ix =
    (case ptr_name e of
       None \<Rightarrow> ix
     | Some eid \<Rightarrow> (let key = makeEdgeIndexKey sf eid in ix(key := ix key @ [e])))"

definition ensureEdgeIndex :: "(rune \<Rightarrow> rune) \<Rightarrow> map_tables \<Rightarrow> map_tables" where
  "ensureEdgeIndex sf m =
    (if edgeIndex m \<noteq> None \<and> edgeIndexSize m = int (length (Edges m)) then m
     else m\<lparr>edgeIndex := Some (fold (index_edge sf) (Edges m) (\<lambda>_. [])),
            edgeIndexSize := int (length (Edges m))\<rparr>)"

definition appendEdge :: "(rune \<Rightarrow> rune) \<Rightarrow> edge_id ptr \<Rightarrow> map_tables \<Rightarrow> map_tables" where
  "appendEdge sf e m =
    (let oldLen = int (length (Edges m));
         m1 = m\<lparr>Edges := Edges m @ [e]\<rparr>
     in markStructureChanged
          (case (edgeIndex m1, ptr_name e) of
             (Some ix, Some eid) \<Rightarrow>
               (if edgeIndexSize m1 = oldLen
                then m1\<lparr>edgeIndex := Some (index_edge sf e ix), edgeIndexSize := edgeIndexSize m1 + 1\<rparr>
                else m1\<lparr>edgeIndex := None, edgeIndexSize := 0\<rparr>)
           | _ \<Rightarrow> m1\<lparr>edgeIndex := None, edgeIndexSize := 0\<rparr>))"

definition removeEdge :: "int \<Rightarrow> map_tables \<Rightarrow> (edge_id ptr \<times> map_tables) option" where
  "removeEdge index m =
    (if index < 0 \<or> int (length (Edges m)) \<le> index then None
     else let i = nat index;
              m1 = m\<lparr>Edges := take i (Edges m) @ drop (Suc i) (Edges m),
                     edgeIndex := None, edgeIndexSize := 0\<rparr>
          in Some (Edges m ! i, markStructureChanged m1))"

text \<open>Whether an edge pointer's identifier matches; \<^verbatim>\<open>e.ID.Match\<close> panics on a nil edge or identifier.\<close>

definition ptr_match :: "(rune \<Rightarrow> rune) \<Rightarrow> edge_id \<Rightarrow> edge_id ptr \<Rightarrow> bool" where
  "ptr_match sf eid e = (case ptr_name e of None \<Rightarrow> False | Some x \<Rightarrow> edge_Match sf x eid)"

text \<open>
  The end of \<^verbatim>\<open>getEdgesIndexed\<close> and of \<^verbatim>\<open>GetEdges\<close>, for an identifier without a common container: the
  bucket of the key, filtered, and all edges, filtered. None is the nil dereference.
\<close>

definition getEdgesIndexed_here ::
  "(rune \<Rightarrow> rune) \<Rightarrow> edge_id \<Rightarrow> map_tables \<Rightarrow> edge_id ptr list \<times> map_tables" where
  "getEdgesIndexed_here sf eid m =
    (let m1 = ensureEdgeIndex sf m
     in (case edgeIndex m1 of
           None \<Rightarrow> ([], m1)
         | Some ix \<Rightarrow> (filter (ptr_match sf eid) (ix (makeEdgeIndexKey sf eid)), m1)))"

definition GetEdges_here :: "(rune \<Rightarrow> rune) \<Rightarrow> edge_id \<Rightarrow> map_tables \<Rightarrow> edge_id ptr list option" where
  "GetEdges_here sf eid m =
    (if list_ex (\<lambda>e. ptr_name e = None) (Edges m) then None
     else Some (filter (ptr_match sf eid) (Edges m)))"

text \<open>The scan of \<^verbatim>\<open>getFieldLinear\<close> for one name.\<close>

definition linear_field :: "(rune \<Rightarrow> rune) \<Rightarrow> string_node \<Rightarrow> string_node ptr list \<Rightarrow> string_node ptr" where
  "linear_field sf s fs =
    (case find (\<lambda>f. case ptr_name f of None \<Rightarrow> False | Some n \<Rightarrow> name_matches sf n s) fs of
       None \<Rightarrow> None | Some f \<Rightarrow> f)"

section \<open>The indexes follow the lists\<close>

text \<open>Contract of a derived index: it is current when it is what a fold over the list builds.\<close>

locale derived_index =
  fixes add :: "'e \<Rightarrow> 'ix \<Rightarrow> 'ix" and start :: 'ix and query :: "'ix \<Rightarrow> 'k \<Rightarrow> 'r"
    and scan :: "'e list \<Rightarrow> 'k \<Rightarrow> 'r"
  assumes query_scan: "query (fold add xs start) k = scan xs k"
begin

definition current :: "'e list \<Rightarrow> 'ix option \<Rightarrow> int \<Rightarrow> bool" where
  "current xs ix sz \<longleftrightarrow> ix = None \<or> sz \<noteq> int (length xs) \<or> ix = Some (fold add xs start)"

lemma current_None [simp]: "current xs None sz"
  by (simp add: current_def)

lemma current_build: "current xs (Some (fold add xs start)) (int (length xs))"
  by (simp add: current_def)

lemma current_append:
  "current xs (Some ix) (int (length xs)) \<Longrightarrow> current (xs @ [x]) (Some (add x ix)) sz"
  by (simp add: current_def)

lemma current_query: "current xs (Some ix) (int (length xs)) \<Longrightarrow> query ix k = scan xs k"
  by (simp add: current_def query_scan)

end

text \<open>The field index answers with the first field of a key, the edge index with all edges of a key in order.\<close>

definition has_field_key :: "(rune \<Rightarrow> rune) \<Rightarrow> field_key \<Rightarrow> string_node ptr \<Rightarrow> bool" where
  "has_field_key sf k f = (case ptr_name f of None \<Rightarrow> False | Some n \<Rightarrow> makeFieldIndexKey sf n = k)"

definition has_edge_key :: "(rune \<Rightarrow> rune) \<Rightarrow> gostr \<Rightarrow> edge_id ptr \<Rightarrow> bool" where
  "has_edge_key sf k e = (case ptr_name e of None \<Rightarrow> False | Some n \<Rightarrow> makeEdgeIndexKey sf n = k)"

lemma fold_index_field:
  "fold (index_field sf) xs ix k = (case ix k of None \<Rightarrow> find (has_field_key sf k) xs | Some f \<Rightarrow> Some f)"
  by (induction xs arbitrary: ix)
    (auto simp: index_field_def has_field_key_def Let_def split: option.splits)

lemma fold_index_edge:
  "fold (index_edge sf) xs ix k = ix k @ filter (has_edge_key sf k) xs"
  by (induction xs arbitrary: ix) (auto simp: index_edge_def has_edge_key_def Let_def split: option.splits)

interpretation fi: derived_index "index_field sf" Map.empty "\<lambda>ix k. ix k"
    "\<lambda>xs k. find (has_field_key sf k) xs" for sf
  by unfold_locales (simp add: fold_index_field)

interpretation ei: derived_index "index_edge sf" "\<lambda>_. []" "\<lambda>ix k. ix k"
    "\<lambda>xs k. filter (has_edge_key sf k) xs" for sf
  by unfold_locales (simp add: fold_index_edge)

definition tables_ok :: "(rune \<Rightarrow> rune) \<Rightarrow> map_tables \<Rightarrow> bool" where
  "tables_ok sf m \<longleftrightarrow>
    fi.current sf (Fields m) (fieldIndex m) (fieldIndexSize m) \<and>
    ei.current sf (Edges m) (edgeIndex m) (edgeIndexSize m)"

lemma ensureFieldIndex_ok:
  assumes "tables_ok sf m"
  shows "fieldIndex (ensureFieldIndex sf m) = Some (fold (index_field sf) (Fields m) Map.empty)"
    "Fields (ensureFieldIndex sf m) = Fields m" "tables_ok sf (ensureFieldIndex sf m)"
  using assms by (auto simp: ensureFieldIndex_def tables_ok_def fi.current_def ei.current_def)

lemma ensureEdgeIndex_ok:
  assumes "tables_ok sf m"
  shows "edgeIndex (ensureEdgeIndex sf m) = Some (fold (index_edge sf) (Edges m) (\<lambda>_. []))"
    "Edges (ensureEdgeIndex sf m) = Edges m" "tables_ok sf (ensureEdgeIndex sf m)"
  using assms by (auto simp: ensureEdgeIndex_def tables_ok_def fi.current_def ei.current_def)

lemma lookupField_scan:
  "tables_ok sf m \<Longrightarrow>
   fst (lookupField sf s m) =
     (case find (has_field_key sf (makeFieldIndexKey sf s)) (Fields m) of None \<Rightarrow> None | Some f \<Rightarrow> f)"
  by (simp add: lookupField_def Let_def ensureFieldIndex_ok fold_index_field)

lemma getEdgesIndexed_scan:
  "tables_ok sf m \<Longrightarrow>
   fst (getEdgesIndexed_here sf eid m) =
     filter (ptr_match sf eid) (filter (has_edge_key sf (makeEdgeIndexKey sf eid)) (Edges m))"
  by (simp add: getEdgesIndexed_here_def Let_def ensureEdgeIndex_ok fold_index_edge)

text \<open>Inserting a field whose key has no field yet leaves the order of the others to the index.\<close>

lemma find_append:
  "find P (xs @ ys) = (case find P xs of None \<Rightarrow> find P ys | Some x \<Rightarrow> Some x)"
  by (induction xs) auto

lemma find_insert:
  assumes "\<And>x. x \<in> set xs \<Longrightarrow> P x \<Longrightarrow> \<not> P f"
  shows "find P (take i xs @ f # drop i xs) = (if P f then Some f else find P xs)"
proof (cases "P f")
  case True
  then have "find P (take i xs) = None"
    using assms by (auto simp: find_None_iff dest: in_set_takeD)
  with True show ?thesis by (simp add: find_append)
next
  case False
  then show ?thesis
    using find_append [of P "take i xs" "drop i xs"]
    by (simp add: find_append split: option.split)
qed

lemma index_inserted_ok:
  assumes "fi.current sf xs (fieldIndex m) (fieldIndexSize m)"
    and "int (length xs) = oldLen" "length (Fields m) = Suc (length xs)"
    and "\<And>n k. ptr_name f = Some n \<Longrightarrow> fieldIndex m \<noteq> None \<Longrightarrow> fieldIndexSize m = oldLen \<Longrightarrow>
      find (has_field_key sf k) (Fields m) =
      (if has_field_key sf k f \<and> find (has_field_key sf k) xs = None then Some f
       else find (has_field_key sf k) xs)"
  shows "fi.current sf (Fields m) (fieldIndex (index_inserted sf oldLen f m))
    (fieldIndexSize (index_inserted sf oldLen f m))"
proof (cases "fieldIndex m \<noteq> None \<and> ptr_name f \<noteq> None \<and> fieldIndexSize m = oldLen")
  case True
  then obtain ix n where ix: "fieldIndex m = Some ix" and n: "ptr_name f = Some n"
    and sz: "fieldIndexSize m = oldLen" by auto
  then have "ix = fold (index_field sf) xs Map.empty"
    using assms(1,2) by (simp add: fi.current_def)
  then have look: "ix k = find (has_field_key sf k) xs" for k
    by (simp add: fold_index_field)
  have "index_field sf f ix k = find (has_field_key sf k) (Fields m)" for k
    using assms(4) [OF n _ sz, of k] ix n look by (auto simp: index_field_def Let_def has_field_key_def)
  then have "index_field sf f ix = fold (index_field sf) (Fields m) Map.empty"
    by (intro ext) (simp add: fold_index_field)
  then show ?thesis
    using ix n sz assms(2,3) by (simp add: index_inserted_def fi.current_def)
next
  case False
  then show ?thesis
    by (auto simp: index_inserted_def split: option.splits)
qed

section \<open>Reachable tables\<close>

text \<open>
  The states the operations reach from a map whose indexes are not built. A field is inserted, as
  \<^verbatim>\<open>expandSubstitution\<close> does it, only when its name has no field.
\<close>

inductive tables_step :: "(rune \<Rightarrow> rune) \<Rightarrow> map_tables \<Rightarrow> map_tables \<Rightarrow> bool" for sf where
  lookup: "tables_step sf m (snd (lookupField sf s m))"
| edges: "tables_step sf m (snd (getEdgesIndexed_here sf eid m))"
| append: "tables_step sf m (appendField sf f m)"
| insert: "insertField sf i f m = Some m' \<Longrightarrow>
    (\<And>n. ptr_name f = Some n \<Longrightarrow> fst (lookupField sf n m) = None) \<Longrightarrow> tables_step sf m m'"
| remove: "removeField i m = Some (f, m') \<Longrightarrow> tables_step sf m m'"
| append_edge: "tables_step sf m (appendEdge sf e m)"
| remove_edge: "removeEdge i m = Some (e, m') \<Longrightarrow> tables_step sf m m'"

inductive tables_reach :: "(rune \<Rightarrow> rune) \<Rightarrow> map_tables \<Rightarrow> bool" for sf where
  fresh: "fieldIndex m = None \<Longrightarrow> edgeIndex m = None \<Longrightarrow> tables_reach sf m"
| step: "tables_reach sf m \<Longrightarrow> tables_step sf m m' \<Longrightarrow> tables_reach sf m'"

lemma mark_simps [simp]:
  "Fields (markStructureChanged m) = Fields m" "Edges (markStructureChanged m) = Edges m"
  "fieldIndex (markStructureChanged m) = fieldIndex m" "edgeIndex (markStructureChanged m) = edgeIndex m"
  "fieldIndexSize (markStructureChanged m) = fieldIndexSize m"
  "edgeIndexSize (markStructureChanged m) = edgeIndexSize m"
  by (simp_all add: markStructureChanged_def)

lemma index_inserted_simps [simp]:
  "Fields (index_inserted sf n f m) = Fields m" "Edges (index_inserted sf n f m) = Edges m"
  "edgeIndex (index_inserted sf n f m) = edgeIndex m"
  "edgeIndexSize (index_inserted sf n f m) = edgeIndexSize m"
  by (auto simp: index_inserted_def split: option.splits)

lemma appendField_ok:
  assumes "tables_ok sf m"
  shows "tables_ok sf (appendField sf f m)"
proof -
  let ?m = "m\<lparr>Fields := Fields m @ [f]\<rparr>"
  have "fi.current sf (Fields ?m) (fieldIndex (index_inserted sf (int (length (Fields m))) f ?m))
    (fieldIndexSize (index_inserted sf (int (length (Fields m))) f ?m))"
    using assms by (intro index_inserted_ok [where xs = "Fields m"])
      (auto simp: tables_ok_def find_append split: option.splits)
  with assms show ?thesis
    by (simp add: tables_ok_def appendField_def Let_def)
qed

lemma insertField_ok:
  assumes "tables_ok sf m" "insertField sf i f m = Some m'"
    and "\<And>n. ptr_name f = Some n \<Longrightarrow> fst (lookupField sf n m) = None"
  shows "tables_ok sf m'"
proof -
  let ?m = "m\<lparr>Fields := take (nat i) (Fields m) @ f # drop (nat i) (Fields m)\<rparr>"
  have i: "0 \<le> i" "i \<le> int (length (Fields m))"
    and m': "m' = markStructureChanged (index_inserted sf (int (length (Fields m))) f ?m)"
    using assms(2) by (auto simp: insertField_def Let_def split: if_splits)
  have none: "find (has_field_key sf k) (Fields m) = None" if "has_field_key sf k f" for k
  proof -
    obtain n where n: "ptr_name f = Some n" "k = makeFieldIndexKey sf n"
      using \<open>has_field_key sf k f\<close> by (auto simp: has_field_key_def split: option.splits)
    show ?thesis
    proof (cases "find (has_field_key sf k) (Fields m)")
      case (Some x)
      then have "has_field_key sf k x" by (auto simp: find_Some_iff)
      then have "x \<noteq> None" by (cases x) (auto simp: has_field_key_def ptr_name_def)
      with Some show ?thesis
        using assms(3) [OF n(1)] n(2) by (simp add: lookupField_scan [OF assms(1)])
    qed
  qed
  have "fi.current sf (Fields ?m) (fieldIndex (index_inserted sf (int (length (Fields m))) f ?m))
    (fieldIndexSize (index_inserted sf (int (length (Fields m))) f ?m))"
  proof (rule index_inserted_ok [where xs = "Fields m"])
    fix k
    have "find (has_field_key sf k) (Fields ?m) =
      (if has_field_key sf k f then Some f else find (has_field_key sf k) (Fields m))"
    proof -
      have "\<not> has_field_key sf k f" if "x \<in> set (Fields m)" "has_field_key sf k x" for x
        using none [of k] that by (auto simp: find_None_iff)
      then show ?thesis using find_insert [of "Fields m" "has_field_key sf k" f "nat i"] by simp
    qed
    then show "find (has_field_key sf k) (Fields ?m) =
      (if has_field_key sf k f \<and> find (has_field_key sf k) (Fields m) = None then Some f
       else find (has_field_key sf k) (Fields m))"
      using none [of k] by simp
  qed (use assms(1) i in \<open>auto simp: tables_ok_def\<close>)
  with assms(1) m' show ?thesis by (simp add: tables_ok_def)
qed

lemma appendEdge_ok: "tables_ok sf m \<Longrightarrow> tables_ok sf (appendEdge sf e m)"
  by (auto simp: tables_ok_def appendEdge_def Let_def ei.current_def split: option.splits)

lemma tables_step_ok:
  assumes "tables_ok sf m" "tables_step sf m m'"
  shows "tables_ok sf m'"
  using assms(2)
proof (cases rule: tables_step.cases)
  case (lookup s)
  then show ?thesis using ensureFieldIndex_ok [OF assms(1)]
    by (simp add: lookupField_def Let_def)
next
  case (edges eid)
  then show ?thesis using ensureEdgeIndex_ok [OF assms(1)]
    by (simp add: getEdgesIndexed_here_def Let_def)
next
  case (insert i f)
  then show ?thesis using insertField_ok [OF assms(1)] by blast
next
  case (remove i f)
  then show ?thesis using assms(1)
    by (auto simp: removeField_def Let_def tables_ok_def split: if_splits)
next
  case (remove_edge i e)
  then show ?thesis using assms(1)
    by (auto simp: removeEdge_def Let_def tables_ok_def split: if_splits)
qed (use assms(1) in \<open>simp_all add: appendField_ok appendEdge_ok\<close>)

lemma tables_reach_ok: "tables_reach sf m \<Longrightarrow> tables_ok sf m"
proof (induction rule: tables_reach.induct)
  case (fresh m)
  then show ?case by (simp add: tables_ok_def)
qed (rule tables_step_ok)

text \<open>The bucket of a key holds every edge that can match.\<close>

lemma bucket_complete:
  assumes "fold_ok sf"
  shows "filter (ptr_match sf eid) (filter (has_edge_key sf (makeEdgeIndexKey sf eid)) es) =
    filter (ptr_match sf eid) es"
  unfolding filter_filter
  by (rule filter_cong) (auto simp: ptr_match_def has_edge_key_def edge_Match_key [OF assms] split: option.splits)

lemma linear_field_scan:
  assumes "fold_ok sf" "0x17F \<notin> set (string_ScalarString s)"
    and "\<And>f n. f \<in> set fs \<Longrightarrow> ptr_name f = Some n \<Longrightarrow> 0x17F \<notin> set (string_ScalarString n)"
  shows "linear_field sf s fs =
    (case find (has_field_key sf (makeFieldIndexKey sf s)) fs of None \<Rightarrow> None | Some f \<Rightarrow> f)"
proof -
  have "find (\<lambda>f. case ptr_name f of None \<Rightarrow> False | Some n \<Rightarrow> name_matches sf n s) fs =
    find (has_field_key sf (makeFieldIndexKey sf s)) fs"
    using assms(3) by (intro find_cong)
      (auto simp: has_field_key_def field_key_eq [OF assms(1) _ assms(2)] split: option.splits)
  then show ?thesis by (simp add: linear_field_def)
qed

end
