(* ===== verification/Ir_Pattern.thy ===== *)
theory Ir_Pattern
  imports Ast
begin

text \<open>
  \<^verbatim>\<open>matchPattern\<close> of \<^verbatim>\<open>d2ir/pattern.go\<close>, the match of a field name against a glob, with a declarative
  definition of what a glob denotes. \<^verbatim>\<open>unicode.ToLower\<close> is the parameter \<open>lo\<close>. The code cuts the name by
  byte lengths of the pattern: None is a slice bound out of range.
\<close>

definition rStarStr :: gostr where
  "rStarStr = [rStar]"

text \<open>\<^verbatim>\<open>strings.ToLower\<close> maps every rune; a byte that is not UTF-8 becomes U+FFFD.\<close>

definition lower_str :: "(rune \<Rightarrow> rune) \<Rightarrow> gostr \<Rightarrow> gostr" where
  "lower_str lo s = map (\<lambda>r. lo (range_rune r)) s"

definition slice_from :: "nat \<Rightarrow> gostr \<Rightarrow> gostr option" where
  "slice_from n s = (if n \<le> blen s then Some (drop_bytes n s) else None)"

text \<open>\<^verbatim>\<open>strings.Index\<close> of \<open>p\<close>, in bytes, and \<^verbatim>\<open>strings.HasSuffix\<close>.\<close>

fun str_index :: "gostr \<Rightarrow> gostr \<Rightarrow> nat option" where
  "str_index p [] = (if p = [] then Some 0 else None)"
| "str_index p (r # rs) =
    (if has_prefix p (r # rs) then Some 0
     else (case str_index p rs of None \<Rightarrow> None | Some j \<Rightarrow> Some (item_bytes r + j)))"

definition has_suffix :: "gostr \<Rightarrow> gostr \<Rightarrow> bool" where
  "has_suffix p s \<longleftrightarrow> has_prefix (rev p) (rev s)"

fun match_loop :: "(rune \<Rightarrow> rune) \<Rightarrow> gostr \<Rightarrow> gostr list \<Rightarrow> bool option" where
  "match_loop lo s [] = Some (s = [])"
| "match_loop lo s [p] =
    (if p = rStarStr then Some True
     else if \<not> has_prefix (lower_str lo p) (lower_str lo s) then Some False
     else (case slice_from (blen p) s of None \<Rightarrow> None | Some s' \<Rightarrow> match_loop lo s' []))"
| "match_loop lo s (p # q # ps) =
    (if p = rStarStr then
       (if ps = [] then Some (has_suffix (lower_str lo q) (lower_str lo s))
        else (case str_index (lower_str lo q) (lower_str lo s) of
                None \<Rightarrow> Some False
              | Some j \<Rightarrow>
                  (case slice_from (j + blen q) s of None \<Rightarrow> None | Some s' \<Rightarrow> match_loop lo s' ps)))
     else if \<not> has_prefix (lower_str lo p) (lower_str lo s) then Some False
     else (case slice_from (blen p) s of None \<Rightarrow> None | Some s' \<Rightarrow> match_loop lo s' (q # ps)))"

definition matchPattern :: "(rune \<Rightarrow> rune) \<Rightarrow> gostr \<Rightarrow> gostr list \<Rightarrow> bool option" where
  "matchPattern lo s pattern =
    (if pattern = [] then Some True
     else if is_reserved s then Some False
     else match_loop lo s pattern)"

section \<open>What a glob denotes\<close>

inductive glob_match :: "(rune \<Rightarrow> rune) \<Rightarrow> gostr \<Rightarrow> gostr list \<Rightarrow> bool" for lo where
  empty: "glob_match lo [] []"
| star: "glob_match lo s ps \<Longrightarrow> glob_match lo (x @ s) (rStarStr # ps)"
| literal: "p \<noteq> rStarStr \<Longrightarrow> lower_str lo a = lower_str lo p \<Longrightarrow> glob_match lo s ps \<Longrightarrow>
    glob_match lo (a @ s) (p # ps)"

inductive_simps glob_nil_iff: "glob_match lo s []"
inductive_simps glob_cons_iff: "glob_match lo s (p # ps)"

text \<open>The patterns of the parser alternate literals and stars.\<close>

fun alternating :: "gostr list \<Rightarrow> bool" where
  "alternating (p # q # ps) = ((p = rStarStr) \<noteq> (q = rStarStr) \<and> alternating (q # ps))"
| "alternating ps = True"

text \<open>Texts whose lower case has the same bytes rune by rune, as every ASCII text.\<close>

definition byte_stable :: "(rune \<Rightarrow> rune) \<Rightarrow> gostr \<Rightarrow> bool" where
  "byte_stable lo s \<longleftrightarrow> list_all (\<lambda>r. 0 \<le> r \<and> item_bytes (lo r) = item_bytes r) s"

lemma byte_stable_append [simp]: "byte_stable lo (s @ t) \<longleftrightarrow> byte_stable lo s \<and> byte_stable lo t"
  by (simp add: byte_stable_def)

lemma lower_append [simp]: "lower_str lo (s @ t) = lower_str lo s @ lower_str lo t"
  by (simp add: lower_str_def)

lemma lower_blen: "byte_stable lo s \<Longrightarrow> blen (lower_str lo s) = blen s"
  by (induction s) (auto simp: byte_stable_def lower_str_def range_rune_def)

lemma has_prefix_iff: "has_prefix p s \<longleftrightarrow> (\<exists>t. s = p @ t)"
proof (induction p arbitrary: s)
  case (Cons a p)
  then show ?case by (cases s) auto
qed simp

lemma lower_split:
  "lower_str lo s = u @ v \<Longrightarrow> \<exists>a b. s = a @ b \<and> lower_str lo a = u \<and> lower_str lo b = v"
  unfolding lower_str_def map_eq_append_conv by blast

lemma lower_split3:
  "lower_str lo s = u @ v @ w \<Longrightarrow>
   \<exists>a b c. s = a @ b @ c \<and> lower_str lo a = u \<and> lower_str lo b = v \<and> lower_str lo c = w"
  using lower_split [of lo s u "v @ w"] lower_split [of lo _ v w] by metis

text \<open>A cut behind a text of the same bytes.\<close>

lemma slice_text: "n = blen a \<Longrightarrow> slice_from n (a @ b) = Some b"
  by (simp add: slice_from_def)

lemma lower_same_blen:
  assumes "byte_stable lo a" "byte_stable lo p" "lower_str lo a = lower_str lo p"
  shows "blen a = blen p"
  using assms lower_blen by metis

lemma str_index_Some:
  assumes "str_index p s = Some j"
  shows "\<exists>u v. s = u @ p @ v \<and> j = blen u \<and> (\<forall>u' v'. s = u' @ p @ v' \<longrightarrow> length u \<le> length u')"
  using assms
proof (induction s arbitrary: j)
  case (Cons r rs)
  show ?case
  proof (cases "has_prefix p (r # rs)")
    case True
    then obtain v where "r # rs = p @ v" by (auto simp: has_prefix_iff)
    moreover have "j = 0" using True Cons.prems by simp
    ultimately show ?thesis by (intro exI [of _ "[]"] exI [of _ v]) simp
  next
    case False
    with Cons.prems obtain k where k: "str_index p rs = Some k" "j = item_bytes r + k"
      by (auto split: option.splits)
    obtain u v where uv: "rs = u @ p @ v" "k = blen u" "\<And>u' v'. rs = u' @ p @ v' \<Longrightarrow> length u \<le> length u'"
      using Cons.IH [OF k(1)] by blast
    have "length (r # u) \<le> length u'" if "r # rs = u' @ p @ v'" for u' v'
    proof (cases u')
      case Nil
      with that False show ?thesis by (auto simp: has_prefix_iff)
    next
      case (Cons a w)
      with that uv(3) [of w v'] show ?thesis by simp
    qed
    with uv k show ?thesis by (intro exI [of _ "r # u"] exI [of _ v]) simp
  qed
qed (auto split: if_splits)

lemma str_index_None: "str_index p s = None \<Longrightarrow> s \<noteq> u @ p @ v"
proof (induction s arbitrary: u)
  case (Cons r rs)
  then show ?case
    by (cases u) (auto simp: has_prefix_iff split: if_splits option.splits)
qed (auto split: if_splits)

lemma has_suffix_iff: "has_suffix p s \<longleftrightarrow> (\<exists>t. s = t @ p)"
  unfolding has_suffix_def has_prefix_iff by (metis rev_append rev_rev_ident)

text \<open>A star in front absorbs any text: the earliest occurrence leaves the most to the rest.\<close>

lemma star_absorbs: "glob_match lo s (rStarStr # ps) \<Longrightarrow> glob_match lo (x @ s) (rStarStr # ps)"
  unfolding glob_cons_iff by (metis append_assoc)

lemma glob_star_iff: "glob_match lo s (rStarStr # ps) \<longleftrightarrow> (\<exists>x t. s = x @ t \<and> glob_match lo t ps)"
  by (auto simp: glob_cons_iff)

lemma glob_literal_iff:
  "p \<noteq> rStarStr \<Longrightarrow> glob_match lo s (p # ps) \<longleftrightarrow>
    (\<exists>a t. s = a @ t \<and> lower_str lo a = lower_str lo p \<and> glob_match lo t ps)"
  by (auto simp: glob_cons_iff)

lemma lower_length: "length (lower_str lo s) = length s"
  by (simp add: lower_str_def)

lemma glob_prefix_literal:
  assumes "p \<noteq> rStarStr"
  shows "glob_match lo s (p # ps) \<longleftrightarrow>
    has_prefix (lower_str lo p) (lower_str lo s) \<and> glob_match lo (drop (length p) s) ps"
proof
  assume "glob_match lo s (p # ps)"
  then obtain a t where s: "s = a @ t" "lower_str lo a = lower_str lo p" "glob_match lo t ps"
    by (auto simp: glob_literal_iff [OF assms])
  moreover have "length a = length p" using s(2) lower_length by metis
  ultimately show "has_prefix (lower_str lo p) (lower_str lo s) \<and> glob_match lo (drop (length p) s) ps"
    by (auto simp: has_prefix_iff)
next
  assume *: "has_prefix (lower_str lo p) (lower_str lo s) \<and> glob_match lo (drop (length p) s) ps"
  then obtain u where "lower_str lo s = lower_str lo p @ u" by (auto simp: has_prefix_iff)
  then obtain a b where ab: "s = a @ b" "lower_str lo a = lower_str lo p"
    using lower_split by blast
  moreover have "length a = length p" using ab(2) lower_length by metis
  ultimately show "glob_match lo s (p # ps)"
    using * by (auto simp: glob_literal_iff [OF assms])
qed

text \<open>Behind a star, the earliest occurrence of a literal that is followed by a star decides.\<close>

lemma glob_earliest:
  assumes "q \<noteq> rStarStr" "lower_str lo s = u @ lower_str lo q @ v"
    and "\<And>u' v'. lower_str lo s = u' @ lower_str lo q @ v' \<Longrightarrow> length u \<le> length u'"
  shows "glob_match lo s (rStarStr # q # rStarStr # ps) \<longleftrightarrow>
    glob_match lo (drop (length u + length q) s) (rStarStr # ps)"
proof
  assume "glob_match lo s (rStarStr # q # rStarStr # ps)"
  then obtain x a t where s: "s = x @ a @ t" "lower_str lo a = lower_str lo q"
    "glob_match lo t (rStarStr # ps)"
    unfolding glob_star_iff [of lo s] glob_literal_iff [OF assms(1)] by blast
  have "length u \<le> length x"
    using assms(3) [of "lower_str lo x" "lower_str lo t"] s by (simp add: lower_length)
  moreover have "length a = length q" using s(2) lower_length by metis
  ultimately have "drop (length u + length q) s = drop (length u + length q) (x @ a) @ t"
    using s(1) by (simp flip: append_assoc)
  then show "glob_match lo (drop (length u + length q) s) (rStarStr # ps)"
    using star_absorbs [OF s(3)] by metis
next
  assume m: "glob_match lo (drop (length u + length q) s) (rStarStr # ps)"
  obtain x a t where s: "s = x @ a @ t" "lower_str lo x = u" "lower_str lo a = lower_str lo q"
    using lower_split3 [OF assms(2)] by blast
  have "length x = length u" "length a = length q"
    using s lower_length by metis+
  with m s have "glob_match lo t (rStarStr # ps)" by simp
  with s show "glob_match lo s (rStarStr # q # rStarStr # ps)"
    unfolding glob_star_iff [of lo s] glob_literal_iff [OF assms(1)] by blast
qed

lemma slice_lower_prefix:
  assumes "byte_stable lo s" "byte_stable lo p" "has_prefix (lower_str lo p) (lower_str lo s)"
  shows "slice_from (blen p) s = Some (drop (length p) s)"
proof -
  obtain u where "lower_str lo s = lower_str lo p @ u" using assms(3) by (auto simp: has_prefix_iff)
  then obtain a b where ab: "s = a @ b" "lower_str lo a = lower_str lo p"
    using lower_split by blast
  moreover have "length a = length p" using ab(2) lower_length by metis
  moreover have "blen p = blen a"
    using lower_same_blen [of lo a p] assms ab by simp
  ultimately show ?thesis using slice_text [of "blen p" a b] by simp
qed

lemma slice_lower_index:
  assumes "byte_stable lo s" "byte_stable lo q" "lower_str lo s = u @ lower_str lo q @ v"
  shows "slice_from (blen u + blen q) s = Some (drop (length u + length q) s)"
proof -
  obtain x a t where s: "s = x @ a @ t" "lower_str lo x = u" "lower_str lo a = lower_str lo q"
    using lower_split3 [OF assms(3)] by blast
  have l: "length x = length u" "length a = length q"
    using s lower_length by metis+
  have "blen q = blen a" "blen u = blen x"
    using lower_same_blen [of lo a q] lower_blen [of lo x] assms s by auto
  then show ?thesis using slice_text [of "blen u + blen q" "x @ a" t] s l by simp
qed

lemma byte_stable_drop: "byte_stable lo s \<Longrightarrow> byte_stable lo (drop n s)"
  by (auto simp: byte_stable_def list_all_iff dest: in_set_dropD)

lemma match_loop_glob:
  assumes "byte_stable lo s" "list_all (byte_stable lo) ps" "alternating ps"
  shows "match_loop lo s ps = Some (glob_match lo s ps)"
  using assms
proof (induction lo s ps rule: match_loop.induct)
  case (1 lo s)
  then show ?case by (simp add: glob_nil_iff)
next
  case (2 lo s p)
  then show ?case
    by (auto simp: glob_star_iff glob_nil_iff glob_prefix_literal slice_lower_prefix)
next
  case (3 lo s p q ps)
  show ?case
  proof (cases "p = rStarStr")
    case False
    then show ?thesis
      using 3 by (auto simp: glob_prefix_literal slice_lower_prefix byte_stable_drop)
  next
    case True
    with 3 have q: "q \<noteq> rStarStr" and sq: "byte_stable lo q" by simp_all
    show ?thesis
    proof (cases ps)
      case Nil
      have "has_suffix (lower_str lo q) (lower_str lo s) \<longleftrightarrow> glob_match lo s [rStarStr, q]"
        unfolding has_suffix_iff glob_star_iff glob_literal_iff [OF q] glob_nil_iff
        using lower_split [of lo s _ "lower_str lo q"] by fastforce
      with True Nil show ?thesis by simp
    next
      case (Cons r rs)
      have "alternating (p # q # r # rs)" using 3(5) Cons by simp
      with q have r: "r = rStarStr" and alt: "alternating (r # rs)" by auto
      show ?thesis
      proof (cases "str_index (lower_str lo q) (lower_str lo s)")
        case None
        have "\<not> glob_match lo s (rStarStr # q # ps)"
          using str_index_None [OF None] unfolding glob_star_iff [of lo s] glob_literal_iff [OF q]
          by (metis lower_append)
        with True Cons None show ?thesis by simp
      next
        case (Some j)
        then obtain u v where uv: "lower_str lo s = u @ lower_str lo q @ v" "j = blen u"
          "\<And>u' v'. lower_str lo s = u' @ lower_str lo q @ v' \<Longrightarrow> length u \<le> length u'"
          using str_index_Some by blast
        have cut: "slice_from (j + blen q) s = Some (drop (length u + length q) s)"
          using slice_lower_index [OF 3(3) sq uv(1)] uv(2) by simp
        have "match_loop lo (drop (length u + length q) s) ps =
          Some (glob_match lo (drop (length u + length q) s) ps)"
          using 3(1) [OF True _ Some cut] 3(3,4) alt Cons byte_stable_drop by simp
        with True Cons r Some cut glob_earliest [OF q uv(1,3)] show ?thesis by simp
      qed
    qed
  qed
qed

end
