(* ===== verification/Ir.thy ===== *)
theory Ir
  imports Ir_Edge_ID "HOL-Library.Word"
begin

text \<open>
  The intermediate representation of \<^verbatim>\<open>d2ir/d2ir.go\<close> as a tree: maps of fields and edges with their
  references, without the parent pointers; an operation that walks up takes the maps around its map as an
  argument. Pointers the code only compares (references' contexts, AST nodes) are their addresses, None for
  nil. \<open>ir_version\<close> is \<^verbatim>\<open>structureVersion\<close>.
\<close>

section \<open>References\<close>

record ref_context =
  rc_addr :: nat
  rc_Edge :: "nat option"
  rc_Key :: "nat option"
  rc_Scope :: "nat option"
  rc_ScopeMap :: "nat option"
  rc_ScopeAST :: "nat option"

record field_ref =
  fr_String :: "nat option"
  fr_KeyPath :: "nat option"
  fr_Context :: "ref_context option"
  fr_DueToGlob :: bool
  fr_DueToLazyGlob :: bool

record edge_ref =
  er_Context :: "ref_context option"
  er_DueToGlob :: bool
  er_DueToLazyGlob :: bool

text \<open>Equality of pointers to contexts.\<close>

definition same_ctx :: "ref_context option \<Rightarrow> ref_context option \<Rightarrow> bool" where
  "same_ctx a b \<longleftrightarrow> map_option rc_addr a = map_option rc_addr b"

definition sameReferenceContext :: "ref_context option \<Rightarrow> ref_context option \<Rightarrow> bool" where
  "sameReferenceContext a b \<longleftrightarrow>
    same_ctx a b \<or>
    (case (a, b) of
       (Some x, Some y) \<Rightarrow>
         rc_Key x = rc_Key y \<and> rc_Edge x = rc_Edge y \<and> rc_Scope x = rc_Scope y \<and>
         rc_ScopeMap x = rc_ScopeMap y \<and> rc_ScopeAST x = rc_ScopeAST y
     | _ \<Rightarrow> False)"

definition append_field_ref :: "field_ref \<Rightarrow> field_ref list \<Rightarrow> field_ref list" where
  "append_field_ref ref refs =
    (if fr_DueToLazyGlob ref \<and>
        list_ex (\<lambda>existing. sameReferenceContext (fr_Context existing) (fr_Context ref) \<and>
                   fr_KeyPath existing = fr_KeyPath ref \<and> fr_String existing = fr_String ref \<and>
                   fr_DueToGlob existing = fr_DueToGlob ref \<and>
                   fr_DueToLazyGlob existing = fr_DueToLazyGlob ref) refs
     then refs else refs @ [ref])"

definition append_edge_ref :: "edge_ref \<Rightarrow> edge_ref list \<Rightarrow> edge_ref list" where
  "append_edge_ref ref refs =
    (if er_DueToLazyGlob ref \<and>
        list_ex (\<lambda>existing. sameReferenceContext (er_Context existing) (er_Context ref) \<and>
                   er_DueToGlob existing = er_DueToGlob ref \<and>
                   er_DueToLazyGlob existing = er_DueToLazyGlob ref) refs
     then refs else refs @ [ref])"

section \<open>The tree\<close>

datatype ir_field =
  IField (if_Name: "string_node option") (if_Primary: "scalar option")
         (if_Composite: "composite option") (if_References: "field_ref list")
         (if_suspended: bool) (if_importAST: "nat option")
and composite = ArrayC "ir_value list" | MapC ir_map
and ir_value = ScalarI scalar | ArrayI "ir_value list" | MapI ir_map
and ir_map =
  IMap (im_Fields: "ir_field list") (im_Edges: "ir_edge list") (im_version: "64 word")
       (im_importAST: "nat option")
and ir_edge =
  IEdge (ie_ID: "edge_id option") (ie_Primary: "scalar option") (ie_Map: "ir_map option")
        (ie_References: "edge_ref list") (ie_suspended: bool) (ie_importAST: "nat option")

primrec composite_Map :: "composite \<Rightarrow> ir_map option" where
  "composite_Map (ArrayC vs) = None"
| "composite_Map (MapC m) = Some m"

definition field_Map :: "ir_field \<Rightarrow> ir_map option" where
  "field_Map f = (case if_Composite f of None \<Rightarrow> None | Some c \<Rightarrow> composite_Map c)"

primrec set_Fields :: "ir_field list \<Rightarrow> ir_map \<Rightarrow> ir_map" where
  "set_Fields fs (IMap gs es v i) = IMap fs es v i"

primrec set_Edges :: "ir_edge list \<Rightarrow> ir_map \<Rightarrow> ir_map" where
  "set_Edges es' (IMap gs es v i) = IMap gs es' v i"

text \<open>The part of \<^verbatim>\<open>markStructureChanged\<close> that concerns one map, for \<open>n\<close> changes in or below it.\<close>

primrec bump :: "nat \<Rightarrow> ir_map \<Rightarrow> ir_map" where
  "bump n (IMap fs es v i) = IMap fs es (v + of_nat n) i"

lemma set_map_simps [simp]:
  "im_Fields (set_Fields fs m) = fs" "im_Edges (set_Fields fs m) = im_Edges m"
  "im_Fields (set_Edges es m) = im_Fields m" "im_Edges (set_Edges es m) = es"
  "im_Fields (bump n m) = im_Fields m" "im_Edges (bump n m) = im_Edges m"
  "im_version (set_Fields fs m) = im_version m" "im_version (set_Edges es m) = im_version m"
  "im_version (bump n m) = im_version m + of_nat n"
  by (cases m; simp)+

text \<open>\<^verbatim>\<open>Copy\<close>: structure versions start again in every map of the copy; all else is the same value.\<close>

primrec copy_field :: "ir_field \<Rightarrow> ir_field"
  and copy_composite :: "composite \<Rightarrow> composite"
  and copy_value :: "ir_value \<Rightarrow> ir_value"
  and copy_map :: "ir_map \<Rightarrow> ir_map"
  and copy_edge :: "ir_edge \<Rightarrow> ir_edge" where
  "copy_field (IField n p c rs su im) = IField n p (map_option copy_composite c) rs su im"
| "copy_composite (ArrayC vs) = ArrayC (map copy_value vs)"
| "copy_composite (MapC m) = MapC (copy_map m)"
| "copy_value (ScalarI s) = ScalarI s"
| "copy_value (ArrayI vs) = ArrayI (map copy_value vs)"
| "copy_value (MapI m) = MapI (copy_map m)"
| "copy_map (IMap fs es v im) = IMap (map copy_field fs) (map copy_edge es) 0 im"
| "copy_edge (IEdge i p m rs su im) = IEdge i p (map_option copy_map m) rs su im"

primrec field_count_field :: "ir_field \<Rightarrow> nat"
  and field_count_composite :: "composite \<Rightarrow> nat"
  and field_count_value :: "ir_value \<Rightarrow> nat"
  and FieldCountRecursive :: "ir_map \<Rightarrow> nat"
  and field_count_edge :: "ir_edge \<Rightarrow> nat" where
  "field_count_field (IField n p c rs su im) =
     (case map_option field_count_composite c of None \<Rightarrow> 0 | Some k \<Rightarrow> k)"
| "field_count_composite (ArrayC vs) = 0"
| "field_count_composite (MapC m) = FieldCountRecursive m"
| "field_count_value (ScalarI s) = 0"
| "field_count_value (ArrayI vs) = 0"
| "field_count_value (MapI m) = 0"
| "FieldCountRecursive (IMap fs es v im) =
     length fs + sum_list (map field_count_field fs) + sum_list (map field_count_edge es)"
| "field_count_edge (IEdge i p m rs su im) =
     (case map_option FieldCountRecursive m of None \<Rightarrow> 0 | Some k \<Rightarrow> k)"

primrec edge_count_field :: "ir_field \<Rightarrow> nat"
  and edge_count_composite :: "composite \<Rightarrow> nat"
  and edge_count_value :: "ir_value \<Rightarrow> nat"
  and EdgeCountRecursive :: "ir_map \<Rightarrow> nat"
  and edge_count_edge :: "ir_edge \<Rightarrow> nat" where
  "edge_count_field (IField n p c rs su im) =
     (case map_option edge_count_composite c of None \<Rightarrow> 0 | Some k \<Rightarrow> k)"
| "edge_count_composite (ArrayC vs) = 0"
| "edge_count_composite (MapC m) = EdgeCountRecursive m"
| "edge_count_value (ScalarI s) = 0"
| "edge_count_value (ArrayI vs) = 0"
| "edge_count_value (MapI m) = 0"
| "EdgeCountRecursive (IMap fs es v im) =
     length es + sum_list (map edge_count_field fs) + sum_list (map edge_count_edge es)"
| "edge_count_edge (IEdge i p m rs su im) =
     (case map_option EdgeCountRecursive m of None \<Rightarrow> 0 | Some k \<Rightarrow> k)"

definition structureCounts :: "ir_map option \<Rightarrow> nat \<times> nat" where
  "structureCounts m =
    (case m of None \<Rightarrow> (0, 0) | Some x \<Rightarrow> (FieldCountRecursive x, EdgeCountRecursive x))"

section \<open>Looking up fields\<close>

text \<open>
  The field of a map a name denotes, by its position: the first one \<open>getFieldLinear\<close> accepts, or the
  entry of the index. A field without a name is skipped.
\<close>

definition field_accepts :: "(rune \<Rightarrow> rune) \<Rightarrow> bool \<Rightarrow> string_node \<Rightarrow> ir_field \<Rightarrow> bool" where
  "field_accepts sf indexed s f =
    (case if_Name f of
       None \<Rightarrow> False
     | Some n \<Rightarrow> if indexed then makeFieldIndexKey sf n = makeFieldIndexKey sf s else name_matches sf n s)"

fun position :: "('a \<Rightarrow> bool) \<Rightarrow> 'a list \<Rightarrow> nat option" where
  "position P [] = None"
| "position P (x # xs) = (if P x then Some 0 else map_option Suc (position P xs))"

text \<open>
  \<^verbatim>\<open>getFieldLinear\<close> goes on to a later field of the same name when the first one holds no map;
  \<open>m\<close> is given by its fields.
\<close>

fun getFieldLinear :: "(rune \<Rightarrow> rune) \<Rightarrow> string_node list \<Rightarrow> ir_field list \<Rightarrow> ir_field option" where
  "getFieldLinear sf [] fs = None"
| "getFieldLinear sf (s # rest) [] = None"
| "getFieldLinear sf (s # rest) (f # fs) =
    (if is_underscore s then None
     else if \<not> field_accepts sf False s f then getFieldLinear sf (s # rest) fs
     else if rest = [] then Some f
     else (case field_Map f of
             Some m \<Rightarrow> getFieldLinear sf rest (im_Fields m)
           | None \<Rightarrow> getFieldLinear sf (s # rest) fs))"

text \<open>
  \<^verbatim>\<open>GetField\<close> and \<^verbatim>\<open>getFieldIndexed\<close>: the loops over leading underscores step to the parent map but never
  drop the underscore, so they end with no map.
\<close>

definition GetField :: "(rune \<Rightarrow> rune) \<Rightarrow> string_node list \<Rightarrow> ir_map \<Rightarrow> ir_field option" where
  "GetField sf ida m =
    (case ida of
       [] \<Rightarrow> None
     | s # _ \<Rightarrow> if is_underscore s then None else getFieldLinear sf ida (im_Fields m))"

fun getFieldIndexed :: "(rune \<Rightarrow> rune) \<Rightarrow> string_node list \<Rightarrow> ir_map \<Rightarrow> ir_field option" where
  "getFieldIndexed sf [] m = None"
| "getFieldIndexed sf (s # rest) m =
    (if is_underscore s then None
     else (case find (field_accepts sf True s) (im_Fields m) of
             None \<Rightarrow> None
           | Some f \<Rightarrow>
               if rest = [] then Some f
               else (case field_Map f of None \<Rightarrow> None | Some m' \<Rightarrow> getFieldIndexed sf rest m')))"

end
