(* ===== verification/Ir_Merge.thy ===== *)
theory Ir_Merge
  imports Ir
begin

text \<open>
  \<^verbatim>\<open>d2ir/merge.go\<close>: laying one map over another and expanding a substitution in place. None is the nil
  dereference on a field without a name or an edge without an identifier; an overlay edge whose identifier
  names another map (an underscore or a common container, which \<^verbatim>\<open>createEdge\<close> never leaves in a map) is
  outside the model and gives None as well. Every operation on a map also returns how many structural
  changes it reported to the maps around it.
\<close>

text \<open>Identifiers that are resolved: they denote an edge of the map that holds them.\<close>

definition edge_local :: "(rune \<Rightarrow> rune) \<Rightarrow> edge_id \<Rightarrow> bool" where
  "edge_local sf eid \<longleftrightarrow>
    countUnderscores (eid_SrcPath eid) = 0 \<and> countUnderscores (eid_DstPath eid) = 0 \<and>
    resolve_common sf (eid_SrcPath eid) (eid_DstPath eid) [] = (eid_SrcPath eid, eid_DstPath eid, [])"

definition edge_accepts :: "(rune \<Rightarrow> rune) \<Rightarrow> edge_id \<Rightarrow> ir_edge \<Rightarrow> bool" where
  "edge_accepts sf eid e = (case ie_ID e of None \<Rightarrow> False | Some x \<Rightarrow> edge_Match sf x eid)"

text \<open>\<^verbatim>\<open>markStructureCountDelta\<close>: one change when the counts differ.\<close>

definition count_delta :: "ir_map option \<Rightarrow> ir_map option \<Rightarrow> nat" where
  "count_delta before after = (if structureCounts before \<noteq> structureCounts after then 1 else 0)"

text \<open>Assignments to the fields of an IR field and an IR edge.\<close>

primrec field_overlaid ::
  "scalar option \<Rightarrow> composite option \<Rightarrow> field_ref list \<Rightarrow> ir_field \<Rightarrow> ir_field" where
  "field_overlaid p c rs (IField n p0 c0 rs0 su im) = IField n p c (rs0 @ rs) su im"

primrec edge_overlaid ::
  "scalar option \<Rightarrow> ir_map option \<Rightarrow> edge_ref list \<Rightarrow> ir_edge \<Rightarrow> ir_edge" where
  "edge_overlaid p m rs (IEdge i p0 m0 rs0 su im) = IEdge i p m (rs0 @ rs) su im"

definition or_else :: "'a option \<Rightarrow> 'a option \<Rightarrow> 'a option" where
  "or_else x y = (case x of None \<Rightarrow> y | Some v \<Rightarrow> Some v)"

text \<open>The position of the field of a base map that a name denotes; \<^verbatim>\<open>_\<close> denotes none.\<close>

definition base_field :: "(rune \<Rightarrow> rune) \<Rightarrow> bool \<Rightarrow> string_node \<Rightarrow> ir_map \<Rightarrow> nat option" where
  "base_field sf indexed n m =
    (if is_underscore n then None else position (field_accepts sf indexed n) (im_Fields m))"

definition base_edge :: "(rune \<Rightarrow> rune) \<Rightarrow> edge_id \<Rightarrow> ir_map \<Rightarrow> nat option" where
  "base_edge sf eid m = position (edge_accepts sf eid) (im_Edges m)"

fun overlayMap :: "(rune \<Rightarrow> rune) \<Rightarrow> bool \<Rightarrow> ir_map \<Rightarrow> ir_map \<Rightarrow> (ir_map \<times> nat) option"
  and overlay_fields :: "(rune \<Rightarrow> rune) \<Rightarrow> bool \<Rightarrow> ir_field list \<Rightarrow> ir_map \<Rightarrow> (ir_map \<times> nat) option"
  and overlay_edges :: "(rune \<Rightarrow> rune) \<Rightarrow> bool \<Rightarrow> ir_edge list \<Rightarrow> ir_map \<Rightarrow> (ir_map \<times> nat) option"
  and overlayField :: "(rune \<Rightarrow> rune) \<Rightarrow> bool \<Rightarrow> ir_field \<Rightarrow> ir_field \<Rightarrow> (ir_field \<times> nat) option"
  and overlayEdge :: "(rune \<Rightarrow> rune) \<Rightarrow> bool \<Rightarrow> ir_edge \<Rightarrow> ir_edge \<Rightarrow> (ir_edge \<times> nat) option" where
  "overlayMap sf ix (IMap fs es v i) base =
    (case overlay_fields sf ix fs base of
       None \<Rightarrow> None
     | Some (m1, k1) \<Rightarrow>
         (case overlay_edges sf ix es m1 of
            None \<Rightarrow> None
          | Some (m2, k2) \<Rightarrow> Some (m2, k1 + k2)))"
| "overlay_fields sf ix [] base = Some (base, 0)"
| "overlay_fields sf ix (IField n p c rs su im # ofs) base =
    (case n of
       None \<Rightarrow> None
     | Some name \<Rightarrow>
         (case base_field sf ix name base of
            None \<Rightarrow>
              (case overlay_fields sf ix ofs
                      (bump 1 (set_Fields (im_Fields base @ [copy_field (IField n p c rs su im)]) base)) of
                 None \<Rightarrow> None | Some (m, k) \<Rightarrow> Some (m, Suc k))
          | Some j \<Rightarrow>
              (case overlayField sf ix (IField n p c rs su im) (im_Fields base ! j) of
                 None \<Rightarrow> None
               | Some (bf, k1) \<Rightarrow>
                   (case overlay_fields sf ix ofs (bump k1 (set_Fields ((im_Fields base)[j := bf]) base)) of
                      None \<Rightarrow> None | Some (m, k) \<Rightarrow> Some (m, k1 + k)))))"
| "overlay_edges sf ix [] base = Some (base, 0)"
| "overlay_edges sf ix (IEdge i p m rs su im # oes) base =
    (case i of
       None \<Rightarrow> None
     | Some eid \<Rightarrow>
         (if \<not> edge_local sf eid \<or> (\<not> ix \<and> list_ex (\<lambda>e. ie_ID e = None) (im_Edges base)) then None
          else (case base_edge sf eid base of
                  None \<Rightarrow>
                    (case overlay_edges sf ix oes
                            (bump 1 (set_Edges (im_Edges base @ [copy_edge (IEdge i p m rs su im)]) base)) of
                       None \<Rightarrow> None | Some (b, k) \<Rightarrow> Some (b, Suc k))
                | Some j \<Rightarrow>
                    (case overlayEdge sf ix (IEdge i p m rs su im) (im_Edges base ! j) of
                       None \<Rightarrow> None
                     | Some (be, k1) \<Rightarrow>
                         (case overlay_edges sf ix oes (bump k1 (set_Edges ((im_Edges base)[j := be]) base)) of
                            None \<Rightarrow> None | Some (b, k) \<Rightarrow> Some (b, k1 + k))))))"
| "overlayField sf ix (IField n p c rs su im) bf =
    (case c of
       None \<Rightarrow> Some (field_overlaid (or_else p (if_Primary bf)) (if_Composite bf) rs bf, 0)
     | Some (MapC om) \<Rightarrow>
         (case field_Map bf of
            Some bm \<Rightarrow>
              (case overlayMap sf ix om bm of
                 None \<Rightarrow> None
               | Some (m, k) \<Rightarrow>
                   Some (field_overlaid (or_else p (if_Primary bf)) (Some (MapC m)) rs bf, k))
          | None \<Rightarrow>
              Some (field_overlaid (or_else p (if_Primary bf)) (Some (MapC (copy_map om))) rs bf,
                    count_delta None (Some (copy_map om))))
     | Some (ArrayC vs) \<Rightarrow>
         Some (field_overlaid (or_else p (if_Primary bf)) (Some (copy_composite (ArrayC vs))) rs bf,
               count_delta (field_Map bf) None))"
| "overlayEdge sf ix (IEdge i p m rs su im) be =
    (case m of
       None \<Rightarrow> Some (edge_overlaid (or_else p (ie_Primary be)) (ie_Map be) rs be, 0)
     | Some om \<Rightarrow>
         (case ie_Map be of
            Some bm \<Rightarrow>
              (case overlayMap sf ix om bm of
                 None \<Rightarrow> None
               | Some (m', k) \<Rightarrow>
                   Some (edge_overlaid (or_else p (ie_Primary be)) (Some m') rs be, k))
          | None \<Rightarrow>
              Some (edge_overlaid (or_else p (ie_Primary be)) (Some (copy_map om)) rs be,
                    count_delta None (Some (copy_map om)))))"

section \<open>Expanding a substitution\<close>

text \<open>
  The fields of the resolved map that have no field yet are inserted before the placeholder, whose position
  is \<open>fi\<close>; -1, when it is not in the map, makes \<^verbatim>\<open>insertField\<close> panic.
\<close>

fun expand_fields ::
  "(rune \<Rightarrow> rune) \<Rightarrow> bool \<Rightarrow> int \<Rightarrow> ir_field list \<Rightarrow> ir_map \<Rightarrow> (ir_map \<times> nat) option" where
  "expand_fields sf ix fi [] m = Some (m, 0)"
| "expand_fields sf ix fi (f # ofs) m =
    (case if_Name f of
       None \<Rightarrow> None
     | Some name \<Rightarrow>
         (case base_field sf ix name m of
            None \<Rightarrow>
              (if fi < 0 \<or> int (length (im_Fields m)) < fi then None
               else (case expand_fields sf ix (fi + 1) ofs
                            (bump 1 (set_Fields (take (nat fi) (im_Fields m) @ copy_field f #
                                                 drop (nat fi) (im_Fields m)) m)) of
                       None \<Rightarrow> None | Some (m', k) \<Rightarrow> Some (m', Suc k)))
          | Some j \<Rightarrow>
              (case overlayField sf ix f (im_Fields m ! j) of
                 None \<Rightarrow> None
               | Some (bf, k1) \<Rightarrow>
                   (case expand_fields sf ix fi ofs (bump k1 (set_Fields ((im_Fields m)[j := bf]) m)) of
                      None \<Rightarrow> None | Some (m', k) \<Rightarrow> Some (m', k1 + k)))))"

definition expandSubstitution ::
  "(rune \<Rightarrow> rune) \<Rightarrow> bool \<Rightarrow> nat option \<Rightarrow> ir_map \<Rightarrow> ir_map \<Rightarrow> (ir_map \<times> nat) option" where
  "expandSubstitution sf ix placeholder resolved m =
    (case expand_fields sf ix (case placeholder of None \<Rightarrow> -1 | Some i \<Rightarrow> int i) (im_Fields resolved) m of
       None \<Rightarrow> None
     | Some (m1, k1) \<Rightarrow>
         (case overlay_edges sf ix (im_Edges resolved) m1 of
            None \<Rightarrow> None
          | Some (m2, k2) \<Rightarrow> Some (m2, k1 + k2)))"

section \<open>What an overlay leaves\<close>

definition field_key_of :: "(rune \<Rightarrow> rune) \<Rightarrow> ir_field \<Rightarrow> field_key" where
  "field_key_of sf f = makeFieldIndexKey sf (the (if_Name f))"

text \<open>Maps as compilation builds them: every field has a name that is no underscore, no two share a key.\<close>

definition names_ok :: "(rune \<Rightarrow> rune) \<Rightarrow> ir_field list \<Rightarrow> bool" where
  "names_ok sf fs \<longleftrightarrow>
    list_all (\<lambda>f. if_Name f \<noteq> None \<and> \<not> is_underscore (the (if_Name f))) fs \<and>
    distinct (map (field_key_of sf) fs)"

lemma field_overlaid_name [simp]:
  "if_Name (field_overlaid p c rs f) = if_Name f" "if_Primary (field_overlaid p c rs f) = p"
  "if_Composite (field_overlaid p c rs f) = c" "if_References (field_overlaid p c rs f) = if_References f @ rs"
  by (cases f; simp)+

lemma copy_field_name [simp]: "if_Name (copy_field f) = if_Name f"
  by (cases f) simp

lemma overlayField_name: "overlayField sf ix f bf = Some (bf', k) \<Longrightarrow> if_Name bf' = if_Name bf"
  by (cases f) (auto split: option.splits composite.splits prod.splits)

lemma overlayField_key: "overlayField sf ix f bf = Some (bf', k) \<Longrightarrow> field_key_of sf bf' = field_key_of sf bf"
  by (simp add: field_key_of_def overlayField_name)

lemma copy_field_key [simp]: "field_key_of sf (copy_field f) = field_key_of sf f"
  by (simp add: field_key_of_def)

lemma overlay_edges_Fields: "overlay_edges sf ix es m = Some (m', k) \<Longrightarrow> im_Fields m' = im_Fields m"
proof (induction es arbitrary: m m' k)
  case (Cons e es)
  then show ?case
    by (cases e) (auto split: option.splits if_splits prod.splits)
qed simp

lemma position_find: "find P xs = map_option (\<lambda>i. xs ! i) (position P xs)"
  by (induction xs) (auto simp: option.map_comp comp_def)

lemma position_Some: "position P xs = Some i \<Longrightarrow> i < length xs \<and> P (xs ! i)"
  by (induction xs arbitrary: i) (auto split: if_splits)

lemma position_None: "position P xs = None \<longleftrightarrow> (\<forall>x \<in> set xs. \<not> P x)"
  by (induction xs) auto

text \<open>Overlaying fields, in one equation for every list of fields.\<close>

lemma overlay_fields_Cons:
  "overlay_fields sf ix (f # ofs) base =
    (case if_Name f of
       None \<Rightarrow> None
     | Some name \<Rightarrow>
         (case base_field sf ix name base of
            None \<Rightarrow>
              (case overlay_fields sf ix ofs (bump 1 (set_Fields (im_Fields base @ [copy_field f]) base)) of
                 None \<Rightarrow> None | Some (m, k) \<Rightarrow> Some (m, Suc k))
          | Some j \<Rightarrow>
              (case overlayField sf ix f (im_Fields base ! j) of
                 None \<Rightarrow> None
               | Some (bf, k1) \<Rightarrow>
                   (case overlay_fields sf ix ofs (bump k1 (set_Fields ((im_Fields base)[j := bf]) base)) of
                      None \<Rightarrow> None | Some (m, k) \<Rightarrow> Some (m, k1 + k)))))"
  by (cases f) (simp only: overlay_fields.simps ir_field.sel)

text \<open>The fields by key.\<close>

definition by_key :: "(rune \<Rightarrow> rune) \<Rightarrow> ir_field list \<Rightarrow> field_key \<rightharpoonup> ir_field" where
  "by_key sf fs = map_of (map (\<lambda>f. (field_key_of sf f, f)) fs)"

lemma by_key_Nil [simp]: "by_key sf [] k = None"
  by (simp add: by_key_def)

lemma by_key_Cons [simp]: "by_key sf (f # fs) k = (if field_key_of sf f = k then Some f else by_key sf fs k)"
  by (simp add: by_key_def)

lemma by_key_append [simp]: "by_key sf (fs @ gs) k = or_else (by_key sf fs k) (by_key sf gs k)"
  by (induction fs) (auto simp: or_else_def)

lemma by_key_None: "by_key sf fs k = None \<longleftrightarrow> k \<notin> field_key_of sf ` set fs"
  by (induction fs) auto

lemma by_key_nth:
  "distinct (map (field_key_of sf) fs) \<Longrightarrow> j < length fs \<Longrightarrow> by_key sf fs (field_key_of sf (fs ! j)) = Some (fs ! j)"
proof (induction fs arbitrary: j)
  case (Cons f fs)
  then show ?case by (cases j) (auto simp: image_iff) 
qed simp

lemma by_key_update:
  "distinct (map (field_key_of sf) fs) \<Longrightarrow> j < length fs \<Longrightarrow> field_key_of sf f = field_key_of sf (fs ! j) \<Longrightarrow>
   by_key sf (fs[j := f]) k = (if k = field_key_of sf f then Some f else by_key sf fs k)"
proof (induction fs arbitrary: j)
  case (Cons a fs)
  then show ?case by (cases j) auto
qed simp

lemma find_by_key:
  assumes "names_ok sf fs"
  shows "find (field_accepts sf True s) fs = by_key sf fs (makeFieldIndexKey sf s)"
  using assms by (induction fs) (auto simp: names_ok_def field_accepts_def field_key_of_def)

lemma base_field_key:
  assumes "names_ok sf (im_Fields m)" "\<not> is_underscore s" "base_field sf True s m = Some j"
  shows "j < length (im_Fields m)" "field_key_of sf (im_Fields m ! j) = makeFieldIndexKey sf s"
  using assms position_Some [of "field_accepts sf True s" "im_Fields m" j]
  by (auto simp: base_field_def field_accepts_def field_key_of_def split: option.splits)

lemma base_field_none:
  assumes "names_ok sf (im_Fields m)" "\<not> is_underscore s" "base_field sf True s m = None"
  shows "by_key sf (im_Fields m) (makeFieldIndexKey sf s) = None"
  using assms position_find [of "field_accepts sf True s" "im_Fields m"]
  by (simp add: base_field_def find_by_key)

definition overlaid :: "(rune \<Rightarrow> rune) \<Rightarrow> ir_field option \<Rightarrow> ir_field option \<Rightarrow> ir_field option" where
  "overlaid sf b ov =
    (case ov of
       None \<Rightarrow> b
     | Some f \<Rightarrow> (case b of
                   None \<Rightarrow> Some (copy_field f)
                 | Some bf \<Rightarrow> map_option fst (overlayField sf True f bf)))"

lemma overlay_fields_by_key:
  assumes "overlay_fields sf True ofs base = Some (m, k)" "names_ok sf ofs" "names_ok sf (im_Fields base)"
  shows "by_key sf (im_Fields m) q = overlaid sf (by_key sf (im_Fields base) q) (by_key sf ofs q) \<and>
    names_ok sf (im_Fields m) \<and>
    map (field_key_of sf) (im_Fields m) = map (field_key_of sf) (im_Fields base) @
      filter (\<lambda>x. x \<notin> field_key_of sf ` set (im_Fields base)) (map (field_key_of sf) ofs)"
  using assms
proof (induction ofs arbitrary: base m k)
  case Nil
  then show ?case by (simp add: overlaid_def)
next
  case (Cons f ofs)
  obtain n where n: "if_Name f = Some n" "\<not> is_underscore n"
    using Cons.prems(2) by (auto simp: names_ok_def)
  then have key: "makeFieldIndexKey sf n = field_key_of sf f" by (simp add: field_key_of_def)
  have ofs: "names_ok sf ofs" "by_key sf ofs (field_key_of sf f) = None"
    using Cons.prems(2) by (auto simp: names_ok_def by_key_None)
  show ?case
  proof (cases "base_field sf True n base")
    case None
    let ?base = "bump 1 (set_Fields (im_Fields base @ [copy_field f]) base)"
    have fresh: "by_key sf (im_Fields base) (field_key_of sf f) = None"
      using base_field_none [OF Cons.prems(3) n(2) None] key by simp
    obtain k' where rec: "overlay_fields sf True ofs ?base = Some (m, k')"
      using Cons.prems(1) n None by (auto simp: overlay_fields_Cons split: option.splits)
    have ok: "names_ok sf (im_Fields ?base)"
      using Cons.prems(3) n fresh by (auto simp: names_ok_def by_key_None)
    have drop_f: "filter (\<lambda>x. x \<notin> field_key_of sf ` set (im_Fields ?base)) (map (field_key_of sf) ofs) =
        filter (\<lambda>x. x \<notin> field_key_of sf ` set (im_Fields base)) (map (field_key_of sf) ofs)"
    proof (rule filter_cong [OF refl])
      fix x assume "x \<in> set (map (field_key_of sf) ofs)"
      then have "x \<noteq> field_key_of sf f" using ofs(2) by (metis by_key_None list.set_map)
      then show "x \<notin> field_key_of sf ` set (im_Fields ?base) \<longleftrightarrow> x \<notin> field_key_of sf ` set (im_Fields base)"
        by simp
    qed
    have new: "filter (\<lambda>x. x \<notin> field_key_of sf ` set (im_Fields base)) (map (field_key_of sf) (f # ofs)) =
        field_key_of sf f # filter (\<lambda>x. x \<notin> field_key_of sf ` set (im_Fields base)) (map (field_key_of sf) ofs)"
      using fresh by (simp add: by_key_None)
    have look: "by_key sf (im_Fields ?base) q =
        (if q = field_key_of sf f then Some (copy_field f) else by_key sf (im_Fields base) q)"
      using fresh by (auto simp: or_else_def split: option.splits)
    show ?thesis
      using Cons.IH [OF rec ofs(1) ok] fresh ofs(2) unfolding drop_f new look
      by (auto simp: overlaid_def)
  next
    case (Some j)
    note j = base_field_key [OF Cons.prems(3) n(2) Some]
    obtain bf k1 k' where bf: "overlayField sf True f (im_Fields base ! j) = Some (bf, k1)"
      and rec: "overlay_fields sf True ofs (bump k1 (set_Fields ((im_Fields base)[j := bf]) base)) = Some (m, k')"
      using Cons.prems(1) n Some by (auto simp: overlay_fields_Cons split: option.splits)
    have kb: "field_key_of sf bf = field_key_of sf (im_Fields base ! j)" by (rule overlayField_key [OF bf])
    have d: "distinct (map (field_key_of sf) (im_Fields base))"
      using Cons.prems(3) by (simp add: names_ok_def)
    have keys: "map (field_key_of sf) ((im_Fields base)[j := bf]) = map (field_key_of sf) (im_Fields base)"
      using kb j(1) by (simp add: map_update list_update_same_conv)
    have "if_Name bf = if_Name (im_Fields base ! j)" by (rule overlayField_name [OF bf])
    then have ok: "names_ok sf ((im_Fields base)[j := bf])"
      using Cons.prems(3) j(1) keys unfolding names_ok_def
      by (auto simp: list_all_length nth_list_update)
    have img: "field_key_of sf ` set ((im_Fields base)[j := bf]) = field_key_of sf ` set (im_Fields base)"
      using arg_cong [OF keys, of set] by simp
    have inb: "field_key_of sf f \<in> field_key_of sf ` set (im_Fields base)"
      using j key by (metis image_eqI nth_mem)
    have look: "by_key sf ((im_Fields base)[j := bf]) q =
        (if q = field_key_of sf f then Some bf else by_key sf (im_Fields base) q)"
      using by_key_update [OF d j(1) kb] kb j(2) key by simp
    have at: "by_key sf (im_Fields base) (field_key_of sf f) = Some (im_Fields base ! j)"
      using by_key_nth [OF d j(1)] j(2) key by simp
    show ?thesis
      using Cons.IH [OF rec ofs(1)] ok look at bf ofs(2) inb keys img
      by (auto simp: overlaid_def)
  qed
qed

text \<open>An overlay always succeeds when its names and identifiers are there and its edges are resolved.\<close>

primrec ov_field :: "(rune \<Rightarrow> rune) \<Rightarrow> ir_field \<Rightarrow> bool"
  and ov_composite :: "(rune \<Rightarrow> rune) \<Rightarrow> composite \<Rightarrow> bool"
  and ov_value :: "(rune \<Rightarrow> rune) \<Rightarrow> ir_value \<Rightarrow> bool"
  and ov_map :: "(rune \<Rightarrow> rune) \<Rightarrow> ir_map \<Rightarrow> bool"
  and ov_edge :: "(rune \<Rightarrow> rune) \<Rightarrow> ir_edge \<Rightarrow> bool" where
  "ov_field sf (IField n p c rs su im) \<longleftrightarrow>
     n \<noteq> None \<and> (case map_option (ov_composite sf) c of None \<Rightarrow> True | Some b \<Rightarrow> b)"
| "ov_composite sf (ArrayC vs) \<longleftrightarrow> True"
| "ov_composite sf (MapC m) \<longleftrightarrow> ov_map sf m"
| "ov_value sf (ScalarI s) \<longleftrightarrow> True"
| "ov_value sf (ArrayI vs) \<longleftrightarrow> True"
| "ov_value sf (MapI m) \<longleftrightarrow> True"
| "ov_map sf (IMap fs es v im) \<longleftrightarrow> list_all id (map (ov_field sf) fs) \<and> list_all id (map (ov_edge sf) es)"
| "ov_edge sf (IEdge i p m rs su im) \<longleftrightarrow>
     (case i of None \<Rightarrow> False | Some eid \<Rightarrow> edge_local sf eid) \<and>
     (case map_option (ov_map sf) m of None \<Rightarrow> True | Some b \<Rightarrow> b)"

lemma overlay_total:
  "ov_map sf om \<Longrightarrow> \<exists>m k. overlayMap sf True om base = Some (m, k)"
  "list_all (ov_field sf) ofs \<Longrightarrow> \<exists>m k. overlay_fields sf True ofs base = Some (m, k)"
  "list_all (ov_edge sf) oes \<Longrightarrow> \<exists>m k. overlay_edges sf True oes base = Some (m, k)"
  "ov_field sf f \<Longrightarrow> \<exists>b k. overlayField sf True f bf = Some (b, k)"
  "ov_edge sf e \<Longrightarrow> \<exists>b k. overlayEdge sf True e be = Some (b, k)"
proof (induction sf "True" om base and sf "True" ofs base and sf "True" oes base and sf "True" f bf
    and sf "True" e be rule: overlayMap_overlay_fields_overlay_edges_overlayField_overlayEdge.induct)
  case (1 sf fs es v i base)
  then show ?case by (fastforce simp: list_all_iff split: option.splits)
next
  case (3 sf n p c rs su im ofs base)
  then show ?case by (cases "n") (fastforce split: option.splits)+
next
  case (5 sf i p m rs su im oes base)
  then show ?case by (cases i) (fastforce split: option.splits)+
next
  case (6 sf n p c rs su im bf)
  show ?case
  proof (cases c)
    case (Some cc)
    with 6 show ?thesis by (cases cc; cases "field_Map bf") fastforce+
  qed simp
next
  case (7 sf i p m rs su im be)
  then show ?case by (cases m; cases "ie_Map be") fastforce+
qed simp_all

text \<open>The structure version of the base counts the reported changes, modulo two to the 64.\<close>

lemma overlay_version:
  "overlayMap sf True om base = Some (m, k) \<Longrightarrow> im_version m = im_version base + of_nat k"
proof -
  have fields: "overlay_fields sf True ofs base = Some (m, k) \<Longrightarrow> im_version m = im_version base + of_nat k"
    for ofs base m k
  proof (induction ofs arbitrary: base m k)
    case (Cons f ofs)
    from Cons.prems show ?case
      by (auto simp: overlay_fields_Cons algebra_simps split: option.splits dest!: Cons.IH)
  qed simp
  have edges: "overlay_edges sf True oes base = Some (m, k) \<Longrightarrow> im_version m = im_version base + of_nat k"
    for oes base m k
  proof (induction oes arbitrary: base m k)
    case (Cons e oes)
    from Cons.prems show ?case
      by (cases e) (auto simp: algebra_simps split: option.splits if_splits dest!: Cons.IH)
  qed simp
  assume "overlayMap sf True om base = Some (m, k)"
  then show ?thesis
    by (cases om) (auto simp: algebra_simps split: option.splits dest!: fields edges)
qed

end
