(* ===== verification/Ir_Delete.thy ===== *)
theory Ir_Delete
  imports Ir_Merge
begin

text \<open>
  Deleting fields and edges in \<^verbatim>\<open>d2ir/d2ir.go\<close>. \<^verbatim>\<open>deleteEdgesForFieldReferences\<close> ranges over the slice of
  a map's edges while \<^verbatim>\<open>removeEdge\<close> shifts the elements of the same array, so the array and the length of
  the map's slice are explicit here. None is a nil dereference; an edge identifier that names another map
  gives None as well, as in \<^verbatim>\<open>Ir_Merge\<close>.
\<close>

section \<open>Deleting edges\<close>

text \<open>\<^verbatim>\<open>DeleteEdge\<close> of a resolved identifier: the position it removes.\<close>

definition delete_position :: "(rune \<Rightarrow> rune) \<Rightarrow> edge_id option \<Rightarrow> ir_edge list \<Rightarrow> nat option option" where
  "delete_position sf eid es =
    (case eid of
       None \<Rightarrow> Some None
     | Some i \<Rightarrow>
         (if \<not> edge_local sf i \<or> list_ex (\<lambda>e. ie_ID e = None) es then None
          else Some (position (edge_accepts sf i) es)))"

definition DeleteEdge :: "(rune \<Rightarrow> rune) \<Rightarrow> edge_id option \<Rightarrow> ir_map \<Rightarrow> (ir_map \<times> ir_edge option) option" where
  "DeleteEdge sf eid m =
    (case delete_position sf eid (im_Edges m) of
       None \<Rightarrow> None
     | Some None \<Rightarrow> Some (m, None)
     | Some (Some k) \<Rightarrow>
         Some (bump 1 (set_Edges (take k (im_Edges m) @ drop (Suc k) (im_Edges m)) m), Some (im_Edges m ! k)))"

text \<open>\<^verbatim>\<open>removeEdge\<close> on the array: the elements behind \<open>k\<close> move down, the last one stays where it was.\<close>

definition shift_down :: "nat \<Rightarrow> nat \<Rightarrow> 'a list \<Rightarrow> 'a list" where
  "shift_down k len arr = take k arr @ drop (Suc k) (take len arr) @ drop (len - 1) arr"

definition refers :: "ref_context option \<Rightarrow> ir_edge \<Rightarrow> bool" where
  "refers ctx e = list_ex (\<lambda>er. same_ctx (er_Context er) ctx) (ie_References e)"

text \<open>The range over the edges for one reference, from position \<open>i\<close> for \<open>n\<close> more rounds.\<close>

primrec delete_range ::
  "(rune \<Rightarrow> rune) \<Rightarrow> ref_context option \<Rightarrow> nat \<Rightarrow> nat \<Rightarrow> ir_edge list \<Rightarrow> nat \<Rightarrow> (ir_edge list \<times> nat) option" where
  "delete_range sf ctx i 0 arr len = Some (arr, len)"
| "delete_range sf ctx i (Suc n) arr len =
    (if refers ctx (arr ! i) then
       (case delete_position sf (ie_ID (arr ! i)) (take len arr) of
          None \<Rightarrow> None
        | Some None \<Rightarrow> delete_range sf ctx (Suc i) n arr len
        | Some (Some k) \<Rightarrow> delete_range sf ctx (Suc i) n (shift_down k len arr) (len - 1))
     else delete_range sf ctx (Suc i) n arr len)"

definition delete_for_context ::
  "(rune \<Rightarrow> rune) \<Rightarrow> ref_context option \<Rightarrow> ir_edge list \<Rightarrow> ir_edge list option" where
  "delete_for_context sf ctx es =
    (case delete_range sf ctx 0 (length es) es (length es) of
       None \<Rightarrow> None | Some (arr, len) \<Rightarrow> Some (take len arr))"

primrec delete_for_refs ::
  "(rune \<Rightarrow> rune) \<Rightarrow> field_ref list \<Rightarrow> ir_edge list \<Rightarrow> ir_edge list option" where
  "delete_for_refs sf [] es = Some es"
| "delete_for_refs sf (fr # frs) es =
    (case delete_for_context sf (fr_Context fr) es of None \<Rightarrow> None | Some es' \<Rightarrow> delete_for_refs sf frs es')"

text \<open>What \<^verbatim>\<open>deleteEdgesForFieldReferences\<close> does to one of the maps it visits.\<close>

definition deleteEdgesForFieldReferences ::
  "(rune \<Rightarrow> rune) \<Rightarrow> field_ref list \<Rightarrow> ir_map \<Rightarrow> (ir_map \<times> nat) option" where
  "deleteEdgesForFieldReferences sf frs m =
    (case delete_for_refs sf frs (im_Edges m) of
       None \<Rightarrow> None
     | Some es \<Rightarrow> (let k = length (im_Edges m) - length es in Some (bump k (set_Edges es m), k)))"

section \<open>Deleting fields\<close>

definition board_name :: "string_node option \<Rightarrow> bool" where
  "board_name n = (case n of None \<Rightarrow> False | Some s \<Rightarrow> board_keyword (string_ScalarString s))"

text \<open>
  What a deletion leaves to the maps around: the references whose edges they delete as well, the structural
  changes, and whether the field was deleted from this very map. \<open>owner\<close> is the name of the field that holds
  the map, \<open>board\<close> whether the map is the root of a board.
\<close>

record deletion =
  d_map :: ir_map
  d_field :: "ir_field option"
  d_refs :: "field_ref list"
  d_changes :: nat
  d_here :: bool

definition no_deletion :: "ir_map \<Rightarrow> deletion" where
  "no_deletion m = \<lparr>d_map = m, d_field = None, d_refs = [], d_changes = 0, d_here = False\<rparr>"

definition holder_name :: "string_node option \<Rightarrow> bool" where
  "holder_name n =
    (case n of None \<Rightarrow> False
     | Some s \<Rightarrow> string_ScalarString s \<in> set ReservedKeywordHolders \<and> IsUnquoted s)"

definition same_holder :: "string_node option \<Rightarrow> ir_field \<Rightarrow> bool" where
  "same_holder n f =
    (case (n, if_Name f) of
       (Some s, Some t) \<Rightarrow> string_ScalarString t = string_ScalarString s \<and> IsUnquoted t
     | _ \<Rightarrow> False)"

primrec set_field_map :: "ir_map \<Rightarrow> ir_field \<Rightarrow> ir_field" where
  "set_field_map m (IField n p c rs su im) = IField n p (Some (MapC m)) rs su im"

definition remove_at :: "nat \<Rightarrow> 'a list \<Rightarrow> 'a list" where
  "remove_at i xs = take i xs @ drop (Suc i) xs"

text \<open>Deleting the field at position \<open>i\<close> of a map.\<close>

definition delete_here :: "(rune \<Rightarrow> rune) \<Rightarrow> bool \<Rightarrow> nat \<Rightarrow> ir_map \<Rightarrow> deletion option" where
  "delete_here sf board i m =
    (let f = im_Fields m ! i
     in (case deleteEdgesForFieldReferences sf (if_References f) m of
           None \<Rightarrow> None
         | Some (m1, k) \<Rightarrow>
             Some \<lparr>d_map = bump 1 (set_Fields (remove_at i (im_Fields m1)) m1), d_field = Some f,
                   d_refs = (if board then [] else if_References f), d_changes = Suc k, d_here = True\<rparr>))"

text \<open>
  What the map around does once the field at position \<open>j\<close> has had a field deleted: the new map goes in
  place, the edges of the deleted field's references go, and an emptied keyword holder goes too.
\<close>

definition delete_around ::
  "(rune \<Rightarrow> rune) \<Rightarrow> bool \<Rightarrow> nat \<Rightarrow> deletion \<Rightarrow> ir_map \<Rightarrow> deletion option" where
  "delete_around sf board j d m =
    (let f = im_Fields m ! j;
         m1 = bump (d_changes d) (set_Fields ((im_Fields m)[j := set_field_map (d_map d) f]) m)
     in (case deleteEdgesForFieldReferences sf (d_refs d) m1 of
           None \<Rightarrow> None
         | Some (m2, k) \<Rightarrow>
             (let base = \<lparr>d_map = m2, d_field = d_field d, d_refs = (if board then [] else d_refs d),
                          d_changes = d_changes d + k, d_here = False\<rparr>
              in if d_here d \<and> holder_name (if_Name f) \<and> im_Fields (d_map d) = [] then
                   (case position (same_holder (if_Name f)) (im_Fields m2) of
                      None \<Rightarrow> Some base
                    | Some h \<Rightarrow>
                        Some (base\<lparr>d_map := bump 1 (set_Fields (remove_at h (im_Fields m2)) m2),
                                   d_changes := Suc (d_changes base)\<rparr>))
                 else Some base)))"

text \<open>
  The scan of \<^verbatim>\<open>DeleteField\<close> from position \<open>i\<close>: a field of the name without a map is passed over when the
  path goes on.
\<close>

function DeleteField_from ::
  "(rune \<Rightarrow> rune) \<Rightarrow> string_node option \<Rightarrow> bool \<Rightarrow> gostr list \<Rightarrow> nat \<Rightarrow> ir_field list \<Rightarrow> ir_map \<Rightarrow> deletion option" where
  "DeleteField_from sf owner board [] i fs m = Some (no_deletion m)"
| "DeleteField_from sf owner board (s # rest) i [] m = Some (no_deletion m)"
| "DeleteField_from sf owner board (s # rest) i (f # fs) m =
    (case if_Name f of
       None \<Rightarrow> None
     | Some n \<Rightarrow>
         (if \<not> EqualFold sf (string_ScalarString n) s then DeleteField_from sf owner board (s # rest) (Suc i) fs m
          else if rest = [] then delete_here sf board i m
          else (case field_Map f of
                  None \<Rightarrow> DeleteField_from sf owner board (s # rest) (Suc i) fs m
                | Some fm \<Rightarrow>
                    (case DeleteField_from sf (Some n) (board_name owner) rest 0 (im_Fields fm) fm of
                       None \<Rightarrow> None
                     | Some d \<Rightarrow> if d_field d = None then Some (no_deletion m) else delete_around sf board i d m))))"
  by pat_completeness auto
termination
  by (relation "measures [\<lambda>(sf, owner, board, ida, i, fs, m). length ida, \<lambda>(sf, owner, board, ida, i, fs, m). length fs]")
    auto

definition DeleteField ::
  "(rune \<Rightarrow> rune) \<Rightarrow> string_node option \<Rightarrow> bool \<Rightarrow> gostr list \<Rightarrow> ir_map \<Rightarrow> deletion option" where
  "DeleteField sf owner board ida m = DeleteField_from sf owner board ida 0 (im_Fields m) m"

section \<open>What is deleted\<close>

definition ids_ok :: "(rune \<Rightarrow> rune) \<Rightarrow> ir_edge list \<Rightarrow> bool" where
  "ids_ok sf es \<longleftrightarrow>
    list_all (\<lambda>e. case ie_ID e of None \<Rightarrow> False | Some i \<Rightarrow> edge_local sf i) es \<and>
    sorted_wrt (\<lambda>a b. \<not> edge_accepts sf (the (ie_ID a)) b \<and> \<not> edge_accepts sf (the (ie_ID b)) a) es"

text \<open>An identifier matches itself.\<close>

lemma edgePathEqual_refl [simp]: "edgePathEqual sf p p"
  by (auto simp: edgePathEqual_def list_all_length)

lemma edge_Match_refl [simp]: "edge_Match sf e e"
  by (simp add: edge_Match_def split: option.split)

lemma position_unique:
  assumes "i < length xs" "P (xs ! i)" "\<And>j. j < length xs \<Longrightarrow> P (xs ! j) \<Longrightarrow> j = i"
  shows "position P xs = Some i"
proof (cases "position P xs")
  case None
  with assms(1,2) show ?thesis by (auto simp: position_None)
next
  case (Some j)
  then show ?thesis using position_Some [OF Some] assms(3) by simp
qed

lemma delete_position_own:
  assumes "ids_ok sf es" "i < length es"
  shows "delete_position sf (ie_ID (es ! i)) es = Some (Some i)"
proof -
  obtain x where x: "ie_ID (es ! i) = Some x" "edge_local sf x"
    using assms by (auto simp: ids_ok_def list_all_length split: option.splits)
  have "\<not> list_ex (\<lambda>e. ie_ID e = None) es"
    using assms(1) by (fastforce simp: ids_ok_def list_ex_iff list_all_iff split: option.splits)
  moreover have "position (edge_accepts sf x) es = Some i"
  proof (rule position_unique)
    note w = assms(1) [unfolded ids_ok_def, THEN conjunct2]
    show "j = i" if "j < length es" "edge_accepts sf x (es ! j)" for j
      using sorted_wrt_nth_less [OF w, of j i] sorted_wrt_nth_less [OF w, of i j] assms(2) x that
      by (cases j i rule: linorder_cases) auto
  qed (use assms x in \<open>simp_all add: edge_accepts_def\<close>)
  ultimately show ?thesis using x by (simp add: delete_position_def)
qed

lemma delete_range_none:
  "(\<And>j. i \<le> j \<Longrightarrow> j < i + n \<Longrightarrow> \<not> refers ctx (arr ! j)) \<Longrightarrow>
   delete_range sf ctx i n arr len = Some (arr, len)"
  by (induction n arbitrary: i) auto

text \<open>
  A reference that at most one edge of the map shares: exactly that edge goes, the others keep their order.
\<close>

lemma delete_for_context_single:
  assumes "ids_ok sf es" "\<And>i j. i < length es \<Longrightarrow> j < length es \<Longrightarrow> refers ctx (es ! i) \<Longrightarrow> refers ctx (es ! j) \<Longrightarrow> i = j"
    and "k < length es" "refers ctx (es ! k)" 
  shows "delete_for_context sf ctx es = Some (remove_at k es)"
proof -
  have split: "delete_range sf ctx i (a + b) arr len =
      (case delete_range sf ctx i a arr len of None \<Rightarrow> None
       | Some (arr', len') \<Rightarrow> delete_range sf ctx (i + a) b arr' len')" for i a b arr len
    by (induction a arbitrary: i arr len) (auto split: option.splits)
  have n: "k + Suc (length es - Suc k) = length es" using assms(3) by simp
  let ?arr = "shift_down k (length es) es"
  have arr: "?arr = take k es @ drop (Suc k) es @ drop (length es - 1) es"
    by (simp add: shift_down_def)
  have rest: "\<not> refers ctx (?arr ! j)" if "Suc k \<le> j" "j < length es" for j
  proof (cases "j < length es - 1")
    case True
    have "j - k < length es - Suc k" "Suc k + (j - k) = Suc j" using that True by arith+
    then have "?arr ! j = es ! Suc j" using that assms(3) by (simp add: arr nth_append)
    moreover have "Suc j < length es" using True by arith
    ultimately show ?thesis using assms(2) [of k "Suc j"] assms(3,4) that by auto
  next
    case False
    with that have j: "j = length es - 1" by simp
    then have "?arr ! j = es ! j" using that assms(3) by (simp add: arr nth_append)
    with assms(2) [of k j] assms(3,4) that show ?thesis by auto
  qed
  have front: "\<And>j. 0 \<le> j \<Longrightarrow> j < 0 + k \<Longrightarrow> \<not> refers ctx (es ! j)"
    using assms(2) [of k] assms(3,4) by (metis add_0 less_irrefl less_trans)
  have "delete_range sf ctx 0 (k + Suc (length es - Suc k)) es (length es) =
      delete_range sf ctx k (Suc (length es - Suc k)) es (length es)"
    by (simp only: split delete_range_none [OF front] option.case prod.case add_0)
  also have "\<dots> = delete_range sf ctx (Suc k) (length es - Suc k) ?arr (length es - 1)"
    using assms(4) delete_position_own [OF assms(1,3)] by simp
  also have "\<dots> = Some (?arr, length es - 1)"
    using rest assms(3) by (intro delete_range_none) auto
  finally have "delete_range sf ctx 0 (length es) es (length es) = Some (?arr, length es - 1)"
    unfolding n .
  then show ?thesis
    using assms(3) by (simp add: delete_for_context_def arr remove_at_def)
qed

lemma filter_remove_at:
  assumes "k < length xs" "P (xs ! k)" "\<And>i. i < length xs \<Longrightarrow> P (xs ! i) \<Longrightarrow> i = k"
  shows "remove_at k xs = filter (\<lambda>x. \<not> P x) xs"
proof -
  have "\<not> P x" if "x \<in> set (take k xs)" for x
    using that assms(3) by (metis in_set_conv_nth length_take min_less_iff_conj nth_take less_irrefl)
  moreover have "\<not> P x" if x: "x \<in> set (drop (Suc k) xs)" for x
  proof -
    obtain i where i: "i < length (drop (Suc k) xs)" "x = drop (Suc k) xs ! i"
      using iffD1 [OF in_set_conv_nth x] by blast
    then have "Suc k + i < length xs" by simp
    with i assms(1) assms(3) [of "Suc k + i"] show ?thesis by auto
  qed
  ultimately have f: "filter (\<lambda>x. \<not> P x) (take k xs) = take k xs"
    "filter (\<lambda>x. \<not> P x) (drop (Suc k) xs) = drop (Suc k) xs"
    by (auto simp: filter_id_conv)
  have "filter (\<lambda>x. \<not> P x) xs = filter (\<lambda>x. \<not> P x) (take k xs @ xs ! k # drop (Suc k) xs)"
    by (simp add: id_take_nth_drop [OF assms(1), symmetric])
  then show ?thesis using f assms(2) by (simp add: remove_at_def)
qed

lemma at_most_one_nth:
  assumes "length (filter P xs) \<le> 1" "i < length xs" "j < length xs" "P (xs ! i)" "P (xs ! j)"
  shows "i = j"
proof -
  have "card {i. i < length xs \<and> P (xs ! i)} \<le> Suc 0"
    using assms(1) by (simp add: length_filter_conv_card)
  moreover have "finite {i. i < length xs \<and> P (xs ! i)}" by simp
  ultimately show ?thesis
    using assms(2-5) by (auto simp: card_le_Suc0_iff_eq)
qed

lemma delete_for_context_filter:
  assumes "ids_ok sf es" "length (filter (refers ctx) es) \<le> 1"
  shows "delete_for_context sf ctx es = Some (filter (\<lambda>e. \<not> refers ctx e) es)"
proof (cases "\<exists>k < length es. refers ctx (es ! k)")
  case True
  then obtain k where k: "k < length es" "refers ctx (es ! k)" by blast
  have one: "\<And>i j. i < length es \<Longrightarrow> j < length es \<Longrightarrow> refers ctx (es ! i) \<Longrightarrow> refers ctx (es ! j) \<Longrightarrow> i = j"
    using at_most_one_nth [OF assms(2)] by blast
  have "remove_at k es = filter (\<lambda>e. \<not> refers ctx e) es"
    by (rule filter_remove_at [where P = "refers ctx", OF k]) (rule one [OF _ k(1) _ k(2)])
  then show ?thesis
    using delete_for_context_single [OF assms(1) one k] by simp
next
  case False
  then have "filter (\<lambda>e. \<not> refers ctx e) es = es"
    by (auto simp: filter_id_conv in_set_conv_nth)
  moreover have "delete_range sf ctx 0 (length es) es (length es) = Some (es, length es)"
    using False by (intro delete_range_none) auto
  ultimately show ?thesis by (simp add: delete_for_context_def)
qed

lemma ids_ok_filter: "ids_ok sf es \<Longrightarrow> ids_ok sf (filter P es)"
  by (auto simp: ids_ok_def list_all_iff intro: sorted_wrt_filter)

lemma at_most_one_filter: "length (filter P xs) \<le> 1 \<Longrightarrow> length (filter P (filter Q xs)) \<le> 1"
proof -
  have "filter P (filter Q xs) = filter Q (filter P xs)" by (induction xs) auto
  then show "length (filter P xs) \<le> 1 \<Longrightarrow> length (filter P (filter Q xs)) \<le> 1"
    using length_filter_le [of Q "filter P xs"] by simp
qed

lemma delete_for_refs_filter:
  assumes "ids_ok sf es" "\<And>fr. fr \<in> set frs \<Longrightarrow> length (filter (refers (fr_Context fr)) es) \<le> 1"
  shows "delete_for_refs sf frs es =
    Some (filter (\<lambda>e. \<not> list_ex (\<lambda>fr. refers (fr_Context fr) e) frs) es)"
  using assms
proof (induction frs arbitrary: es)
  case (Cons fr frs)
  have one: "delete_for_context sf (fr_Context fr) es = Some (filter (\<lambda>e. \<not> refers (fr_Context fr) e) es)"
    using Cons.prems by (intro delete_for_context_filter) auto
  have "delete_for_refs sf frs (filter (\<lambda>e. \<not> refers (fr_Context fr) e) es) =
      Some (filter (\<lambda>e. \<not> list_ex (\<lambda>fr. refers (fr_Context fr) e) frs)
        (filter (\<lambda>e. \<not> refers (fr_Context fr) e) es))"
    using Cons.prems by (intro Cons.IH ids_ok_filter at_most_one_filter) auto
  with one show ?case by (simp add: filter_filter)
qed simp

end
