(* ===== verification/Ir_Glob.thy ===== *)
theory Ir_Glob
  imports Ir_Delete
begin

text \<open>
  The recursive globs of \<^verbatim>\<open>d2ir/pattern.go\<close>: \<^verbatim>\<open>**\<close> and \<^verbatim>\<open>***\<close>. A field found is its path, the positions of
  the fields from the map the glob starts in. \<open>visit\<close> is the callback, with the state it changes; \<open>owner\<close>
  is the name of the field that holds the map, which decides whether its fields are roots of boards.
\<close>

datatype glob_kind = DoubleGlob | TripleGlob

datatype glob_verdict = SkipField | OnlyBelow | MatchField

definition skipDoubleGlobSubtree :: "gostr \<Rightarrow> bool" where
  "skipDoubleGlobSubtree name \<longleftrightarrow>
    name \<in> set BoardKeywords \<or> name = runes ''classes'' \<or> name = runes ''vars''"

text \<open>What the two globs do with a field, by its name.\<close>

definition glob_action :: "glob_kind \<Rightarrow> ir_field \<Rightarrow> glob_verdict" where
  "glob_action kind f =
    (case if_Name f of
       None \<Rightarrow> SkipField
     | Some n \<Rightarrow>
         (let name = string_ScalarString n
          in if is_reserved name \<and> IsUnquoted n then
               (case kind of
                  DoubleGlob \<Rightarrow> if skipDoubleGlobSubtree name then SkipField else OnlyBelow
                | TripleGlob \<Rightarrow> if name \<in> set BoardKeywords then OnlyBelow else SkipField)
             else MatchField))"

lemma field_Map_size:
  assumes "field_Map f = Some m"
  shows "size_list size (im_Fields m) < size f"
proof -
  obtain c where "if_Composite f = Some c" "composite_Map c = Some m"
    using assms by (auto simp: field_Map_def split: option.splits)
  then have "if_Composite f = Some (MapC m)" by (cases c) auto
  then show ?thesis by (cases f; cases m) auto
qed

text \<open>
  \<^verbatim>\<open>_doubleGlob\<close> and \<^verbatim>\<open>_tripleGlob\<close> over the fields from position \<open>i\<close>: whether to go on, the paths found,
  the callback's state. The callback is asked before anything else, for fields without a name too.
\<close>

function glob_fields ::
  "(ir_field \<Rightarrow> 's \<Rightarrow> bool \<times> 's) \<Rightarrow> glob_kind \<Rightarrow> string_node option \<Rightarrow> nat list \<Rightarrow> nat \<Rightarrow> ir_field list \<Rightarrow> 's \<Rightarrow>
   bool \<times> nat list list \<times> 's" where
  "glob_fields visit kind owner path i [] s = (True, [], s)"
| "glob_fields visit kind owner path i (f # fs) s =
    (case visit f s of
       (False, s1) \<Rightarrow> (False, [], s1)
     | (True, s1) \<Rightarrow>
         (let own = (if glob_action kind f = MatchField \<and> \<not> board_name owner then [path @ [i]] else []);
              below = (if glob_action kind f = SkipField then (True, [], s1)
                       else (case field_Map f of
                               None \<Rightarrow> (True, [], s1)
                             | Some m \<Rightarrow> glob_fields visit kind (if_Name f) (path @ [i]) 0 (im_Fields m) s1))
          in (case below of
                (False, sub, s2) \<Rightarrow> (False, own @ sub, s2)
              | (True, sub, s2) \<Rightarrow>
                  (case glob_fields visit kind owner path (Suc i) fs s2 of
                     (ok, later, s3) \<Rightarrow> (ok, own @ sub @ later, s3)))))"
  by pat_completeness auto
termination
  by (relation "measure (\<lambda>(visit, kind, owner, path, i, fs, s). size_list size fs)")
    (auto dest: field_Map_size)

text \<open>\<^verbatim>\<open>_doubleGlobField\<close> and \<^verbatim>\<open>_tripleGlobField\<close>: the same for one field, at position \<open>i\<close> of its map.\<close>

definition glob_field ::
  "(ir_field \<Rightarrow> 's \<Rightarrow> bool \<times> 's) \<Rightarrow> glob_kind \<Rightarrow> string_node option \<Rightarrow> nat list \<Rightarrow> nat \<Rightarrow> ir_field \<Rightarrow> 's \<Rightarrow>
   bool \<times> nat list list \<times> 's" where
  "glob_field visit kind owner path i f s =
    (if if_Name f = None then (True, [], s)
     else (case visit f s of
             (False, s1) \<Rightarrow> (False, [], s1)
           | (True, s1) \<Rightarrow>
               (let own = (if glob_action kind f = MatchField \<and> \<not> board_name owner then [path @ [i]] else [])
                in if glob_action kind f = SkipField then (True, own, s1)
                   else (case field_Map f of
                           None \<Rightarrow> (True, own, s1)
                         | Some m \<Rightarrow>
                             (case glob_fields visit kind (if_Name f) (path @ [i]) 0 (im_Fields m) s1 of
                                (ok, sub, s2) \<Rightarrow> (ok, own @ sub, s2))))))"

definition pattern_kind :: "gostr list \<Rightarrow> glob_kind option" where
  "pattern_kind pattern =
    (if IsDoubleGlob pattern then Some DoubleGlob
     else if IsTripleGlob pattern then Some TripleGlob else None)"

text \<open>\<^verbatim>\<open>multiGlob\<close>: the fields found, and whether the pattern is one of the two; \<open>m\<close> is given by its fields.\<close>

definition multiGlob ::
  "(ir_field \<Rightarrow> 's \<Rightarrow> bool \<times> 's) \<Rightarrow> string_node option \<Rightarrow> gostr list \<Rightarrow> ir_field list \<Rightarrow> 's \<Rightarrow>
   (nat list list \<times> bool) \<times> 's" where
  "multiGlob visit owner pattern fs s =
    (case pattern_kind pattern of
       None \<Rightarrow> (([], False), s)
     | Some kind \<Rightarrow>
         (case glob_fields visit kind owner [] 0 fs s of (ok, found, s') \<Rightarrow> ((found, True), s')))"

text \<open>
  \<^verbatim>\<open>multiGlobMatchesToward\<close>: only the branch of the field at the head of the path to the target; a target
  outside the map has no path.
\<close>

definition multiGlobMatchesToward ::
  "(ir_field \<Rightarrow> 's \<Rightarrow> bool \<times> 's) \<Rightarrow> string_node option \<Rightarrow> nat list \<Rightarrow> gostr list \<Rightarrow> ir_field list \<Rightarrow> 's \<Rightarrow>
   nat list list \<times> 's" where
  "multiGlobMatchesToward visit owner target pattern fs s =
    (case target of
       [] \<Rightarrow> ([], s)
     | j # _ \<Rightarrow>
         (case pattern_kind pattern of
            None \<Rightarrow> ([], s)
          | Some kind \<Rightarrow>
              (case glob_field visit kind owner [] j (fs ! j) s of (ok, found, s') \<Rightarrow> (found, s'))))"

section \<open>A branch on its own\<close>

text \<open>The callback that always agrees, as without a budget.\<close>

definition no_visit :: "ir_field \<Rightarrow> unit \<Rightarrow> bool \<times> unit" where
  "no_visit f s = (True, s)"

definition found :: "glob_kind \<Rightarrow> string_node option \<Rightarrow> nat list \<Rightarrow> nat \<Rightarrow> ir_field list \<Rightarrow> nat list list" where
  "found kind owner path i fs = fst (snd (glob_fields no_visit kind owner path i fs ()))"

definition found_field :: "glob_kind \<Rightarrow> string_node option \<Rightarrow> nat list \<Rightarrow> nat \<Rightarrow> ir_field \<Rightarrow> nat list list" where
  "found_field kind owner path i f = fst (snd (glob_field no_visit kind owner path i f ()))"

lemma glob_fields_ok: "fst (glob_fields no_visit kind owner path i fs s)"
proof (induction "size_list size fs" arbitrary: owner path i fs s rule: less_induct)
  case less
  show ?case
  proof (cases fs)
    case (Cons f gs)
    have rest: "fst (glob_fields no_visit kind owner path (Suc i) gs s')" for s'
      using less [of gs] Cons by simp
    show ?thesis
    proof (cases "field_Map f")
      case None
      then show ?thesis using rest Cons by (auto simp: no_visit_def Let_def split: prod.split)
    next
      case (Some m)
      then have "fst (glob_fields no_visit kind (if_Name f) (path @ [i]) 0 (im_Fields m) s')" for s'
        using less [of "im_Fields m"] field_Map_size [OF Some] Cons by simp
      then show ?thesis using rest Cons Some
        by (auto simp: no_visit_def Let_def split: prod.split bool.split)
    qed
  qed simp
qed

lemma glob_fields_eq: "glob_fields no_visit kind owner path i fs () = (True, found kind owner path i fs, ())"
  using glob_fields_ok [of kind owner path i fs "()"] by (simp add: found_def prod_eq_iff)

lemma unnamed_skipped: "if_Name f = None \<Longrightarrow> glob_action kind f = SkipField"
  by (simp add: glob_action_def)

lemma found_Nil [simp]: "found kind owner path i [] = []"
  by (simp add: found_def)

lemma found_Cons:
  "found kind owner path i (f # fs) = found_field kind owner path i f @ found kind owner path (Suc i) fs"
proof (cases "if_Name f = None")
  case True
  then show ?thesis
    by (simp add: found_def [of _ _ _ _ "f # fs"] found_field_def glob_field_def no_visit_def glob_fields_eq
        unnamed_skipped Let_def)
next
  case False
  then obtain n where "if_Name f = Some n" by auto
  then show ?thesis
    by (cases "field_Map f"; cases "glob_action kind f")
      (simp_all add: found_def [of _ _ _ _ "f # fs"] found_field_def glob_field_def no_visit_def glob_fields_eq
        Let_def)
qed

lemma found_field_eq:
  "found_field kind owner path i f =
    (if if_Name f = None then []
     else (if glob_action kind f = MatchField \<and> \<not> board_name owner then [path @ [i]] else []) @
       (if glob_action kind f = SkipField then []
        else (case field_Map f of
                None \<Rightarrow> [] | Some m \<Rightarrow> found kind (if_Name f) (path @ [i]) 0 (im_Fields m))))"
  by (auto simp: found_field_def glob_field_def no_visit_def Let_def glob_fields_eq split: option.split)

lemma found_field_path: "p \<in> set (found_field kind owner path i f) \<Longrightarrow> \<exists>q. p = path @ i # q"
  and found_path: "p \<in> set (found kind owner path i fs) \<Longrightarrow> \<exists>j q. p = path @ j # q \<and> i \<le> j \<and> j < i + length fs"
proof -
  have all: "\<forall>p \<in> set (found kind owner path i fs). \<exists>j q. p = path @ j # q \<and> i \<le> j \<and> j < i + length fs"
    for kind owner path i fs
  proof (induction "size_list size fs" arbitrary: owner path i fs rule: less_induct)
    case less
    show ?case
    proof (cases fs)
      case (Cons f gs)
      have "\<forall>p \<in> set (found_field kind owner path i f). \<exists>q. p = path @ i # q"
      proof (cases "field_Map f")
        case None
        then show ?thesis by (auto simp: found_field_eq)
      next
        case (Some m)
        have "size_list size (im_Fields m) < size_list size fs"
          using field_Map_size [OF Some] Cons by simp
        from less [OF this, of "if_Name f" "path @ [i]" 0]
        have "\<exists>q. p = path @ i # q" if "p \<in> set (found kind (if_Name f) (path @ [i]) 0 (im_Fields m))" for p
          using that by fastforce
        then show ?thesis using Some by (auto simp: found_field_eq)
      qed
      moreover have "\<forall>p \<in> set (found kind owner path (Suc i) gs). \<exists>j q. p = path @ j # q \<and> Suc i \<le> j \<and> j < Suc i + length gs"
        using less [of gs owner path "Suc i"] Cons by simp
      ultimately show ?thesis
        unfolding Cons found_Cons by fastforce
    qed simp
  qed
  show "p \<in> set (found kind owner path i fs) \<Longrightarrow> \<exists>j q. p = path @ j # q \<and> i \<le> j \<and> j < i + length fs"
    using all by blast
  show "p \<in> set (found_field kind owner path i f) \<Longrightarrow> \<exists>q. p = path @ i # q"
    using all [of kind owner path i "[f]"] by (auto simp: found_Cons)
qed

lemma found_branch:
  assumes "j < length fs"
  shows "filter (\<lambda>p. hd p = i + j) (found kind owner [] i fs) = found_field kind owner [] (i + j) (fs ! j)"
  using assms
proof (induction fs arbitrary: i j)
  case (Cons f fs)
  have own: "filter (\<lambda>p. hd p = k) (found_field kind owner [] i f) =
      (if k = i then found_field kind owner [] i f else [])" for k
    using found_field_path [of _ kind owner "[]" i f] by (fastforce simp: filter_id_conv filter_empty_conv)
  show ?case
  proof (cases j)
    case 0
    have "filter (\<lambda>p. hd p = i) (found kind owner [] (Suc i) fs) = []"
      using found_path [of _ kind owner "[]" "Suc i" fs] by (fastforce simp: filter_empty_conv)
    with 0 own [of i] show ?thesis by (simp add: found_Cons)
  next
    case (Suc k)
    with Cons.prems Cons.IH [of k "Suc i"] own [of "i + j"] show ?thesis by (simp add: found_Cons)
  qed
qed simp

end
