(* ===== verification/Ir_Expansion.thy ===== *)
theory Ir_Expansion
  imports Ir
begin

text \<open>
  The work budgets of \<^verbatim>\<open>d2ir/expansion.go\<close>, \<^verbatim>\<open>glob_expansion.go\<close> and \<^verbatim>\<open>edge_expansion.go\<close>, and the walk
  that charges a copy of an IR node before it is made. Go's \<^verbatim>\<open>int64\<close> values are integers in its range;
  \<open>max_int\<close> is the largest. Every operation keeps them there, which \<open>budget_ok\<close> states.
\<close>

section \<open>Budgets\<close>

definition DefaultMaxVariableExpansion :: int where "DefaultMaxVariableExpansion = 65536"
definition DefaultMaxGlobExpansion :: int where "DefaultMaxGlobExpansion = 65536"
definition DefaultMaxEdgeExpansion :: int where "DefaultMaxEdgeExpansion = 1024"
definition DefaultMaxEdgeExpansionWork :: int where "DefaultMaxEdgeExpansionWork = 65536"
definition maxGlobCreatedFields :: int where "maxGlobCreatedFields = 10000"

text \<open>The two fields the four budgets share, and the errors with the limit they report.\<close>

record budget =
  b_limit :: int
  b_used :: int

datatype budget_error =
    VariableExpansionLimit int
  | GlobExpansionLimit int
  | GlobFieldLimit int
  | EdgeExpansionLimit int
  | EdgeExpansionWorkLimit int
  | NegativeLimit gostr
  | ContextStopped nat

definition budget_Error :: "budget_error \<Rightarrow> gostr" where
  "budget_Error e =
    (case e of
       VariableExpansionLimit n \<Rightarrow>
         runes ''variable substitution expansion exceeds limit of '' @ itoa n @ runes '' work units''
     | GlobExpansionLimit n \<Rightarrow> runes ''glob expansion exceeds limit of '' @ itoa n @ runes '' work units''
     | GlobFieldLimit n \<Rightarrow> runes ''glob expansion exceeds limit of '' @ itoa n @ runes '' created fields''
     | EdgeExpansionLimit n \<Rightarrow>
         runes ''edge glob expansion exceeds limit of '' @ itoa n @ runes '' endpoint pairs''
     | EdgeExpansionWorkLimit n \<Rightarrow>
         runes ''edge glob expansion exceeds work limit of '' @ itoa n @ runes '' endpoint-pair examinations''
     | NegativeLimit s \<Rightarrow> s @ runes '' must not be negative''
     | ContextStopped k \<Rightarrow> [])"

text \<open>The constructors: zero asks for the default.\<close>

definition new_budget :: "gostr \<Rightarrow> int \<Rightarrow> int \<Rightarrow> budget_error + budget" where
  "new_budget name dflt limit =
    (if limit < 0 then Inl (NegativeLimit name)
     else Inr \<lparr>b_limit = (if limit = 0 then dflt else limit), b_used = 0\<rparr>)"

definition newVariableExpansionBudget :: "int \<Rightarrow> budget_error + budget" where
  "newVariableExpansionBudget = new_budget (runes ''MaxVariableExpansion'') DefaultMaxVariableExpansion"

definition newEdgeExpansionBudget :: "int \<Rightarrow> budget_error + budget" where
  "newEdgeExpansionBudget = new_budget (runes ''MaxEdgeExpansion'') DefaultMaxEdgeExpansion"

definition newEdgeExpansionWorkBudget :: "int \<Rightarrow> budget_error + budget" where
  "newEdgeExpansionWorkBudget = new_budget (runes ''MaxEdgeExpansionWork'') DefaultMaxEdgeExpansionWork"

definition remaining :: "budget option \<Rightarrow> int" where
  "remaining b =
    (case b of None \<Rightarrow> 0 | Some x \<Rightarrow> if b_limit x \<le> b_used x then 0 else b_limit x - b_used x)"

definition reserve_units :: "(int \<Rightarrow> budget_error) \<Rightarrow> int \<Rightarrow> budget \<Rightarrow> budget_error + budget" where
  "reserve_units err units b =
    (if units < 0 \<or> b_limit b - b_used b < units then Inl (err (b_limit b))
     else Inr (b\<lparr>b_used := b_used b + units\<rparr>))"

definition variable_reserve :: "int \<Rightarrow> budget \<Rightarrow> budget_error + budget" where
  "variable_reserve = reserve_units VariableExpansionLimit"

text \<open>The glob budget counts the fields it created as well.\<close>

record glob_budget = budget +
  b_createdFields :: int

definition newGlobExpansionBudget :: "int \<Rightarrow> budget_error + glob_budget" where
  "newGlobExpansionBudget limit =
    (if limit < 0 then Inl (NegativeLimit (runes ''MaxGlobExpansion''))
     else Inr \<lparr>b_limit = (if limit = 0 then DefaultMaxGlobExpansion else limit), b_used = 0,
               b_createdFields = 0\<rparr>)"

definition glob_reserve :: "int \<Rightarrow> glob_budget \<Rightarrow> budget_error + glob_budget" where
  "glob_reserve units b =
    (if units < 0 \<or> b_limit b - b_used b < units then Inl (GlobExpansionLimit (b_limit b))
     else Inr (b\<lparr>b_used := b_used b + units\<rparr>))"

definition glob_reserveField :: "glob_budget \<Rightarrow> budget_error + glob_budget" where
  "glob_reserveField b =
    (if maxGlobCreatedFields \<le> b_createdFields b then Inl (GlobFieldLimit maxGlobCreatedFields)
     else Inr (b\<lparr>b_createdFields := b_createdFields b + 1\<rparr>))"

text \<open>The edge budgets count one unit at a time; a nil budget has none.\<close>

definition edge_reserve :: "(int \<Rightarrow> budget_error) \<Rightarrow> budget option \<Rightarrow> budget_error + budget" where
  "edge_reserve err b =
    (case b of
       None \<Rightarrow> Inl (err 0)
     | Some x \<Rightarrow> if b_limit x \<le> b_used x then Inl (err (b_limit x)) else Inr (x\<lparr>b_used := b_used x + 1\<rparr>))"

definition budget_ok :: "budget \<Rightarrow> bool" where
  "budget_ok b \<longleftrightarrow> 0 \<le> b_used b \<and> b_used b \<le> b_limit b \<and> b_limit b \<le> max_int"

lemma reserve_units_ok:
  "budget_ok b \<Longrightarrow> reserve_units err units b = Inr b' \<Longrightarrow>
   budget_ok b' \<and> b_limit b' = b_limit b \<and> b_used b' = b_used b + units \<and> 0 \<le> units"
  by (auto simp: reserve_units_def budget_ok_def split: if_splits)

text \<open>The reservations of one compilation, in order; the first that fails ends it.\<close>

primrec reserve_all :: "(int \<Rightarrow> budget_error) \<Rightarrow> int list \<Rightarrow> budget \<Rightarrow> budget_error + budget" where
  "reserve_all err [] b = Inr b"
| "reserve_all err (u # us) b =
    (case reserve_units err u b of Inl e \<Rightarrow> Inl e | Inr b' \<Rightarrow> reserve_all err us b')"

lemma reserve_all_append:
  "reserve_all err (us @ vs) b = (case reserve_all err us b of Inl e \<Rightarrow> Inl e | Inr b' \<Rightarrow> reserve_all err vs b')"
  by (induction us arbitrary: b) (auto split: sum.splits)

lemma reserve_all_sum:
  assumes "budget_ok b" "list_all (\<lambda>u. 0 \<le> u) us"
  shows "reserve_all err us b =
    (if b_used b + sum_list us \<le> b_limit b then Inr (b\<lparr>b_used := b_used b + sum_list us\<rparr>)
     else Inl (err (b_limit b)))"
  using assms
proof (induction us arbitrary: b)
  case (Cons u us)
  have "0 \<le> sum_list us" using Cons.prems(2) by (intro sum_list_nonneg) (auto simp: list_all_iff)
  then show ?case
    using Cons.prems Cons.IH [of "b\<lparr>b_used := b_used b + u\<rparr>"]
    by (auto simp: reserve_units_def budget_ok_def add.assoc)
qed (simp add: budget_ok_def)

section \<open>The units a copy takes\<close>

definition addVariableExpansionUnits64 :: "int \<Rightarrow> int \<Rightarrow> int" where
  "addVariableExpansionUnits64 count acc =
    (if count \<le> 0 then acc else if max_int - acc < count then max_int else acc + count)"

definition addVariableExpansionUnits :: "int \<Rightarrow> int \<Rightarrow> int" where
  "addVariableExpansionUnits count acc =
    (if count \<le> 0 then acc else addVariableExpansionUnits64 count acc)"

definition interpolation_units :: "interpolation_box \<Rightarrow> int \<Rightarrow> int" where
  "interpolation_units v u =
    (let u1 = (case ib_string v of None \<Rightarrow> u | Some s \<Rightarrow> addVariableExpansionUnits (int (blen s)) u);
         u2 = (case ib_raw v of None \<Rightarrow> u1 | Some s \<Rightarrow> addVariableExpansionUnits (int (blen s)) u1)
     in (case ib_subst v of
           None \<Rightarrow> u2 | Some s \<Rightarrow> addVariableExpansionUnits (int (length (s_path s))) u2))"

definition interpolationCopyUnits :: "interpolation_box list \<Rightarrow> int" where
  "interpolationCopyUnits vs =
    fold interpolation_units vs (addVariableExpansionUnits (int (length vs)) 0)"

text \<open>\<^verbatim>\<open>big.Int.BitLen\<close>.\<close>

fun bit_len :: "nat \<Rightarrow> nat" where
  "bit_len n = (if n = 0 then 0 else Suc (bit_len (n div 2)))"

declare bit_len.simps [simp del]

definition number_bytes :: "int \<Rightarrow> int" where
  "number_bytes i =
    (let bits = int (bit_len (nat \<bar>i\<bar>))
     in if bits mod 8 \<noteq> 0 then bits div 8 + 1 else bits div 8)"

definition addVariableExpansionNumberUnits :: "gostr \<Rightarrow> rat \<Rightarrow> int \<Rightarrow> int" where
  "addVariableExpansionNumberUnits raw v u =
    (case quotient_of v of (n, d) \<Rightarrow>
       addVariableExpansionUnits64 (number_bytes d)
         (addVariableExpansionUnits64 (number_bytes n) (addVariableExpansionUnits (int (blen raw)) u)))"

primrec string_units :: "string_node \<Rightarrow> int \<Rightarrow> int" where
  "string_units (UnquotedString r v p) u =
     addVariableExpansionUnits64 (interpolationCopyUnits v) (addVariableExpansionUnits (int (length p)) u)"
| "string_units (DoubleQuotedString r v) u = addVariableExpansionUnits64 (interpolationCopyUnits v) u"
| "string_units (SingleQuotedString r w v) u = addVariableExpansionUnits (int (blen v)) u"
| "string_units (BlockString r q t v) u = addVariableExpansionUnits (int (blen v)) u"

primrec scalar_units :: "scalar \<Rightarrow> int \<Rightarrow> int" where
  "scalar_units (Null r) u = u"
| "scalar_units (Suspension r b) u = u"
| "scalar_units (Boolean r b) u = u"
| "scalar_units (Number r w q) u = addVariableExpansionNumberUnits w q u"
| "scalar_units (String s) u = string_units s u"

definition variableExpansionScalarValueUnits :: "scalar \<Rightarrow> int" where
  "variableExpansionScalarValueUnits s = scalar_units s 0"

primrec variableExpansionASTNodeUnits :: "node \<Rightarrow> int" where
  "variableExpansionASTNodeUnits (NComment c) = 1"
| "variableExpansionASTNodeUnits (NBlockComment c) = 1"
| "variableExpansionASTNodeUnits (NScalar s) = scalar_units s 1"
| "variableExpansionASTNodeUnits (NSubstitution s) = addVariableExpansionUnits (int (length (s_path s))) 1"
| "variableExpansionASTNodeUnits (NImport i) = addVariableExpansionUnits (int (length (i_path i))) 1"
| "variableExpansionASTNodeUnits (NArray a) = addVariableExpansionUnits (int (length (a_nodes a))) 1"
| "variableExpansionASTNodeUnits (NMap m) = addVariableExpansionUnits (int (length (m_nodes m))) 1"
| "variableExpansionASTNodeUnits (NKey k) = addVariableExpansionUnits (int (length (k_edges k))) 1"
| "variableExpansionASTNodeUnits (NKeyPath k) = addVariableExpansionUnits (int (length (kp_path k))) 1"
| "variableExpansionASTNodeUnits (NEdge e) = 1"
| "variableExpansionASTNodeUnits (NEdgeIndex i) = 1"

section \<open>The walk\<close>

text \<open>The \<^verbatim>\<open>Node\<close> interface of the IR.\<close>

datatype ir_node =
    NodeScalar scalar
  | NodeArray "ir_value list"
  | NodeMap ir_map
  | NodeField ir_field
  | NodeEdge ir_edge

primrec value_node :: "ir_value \<Rightarrow> ir_node" where
  "value_node (ScalarI s) = NodeScalar s"
| "value_node (ArrayI vs) = NodeArray vs"
| "value_node (MapI m) = NodeMap m"

primrec composite_node :: "composite \<Rightarrow> ir_node" where
  "composite_node (ArrayC vs) = NodeArray vs"
| "composite_node (MapC m) = NodeMap m"

text \<open>The children the walk pushes, in the order it pops them.\<close>

primrec ir_children :: "ir_node \<Rightarrow> ir_node list" where
  "ir_children (NodeScalar s) = []"
| "ir_children (NodeArray vs) = map value_node vs"
| "ir_children (NodeMap m) = map NodeField (im_Fields m) @ map NodeEdge (im_Edges m)"
| "ir_children (NodeField f) =
     map NodeScalar (option_list (if_Primary f)) @ map composite_node (option_list (if_Composite f))"
| "ir_children (NodeEdge e) =
     map NodeScalar (option_list (ie_Primary e)) @ map NodeMap (option_list (ie_Map e))"

primrec variableExpansionNodeUnits :: "ir_node \<Rightarrow> int" where
  "variableExpansionNodeUnits (NodeMap m) =
     addVariableExpansionUnits (int (length (im_Edges m)))
       (addVariableExpansionUnits (int (length (im_Fields m))) 1)"
| "variableExpansionNodeUnits (NodeField f) =
     (let u = addVariableExpansionUnits (int (length (if_References f))) 1
      in (case if_Name f of
            None \<Rightarrow> u
          | Some n \<Rightarrow> addVariableExpansionUnits64 (variableExpansionScalarValueUnits (String n)) u))"
| "variableExpansionNodeUnits (NodeEdge e) =
     (let u = addVariableExpansionUnits (int (length (ie_References e))) 1
      in (case ie_ID e of
            None \<Rightarrow> u
          | Some i \<Rightarrow>
              fold (\<lambda>part. addVariableExpansionUnits64 (variableExpansionScalarValueUnits (String part)))
                (eid_SrcPath i @ eid_DstPath i)
                (addVariableExpansionUnits (int (length (eid_DstPath i)))
                  (addVariableExpansionUnits (int (length (eid_SrcPath i))) u))))"
| "variableExpansionNodeUnits (NodeScalar s) =
     addVariableExpansionUnits64 (variableExpansionScalarValueUnits s) 1"
| "variableExpansionNodeUnits (NodeArray vs) = addVariableExpansionUnits (int (length vs)) 1"

text \<open>How many nodes lie below a node, itself included: the fuel of the walk.\<close>

primrec nodes_field :: "ir_field \<Rightarrow> nat"
  and nodes_composite :: "composite \<Rightarrow> nat"
  and nodes_value :: "ir_value \<Rightarrow> nat"
  and nodes_map :: "ir_map \<Rightarrow> nat"
  and nodes_edge :: "ir_edge \<Rightarrow> nat" where
  "nodes_field (IField n p c rs su im) =
     Suc (length (option_list p) + (case map_option nodes_composite c of None \<Rightarrow> 0 | Some k \<Rightarrow> k))"
| "nodes_composite (ArrayC vs) = Suc (sum_list (map nodes_value vs))"
| "nodes_composite (MapC m) = nodes_map m"
| "nodes_value (ScalarI s) = 1"
| "nodes_value (ArrayI vs) = Suc (sum_list (map nodes_value vs))"
| "nodes_value (MapI m) = nodes_map m"
| "nodes_map (IMap fs es v im) = Suc (sum_list (map nodes_field fs) + sum_list (map nodes_edge es))"
| "nodes_edge (IEdge i p m rs su im) =
     Suc (length (option_list p) + (case map_option nodes_map m of None \<Rightarrow> 0 | Some k \<Rightarrow> k))"

primrec node_count :: "ir_node \<Rightarrow> nat" where
  "node_count (NodeScalar s) = 1"
| "node_count (NodeArray vs) = Suc (sum_list (map nodes_value vs))"
| "node_count (NodeMap m) = nodes_map m"
| "node_count (NodeField f) = nodes_field f"
| "node_count (NodeEdge e) = nodes_edge e"

lemma node_count_children: "node_count n = Suc (sum_list (map node_count (ir_children n)))"
proof -
  have v: "node_count (value_node w) = nodes_value w" for w by (cases w) auto
  have c: "node_count (composite_node w) = nodes_composite w" for w by (cases w) auto
  show ?thesis
  proof (cases n)
    case (NodeArray vs)
    then show ?thesis by (simp add: v comp_def)
  next
    case (NodeMap m)
    then show ?thesis by (cases m) (simp add: comp_def)
  next
    case (NodeField f)
    then show ?thesis by (cases f) (simp add: c option_list_def split: option.split)
  next
    case (NodeEdge e)
    then show ?thesis by (cases e) (simp add: option_list_def split: option.split)
  qed simp
qed

text \<open>
  \<^verbatim>\<open>walkVariableExpansion\<close> without a \<open>seen\<close> set, which charges every node: the stack is a list with its top
  first, \<open>ctx k\<close> is what the context reports at the start of round \<open>k\<close>.
\<close>

function walkVariableExpansion ::
  "(nat \<Rightarrow> nat option) \<Rightarrow> nat \<Rightarrow> (int \<Rightarrow> budget_error) \<Rightarrow> ir_node list \<Rightarrow> budget \<Rightarrow> budget_error option \<times> budget" where
  "walkVariableExpansion ctx k err [] b = (None, b)"
| "walkVariableExpansion ctx k err (n # stack) b =
    (case ctx k of
       Some e \<Rightarrow> (Some (ContextStopped e), b)
     | None \<Rightarrow>
         (case reserve_units err (variableExpansionNodeUnits n) b of
            Inl e \<Rightarrow> (Some e, b)
          | Inr b' \<Rightarrow> walkVariableExpansion ctx (Suc k) err (ir_children n @ stack) b'))"
  by pat_completeness auto
termination
proof (relation "measure (\<lambda>(ctx, k, err, stack, b). sum_list (map node_count stack))")
  show "wf (measure (\<lambda>(ctx :: nat \<Rightarrow> nat option, k :: nat, err :: int \<Rightarrow> budget_error, stack, b :: budget).
    sum_list (map node_count stack)))" by simp
qed (simp add: node_count_children [of n for n])

subsection \<open>The walk charges every node once\<close>

text \<open>The nodes below a stack of nodes, each before what lies under it.\<close>

function preorder :: "ir_node list \<Rightarrow> ir_node list" where
  "preorder [] = []"
| "preorder (n # stack) = n # preorder (ir_children n @ stack)"
  by pat_completeness auto
termination
  by (relation "measure (\<lambda>stack. sum_list (map node_count stack))") (simp_all add: node_count_children [of n for n])

lemma preorder_append: "preorder (xs @ ys) = preorder xs @ preorder ys"
proof (induction xs rule: preorder.induct)
  case (2 n stack)
  then show ?case by simp
qed simp

lemma preorder_concat: "preorder xs = concat (map (\<lambda>n. preorder [n]) xs)"
  by (induction xs) (simp, metis append_Cons append_Nil concat.simps(2) list.simps(9) preorder_append)

lemma walk_reserve_all:
  assumes "\<And>j. ctx j = None"
  shows "case reserve_all err (map variableExpansionNodeUnits (preorder stack)) b of
      Inr b' \<Rightarrow> walkVariableExpansion ctx k err stack b = (None, b')
    | Inl e \<Rightarrow> fst (walkVariableExpansion ctx k err stack b) = Some e"
  using assms
proof (induction ctx k err stack b rule: walkVariableExpansion.induct)
  case (2 ctx k err n stack b)
  then show ?case
    by (cases "reserve_units err (variableExpansionNodeUnits n) b") (simp_all split: sum.split_asm sum.split)
qed simp

text \<open>The work of a node, by recursion on the tree.\<close>

function total_units :: "ir_node \<Rightarrow> int" where
  "total_units n = variableExpansionNodeUnits n + sum_list (map total_units (ir_children n))"
  by pat_completeness auto
termination
proof (relation "measure node_count")
  fix n c assume "c \<in> set (ir_children n)"
  then have "node_count c \<le> sum_list (map node_count (ir_children n))"
    by (induction "ir_children n" arbitrary: n) (auto simp: member_le_sum_list)
  then show "(c, n) \<in> measure node_count" by (simp add: node_count_children [of n])
qed simp

declare total_units.simps [simp del]

lemma preorder_total: "sum_list (map variableExpansionNodeUnits (preorder xs)) = sum_list (map total_units xs)"
proof (induction xs rule: preorder.induct)
  case (2 n stack)
  then show ?case by (simp add: total_units.simps [of n])
qed simp

lemma units64_ge: "0 \<le> acc \<Longrightarrow> acc \<le> max_int \<Longrightarrow>
    0 \<le> addVariableExpansionUnits64 c acc \<and> acc \<le> addVariableExpansionUnits64 c acc \<and>
    addVariableExpansionUnits64 c acc \<le> max_int"
  by (auto simp: addVariableExpansionUnits64_def)

lemma units_ge: "0 \<le> acc \<Longrightarrow> acc \<le> max_int \<Longrightarrow>
    0 \<le> addVariableExpansionUnits c acc \<and> acc \<le> addVariableExpansionUnits c acc \<and>
    addVariableExpansionUnits c acc \<le> max_int"
  by (auto simp: addVariableExpansionUnits_def units64_ge)

text \<open>Sums that saturate stay in the range of an \<open>int64\<close> and never shrink.\<close>

definition grows_to :: "int \<Rightarrow> int \<Rightarrow> bool" where
  "grows_to a b \<longleftrightarrow> 0 \<le> a \<and> a \<le> b \<and> b \<le> max_int"

lemma grows_refl: "0 \<le> a \<Longrightarrow> a \<le> max_int \<Longrightarrow> grows_to a a"
  by (simp add: grows_to_def)

lemma grows_units: "grows_to a b \<Longrightarrow> grows_to a (addVariableExpansionUnits c b)"
  using units_ge [of b c] by (auto simp: grows_to_def)

lemma grows_units64: "grows_to a b \<Longrightarrow> grows_to a (addVariableExpansionUnits64 c b)"
  using units64_ge [of b c] by (auto simp: grows_to_def)

lemma grows_fold64: "grows_to a b \<Longrightarrow> grows_to a (fold (\<lambda>x. addVariableExpansionUnits64 (g x)) xs b)"
  by (induction xs arbitrary: b) (simp_all add: grows_units64)

lemma node_units_range: "grows_to 1 (variableExpansionNodeUnits n)"
proof -
  have one: "grows_to 1 1" by (simp add: grows_to_def max_int_def)
  show ?thesis
    by (cases n) (auto simp: Let_def intro!: one grows_units grows_units64 grows_fold64 split: option.split)
qed

lemma walk_total:
  assumes "budget_ok b" "\<And>j. ctx j = None"
  shows "fst (walkVariableExpansion ctx k err stack b) =
      (if b_used b + sum_list (map total_units stack) \<le> b_limit b then None else Some (err (b_limit b)))"
    and "b_used b + sum_list (map total_units stack) \<le> b_limit b \<Longrightarrow>
      snd (walkVariableExpansion ctx k err stack b) = b\<lparr>b_used := b_used b + sum_list (map total_units stack)\<rparr>"
proof -
  have nn: "list_all (\<lambda>u. 0 \<le> u) (map variableExpansionNodeUnits (preorder stack))"
    using node_units_range by (auto simp: list_all_iff grows_to_def) (meson dual_order.trans zero_le_one)
  note r = reserve_all_sum [OF assms(1) nn, of err]
  note w = walk_reserve_all [OF assms(2), where err = err and stack = stack and b = b and k = k]
  show "fst (walkVariableExpansion ctx k err stack b) =
      (if b_used b + sum_list (map total_units stack) \<le> b_limit b then None else Some (err (b_limit b)))"
    using w by (auto simp: r preorder_total split: if_splits)
  show "b_used b + sum_list (map total_units stack) \<le> b_limit b \<Longrightarrow>
      snd (walkVariableExpansion ctx k err stack b) = b\<lparr>b_used := b_used b + sum_list (map total_units stack)\<rparr>"
    using w by (auto simp: r preorder_total split: if_splits)
qed

end
