(* ===== verification/Ast_Walk.thy ===== *)
theory Ast_Walk
  imports Ast
begin

text \<open>
  Walking and comparing the syntax tree of \<^verbatim>\<open>d2ast/d2ast.go\<close>: \<^verbatim>\<open>Walk\<close> with a callback that has a state,
  and \<^verbatim>\<open>Key.Equals\<close> and \<^verbatim>\<open>Key.D2OracleEquals\<close> on keys that share no node (\<^verbatim>\<open>EdgeIndex.Equals\<close> compares
  the pointers to the numbers). None is a nil dereference.
\<close>

section \<open>Walk\<close>

text \<open>How many nodes lie below a node, itself included.\<close>

primrec n_string :: "string_node \<Rightarrow> nat"
  and n_box :: "interpolation_box \<Rightarrow> nat"
  and n_substitution :: "substitution \<Rightarrow> nat" where
  "n_string (UnquotedString r v p) = Suc (sum_list (map n_box v))"
| "n_string (DoubleQuotedString r v) = Suc (sum_list (map n_box v))"
| "n_string (SingleQuotedString r w v) = 1"
| "n_string (BlockString r q t v) = 1"
| "n_box (InterpolationBox s w sub) = (case map_option n_substitution sub of None \<Rightarrow> 0 | Some k \<Rightarrow> k)"
| "n_substitution (Substitution r sp p) = Suc (sum_list (map n_string p))"

definition n_scalar :: "scalar \<Rightarrow> nat" where
  "n_scalar s = (case s of String x \<Rightarrow> n_string x | _ \<Rightarrow> 1)"

definition n_import :: "import_node \<Rightarrow> nat" where
  "n_import i = Suc (sum_list (map n_string (i_path i)))"

definition n_keypath :: "keypath \<Rightarrow> nat" where
  "n_keypath k = Suc (sum_list (map n_string (kp_path k)))"

definition n_opt :: "('a \<Rightarrow> nat) \<Rightarrow> 'a option \<Rightarrow> nat" where
  "n_opt f x = (case x of None \<Rightarrow> 0 | Some y \<Rightarrow> f y)"

definition n_edge :: "edge \<Rightarrow> nat" where
  "n_edge e = Suc (n_opt n_keypath (e_src e) + n_opt n_keypath (e_dst e))"

primrec n_val :: "val \<Rightarrow> nat"
  and n_array :: "array \<Rightarrow> nat"
  and n_array_node :: "array_node \<Rightarrow> nat"
  and n_map :: "d2map \<Rightarrow> nat"
  and n_map_node :: "map_node \<Rightarrow> nat"
  and n_key :: "key \<Rightarrow> nat" where
  "n_val (ScalarV s) = n_scalar s"
| "n_val (ArrayV a) = n_array a"
| "n_val (MapV m) = n_map m"
| "n_val (ImportV i) = n_import i"
| "n_array (Array r ns) = Suc (sum_list (map n_array_node ns))"
| "n_array_node (ACommentN c) = 1"
| "n_array_node (ABlockCommentN c) = 1"
| "n_array_node (ASubstitutionN s) = n_substitution s"
| "n_array_node (AImportN i) = n_import i"
| "n_array_node (AValueN v) = n_val v"
| "n_map (Map r ns) = Suc (sum_list (map n_map_node ns))"
| "n_map_node (CommentN c) = 1"
| "n_map_node (BlockCommentN c) = 1"
| "n_map_node (SubstitutionN s) = n_substitution s"
| "n_map_node (ImportN i) = n_import i"
| "n_map_node (KeyN k) = n_key k"
| "n_key (Key r a n k es ei ek p v) =
     Suc (n_opt n_keypath k + sum_list (map n_edge es) + n_opt (\<lambda>_. 1) ei + n_opt n_keypath ek +
          n_opt n_scalar p + (case map_option n_val v of None \<Rightarrow> 0 | Some x \<Rightarrow> x))"

primrec n_node :: "node \<Rightarrow> nat" where
  "n_node (NComment c) = 1"
| "n_node (NBlockComment c) = 1"
| "n_node (NScalar s) = n_scalar s"
| "n_node (NSubstitution s) = n_substitution s"
| "n_node (NImport i) = n_import i"
| "n_node (NArray a) = n_array a"
| "n_node (NMap m) = n_map m"
| "n_node (NKey k) = n_key k"
| "n_node (NKeyPath k) = n_keypath k"
| "n_node (NEdge e) = n_edge e"
| "n_node (NEdgeIndex i) = 1"

lemma sum_option_list: "sum_list (map f (option_list x)) = n_opt f x"
  by (simp add: option_list_def n_opt_def split: option.split)

lemma n_boxes: "sum_list (map n_box v) = sum_list (map n_substitution (concat (map (\<lambda>b. option_list (ib_subst b)) v)))"
proof (induction v)
  case (Cons b v)
  have "n_box b = sum_list (map n_substitution (option_list (ib_subst b)))"
    by (cases b) (simp add: option_list_def split: option.split)
  with Cons show ?case by simp
qed simp

lemma n_string_children: "n_string s = Suc (sum_list (map n_node (string_Children s)))"
  by (cases s) (simp_all add: n_boxes comp_def)

lemma n_string_node: "n_node (string_node_node s) = n_string s"
  by (simp add: string_node_node_def n_scalar_def)

lemma n_val_node: "n_node (val_node v) = n_val v"
  by (cases v) simp_all

lemma n_array_node_node: "n_node (array_node_node v) = n_array_node v"
  by (cases v) (simp_all add: n_val_node)

lemma n_map_node_node: "n_node (map_node_node v) = n_map_node v"
  by (cases v) simp_all

lemma n_node_children: "n_node n = Suc (sum_list (map n_node (Children n)))"
proof (cases n)
  case (NScalar s)
  then show ?thesis by (cases s) (simp_all add: n_scalar_def n_string_children)
next
  case (NSubstitution s)
  then show ?thesis by (cases s) (simp add: comp_def n_string_node)
next
  case (NArray a)
  then show ?thesis by (cases a) (simp add: comp_def n_array_node_node)
next
  case (NMap m)
  then show ?thesis by (cases m) (simp add: comp_def n_map_node_node)
next
  case (NKey k)
  then show ?thesis
    by (cases k) (simp add: comp_def sum_option_list n_val_node, simp add: n_opt_def split: option.split)
next
  case (NEdge e)
  then show ?thesis by (simp add: n_edge_def comp_def sum_option_list)
qed (simp_all add: n_import_def n_keypath_def comp_def n_string_node)

text \<open>
  \<^verbatim>\<open>Walk\<close> on the nodes still to visit, in order: the children come before the nodes that follow, and not
  at all when the callback says no.
\<close>

function Walk :: "(node \<Rightarrow> 's \<Rightarrow> bool \<times> 's) \<Rightarrow> node list \<Rightarrow> 's \<Rightarrow> 's" where
  "Walk fn [] s = s"
| "Walk fn (n # rest) s =
    (case fn n s of
       (True, s1) \<Rightarrow> Walk fn (Children n @ rest) s1
     | (False, s1) \<Rightarrow> Walk fn rest s1)"
  by pat_completeness auto
termination
  by (relation "measure (\<lambda>(fn, ns, s). sum_list (map n_node ns))") (simp_all add: n_node_children [of n for n])

text \<open>The recursion as the code has it.\<close>

lemma Walk_append: "Walk fn (ms @ ns) s = Walk fn ns (Walk fn ms s)"
  by (induction fn ms s rule: Walk.induct) (simp_all split: prod.split bool.split)

lemma Walk_node:
  "Walk fn [n] s = (case fn n s of (ok, s1) \<Rightarrow> if ok then fold (\<lambda>c. Walk fn [c]) (Children n) s1 else s1)"
proof -
  have "Walk fn ns s = fold (\<lambda>c. Walk fn [c]) ns s" for ns s
  proof (induction ns arbitrary: s)
    case (Cons m ns)
    then show ?case using Walk_append [of fn "[m]" ns s] by simp
  qed simp
  then show ?thesis by (simp split: prod.split bool.split)
qed

section \<open>Comparing keys\<close>

definition conj_opt :: "bool option \<Rightarrow> bool option \<Rightarrow> bool option" where
  "conj_opt a b = (case a of Some True \<Rightarrow> b | _ \<Rightarrow> a)"

definition EdgeIndex_Equals :: "edge_index \<Rightarrow> edge_index \<Rightarrow> bool" where
  "EdgeIndex_Equals e1 e2 \<longleftrightarrow> ei_int e1 = None \<and> ei_int e2 = None \<and> ei_glob e1 = ei_glob e2"

primrec edges_Equals :: "edge list \<Rightarrow> edge list \<Rightarrow> bool option" where
  "edges_Equals [] fs = Some True"
| "edges_Equals (e # es) fs =
    (case fs of [] \<Rightarrow> None | f # fs' \<Rightarrow> conj_opt (edge_Equals e f) (edges_Equals es fs'))"

definition opt_path_equal :: "keypath option \<Rightarrow> keypath option \<Rightarrow> bool" where
  "opt_path_equal a b =
    (case (a, b) of (Some k1, Some k2) \<Rightarrow> kp_StringIDA k1 = kp_StringIDA k2 | (None, None) \<Rightarrow> True | _ \<Rightarrow> False)"

primrec val_map_nodes :: "val \<Rightarrow> map_node list option" where
  "val_map_nodes (ScalarV s) = None"
| "val_map_nodes (ArrayV a) = None"
| "val_map_nodes (MapV m) = Some (m_nodes m)"
| "val_map_nodes (ImportV i) = None"

definition value_nodes :: "val option \<Rightarrow> map_node list option" where
  "value_nodes v = (case v of None \<Rightarrow> None | Some x \<Rightarrow> val_map_nodes x)"

text \<open>The two tests on the presence of the values that both comparisons make.\<close>

definition values_present :: "val option \<Rightarrow> val option \<Rightarrow> bool" where
  "values_present v1 v2 =
    (if (value_nodes v1 = None) \<noteq> (value_nodes v2 = None)
     then \<not> (value_nodes v1 \<noteq> None \<and> value_nodes v1 \<noteq> Some []) \<and>
          \<not> (value_nodes v2 \<noteq> None \<and> value_nodes v2 \<noteq> Some [])
     else (v1 = None) = (v2 = None))"

definition scalar_values_equal :: "val option \<Rightarrow> val option \<Rightarrow> bool" where
  "scalar_values_equal v1 v2 =
    (case v1 of
       None \<Rightarrow> True
     | Some x \<Rightarrow>
         (case (ScalarBox x, case v2 of None \<Rightarrow> None | Some y \<Rightarrow> ScalarBox y) of
            (None, None) \<Rightarrow> True
          | (Some s1, Some s2) \<Rightarrow> ScalarString s1 = ScalarString s2
          | _ \<Rightarrow> False))"

definition primaries_equal :: "scalar option \<Rightarrow> scalar option \<Rightarrow> bool" where
  "primaries_equal p1 p2 =
    (case p1 of
       None \<Rightarrow> True
     | Some s1 \<Rightarrow> (case p2 of None \<Rightarrow> False | Some s2 \<Rightarrow> ScalarString s1 = ScalarString s2))"

text \<open>What \<^verbatim>\<open>Equals\<close> compares before it goes into the maps, on two keys that are not nil.\<close>

definition key_heads_equal :: "key \<Rightarrow> key \<Rightarrow> bool option" where
  "key_heads_equal k1 k2 =
    (if k_ampersand k1 \<noteq> k_ampersand k2 \<or> k_notAmpersand k1 \<noteq> k_notAmpersand k2 \<or>
        (k_key k1 = None) \<noteq> (k_key k2 = None) \<or>
        (case (k_edgeIndex k1, k_edgeIndex k2) of
           (None, None) \<Rightarrow> False | (Some a, Some b) \<Rightarrow> \<not> EdgeIndex_Equals a b | _ \<Rightarrow> True) \<or>
        (k_edgeKey k1 = None) \<noteq> (k_edgeKey k2 = None) \<or>
        length (k_edges k1) \<noteq> length (k_edges k2)
     then Some False
     else conj_opt (edges_Equals (k_edges k1) (k_edges k2))
            (Some (values_present (k_value k1) (k_value k2) \<and>
                   opt_path_equal (k_key k1) (k_key k2) \<and> opt_path_equal (k_edgeKey k1) (k_edgeKey k2))))"

primrec node_key :: "map_node \<Rightarrow> key option" where
  "node_key (CommentN c) = None"
| "node_key (BlockCommentN c) = None"
| "node_key (SubstitutionN s) = None"
| "node_key (ImportN i) = None"
| "node_key (KeyN k) = Some k"

lemma value_nodes_size:
  "value_nodes (k_value k) = Some ns \<Longrightarrow> size_list size ns < size k"
proof -
  assume "value_nodes (k_value k) = Some ns"
  then obtain v where v: "k_value k = Some v" "val_map_nodes v = Some ns"
    by (auto simp: value_nodes_def split: option.splits)
  then obtain m where "v = MapV m" "m_nodes m = ns" by (cases v) auto
  with v show ?thesis by (cases k; cases m) simp
qed

lemma node_key_size: "node_key n = Some k \<Longrightarrow> size k < size n"
  by (cases n) auto

text \<open>
  \<^verbatim>\<open>Key.Equals\<close>. Nodes of a map that are no keys have the nil \<^verbatim>\<open>MapKey\<close>, and nil equals nil.
\<close>

function key_Equals :: "key \<Rightarrow> key \<Rightarrow> bool option"
  and nodes_Equals :: "map_node list \<Rightarrow> map_node list \<Rightarrow> bool option" where
  "key_Equals k1 k2 =
    conj_opt (key_heads_equal k1 k2)
      (conj_opt
        (case value_nodes (k_value k1) of
           None \<Rightarrow> Some True
         | Some ns1 \<Rightarrow>
             (if ns1 = [] then Some True
              else (case value_nodes (k_value k2) of
                      None \<Rightarrow> None
                    | Some ns2 \<Rightarrow> if length ns1 \<noteq> length ns2 then Some False else nodes_Equals ns1 ns2)))
        (Some (scalar_values_equal (k_value k1) (k_value k2) \<and>
               primaries_equal (k_primary k1) (k_primary k2))))"
| "nodes_Equals [] ns2 = Some True"
| "nodes_Equals (n1 # ns1) [] = None"
| "nodes_Equals (n1 # ns1) (n2 # ns2) =
    conj_opt
      (case (node_key n1, node_key n2) of
         (None, None) \<Rightarrow> Some True
       | (Some k1, Some k2) \<Rightarrow> key_Equals k1 k2
       | _ \<Rightarrow> Some False)
      (nodes_Equals ns1 ns2)"
  by pat_completeness auto
termination
  by (relation "measure (\<lambda>x. case x of Inl (k1, k2) \<Rightarrow> size k1 | Inr (ns1, ns2) \<Rightarrow> size_list size ns1)")
    (auto dest: value_nodes_size node_key_size [OF sym])

declare key_Equals.simps [simp del]

text \<open>\<^verbatim>\<open>D2OracleEquals\<close>: the edges are only counted, the edge indexes and the primaries not compared.\<close>

definition key_D2OracleEquals :: "key \<Rightarrow> key \<Rightarrow> bool option" where
  "key_D2OracleEquals k1 k2 =
    (if k_ampersand k1 \<noteq> k_ampersand k2 \<or> k_notAmpersand k1 \<noteq> k_notAmpersand k2 \<or>
        (k_key k1 = None) \<noteq> (k_key k2 = None) \<or>
        (k_edgeIndex k1 = None) \<noteq> (k_edgeIndex k2 = None) \<or>
        (k_edgeKey k1 = None) \<noteq> (k_edgeKey k2 = None) \<or>
        length (k_edges k1) \<noteq> length (k_edges k2) \<or>
        \<not> values_present (k_value k1) (k_value k2) \<or>
        \<not> opt_path_equal (k_key k1) (k_key k2) \<or> \<not> opt_path_equal (k_edgeKey k1) (k_edgeKey k2)
     then Some False
     else conj_opt
        (case value_nodes (k_value k1) of
           None \<Rightarrow> Some True
         | Some ns1 \<Rightarrow>
             (if ns1 = [] then Some True
              else (case value_nodes (k_value k2) of
                      None \<Rightarrow> None
                    | Some ns2 \<Rightarrow> if length ns1 \<noteq> length ns2 then Some False else nodes_Equals ns1 ns2)))
        (Some (scalar_values_equal (k_value k1) (k_value k2))))"

text \<open>Keys the code compares: the ends of edges are there, and no edge is indexed by a number.\<close>

primrec comparable_val :: "val \<Rightarrow> bool"
  and comparable_array :: "array \<Rightarrow> bool"
  and comparable_array_node :: "array_node \<Rightarrow> bool"
  and comparable_map :: "d2map \<Rightarrow> bool"
  and comparable_node :: "map_node \<Rightarrow> bool"
  and comparable :: "key \<Rightarrow> bool" where
  "comparable_val (ScalarV s) = True"
| "comparable_val (ArrayV a) = True"
| "comparable_val (MapV m) = comparable_map m"
| "comparable_val (ImportV i) = True"
| "comparable_array (Array r ns) = True"
| "comparable_array_node (ACommentN c) = True"
| "comparable_array_node (ABlockCommentN c) = True"
| "comparable_array_node (ASubstitutionN s) = True"
| "comparable_array_node (AImportN i) = True"
| "comparable_array_node (AValueN v) = True"
| "comparable_map (Map r ns) = list_all comparable_node ns"
| "comparable_node (CommentN c) = True"
| "comparable_node (BlockCommentN c) = True"
| "comparable_node (SubstitutionN s) = True"
| "comparable_node (ImportN i) = True"
| "comparable_node (KeyN k) = comparable k"
| "comparable (Key r a n k es ei ek p v) =
     (list_all (\<lambda>e. e_src e \<noteq> None \<and> e_dst e \<noteq> None) es \<and>
      (case ei of None \<Rightarrow> True | Some i \<Rightarrow> ei_int i = None) \<and>
      (case map_option comparable_val v of None \<Rightarrow> True | Some b \<Rightarrow> b))"

lemma edges_Equals_refl:
  "list_all (\<lambda>e. e_src e \<noteq> None \<and> e_dst e \<noteq> None) es \<Longrightarrow> edges_Equals es es = Some True"
  by (induction es) (auto simp: edge_Equals_def kp_Equals_def conj_opt_def)

lemma heads_refl:
  "comparable k \<Longrightarrow> key_heads_equal k k = Some True"
  by (cases k) (auto simp: key_heads_equal_def edges_Equals_refl conj_opt_def values_present_def
      opt_path_equal_def EdgeIndex_Equals_def split: option.split)

lemma rest_refl: "scalar_values_equal v v" "primaries_equal p p"
  by (auto simp: scalar_values_equal_def primaries_equal_def split: option.split)

lemma comparable_nodes: "comparable k \<Longrightarrow> value_nodes (k_value k) = Some ns \<Longrightarrow> list_all comparable_node ns"
proof -
  assume k: "comparable k" "value_nodes (k_value k) = Some ns"
  then obtain v where v: "k_value k = Some v" "val_map_nodes v = Some ns"
    by (auto simp: value_nodes_def split: option.splits)
  then obtain m where "v = MapV m" "m_nodes m = ns" by (cases v) auto
  with v k show ?thesis by (cases k; cases m) simp
qed

lemma comparable_node_key: "comparable_node n \<Longrightarrow> node_key n = Some k \<Longrightarrow> comparable k"
  by (cases n) auto

lemma Equals_refl:
  "comparable k \<Longrightarrow> k1 = k \<Longrightarrow> key_Equals k k1 = Some True"
  "list_all comparable_node ns \<Longrightarrow> ns1 = ns \<Longrightarrow> nodes_Equals ns ns1 = Some True"
proof (induction k k1 and ns ns1 rule: key_Equals_nodes_Equals.induct)
  case (1 k1 k2)
  have nodes: "nodes_Equals ns ns = Some True" if "value_nodes (k_value k1) = Some ns" for ns
  proof (cases "ns = []")
    case False
    then show ?thesis using 1 that comparable_nodes [of k1 ns] by auto
  qed simp
  then show ?case
    using 1 by (auto simp: key_Equals.simps [of k1] heads_refl conj_opt_def rest_refl split: option.split)
next
  case (4 n1 ns1 n2 ns2)
  show ?case
  proof (cases "node_key n1")
    case None
    with 4 show ?thesis by (auto simp: conj_opt_def)
  next
    case (Some k)
    then have "comparable k" using "4.prems" comparable_node_key by auto
    with 4 Some show ?thesis by (auto simp: conj_opt_def)
  qed
qed simp_all

end
