(* ===== verification/Ir_Reserve.thy ===== *)
theory Ir_Reserve
  imports Ir_Expansion Ast_Walk
begin

text \<open>
  The reservations of the IR compiler: the part of \<^verbatim>\<open>compiler\<close> in \<^verbatim>\<open>d2ir/compile.go\<close> that
  \<^verbatim>\<open>expansion.go\<close>, \<^verbatim>\<open>glob_expansion.go\<close> and \<^verbatim>\<open>edge_expansion.go\<close> read and change. AST nodes, fields and glob
  contexts are their addresses. \<open>ctx k\<close> is what the context reports when it is asked for the \<open>k\<close>th time.
\<close>

record expansion_pair =
  ep_glob :: "nat option"
  ep_segment :: "nat option"
  ep_src :: "nat option"
  ep_dst :: "nat option"
  ep_selector :: bool

record reserve_state =
  rs_halted :: bool
  rs_contextErr :: "nat option"
  rs_expansionErr :: "budget_error option"
  rs_globExpansionErr :: "budget_error option"
  rs_variable :: "budget option"
  rs_glob :: "glob_budget option"
  rs_edge :: "budget option"
  rs_edgeWork :: "budget option"
  rs_pairs :: "expansion_pair list"
  rs_errors :: "(nat \<times> budget_error) list"
  rs_polls :: nat

text \<open>\<^verbatim>\<open>stopped\<close> fills in the default budgets before it asks the context.\<close>

definition default_budgets :: "reserve_state \<Rightarrow> reserve_state" where
  "default_budgets c = c\<lparr>
    rs_variable := Some (case rs_variable c of
      None \<Rightarrow> \<lparr>b_limit = DefaultMaxVariableExpansion, b_used = 0\<rparr> | Some b \<Rightarrow> b),
    rs_glob := Some (case rs_glob c of
      None \<Rightarrow> \<lparr>b_limit = DefaultMaxGlobExpansion, b_used = 0, b_createdFields = 0\<rparr> | Some b \<Rightarrow> b),
    rs_edge := Some (case rs_edge c of
      None \<Rightarrow> \<lparr>b_limit = DefaultMaxEdgeExpansion, b_used = 0\<rparr> | Some b \<Rightarrow> b),
    rs_edgeWork := Some (case rs_edgeWork c of
      None \<Rightarrow> \<lparr>b_limit = DefaultMaxEdgeExpansionWork, b_used = 0\<rparr> | Some b \<Rightarrow> b)\<rparr>"

definition stopped :: "(nat \<Rightarrow> nat option) \<Rightarrow> reserve_state \<Rightarrow> bool \<times> reserve_state" where
  "stopped ctx c =
    (if rs_halted c then (True, c)
     else let c1 = default_budgets c;
              c2 = c1\<lparr>rs_polls := Suc (rs_polls c1)\<rparr>
          in (case ctx (rs_polls c1) of
                Some e \<Rightarrow> (True, c2\<lparr>rs_contextErr := Some e, rs_halted := True\<rparr>)
              | None \<Rightarrow> (False, c2)))"

text \<open>\<^verbatim>\<open>errorf\<close> at a node, none at the nil node.\<close>

definition report :: "nat option \<Rightarrow> budget_error \<Rightarrow> reserve_state \<Rightarrow> reserve_state" where
  "report n e c = (case n of None \<Rightarrow> c | Some a \<Rightarrow> c\<lparr>rs_errors := rs_errors c @ [(a, e)]\<rparr>)"

definition rejectExpansion :: "nat option \<Rightarrow> budget_error \<Rightarrow> reserve_state \<Rightarrow> reserve_state" where
  "rejectExpansion n e c = (report n e (c\<lparr>rs_expansionErr := Some e\<rparr>))\<lparr>rs_halted := True\<rparr>"

definition globExpansionFailure :: "nat option \<Rightarrow> budget_error \<Rightarrow> reserve_state \<Rightarrow> reserve_state" where
  "globExpansionFailure n e c = (report n e (c\<lparr>rs_globExpansionErr := Some e\<rparr>))\<lparr>rs_halted := True\<rparr>"

text \<open>The guard every reservation starts with.\<close>

definition unless_stopped ::
  "(nat \<Rightarrow> nat option) \<Rightarrow> reserve_state \<Rightarrow> (reserve_state \<Rightarrow> bool \<times> reserve_state) \<Rightarrow> bool \<times> reserve_state" where
  "unless_stopped ctx c body = (case stopped ctx c of (s, c1) \<Rightarrow> if s then (False, c1) else body c1)"

text \<open>After \<open>stopped\<close> answered no, the budgets are there; a missing one would be a nil dereference.\<close>

definition reserveVariableExpansion ::
  "(nat \<Rightarrow> nat option) \<Rightarrow> nat option \<Rightarrow> int \<Rightarrow> reserve_state \<Rightarrow> bool \<times> reserve_state" where
  "reserveVariableExpansion ctx n units c =
    unless_stopped ctx c (\<lambda>c1.
         (case variable_reserve units (the (rs_variable c1)) of
            Inl e \<Rightarrow> (False, rejectExpansion n e c1)
          | Inr b \<Rightarrow> (True, c1\<lparr>rs_variable := Some b\<rparr>)))"

definition reserveGlobWork ::
  "(nat \<Rightarrow> nat option) \<Rightarrow> nat option \<Rightarrow> int \<Rightarrow> reserve_state \<Rightarrow> bool \<times> reserve_state" where
  "reserveGlobWork ctx n units c =
    unless_stopped ctx c (\<lambda>c1.
         (case glob_reserve units (the (rs_glob c1)) of
            Inl e \<Rightarrow> (False, globExpansionFailure n e c1)
          | Inr b \<Rightarrow> (True, c1\<lparr>rs_glob := Some b\<rparr>)))"

definition reserveGlobField ::
  "(nat \<Rightarrow> nat option) \<Rightarrow> nat option \<Rightarrow> reserve_state \<Rightarrow> bool \<times> reserve_state" where
  "reserveGlobField ctx n c =
    unless_stopped ctx c (\<lambda>c1.
         (case glob_reserveField (the (rs_glob c1)) of
            Inl e \<Rightarrow> (False, globExpansionFailure n e c1)
          | Inr b \<Rightarrow> (True, c1\<lparr>rs_glob := Some b\<rparr>)))"

text \<open>
  \<^verbatim>\<open>reserveGlobGeneratedFieldWork\<close>: \<open>active\<close> is the height of the stack of globs, \<open>ups\<close> how many fields
  that are not the root lie around the map, which the loop counts.
\<close>

primrec glob_depth :: "nat \<Rightarrow> int \<Rightarrow> int option" where
  "glob_depth 0 depth = Some depth"
| "glob_depth (Suc n) depth = (if depth = max_int then None else glob_depth n (depth + 1))"

definition reserveGlobGeneratedFieldWork ::
  "(nat \<Rightarrow> nat option) \<Rightarrow> int \<Rightarrow> nat \<Rightarrow> nat option \<Rightarrow> reserve_state \<Rightarrow> bool \<times> reserve_state" where
  "reserveGlobGeneratedFieldWork ctx active ups n c =
    unless_stopped ctx c (\<lambda>c1.
         (if active = 0 then (True, c1)
          else (case glob_depth ups 1 of
                  None \<Rightarrow>
                    (False, globExpansionFailure n (GlobExpansionLimit (b_limit (the (rs_glob c1)))) c1)
                | Some depth \<Rightarrow>
                    (if max_int div active < depth
                     then (False, globExpansionFailure n (GlobExpansionLimit (b_limit (the (rs_glob c1)))) c1)
                     else reserveGlobWork ctx n (depth * active) c1))))"

definition reserveEdgeExpansion ::
  "(nat \<Rightarrow> nat option) \<Rightarrow> expansion_pair \<Rightarrow> reserve_state \<Rightarrow> bool \<times> reserve_state" where
  "reserveEdgeExpansion ctx pair c =
    unless_stopped ctx c (\<lambda>c1.
         (case edge_reserve EdgeExpansionWorkLimit (rs_edgeWork c1) of
            Inl e \<Rightarrow> (False, rejectExpansion (ep_segment pair) e c1)
          | Inr w \<Rightarrow>
              (let c2 = c1\<lparr>rs_edgeWork := Some w\<rparr>
               in if pair \<in> set (rs_pairs c2) then (True, c2)
                  else (case edge_reserve EdgeExpansionLimit (rs_edge c2) of
                          Inl e \<Rightarrow> (False, rejectExpansion (ep_segment pair) e c2)
                        | Inr b \<Rightarrow> (True, c2\<lparr>rs_edge := Some b, rs_pairs := pair # rs_pairs c2\<rparr>)))))"

section \<open>The budgets of a compilation\<close>

text \<open>What \<^verbatim>\<open>Compile\<close> starts with, from the four limits of its options; the first bad one is the error.\<close>

definition initial_reserve :: "int \<Rightarrow> int \<Rightarrow> int \<Rightarrow> int \<Rightarrow> budget_error + reserve_state" where
  "initial_reserve v g e w =
    (case newVariableExpansionBudget v of
       Inl x \<Rightarrow> Inl x
     | Inr bv \<Rightarrow>
         (case newGlobExpansionBudget g of
            Inl x \<Rightarrow> Inl x
          | Inr bg \<Rightarrow>
              (case newEdgeExpansionBudget e of
                 Inl x \<Rightarrow> Inl x
               | Inr be \<Rightarrow>
                   (case newEdgeExpansionWorkBudget w of
                      Inl x \<Rightarrow> Inl x
                    | Inr bw \<Rightarrow> Inr \<lparr>rs_halted = False, rs_contextErr = None, rs_expansionErr = None,
                        rs_globExpansionErr = None, rs_variable = Some bv, rs_glob = Some bg,
                        rs_edge = Some be, rs_edgeWork = Some bw, rs_pairs = [], rs_errors = [],
                        rs_polls = 0\<rparr>))))"

inductive reserve_step :: "(nat \<Rightarrow> nat option) \<Rightarrow> reserve_state \<Rightarrow> reserve_state \<Rightarrow> bool" for ctx where
  "reserve_step ctx c (snd (stopped ctx c))"
| "reserve_step ctx c (snd (reserveVariableExpansion ctx n units c))"
| "reserve_step ctx c (snd (reserveGlobWork ctx n units c))"
| "reserve_step ctx c (snd (reserveGlobField ctx n c))"
| "reserve_step ctx c (snd (reserveGlobGeneratedFieldWork ctx active ups n c))"
| "reserve_step ctx c (snd (reserveEdgeExpansion ctx pair c))"

inductive_cases reserve_stepE: "reserve_step ctx c c'"

abbreviation reserve_steps :: "(nat \<Rightarrow> nat option) \<Rightarrow> reserve_state \<Rightarrow> reserve_state \<Rightarrow> bool" where
  "reserve_steps ctx \<equiv> (reserve_step ctx)\<^sup>*\<^sup>*"

definition opt_ok :: "budget option \<Rightarrow> bool" where
  "opt_ok b \<longleftrightarrow> (case b of None \<Rightarrow> True | Some x \<Rightarrow> budget_ok x)"

definition glob_ok :: "glob_budget option \<Rightarrow> bool" where
  "glob_ok b \<longleftrightarrow>
    (case b of None \<Rightarrow> True
     | Some x \<Rightarrow> 0 \<le> b_used x \<and> b_used x \<le> b_limit x \<and> b_limit x \<le> max_int \<and>
                 0 \<le> b_createdFields x \<and> b_createdFields x \<le> maxGlobCreatedFields)"

text \<open>
  The invariant: every budget is within its limit, each pair is counted once, and the compiler is halted
  exactly when one of the three errors is set.
\<close>

definition reserve_ok :: "reserve_state \<Rightarrow> bool" where
  "reserve_ok c \<longleftrightarrow>
    opt_ok (rs_variable c) \<and> glob_ok (rs_glob c) \<and> opt_ok (rs_edge c) \<and> opt_ok (rs_edgeWork c) \<and>
    distinct (rs_pairs c) \<and>
    int (length (rs_pairs c)) = (case rs_edge c of None \<Rightarrow> 0 | Some b \<Rightarrow> b_used b) \<and>
    (rs_halted c \<longleftrightarrow>
       rs_contextErr c \<noteq> None \<or> rs_expansionErr c \<noteq> None \<or> rs_globExpansionErr c \<noteq> None)"

lemmas default_limits = DefaultMaxVariableExpansion_def DefaultMaxGlobExpansion_def
  DefaultMaxEdgeExpansion_def DefaultMaxEdgeExpansionWork_def maxGlobCreatedFields_def max_int_def

lemma default_opt:
  "opt_ok b \<Longrightarrow> 0 \<le> d \<Longrightarrow> d \<le> max_int \<Longrightarrow>
   opt_ok (Some (case b of None \<Rightarrow> \<lparr>b_limit = d, b_used = 0\<rparr> | Some x \<Rightarrow> x))"
  by (cases b) (simp_all add: opt_ok_def budget_ok_def)

lemma default_ok:
  assumes "reserve_ok c"
  shows "reserve_ok (default_budgets c)"
proof -
  have "opt_ok (rs_variable (default_budgets c))" "opt_ok (rs_edge (default_budgets c))"
    "opt_ok (rs_edgeWork (default_budgets c))"
    using assms by (simp_all add: reserve_ok_def default_budgets_def default_opt default_limits)
  moreover have "glob_ok (rs_glob (default_budgets c))"
    using assms by (cases "rs_glob c") (simp_all add: reserve_ok_def default_budgets_def glob_ok_def default_limits)
  moreover have "(case rs_edge (default_budgets c) of None \<Rightarrow> 0 | Some b \<Rightarrow> b_used b) =
      (case rs_edge c of None \<Rightarrow> 0 | Some b \<Rightarrow> b_used b)"
    by (cases "rs_edge c") (simp_all add: default_budgets_def)
  ultimately show ?thesis
    using assms by (simp add: reserve_ok_def) (simp add: default_budgets_def)
qed

lemma polls_ok [simp]: "reserve_ok (c\<lparr>rs_polls := k\<rparr>) = reserve_ok c"
  by (simp add: reserve_ok_def)

lemma context_ok: "reserve_ok c \<Longrightarrow> reserve_ok (c\<lparr>rs_contextErr := Some e, rs_halted := True\<rparr>)"
  by (simp add: reserve_ok_def)

lemma default_there [simp]:
  "rs_variable (default_budgets c) \<noteq> None" "rs_glob (default_budgets c) \<noteq> None"
  "rs_edge (default_budgets c) \<noteq> None" "rs_edgeWork (default_budgets c) \<noteq> None"
  "rs_halted (default_budgets c) = rs_halted c"
  by (simp_all add: default_budgets_def)

definition budgets_there :: "reserve_state \<Rightarrow> bool" where
  "budgets_there c \<longleftrightarrow>
    rs_variable c \<noteq> None \<and> rs_glob c \<noteq> None \<and> rs_edge c \<noteq> None \<and> rs_edgeWork c \<noteq> None"

lemma default_budgets_there: "budgets_there ((default_budgets c)\<lparr>rs_polls := k\<rparr>)"
  using default_there [of c] by (simp add: budgets_there_def del: default_there not_None_eq)

lemma stopped_ok:
  assumes "reserve_ok c"
  shows "reserve_ok (snd (stopped ctx c)) \<and> (fst (stopped ctx c) \<longleftrightarrow> rs_halted (snd (stopped ctx c))) \<and>
    (\<not> fst (stopped ctx c) \<longrightarrow> budgets_there (snd (stopped ctx c)))"
proof (cases "rs_halted c")
  case True
  with assms show ?thesis by (simp add: stopped_def)
next
  case False
  note d = default_ok [OF assms]
  show ?thesis
  proof (cases "ctx (rs_polls (default_budgets c))")
    case None
    with False d show ?thesis by (simp add: stopped_def Let_def default_budgets_there)
  next
    case (Some e)
    have "reserve_ok ((default_budgets c)\<lparr>rs_polls := Suc (rs_polls (default_budgets c)),
        rs_contextErr := Some e, rs_halted := True\<rparr>)"
      by (rule context_ok) (simp add: d)
    with False Some show ?thesis by (simp add: stopped_def Let_def)
  qed
qed

lemma unless_stopped_ok:
  assumes "reserve_ok c" "\<And>c1. reserve_ok c1 \<Longrightarrow> budgets_there c1 \<Longrightarrow> reserve_ok (snd (body c1))"
  shows "reserve_ok (snd (unless_stopped ctx c body))"
  using stopped_ok [OF assms(1), of ctx] assms(2) by (auto simp: unless_stopped_def split: prod.split)

lemma report_fields [simp]:
  "rs_variable (report n e c) = rs_variable c" "rs_glob (report n e c) = rs_glob c"
  "rs_edge (report n e c) = rs_edge c" "rs_edgeWork (report n e c) = rs_edgeWork c"
  "rs_pairs (report n e c) = rs_pairs c" "rs_halted (report n e c) = rs_halted c"
  "rs_contextErr (report n e c) = rs_contextErr c" "rs_expansionErr (report n e c) = rs_expansionErr c"
  "rs_globExpansionErr (report n e c) = rs_globExpansionErr c"
  by (auto simp: report_def split: option.splits)

lemma reject_ok:
  "reserve_ok c \<Longrightarrow> reserve_ok (rejectExpansion n e c)"
  "reserve_ok c \<Longrightarrow> reserve_ok (globExpansionFailure n e c)"
  by (auto simp: reserve_ok_def rejectExpansion_def globExpansionFailure_def)

lemma variable_ok: "reserve_ok c \<Longrightarrow> reserve_ok (snd (reserveVariableExpansion ctx n units c))"
  unfolding reserveVariableExpansion_def
proof (rule unless_stopped_ok)
  fix c1 assume c1: "reserve_ok c1" "budgets_there c1"
  then obtain b where b: "rs_variable c1 = Some b" "budget_ok b"
    by (auto simp: budgets_there_def reserve_ok_def opt_ok_def)
  show "reserve_ok (snd (case variable_reserve units (the (rs_variable c1)) of
      Inl e \<Rightarrow> (False, rejectExpansion n e c1) | Inr b \<Rightarrow> (True, c1\<lparr>rs_variable := Some b\<rparr>)))"
  proof (cases "variable_reserve units b")
    case (Inr b')
    then have "budget_ok b'" using b reserve_units_ok by (auto simp: variable_reserve_def)
    with c1 b Inr show ?thesis by (simp add: reserve_ok_def opt_ok_def)
  qed (use c1 b in \<open>simp add: reject_ok\<close>)
qed

lemma glob_reserve_ok:
  "glob_ok (Some b) \<Longrightarrow> glob_reserve units b = Inr b' \<Longrightarrow> glob_ok (Some b')"
  "glob_ok (Some b) \<Longrightarrow> glob_reserveField b = Inr b' \<Longrightarrow> glob_ok (Some b')"
  by (auto simp: glob_ok_def glob_reserve_def glob_reserveField_def split: if_splits)

lemma set_glob_ok: "reserve_ok c \<Longrightarrow> glob_ok (Some b) \<Longrightarrow> reserve_ok (c\<lparr>rs_glob := Some b\<rparr>)"
  by (simp add: reserve_ok_def)

lemma the_glob_ok: "reserve_ok c \<Longrightarrow> rs_glob c = Some b \<Longrightarrow> glob_ok (Some b)"
  by (simp add: reserve_ok_def)

lemma glob_work_ok: "reserve_ok c \<Longrightarrow> reserve_ok (snd (reserveGlobWork ctx n units c))"
  unfolding reserveGlobWork_def
proof (rule unless_stopped_ok)
  fix c1 assume c1: "reserve_ok c1" "budgets_there c1"
  then obtain b where b: "rs_glob c1 = Some b" by (auto simp: budgets_there_def)
  show "reserve_ok (snd (case glob_reserve units (the (rs_glob c1)) of
      Inl e \<Rightarrow> (False, globExpansionFailure n e c1) | Inr b \<Rightarrow> (True, c1\<lparr>rs_glob := Some b\<rparr>)))"
  proof (cases "glob_reserve units b")
    case (Inr b')
    have "reserve_ok (c1\<lparr>rs_glob := Some b'\<rparr>)"
      by (rule set_glob_ok [OF c1(1) glob_reserve_ok(1) [OF the_glob_ok [OF c1(1) b] Inr]])
    with b Inr show ?thesis by simp
  qed (use c1 b in \<open>simp add: reject_ok\<close>)
qed

lemma glob_field_ok: "reserve_ok c \<Longrightarrow> reserve_ok (snd (reserveGlobField ctx n c))"
  unfolding reserveGlobField_def
proof (rule unless_stopped_ok)
  fix c1 assume c1: "reserve_ok c1" "budgets_there c1"
  then obtain b where b: "rs_glob c1 = Some b" by (auto simp: budgets_there_def)
  show "reserve_ok (snd (case glob_reserveField (the (rs_glob c1)) of
      Inl e \<Rightarrow> (False, globExpansionFailure n e c1) | Inr b \<Rightarrow> (True, c1\<lparr>rs_glob := Some b\<rparr>)))"
  proof (cases "glob_reserveField b")
    case (Inr b')
    have "reserve_ok (c1\<lparr>rs_glob := Some b'\<rparr>)"
      by (rule set_glob_ok [OF c1(1) glob_reserve_ok(2) [OF the_glob_ok [OF c1(1) b] Inr]])
    with b Inr show ?thesis by simp
  qed (use c1 b in \<open>simp add: reject_ok\<close>)
qed

lemma glob_generated_ok:
  "reserve_ok c \<Longrightarrow> reserve_ok (snd (reserveGlobGeneratedFieldWork ctx active ups n c))"
  unfolding reserveGlobGeneratedFieldWork_def
  by (rule unless_stopped_ok) (simp_all add: reject_ok glob_work_ok split: option.split)

lemma edge_reserve_ok:
  "edge_reserve err b = Inr b' \<Longrightarrow> opt_ok b \<Longrightarrow>
   budget_ok b' \<and> (\<exists>x. b = Some x \<and> b_used b' = b_used x + 1)"
  by (auto simp: edge_reserve_def opt_ok_def budget_ok_def split: option.splits if_splits)

lemma edge_expansion_ok: "reserve_ok c \<Longrightarrow> reserve_ok (snd (reserveEdgeExpansion ctx pair c))"
  unfolding reserveEdgeExpansion_def
proof (rule unless_stopped_ok)
  fix c1 assume c1: "reserve_ok c1" "budgets_there c1"
  show "reserve_ok (snd (case edge_reserve EdgeExpansionWorkLimit (rs_edgeWork c1) of
      Inl e \<Rightarrow> (False, rejectExpansion (ep_segment pair) e c1)
    | Inr w \<Rightarrow>
        (let c2 = c1\<lparr>rs_edgeWork := Some w\<rparr>
         in if pair \<in> set (rs_pairs c2) then (True, c2)
            else (case edge_reserve EdgeExpansionLimit (rs_edge c2) of
                    Inl e \<Rightarrow> (False, rejectExpansion (ep_segment pair) e c2)
                  | Inr b \<Rightarrow> (True, c2\<lparr>rs_edge := Some b, rs_pairs := pair # rs_pairs c2\<rparr>)))))"
  proof (cases "edge_reserve EdgeExpansionWorkLimit (rs_edgeWork c1)")
    case (Inl e)
    with c1 show ?thesis by (simp add: reject_ok)
  next
    case (Inr w)
    have "opt_ok (rs_edgeWork c1)" using c1(1) by (simp add: reserve_ok_def)
    then have w: "reserve_ok (c1\<lparr>rs_edgeWork := Some w\<rparr>)"
      using c1(1) edge_reserve_ok [OF Inr] by (simp add: reserve_ok_def opt_ok_def)
    show ?thesis
    proof (cases "edge_reserve EdgeExpansionLimit (rs_edge c1)")
      case (Inl e)
      with Inr w show ?thesis by (simp add: reject_ok Let_def)
    next
      case e: (Inr b)
      have "opt_ok (rs_edge c1)" using c1(1) by (simp add: reserve_ok_def)
      with edge_reserve_ok [OF e] obtain x where "budget_ok b" "rs_edge c1 = Some x" "b_used b = b_used x + 1"
        by blast
      with Inr e w show ?thesis by (simp add: reserve_ok_def opt_ok_def Let_def)
    qed
  qed
qed

lemma reserve_step_ok: "reserve_step ctx c c' \<Longrightarrow> reserve_ok c \<Longrightarrow> reserve_ok c'"
  by (erule reserve_stepE)
    (simp_all add: stopped_ok variable_ok glob_work_ok glob_field_ok glob_generated_ok edge_expansion_ok)

lemma reserve_steps_ok: "reserve_steps ctx c c' \<Longrightarrow> reserve_ok c \<Longrightarrow> reserve_ok c'"
  by (induction rule: rtranclp_induct) (auto intro: reserve_step_ok)

text \<open>A halted compiler reserves nothing and stays as it is.\<close>

lemma halted_step: "reserve_step ctx c c' \<Longrightarrow> rs_halted c \<Longrightarrow> c' = c"
  by (erule reserve_stepE)
    (simp_all add: stopped_def unless_stopped_def reserveVariableExpansion_def reserveGlobWork_def
      reserveGlobField_def reserveGlobGeneratedFieldWork_def reserveEdgeExpansion_def)

lemma halted_steps: "reserve_steps ctx c c' \<Longrightarrow> rs_halted c \<Longrightarrow> c' = c"
  by (induction rule: rtranclp_induct) (auto dest: halted_step)

lemma initial_ok:
  "initial_reserve v g e w = Inr c \<Longrightarrow> v \<le> max_int \<Longrightarrow> g \<le> max_int \<Longrightarrow> e \<le> max_int \<Longrightarrow> w \<le> max_int \<Longrightarrow>
   reserve_ok c"
  by (auto simp: initial_reserve_def newVariableExpansionBudget_def newGlobExpansionBudget_def
      newEdgeExpansionBudget_def newEdgeExpansionWorkBudget_def new_budget_def reserve_ok_def opt_ok_def
      glob_ok_def budget_ok_def default_limits split: if_splits)

section \<open>Charging a copy\<close>

text \<open>
  \<^verbatim>\<open>reserveVariableCopy\<close>: the walk charges through \<open>reserveVariableExpansion\<close> and asks the context itself
  at the start of each round; an error it reports there is a cancellation or a deadline, which halts.
\<close>

function reserveVariableCopy ::
  "(nat \<Rightarrow> nat option) \<Rightarrow> nat option \<Rightarrow> ir_node list \<Rightarrow> reserve_state \<Rightarrow> bool \<times> reserve_state" where
  "reserveVariableCopy ctx n [] c = (True, c)"
| "reserveVariableCopy ctx n (x # stack) c =
    (let c1 = c\<lparr>rs_polls := Suc (rs_polls c)\<rparr>
     in (case ctx (rs_polls c) of
           Some e \<Rightarrow> (False, c1\<lparr>rs_contextErr := Some e, rs_halted := True\<rparr>)
         | None \<Rightarrow>
             (case reserveVariableExpansion ctx n (variableExpansionNodeUnits x) c1 of
                (False, c2) \<Rightarrow> (False, c2)
              | (True, c2) \<Rightarrow> reserveVariableCopy ctx n (ir_children x @ stack) c2)))"
  by pat_completeness auto
termination
proof (relation "measure (\<lambda>(ctx, n, stack, c). sum_list (map node_count stack))")
  show "wf (measure (\<lambda>(ctx :: nat \<Rightarrow> nat option, n :: nat option, stack, c :: reserve_state).
    sum_list (map node_count stack)))" by simp
qed (simp add: node_count_children [of x for x])

lemma variable_halts:
  assumes "reserve_ok c" "\<not> fst (reserveVariableExpansion ctx n units c)"
  shows "rs_halted (snd (reserveVariableExpansion ctx n units c))"
  using stopped_ok [OF assms(1), of ctx] assms(2)
  by (auto simp: reserveVariableExpansion_def unless_stopped_def rejectExpansion_def
      split: prod.splits if_splits sum.splits)

lemma copy_reserve_ok:
  "reserve_ok c \<Longrightarrow> reserve_ok (snd (reserveVariableCopy ctx n stack c)) \<and>
    (fst (reserveVariableCopy ctx n stack c) \<or> rs_halted (snd (reserveVariableCopy ctx n stack c)))"
proof (induction ctx n stack c rule: reserveVariableCopy.induct)
  case (2 ctx n x stack c)
  let ?c1 = "c\<lparr>rs_polls := Suc (rs_polls c)\<rparr>"
  have c1: "reserve_ok ?c1" using "2.prems" by simp
  obtain r2 c2 where e: "reserveVariableExpansion ctx n (variableExpansionNodeUnits x) ?c1 = (r2, c2)"
    by (meson surj_pair)
  have c2: "reserve_ok c2" "r2 \<or> rs_halted c2"
    using variable_ok [OF c1, of ctx n] variable_halts [OF c1, of ctx n] e by (metis fst_conv snd_conv)+
  show ?case
  proof (cases "ctx (rs_polls c)")
    case (Some k)
    then show ?thesis using context_ok [OF c1] by (simp add: Let_def)
  next
    case None
    show ?thesis
    proof (cases r2)
      case True
      then show ?thesis
        using "2.IH" [OF refl None e [symmetric]] c2 None e by (simp add: Let_def)
    next
      case False
      then show ?thesis using None e c2 by (simp add: Let_def)
    qed
  qed
qed simp

text \<open>
  \<^verbatim>\<open>reserveVariableASTCopy\<close>: the callback of the walk keeps \<open>ok\<close>, and once it is no every further node is
  refused.
\<close>

definition ast_copy_visit ::
  "(nat \<Rightarrow> nat option) \<Rightarrow> nat option \<Rightarrow> node \<Rightarrow> bool \<times> reserve_state \<Rightarrow> bool \<times> bool \<times> reserve_state" where
  "ast_copy_visit ctx source n st =
    (case st of (ok, c) \<Rightarrow>
       if \<not> ok then (False, False, c)
       else (case stopped ctx c of
               (True, c1) \<Rightarrow> (False, False, c1)
             | (False, c1) \<Rightarrow>
                 (case reserveVariableExpansion ctx source (variableExpansionASTNodeUnits n) c1 of
                    (ok', c2) \<Rightarrow> (ok', ok', c2))))"

definition reserveVariableASTCopy ::
  "(nat \<Rightarrow> nat option) \<Rightarrow> nat option \<Rightarrow> d2map \<Rightarrow> reserve_state \<Rightarrow> bool \<times> reserve_state" where
  "reserveVariableASTCopy ctx source tree c = Walk (ast_copy_visit ctx source) [NMap tree] (True, c)"

lemma ast_visit_ok:
  assumes "reserve_ok c" "ok \<or> rs_halted c"
  shows "case ast_copy_visit ctx source n (ok, c) of
    (go, ok', c') \<Rightarrow> reserve_ok c' \<and> (ok' \<or> rs_halted c')"
proof (cases ok)
  case True
  obtain s c1 where s: "stopped ctx c = (s, c1)" by (meson surj_pair)
  have c1: "reserve_ok c1" "s \<longleftrightarrow> rs_halted c1"
    using stopped_ok [OF assms(1), of ctx] s by simp_all
  obtain r c2 where r: "reserveVariableExpansion ctx source (variableExpansionASTNodeUnits n) c1 = (r, c2)"
    by (meson surj_pair)
  have "reserve_ok c2" "r \<or> rs_halted c2"
    using variable_ok [OF c1(1), of ctx source] variable_halts [OF c1(1), of ctx source] r
    by (metis fst_conv snd_conv)+
  with True s r c1 show ?thesis by (cases s) (simp_all add: ast_copy_visit_def)
next
  case False
  with assms show ?thesis by (simp add: ast_copy_visit_def)
qed

lemma ast_copy_reserve_ok:
  assumes "reserve_ok c"
  shows "case reserveVariableASTCopy ctx source tree c of (ok, c') \<Rightarrow> reserve_ok c' \<and> (ok \<or> rs_halted c')"
proof -
  have "reserve_ok (snd (Walk (ast_copy_visit ctx source) ns st)) \<and>
      (fst (Walk (ast_copy_visit ctx source) ns st) \<or> rs_halted (snd (Walk (ast_copy_visit ctx source) ns st)))"
    if "reserve_ok (snd st)" "fst st \<or> rs_halted (snd st)" for ns st
    using that
  proof (induction "ast_copy_visit ctx source" ns st rule: Walk.induct)
    case (2 n rest st)
    obtain go st1 where v: "ast_copy_visit ctx source n st = (go, st1)" by (meson surj_pair)
    have "reserve_ok (snd st1)" "fst st1 \<or> rs_halted (snd st1)"
      using ast_visit_ok [OF 2(3,4), of ctx source n] v by (auto split: prod.splits)
    then show ?case
      using 2(1,2) v by (cases go) simp_all
  qed simp
  from this [of "(True, c)" "[NMap tree]"] assms show ?thesis
    unfolding reserveVariableASTCopy_def by (simp only: prod.case_eq_if fst_conv snd_conv simp_thms)
qed

end
