(* ===== verification/Ir_Ast.thy ===== *)
theory Ir_Ast
  imports Ir Value_Roundtrip Format_Spec
begin

text \<open>
  The way back from the intermediate representation to the syntax: the methods \<^verbatim>\<open>AST\<close> of \<^verbatim>\<open>d2ir/d2ir.go\<close>
  and the name \<^verbatim>\<open>IDString\<close> of an edge. A field or an edge without a name gives None: the code panics at
  the identifier of an edge, and makes an empty box of the name of a field, which no printer accepts.
\<close>

section \<open>Syntax of fields, edges and maps\<close>

text \<open>
  \<^verbatim>\<open>NodeBoardKind\<close> of a map, or of the map of a field, looks at the name of the next field above;
  \<open>up\<close> is that name. The range of a board's map carries the path of the file of its field's name.
\<close>

definition board_name_kind :: "gostr \<Rightarrow> gostr option" where
  "board_name_kind name =
    (if name = runes ''layers'' then Some (runes ''layer'')
     else if name = runes ''scenarios'' then Some (runes ''scenario'')
     else if name = runes ''steps'' then Some (runes ''step'')
     else None)"

definition under_board :: "gostr option \<Rightarrow> bool" where
  "under_board up \<longleftrightarrow> Option.bind up board_name_kind \<noteq> None"

definition map_range :: "gostr \<Rightarrow> gostr \<Rightarrow> range" where
  "map_range lines pth = (MakeRange lines)\<lparr>rng_Path := pth\<rparr>"

definition name_key :: "string_node \<Rightarrow> scalar option \<Rightarrow> val option \<Rightarrow> key" where
  "name_key s p v = Key range0 False False (Some (KeyPath range0 [s])) [] None None p v"

definition id_edge :: "edge_id \<Rightarrow> edge" where
  "id_edge eid =
    Edge range0 (Some (MakeKeyPathString (eid_SrcPath eid))) (if eid_SrcArrow eid then [60] else [])
      (Some (MakeKeyPathString (eid_DstPath eid))) (if eid_DstArrow eid then [62] else [])"

primrec field_AST :: "ir_field \<Rightarrow> gostr option \<Rightarrow> key option"
  and composite_AST :: "composite \<Rightarrow> gostr \<Rightarrow> gostr option \<Rightarrow> val option"
  and value_AST :: "ir_value \<Rightarrow> gostr option \<Rightarrow> val option"
  and map_AST :: "ir_map \<Rightarrow> gostr \<Rightarrow> gostr option \<Rightarrow> d2map option"
  and edge_AST :: "ir_edge \<Rightarrow> gostr option \<Rightarrow> key option" where
  "field_AST (IField n p c rs su im) = (\<lambda>up.
     case n of
       None \<Rightarrow> None
     | Some s \<Rightarrow>
         map_option (name_key s p)
           (case map_option composite_AST c of
              None \<Rightarrow> Some None
            | Some ast \<Rightarrow>
                map_option Some
                  (ast (if under_board up then rng_Path (string_range s) else []) (Some (string_ScalarString s)))))"
| "composite_AST (ArrayC vs) = (\<lambda>pth up.
     map_option (\<lambda>ns. ArrayV (Array range0 (map AValueN ns)))
       (those (map (\<lambda>ast. ast up) (map value_AST vs))))"
| "composite_AST (MapC m) = (\<lambda>pth up.
     map_option (\<lambda>x. MapV (Map (map_range (runes '',1:0:0-2:0:0'') (rng_Path (m_range x))) (m_nodes x)))
       (map_AST m pth up))"
| "value_AST (ScalarI s) = (\<lambda>up. Some (ScalarV s))"
| "value_AST (ArrayI vs) = (\<lambda>up.
     map_option (\<lambda>ns. ArrayV (Array range0 (map AValueN ns)))
       (those (map (\<lambda>ast. ast up) (map value_AST vs))))"
| "value_AST (MapI m) = (\<lambda>up. map_option MapV (map_AST m [] up))"
| "map_AST (IMap fs es v im) = (\<lambda>pth up.
     case those (map (\<lambda>ast. ast up) (map field_AST fs)) of
       None \<Rightarrow> None
     | Some ks \<Rightarrow>
         map_option (\<lambda>es'. Map (map_range (runes '',0:0:0-1:0:0'') pth) (map KeyN ks @ map KeyN es'))
           (those (map (\<lambda>ast. ast up) (map edge_AST es))))"
| "edge_AST (IEdge i p m rs su im) = (\<lambda>up.
     case i of
       None \<Rightarrow> None
     | Some eid \<Rightarrow>
         map_option (\<lambda>v. Key range0 False False None [id_edge eid] None None p v)
           (case map_option map_AST m of
              None \<Rightarrow> Some None
            | Some ast \<Rightarrow> map_option (\<lambda>x. Some (MapV x)) (ast [] up)))"

section \<open>The name of an edge\<close>

definition id_key :: "edge_id \<Rightarrow> key" where
  "id_key eid =
    Key range0 False False None [id_edge eid]
      (map_option (\<lambda>i. EdgeIndex range0 (Some i) False) (eid_Index eid)) None None None"

definition IDString :: "ir_edge \<Rightarrow> gostr option \<Rightarrow> string_node option" where
  "IDString e up =
    (case (edge_AST e up, ie_ID e) of
       (Some k, Some eid) \<Rightarrow> map_option FlatUnquotedString (Format (NKey (id_key eid)))
     | _ \<Rightarrow> None)"

section \<open>What the syntax keeps\<close>

lemma those_map_cong: "(\<And>x. x \<in> set xs \<Longrightarrow> f x = g x) \<Longrightarrow> those (map f xs) = those (map g xs)"
  by (metis map_cong)

lemma AST_copy:
  "field_AST (copy_field f) = field_AST f"
  "composite_AST (copy_composite c) = composite_AST c"
  "value_AST (copy_value v) = value_AST v"
  "map_AST (copy_map m) = map_AST m"
  "edge_AST (copy_edge e) = edge_AST e"
proof (induction f and c and v and m and e)
  case (IField n p c rs su im)
  then show ?case by (cases c) (simp_all add: fun_eq_iff split: option.split)
next
  case (IEdge i p m rs su im)
  then show ?case by (cases m) (simp_all add: fun_eq_iff split: option.split)
qed (simp_all add: fun_eq_iff split: option.split cong: map_cong)

lemma those_length: "those xs = Some ys \<Longrightarrow> length ys = length xs"
  by (induction xs arbitrary: ys) (auto split: option.splits)

lemma map_AST_nodes:
  assumes "map_AST m pth up = Some x"
  shows "length (m_nodes x) = length (im_Fields m) + length (im_Edges m)"
proof (cases m)
  case (IMap fs es v im)
  with assms show ?thesis
    by (auto dest!: those_length split: option.splits)
qed

section \<open>The text of the name\<close>

lemma p_key_text:
  "\<exists>txt. FormatKeyPath a = Some txt \<and>
    (\<forall>p. p_key (MakeKeyPathString a) p = Some ((p_write txt p)\<lparr>p_inKey := False\<rparr>))"
proof -
  have "\<exists>ts. list_all2 (\<lambda>s t. prints (string_ScalarString s) t) a ts"
  proof (induction a)
    case (Cons s a)
    then show ?case using prints_ex [of "string_ScalarString s"] by (meson list_all2_Cons)
  qed (meson list_all2_Nil)
  then obtain ts where ts: "list_all2 (\<lambda>s t. prints (string_ScalarString s) t) a ts" by blast
  show ?thesis
    using fmt_key_parts_write [OF ts, of _ True]
    by (intro exI [of _ "join_with [rDot] ts"])
      (simp add: FormatKeyPath_def p_key_def MakeKeyPathString_def fmt_key_parts_reference new_printer_def
        p_write_def)
qed

definition arrow_text :: "edge_id \<Rightarrow> gostr" where
  "arrow_text eid =
    (if eid_SrcArrow eid then [60] else [rDash]) @
    (if eid_DstArrow eid then (if eid_SrcArrow eid then [rDash] else []) @ [62] else [rDash])"

lemma IDString_text:
  assumes "edge_AST e up \<noteq> None" "ie_ID e = Some eid" "eid_Index eid = Some i"
  shows "\<exists>src dst. FormatKeyPath (eid_SrcPath eid) = Some src \<and> FormatKeyPath (eid_DstPath eid) = Some dst \<and>
    IDString e up = Some (FlatUnquotedString
      ([rLPar] @ src @ [rSp] @ arrow_text eid @ [rSp] @ dst @ [rRPar, rLBr] @ itoa i @ [rRBr]))"
proof -
  obtain src where src: "FormatKeyPath (eid_SrcPath eid) = Some src"
    "p_key (MakeKeyPathString (eid_SrcPath eid)) p = Some ((p_write src p)\<lparr>p_inKey := False\<rparr>)" for p
    using p_key_text by metis
  obtain dst where dst: "FormatKeyPath (eid_DstPath eid) = Some dst"
    "p_key (MakeKeyPathString (eid_DstPath eid)) p = Some ((p_write dst p)\<lparr>p_inKey := False\<rparr>)" for p
    using p_key_text by metis
  have "Format (NKey (id_key eid)) =
    Some ([rLPar] @ src @ [rSp] @ arrow_text eid @ [rSp] @ dst @ [rRPar, rLBr] @ itoa i @ [rRBr])"
    by (simp add: Format_def p_node_def id_key_def id_edge_def p_keyHead_def p_keyEdges_def
        p_edgeArrowAndDst_def p_edgeIndex_def assms(3) src(2) dst(2) arrow_text_def p_write_def
        new_printer_def Let_def)
  with assms src(1) dst(1) show ?thesis
    by (auto simp: IDString_def)
qed

end
