(* ===== verification/Ir_Lookup.thy ===== *)
theory Ir_Lookup
  imports Ir_Merge
begin

text \<open>
  The two field lookups of \<^verbatim>\<open>d2ir/d2ir.go\<close> compared: \<^verbatim>\<open>getFieldLinear\<close>, which scans the fields, and
  \<^verbatim>\<open>getFieldIndexed\<close>, which reads the derived index. They agree on the trees that compilation builds, with
  names that have no LATIN SMALL LETTER LONG S. Then what rests on \<^verbatim>\<open>GetField\<close>: the class of a name and
  \<^verbatim>\<open>FindBoardRoot\<close>.
\<close>

section \<open>Trees as compilation builds them\<close>

definition plain_name :: "string_node \<Rightarrow> bool" where
  "plain_name s \<longleftrightarrow> 0x17F \<notin> set (string_ScalarString s)"

definition tidy_fields :: "(rune \<Rightarrow> rune) \<Rightarrow> ir_field list \<Rightarrow> bool" where
  "tidy_fields sf fs \<longleftrightarrow> names_ok sf fs \<and> list_all (\<lambda>f. plain_name (the (if_Name f))) fs"

primrec tidy_field :: "(rune \<Rightarrow> rune) \<Rightarrow> ir_field \<Rightarrow> bool"
  and tidy_composite :: "(rune \<Rightarrow> rune) \<Rightarrow> composite \<Rightarrow> bool"
  and tidy_value :: "(rune \<Rightarrow> rune) \<Rightarrow> ir_value \<Rightarrow> bool"
  and tidy :: "(rune \<Rightarrow> rune) \<Rightarrow> ir_map \<Rightarrow> bool"
  and tidy_edge :: "(rune \<Rightarrow> rune) \<Rightarrow> ir_edge \<Rightarrow> bool" where
  "tidy_field sf (IField n p c rs su im) = (case map_option (tidy_composite sf) c of None \<Rightarrow> True | Some b \<Rightarrow> b)"
| "tidy_composite sf (ArrayC vs) = True"
| "tidy_composite sf (MapC m) = tidy sf m"
| "tidy_value sf (ScalarI s) = True"
| "tidy_value sf (ArrayI vs) = True"
| "tidy_value sf (MapI m) = True"
| "tidy sf (IMap fs es v im) = (tidy_fields sf fs \<and> list_all id (map (tidy_field sf) fs))"
| "tidy_edge sf (IEdge i p m rs su im) = True"

lemma tidy_iff: "tidy sf m \<longleftrightarrow> tidy_fields sf (im_Fields m) \<and> list_all (tidy_field sf) (im_Fields m)"
  by (cases m) (simp add: list.pred_map comp_def id_def)

lemma tidy_below:
  assumes "tidy_field sf f" "field_Map f = Some m"
  shows "tidy sf m"
proof (cases f)
  case (IField n p c rs su im)
  with assms show ?thesis
    by (cases c; cases "the c") (auto simp: field_Map_def)
qed

section \<open>The lookups agree\<close>

lemma tidy_accepts:
  assumes "fold_ok sf" "plain_name s" "if_Name f \<noteq> None" "plain_name (the (if_Name f))"
  shows "field_accepts sf ix s f \<longleftrightarrow> field_key_of sf f = makeFieldIndexKey sf s"
  using assms field_key_eq [OF assms(1), of "the (if_Name f)" s]
  by (auto simp: field_accepts_def field_key_of_def plain_name_def)

lemma find_cong_set: "(\<And>x. x \<in> set xs \<Longrightarrow> P x = Q x) \<Longrightarrow> find P xs = find Q xs"
  by (induction xs) auto

lemma tidy_fields_Cons:
  "tidy_fields sf (f # fs) \<longleftrightarrow>
     if_Name f \<noteq> None \<and> \<not> is_underscore (the (if_Name f)) \<and> plain_name (the (if_Name f)) \<and>
     field_key_of sf f \<notin> field_key_of sf ` set fs \<and> tidy_fields sf fs"
  by (auto simp: tidy_fields_def names_ok_def)

lemma tidy_fields_mem: "tidy_fields sf fs \<Longrightarrow> f \<in> set fs \<Longrightarrow> if_Name f \<noteq> None \<and> plain_name (the (if_Name f))"
  by (auto simp: tidy_fields_def names_ok_def list_all_iff)

lemma linear_scan:
  assumes "fold_ok sf" "plain_name s" "tidy_fields sf fs"
  shows "getFieldLinear sf (s # rest) fs =
    (if is_underscore s then None
     else (case find (field_accepts sf True s) fs of
             None \<Rightarrow> None
           | Some f \<Rightarrow>
               if rest = [] then Some f
               else (case field_Map f of None \<Rightarrow> None | Some m \<Rightarrow> getFieldLinear sf rest (im_Fields m))))"
  using assms(3)
proof (induction fs)
  case (Cons f fs)
  from Cons.prems have f: "if_Name f \<noteq> None" "plain_name (the (if_Name f))"
    and new: "field_key_of sf f \<notin> field_key_of sf ` set fs" and fs: "tidy_fields sf fs"
    by (simp_all add: tidy_fields_Cons)
  have acc: "field_accepts sf ix s f \<longleftrightarrow> field_key_of sf f = makeFieldIndexKey sf s" for ix
    by (rule tidy_accepts [OF assms(1,2) f])
  have none: "find (field_accepts sf True s) fs = None" if "field_key_of sf f = makeFieldIndexKey sf s"
  proof -
    have "\<not> field_accepts sf True s g" if "g \<in> set fs" for g
      using new that \<open>field_key_of sf f = _\<close> tidy_fields_mem [OF fs that]
        tidy_accepts [OF assms(1,2), of g True]
      by (metis image_eqI)
    then show ?thesis by (simp add: find_None_iff)
  qed
  show ?case
  proof (cases "field_key_of sf f = makeFieldIndexKey sf s")
    case True
    show ?thesis
      using Cons.IH [OF fs] none [OF True] True
      by (cases "field_Map f") (simp_all add: acc)
  next
    case False
    then show ?thesis using Cons.IH [OF fs] by (simp add: acc)
  qed
qed simp

lemma getField_agree:
  assumes "fold_ok sf" "tidy sf m" "list_all plain_name ida"
  shows "getFieldIndexed sf ida m = getFieldLinear sf ida (im_Fields m)"
  using assms(2,3)
proof (induction ida arbitrary: m)
  case (Cons s rest)
  from Cons.prems have s: "plain_name s" and rest: "list_all plain_name rest"
    and fs: "tidy_fields sf (im_Fields m)" and sub: "list_all (tidy_field sf) (im_Fields m)"
    by (simp_all add: tidy_iff)
  show ?case
  proof (cases "find (field_accepts sf True s) (im_Fields m)")
    case None
    then show ?thesis by (simp add: linear_scan [OF assms(1) s fs])
  next
    case (Some f)
    then have "f \<in> set (im_Fields m)"
      by (metis find_Some_iff nth_mem)
    with sub have "tidy_field sf f" by (simp add: list_all_iff)
    then show ?thesis
      using Some Cons.IH [OF _ rest] tidy_below
      by (simp add: linear_scan [OF assms(1) s fs] split: option.split)
  qed
qed simp

section \<open>Classes\<close>

definition field_named :: "(rune \<Rightarrow> rune) \<Rightarrow> gostr \<Rightarrow> ir_map \<Rightarrow> ir_map option" where
  "field_named sf name m =
    (case GetField sf [FlatUnquotedString name] m of None \<Rightarrow> None | Some f \<Rightarrow> field_Map f)"

text \<open>\<^verbatim>\<open>GetClassMap\<close>, from the root map; both lookups must find a field that holds a map.\<close>

definition GetClassMap :: "(rune \<Rightarrow> rune) \<Rightarrow> gostr \<Rightarrow> ir_map \<Rightarrow> ir_map option" where
  "GetClassMap sf name rootm =
    (case field_named sf (runes ''classes'') rootm of
       None \<Rightarrow> None
     | Some classes \<Rightarrow> field_named sf name classes)"

section \<open>Boards\<close>

text \<open>
  \<^verbatim>\<open>FindBoardRoot\<close>: layers before scenarios before steps, in each the first field whose name is the first
  element of the path, compared without folding. A field without a name makes the code panic; the maps it
  is used on have none. A nil result is None.
\<close>

definition board_field :: "gostr \<Rightarrow> ir_field \<Rightarrow> bool" where
  "board_field x f \<longleftrightarrow> map_option string_ScalarString (if_Name f) = Some x"

definition board_in :: "(rune \<Rightarrow> rune) \<Rightarrow> gostr \<Rightarrow> gostr \<Rightarrow> ir_map \<Rightarrow> ir_field option" where
  "board_in sf kind x m =
    (case field_named sf kind m of None \<Rightarrow> None | Some b \<Rightarrow> find (board_field x) (im_Fields b))"

fun FindBoardRoot :: "(rune \<Rightarrow> rune) \<Rightarrow> gostr list \<Rightarrow> ir_map option \<Rightarrow> ir_map option" where
  "FindBoardRoot sf pth None = None"
| "FindBoardRoot sf [] (Some m) = Some m"
| "FindBoardRoot sf (x # rest) (Some m) =
    (case board_in sf (runes ''layers'') x m of
       Some f \<Rightarrow> if rest = [] then field_Map f else FindBoardRoot sf rest (field_Map f)
     | None \<Rightarrow>
         (case board_in sf (runes ''scenarios'') x m of
            Some f \<Rightarrow> if rest = [] then field_Map f else FindBoardRoot sf rest (field_Map f)
          | None \<Rightarrow>
              (case board_in sf (runes ''steps'') x m of
                 Some f \<Rightarrow> if rest = [] then field_Map f else FindBoardRoot sf rest (field_Map f)
               | None \<Rightarrow> None)))"

lemma FindBoardRoot_Nil [simp]: "FindBoardRoot sf [] m = m"
  by (cases m) simp_all

lemma FindBoardRoot_append: "FindBoardRoot sf (p @ q) m = FindBoardRoot sf q (FindBoardRoot sf p m)"
proof (induction sf p m rule: FindBoardRoot.induct)
  case (3 sf x rest m)
  then show ?case
    by (cases rest; cases q) (auto split: option.split)
qed simp_all

end
