(* ===== verification/Ir_Path.thy ===== *)
theory Ir_Path
  imports Ir_Ast Ir_Lookup
begin

text \<open>
  The walks up the parent pointers of \<^verbatim>\<open>d2ir/d2ir.go\<close>. A node with what is above it is a chain: the node
  itself first, then its \<^verbatim>\<open>Parent()\<close> and so on. The last link of the chain of a map that \<^verbatim>\<open>initRoot\<close> prepared is
  the root field, which has no parent. A link of a field holds its name, its map and its primary value; one
  of an edge the edge.
\<close>

datatype link =
    FieldL string_node "ir_map option" "scalar option"
  | MapL ir_map
  | ArrayL
  | EdgeL ir_edge

type_synonym chain = "link list"

section \<open>The nearest node of a kind\<close>

text \<open>Each loop steps to the parent first; the result is the chain of the node found.\<close>

primrec is_MapL :: "link \<Rightarrow> bool" where
  "is_MapL (FieldL n m p) = False"
| "is_MapL (MapL m) = True"
| "is_MapL ArrayL = False"
| "is_MapL (EdgeL e) = False"

primrec is_FieldL :: "link \<Rightarrow> bool" where
  "is_FieldL (FieldL n m p) = True"
| "is_FieldL (MapL m) = False"
| "is_FieldL ArrayL = False"
| "is_FieldL (EdgeL e) = False"

primrec is_EdgeL :: "link \<Rightarrow> bool" where
  "is_EdgeL (FieldL n m p) = False"
| "is_EdgeL (MapL m) = False"
| "is_EdgeL ArrayL = False"
| "is_EdgeL (EdgeL e) = True"

fun walk_up :: "(chain \<Rightarrow> bool) \<Rightarrow> chain \<Rightarrow> chain" where
  "walk_up P [] = []"
| "walk_up P [n] = []"
| "walk_up P (n # p # up) = (if P (p # up) then p # up else walk_up P (p # up))"

definition ParentMap :: "chain \<Rightarrow> chain" where
  "ParentMap c = walk_up (\<lambda>d. is_MapL (hd d)) c"

definition ParentField :: "chain \<Rightarrow> chain" where
  "ParentField c = walk_up (\<lambda>d. is_FieldL (hd d)) c"

definition ParentEdge :: "chain \<Rightarrow> chain" where
  "ParentEdge c = walk_up (\<lambda>d. is_EdgeL (hd d)) c"

fun Root :: "chain \<Rightarrow> bool" where
  "Root [FieldL n m p] \<longleftrightarrow> True"
| "Root [MapL m', FieldL n m p] \<longleftrightarrow> True"
| "Root c \<longleftrightarrow> False"

text \<open>\<^verbatim>\<open>RootMap\<close>; the chain of no map, from a tree without a root field, makes the code panic: [].\<close>

function RootMap :: "chain \<Rightarrow> chain" where
  "RootMap c = (if c = [] \<or> Root c then c else RootMap (ParentMap c))"
  by auto

lemma walk_up_shorter: "c \<noteq> [] \<Longrightarrow> length (walk_up P c) < length c"
  by (induction P c rule: walk_up.induct) auto

termination RootMap
  by (relation "measure length") (auto simp: ParentMap_def walk_up_shorter)

declare RootMap.simps [simp del]

lemma walk_up_suffix: "\<exists>xs. c = xs @ walk_up P c \<and> (c \<noteq> [] \<longrightarrow> xs \<noteq> [])"
proof (induction P c rule: walk_up.induct)
  case (3 P n p up)
  then show ?case
    by (cases "P (p # up)") (auto intro: exI [of _ "[n]"] simp: Cons_eq_append_conv)
qed auto

lemma walk_up_found: "walk_up P c \<noteq> [] \<Longrightarrow> P (walk_up P c)"
  by (induction P c rule: walk_up.induct) (auto split: if_splits)

section \<open>Boards and variables\<close>

definition link_name :: "link \<Rightarrow> gostr" where
  "link_name l = (case l of FieldL n m p \<Rightarrow> string_ScalarString n | _ \<Rightarrow> [])"

definition kind_under :: "chain \<Rightarrow> gostr option" where
  "kind_under f = (case f of [] \<Rightarrow> None | l # up \<Rightarrow> board_name_kind (link_name l))"

fun NodeBoardKind :: "chain \<Rightarrow> gostr option" where
  "NodeBoardKind (FieldL n m p # up) =
    (if up = [] then Some (runes ''layer'') else kind_under (ParentField (FieldL n m p # up)))"
| "NodeBoardKind (MapL m' # FieldL n m p # up) =
    (if up = [] then Some (runes ''layer'') else kind_under (ParentField (FieldL n m p # up)))"
| "NodeBoardKind c = None"

definition ParentBoard :: "chain \<Rightarrow> chain" where
  "ParentBoard c = walk_up (\<lambda>d. NodeBoardKind d \<noteq> None) c"

fun IsVar :: "chain \<Rightarrow> bool" where
  "IsVar [] = False"
| "IsVar (n # up) =
    (if NodeBoardKind (n # up) \<noteq> None then False
     else case n of
       FieldL s m p \<Rightarrow>
         if string_ScalarString s = runes ''vars'' \<and> IsUnquoted s then True else IsVar up
     | _ \<Rightarrow> IsVar up)"

text \<open>\<^verbatim>\<open>ParentShape\<close>: the first field from the node up whose map sets \<^verbatim>\<open>shape\<close>.\<close>

definition shape_of :: "(rune \<Rightarrow> rune) \<Rightarrow> ir_map \<Rightarrow> gostr option" where
  "shape_of sf m =
    (case GetField sf [FlatUnquotedString (runes ''shape'')] m of
       None \<Rightarrow> None
     | Some f \<Rightarrow> map_option ScalarString (if_Primary f))"

fun ParentShape :: "(rune \<Rightarrow> rune) \<Rightarrow> chain \<Rightarrow> gostr" where
  "ParentShape sf [] = []"
| "ParentShape sf (n # up) =
    (case n of
       FieldL s (Some m) p \<Rightarrow> (case shape_of sf m of Some x \<Rightarrow> x | None \<Rightarrow> ParentShape sf up)
     | _ \<Rightarrow> ParentShape sf up)"

section \<open>Absolute and relative paths\<close>

text \<open>\<^verbatim>\<open>reverseIDA\<close> reverses a slice in place by swapping.\<close>

function reverse_from :: "nat \<Rightarrow> 'a list \<Rightarrow> 'a list" where
  "reverse_from i sl =
    (if i < length sl div 2
     then reverse_from (Suc i)
            (sl[i := sl ! (length sl - i - 1), length sl - i - 1 := sl ! i])
     else sl)"
  by auto

termination reverse_from
  by (relation "measure (\<lambda>(i, sl). length sl - i)") auto

declare reverse_from.simps [simp del]

definition reverseIDA :: "'a list \<Rightarrow> 'a list" where
  "reverseIDA sl = reverse_from 0 sl"

text \<open>
  The name a node adds to a path, and the loops, which collect the names from the node up. An edge whose
  name cannot be printed stops the code with a panic: None.
\<close>

definition parent_field_name :: "chain \<Rightarrow> gostr option" where
  "parent_field_name c = (case ParentField c of [] \<Rightarrow> None | l # up \<Rightarrow> Some (link_name l))"

definition node_IDA :: "chain \<Rightarrow> string_node list option" where
  "node_IDA c =
    (case c of
       FieldL s m p # up \<Rightarrow> Some [s]
     | EdgeL e # up \<Rightarrow> map_option (\<lambda>s. [s]) (IDString e (parent_field_name c))
     | _ \<Rightarrow> Some [])"

definition node_RelIDA :: "chain \<Rightarrow> string_node list option" where
  "node_RelIDA c =
    (case c of
       FieldL s m p # up \<Rightarrow> Some [s]
     | EdgeL e # up \<Rightarrow>
         (case edge_AST e (parent_field_name c) of
            None \<Rightarrow> None
          | Some k \<Rightarrow> map_option (\<lambda>txt. [FlatUnquotedString txt]) (Format (NKey k)))
     | _ \<Rightarrow> Some [])"

text \<open>The names from a node up to where a loop stops: \<open>stop\<close> is asked at each step to a parent.\<close>

fun collect ::
  "(chain \<Rightarrow> string_node list option) \<Rightarrow> (chain \<Rightarrow> bool) \<Rightarrow> chain \<Rightarrow> string_node list \<Rightarrow> string_node list option" where
  "collect name stop [] ida = Some ida"
| "collect name stop (n # up) ida =
    (case name (n # up) of
       None \<Rightarrow> None
     | Some s \<Rightarrow> if stop up then Some (ida @ s) else collect name stop up (ida @ s))"

definition IDA :: "chain \<Rightarrow> string_node list option" where
  "IDA c = map_option reverseIDA (collect node_IDA (\<lambda>up. up = []) c [])"

definition at_board :: "chain \<Rightarrow> bool" where
  "at_board c \<longleftrightarrow> c = [] \<or> (is_FieldL (hd c) \<and> NodeBoardKind c \<noteq> None)"

definition BoardIDA :: "chain \<Rightarrow> string_node list option" where
  "BoardIDA c =
    (if at_board c then Some [] else map_option reverseIDA (collect node_IDA at_board c []))"

text \<open>
  \<^verbatim>\<open>RelIDA\<close>: the node it is relative to is given by \<open>d\<close>, how many links of the chain are left from it on, 0
  when it is not on the chain. A field or an edge above is that node itself, or holds it as its map or
  array, from which one link more is left.
\<close>

definition at_relative :: "nat \<Rightarrow> chain \<Rightarrow> bool" where
  "at_relative d c \<longleftrightarrow>
    c = [] \<or>
    (is_FieldL (hd c) \<and> (length c = 1 \<or> length c = d \<or> Suc (length c) = d)) \<or>
    (is_EdgeL (hd c) \<and> (length c = d \<or> Suc (length c) = d))"

definition RelIDA :: "nat \<Rightarrow> chain \<Rightarrow> string_node list option" where
  "RelIDA d c =
    (if length c = 1 then map_option reverseIDA (node_RelIDA c)
     else map_option reverseIDA (collect node_RelIDA (at_relative d) c []))"

section \<open>What the paths are\<close>

text \<open>The swaps so far leave a middle to reverse between two ends of the same length.\<close>

lemma reverse_from_middle:
  assumes "length a = i" "length b = i"
  shows "reverse_from i (a @ m @ b) = a @ rev m @ b"
  using assms
proof (induction m arbitrary: a b i rule: length_induct)
  case (1 m)
  show ?case
  proof (cases "length m < 2")
    case True
    then have "rev m = m" by (cases m) auto
    moreover have "\<not> i < length (a @ m @ b) div 2" using True "1.prems" by simp
    ultimately show ?thesis by (subst reverse_from.simps) simp
  next
    case False
    then obtain x m1 where m1: "m = x # m1" "m1 \<noteq> []" by (cases m) auto
    obtain m2 y where m: "m = x # m2 @ [y]" using m1 by (metis rev_exhaust)
    have len: "length (a @ m @ b) - i - 1 = Suc (i + length m2)" "i < length (a @ m @ b) div 2"
      using "1.prems" m by simp_all
    have at: "(a @ m @ b) ! i = x" "(a @ m @ b) ! Suc (i + length m2) = y"
      using "1.prems" m by (simp_all add: nth_append)
    have swapped: "(a @ m @ b)[i := y, Suc (i + length m2) := x] = (a @ [y]) @ m2 @ (x # b)"
      using "1.prems" m by (simp add: list_update_append)
    have "reverse_from i (a @ m @ b) = reverse_from (Suc i) ((a @ [y]) @ m2 @ (x # b))"
      using len at swapped by (subst reverse_from.simps) simp
    also have "\<dots> = (a @ [y]) @ rev m2 @ (x # b)"
      by (rule "1.IH" [rule_format]) (use m "1.prems" in simp_all)
    finally show ?thesis using m by simp
  qed
qed

lemma reverseIDA_rev: "reverseIDA xs = rev xs"
  using reverse_from_middle [of "[]" 0 "[]" xs] by (simp add: reverseIDA_def)

lemma collect_acc: "collect name stop c ida = map_option (\<lambda>r. ida @ r) (collect name stop c [])"
proof (induction c arbitrary: ida)
  case (Cons n up)
  show ?case
    using Cons.IH [of "ida @ the (name (n # up))"] Cons.IH [of "the (name (n # up))"]
    by (cases "name (n # up)") (simp_all add: option.map_comp comp_def)
qed simp

lemma collect_Cons:
  "name (n # up) = Some s \<Longrightarrow> \<not> stop up \<Longrightarrow>
   collect name stop (n # up) [] = map_option (\<lambda>r. s @ r) (collect name stop up [])"
  using collect_acc [of name stop up s] by simp

lemma collect_rest:
  assumes "name (n # up) = Some s" "up \<noteq> []" "collect name (\<lambda>up. up = []) (n # up) [] = Some r"
  shows "\<exists>r'. collect name (\<lambda>up. up = []) up [] = Some r' \<and> r = s @ r'"
  using assms(3) unfolding collect_Cons [of name n up s "\<lambda>up. up = []", OF assms(1,2)]
  by (auto simp: map_option_eq_Some)

text \<open>A walk that stops earlier collects a beginning of what one collects that goes to the end.\<close>

lemma collect_prefix:
  assumes "collect name (\<lambda>up. up = []) c [] = Some r" "stop []"
  shows "\<exists>r1 r2. collect name stop c [] = Some r1 \<and> r = r1 @ r2"
  using assms(1)
proof (induction c arbitrary: r)
  case (Cons n up)
  from Cons.prems obtain s where s: "name (n # up) = Some s"
    by (auto split: option.splits)
  show ?case
  proof (cases "up = []")
    case True
    with Cons.prems s assms(2) show ?thesis by simp
  next
    case False
    then obtain r' where r': "collect name (\<lambda>up. up = []) up [] = Some r'" "r = s @ r'"
      using collect_rest [OF s False Cons.prems] by blast
    show ?thesis
    proof (cases "stop up")
      case True
      with s r'(2) show ?thesis by simp
    next
      case False
      then show ?thesis
        using Cons.IH [OF r'(1)] collect_Cons [of name n up s stop, OF s] r'(2) by auto
    qed
  qed
qed simp

lemma BoardIDA_suffix:
  assumes "IDA c = Some full"
  shows "\<exists>above b. BoardIDA c = Some b \<and> full = above @ b"
proof -
  from assms obtain r where r: "collect node_IDA (\<lambda>up. up = []) c [] = Some r" "full = rev r"
    by (auto simp: IDA_def reverseIDA_rev)
  show ?thesis
    using collect_prefix [OF r(1), of at_board] r(2)
    by (auto simp: BoardIDA_def at_board_def reverseIDA_rev)
qed

text \<open>A relative path completes the path of the field it is relative to.\<close>

lemma collect_until:
  assumes "xs \<noteq> []" "is_FieldL p" "list_all (\<lambda>l. \<not> is_EdgeL l) xs"
    and "collect node_IDA (\<lambda>up. up = []) (xs @ p # up) [] = Some r"
  shows "\<exists>r1 r2. collect node_RelIDA (at_relative (Suc (length up))) (xs @ p # up) [] = Some r1 \<and>
    collect node_IDA (\<lambda>up. up = []) (p # up) [] = Some r2 \<and> r = r1 @ r2"
  using assms(1,3,4)
proof (induction xs arbitrary: r)
  case (Cons l xs)
  have same: "node_RelIDA (l # xs @ p # up) = node_IDA (l # xs @ p # up)"
    using Cons.prems(2) by (cases l) (simp_all add: node_RelIDA_def node_IDA_def)
  from Cons.prems obtain s where s: "node_IDA (l # xs @ p # up) = Some s"
    by (auto split: option.splits)
  obtain r' where r': "collect node_IDA (\<lambda>up. up = []) (xs @ p # up) [] = Some r'" "r = s @ r'"
    using collect_rest [of node_IDA l "xs @ p # up" s] s Cons.prems(3) by auto
  show ?case
  proof (cases "xs = []")
    case True
    then have "at_relative (Suc (length up)) (xs @ p # up)"
      using assms(2) by (simp add: at_relative_def)
    with same s r' True show ?thesis by simp
  next
    case False
    then have "\<not> at_relative (Suc (length up)) (xs @ p # up)"
      by (cases xs) (auto simp: at_relative_def)
    then show ?thesis
      using Cons.IH [OF False _ r'(1)] Cons.prems(2) r'(2) same s
        collect_Cons [of node_RelIDA l "xs @ p # up" s "at_relative (Suc (length up))"] by auto
  qed
qed simp

lemma RelIDA_IDA:
  assumes "xs \<noteq> []" "is_FieldL p" "list_all (\<lambda>l. \<not> is_EdgeL l) xs" "IDA (xs @ p # up) = Some full"
  shows "\<exists>i r. IDA (p # up) = Some i \<and> RelIDA (Suc (length up)) (xs @ p # up) = Some r \<and> full = i @ r"
proof -
  from assms(4) obtain r where r: "collect node_IDA (\<lambda>up. up = []) (xs @ p # up) [] = Some r" "full = rev r"
    by (auto simp: IDA_def reverseIDA_rev)
  show ?thesis
    using collect_until [OF assms(1-3) r(1)] r(2) assms(1)
    by (auto simp: RelIDA_def IDA_def reverseIDA_rev)
qed

text \<open>\<^verbatim>\<open>RootMap\<close> finds the root map wherever it starts, or runs off a tree without one.\<close>

lemma RootMap_root: "RootMap c = [] \<or> (Root (RootMap c) \<and> (\<exists>xs. c = xs @ RootMap c))"
proof (induction c rule: RootMap.induct)
  case (1 c)
  show ?case
  proof (cases "c = [] \<or> Root c")
    case True
    then show ?thesis by (simp add: RootMap.simps [of c])
  next
    case False
    with "1.IH" show ?thesis
      using walk_up_suffix [of c "\<lambda>d. is_MapL (hd d)"]
      by (subst (1 2 3) RootMap.simps) (auto simp: ParentMap_def, metis append.assoc)
  qed
qed

lemma board_of_field: "NodeBoardKind (MapL m # FieldL n mp p # up) = NodeBoardKind (FieldL n mp p # up)"
  by simp

lemma ParentBoard_board: "ParentBoard c \<noteq> [] \<Longrightarrow> NodeBoardKind (ParentBoard c) \<noteq> None"
  unfolding ParentBoard_def by (rule walk_up_found)

end
