(* ===== verification/Ir_Ensure.thy ===== *)
theory Ir_Ensure
  imports Ir_Lookup Ir_Glob Ir_Pattern
begin

text \<open>
  \<^verbatim>\<open>EnsureField\<close> of \<^verbatim>\<open>d2ir/d2ir.go\<close> without a compiler, as the editor calls it: it finds the fields a key
  path denotes, through globs too, and creates those that are missing. A field is given by its path, the
  positions of the fields from the map down. The elements of a key path and the path itself carry their
  addresses, which references keep. What \<^verbatim>\<open>NodeBoardKind\<close> and \<^verbatim>\<open>ParentField\<close> read above a map is given by
  \<open>board\<close>, whether the map is the root of a board, and \<open>owner\<close>, the name of the next field above.
\<close>

type_synonym key_elem = "nat \<times> string_node"

section \<open>Results\<close>

text \<open>An error is reported at an element of the key path; a panic is one as well.\<close>

datatype ensure_error = EnsureError nat gostr | EnsurePanic

record ensured =
  en_map :: ir_map
  en_found :: "nat list list"
  en_created :: "nat list list"
  en_error :: "ensure_error option"

definition en_stop :: "ensure_error \<Rightarrow> ir_map \<Rightarrow> ensured" where
  "en_stop e m = \<lparr>en_map = m, en_found = [], en_created = [], en_error = Some e\<rparr>"

definition en_done :: "nat list list \<Rightarrow> nat list list \<Rightarrow> ir_map \<Rightarrow> ensured" where
  "en_done fs cs m = \<lparr>en_map = m, en_found = fs, en_created = cs, en_error = None\<rparr>"

section \<open>Going into the map of a field\<close>

definition empty_map :: ir_map where
  "empty_map = IMap [] [] 0 None"

primrec put_map :: "ir_map \<Rightarrow> ir_field \<Rightarrow> ir_field" where
  "put_map m (IField n p c rs su im) = IField n p (Some (MapC m)) rs su im"

primrec add_ref :: "field_ref option \<Rightarrow> ir_field \<Rightarrow> ir_field" where
  "add_ref r (IField n p c rs su im) =
    IField n p c (case r of None \<Rightarrow> rs | Some x \<Rightarrow> append_field_ref x rs) su im"

text \<open>The map of a field, a new one if it has none: it then replaces an array.\<close>

definition map_or_new :: "ir_field \<Rightarrow> ir_map" where
  "map_or_new f = (case field_Map f of None \<Rightarrow> empty_map | Some m \<Rightarrow> m)"

text \<open>The result of an operation on the map of the field at \<open>j\<close>, as one on the map around it.\<close>

definition in_field :: "nat \<Rightarrow> ensured \<Rightarrow> ir_map \<Rightarrow> ensured" where
  "in_field j r m = \<lparr>
    en_map = bump (length (en_created r))
      (set_Fields ((im_Fields m)[j := put_map (en_map r) (im_Fields m ! j)]) m),
    en_found = map ((#) j) (en_found r), en_created = map ((#) j) (en_created r), en_error = en_error r\<rparr>"

type_synonym visit = "string_node option \<Rightarrow> bool \<Rightarrow> ir_map \<Rightarrow> ensured"

fun at_field :: "visit \<Rightarrow> nat list \<Rightarrow> visit" where
  "at_field K [] owner board m = K owner board m"
| "at_field K (j # q) owner board m =
    (let f = im_Fields m ! j
     in in_field j (at_field K q (if_Name f) (board_name owner) (map_or_new f)) m)"

text \<open>One field after the other, up to the first error.\<close>

definition en_then :: "ensured \<Rightarrow> (ir_map \<Rightarrow> ensured) \<Rightarrow> ensured" where
  "en_then r1 next =
    (if en_error r1 \<noteq> None then r1
     else let r2 = next (en_map r1)
          in r2\<lparr>en_found := en_found r1 @ en_found r2, en_created := en_created r1 @ en_created r2\<rparr>)"

primrec at_fields :: "visit \<Rightarrow> nat list list \<Rightarrow> visit" where
  "at_fields K [] owner board m = en_done [] [] m"
| "at_fields K (p # ps) owner board m =
    en_then (at_field K p owner board m) (at_fields K ps owner board)"

section \<open>Ensuring a path\<close>

text \<open>
  The positions of the fields a pattern matches, up to a panic of \<^verbatim>\<open>matchPattern\<close> if there is one. The fields
  before it are visited first.
\<close>

fun matched_from :: "(rune \<Rightarrow> rune) \<Rightarrow> gostr list \<Rightarrow> nat \<Rightarrow> ir_field list \<Rightarrow> nat list list \<times> bool" where
  "matched_from lo pattern j [] = ([], False)"
| "matched_from lo pattern j (f # fs) =
    (case if_Name f of
       None \<Rightarrow> matched_from lo pattern (Suc j) fs
     | Some n \<Rightarrow>
         (case matchPattern lo (string_ScalarString n) pattern of
            None \<Rightarrow> ([], True)
          | Some b \<Rightarrow>
              let (ps, panicked) = matched_from lo pattern (Suc j) fs
              in (if b then [j] # ps else ps, panicked)))"

definition glob_found :: "(rune \<Rightarrow> rune) \<Rightarrow> gostr list \<Rightarrow> string_node option \<Rightarrow> ir_map \<Rightarrow> nat list list \<times> bool" where
  "glob_found lo pattern owner m =
    (case fst (multiGlob no_visit owner pattern (im_Fields m) ()) of
       (hits, True) \<Rightarrow> (hits, False)
     | (_, False) \<Rightarrow> matched_from lo pattern 0 (im_Fields m))"

text \<open>The panic comes unless an error came before it.\<close>

definition panic_after :: "bool \<Rightarrow> ensured \<Rightarrow> ensured" where
  "panic_after panicked r =
    (if panicked \<and> en_error r = None then r\<lparr>en_error := Some EnsurePanic\<rparr> else r)"

text \<open>What is wrong with an element that is no pattern, before anything is looked up.\<close>

definition head_error :: "nat \<Rightarrow> bool \<Rightarrow> bool \<Rightarrow> string_node \<Rightarrow> ensure_error option" where
  "head_error i final board s =
    (let low = to_lower (string_ScalarString s);
         reserved = is_reserved low \<and> IsUnquoted s;
         headString = (if reserved then low else string_ScalarString s)
     in if reserved \<and> low \<notin> set CompositeReservedKeywords \<and> \<not> final then
          Some (EnsureError i ([rDQ] @ headString @ [rDQ] @ runes '' must be the last part of the key''))
        else if headString = [rUnd] \<and> IsUnquoted s then
          Some (EnsureError i (runes ''parent '' @ [rDQ] @ runes ''_'' @ [rDQ] @
            runes '' can only be used in the beginning of paths, e.g. '' @ [rDQ] @ runes ''_.x'' @ [rDQ]))
        else if headString = runes ''classes'' \<and> IsUnquoted s \<and> \<not> board then
          Some (EnsureError i (headString @ runes '' must be declared at a board root scope''))
        else if findBoardKeyword [s] \<noteq> -1 \<and> IsUnquoted s \<and> \<not> board then
          Some (EnsureError i (headString @ runes '' must be declared at a board root scope''))
        else None)"

definition is_array :: "ir_field \<Rightarrow> bool" where
  "is_array f = (case if_Composite f of Some (ArrayC vs) \<Rightarrow> True | _ \<Rightarrow> False)"

definition path_ref :: "ref_context option \<Rightarrow> nat \<Rightarrow> nat \<Rightarrow> field_ref option" where
  "path_ref refctx kp a =
    map_option (\<lambda>ctx. \<lparr>fr_String = Some a, fr_KeyPath = Some kp, fr_Context = Some ctx,
      fr_DueToGlob = False, fr_DueToLazyGlob = False\<rparr>) refctx"

definition new_field :: "string_node \<Rightarrow> ir_field" where
  "new_field s = IField (Some s) None None [] False None"

text \<open>
  \<^verbatim>\<open>ensureField\<close> for the elements of the path from the one with index \<open>i\<close> on; an empty rest would index the
  path out of range.
\<close>

primrec ensureField ::
  "(rune \<Rightarrow> rune) \<Rightarrow> (rune \<Rightarrow> rune) \<Rightarrow> bool \<Rightarrow> ref_context option \<Rightarrow> nat \<Rightarrow> bool \<Rightarrow> key_elem list \<Rightarrow> nat \<Rightarrow> visit" where
  "ensureField sf lo indexed refctx kp create [] = (\<lambda>i owner board m. en_stop EnsurePanic m)"
| "ensureField sf lo indexed refctx kp create (e # rest) = (\<lambda>i owner board m.
    (case e of (a, s) \<Rightarrow>
      if string_Pattern s \<noteq> [] then
        (let (ps, panicked) = glob_found lo (string_Pattern s) owner m
         in panic_after panicked
              (if rest = [] then en_done ps [] m
               else at_fields (ensureField sf lo indexed refctx kp create rest (Suc i)) ps owner board m))
      else
        (case head_error i (rest = []) board s of
           Some err \<Rightarrow> en_stop err m
         | None \<Rightarrow>
             (case position (field_accepts sf indexed s) (im_Fields m) of
                Some j \<Rightarrow>
                  (let f = add_ref (path_ref refctx kp a) (im_Fields m ! j);
                       m1 = set_Fields ((im_Fields m)[j := f]) m
                   in if rest = [] then en_done [[j]] [] m1
                      else if is_array f then en_stop (EnsureError i (runes ''cannot index into array'')) m1
                      else at_field (ensureField sf lo indexed refctx kp create rest (Suc i)) [j] owner board m1)
              | None \<Rightarrow>
                  if \<not> create then en_done [] [] m
                  else
                    (let j = length (im_Fields m);
                         m1 = bump 1 (set_Fields
                           (im_Fields m @ [add_ref (path_ref refctx kp a) (new_field s)]) m)
                     in if rest = [] then en_done [[j]] [[j]] m1
                        else let r = at_field (ensureField sf lo indexed refctx kp create rest (Suc i)) [j]
                                       owner board m1
                             in r\<lparr>en_created := [j] # en_created r\<rparr>)))))"

text \<open>
  \<^verbatim>\<open>EnsureField\<close> on the map at the path \<open>here\<close> from the root map. Each leading underscore steps to the map
  around; the root map has none.
\<close>

fun step_out :: "nat \<Rightarrow> key_elem list \<Rightarrow> nat list \<Rightarrow> ensure_error + nat \<times> key_elem list \<times> nat list" where
  "step_out i [] here = Inl EnsurePanic"
| "step_out i ((a, s) # rest) here =
    (if \<not> is_underscore s then Inr (i, (a, s) # rest, here)
     else if here = [] then Inl (EnsureError i (runes ''invalid underscore: no parent''))
     else if rest = [] then
       Inl (EnsureError i (runes ''field key must contain more than underscores''))
     else step_out (Suc i) rest (butlast here))"

definition root_name :: string_node where
  "root_name = FlatUnquotedString (runes ''root'')"

definition EnsureField ::
  "(rune \<Rightarrow> rune) \<Rightarrow> (rune \<Rightarrow> rune) \<Rightarrow> bool \<Rightarrow> ref_context option \<Rightarrow> nat \<Rightarrow> bool \<Rightarrow> key_elem list \<Rightarrow> nat list \<Rightarrow>
   ir_map \<Rightarrow> ensured" where
  "EnsureField sf lo indexed refctx kp create es here m =
    (case step_out 0 es here of
       Inl err \<Rightarrow> en_stop err m
     | Inr (i, rest, here') \<Rightarrow>
         at_field (ensureField sf lo indexed refctx kp create rest i) here' (Some root_name) True m)"

section \<open>Counts and positions\<close>

text \<open>
  What every visit does: as many fields come to be as it says it created, no edge does, the version grows
  by as much, and fields stay where they were.
\<close>

fun valid_path :: "nat list \<Rightarrow> ir_map \<Rightarrow> bool" where
  "valid_path [] m = True"
| "valid_path (j # q) m =
    (j < length (im_Fields m) \<and> valid_path q (map_or_new (im_Fields m ! j)))"

definition grown_map :: "ir_map \<Rightarrow> nat \<Rightarrow> ir_map \<Rightarrow> bool" where
  "grown_map m k m' \<longleftrightarrow>
    FieldCountRecursive m' = FieldCountRecursive m + k \<and> EdgeCountRecursive m' = EdgeCountRecursive m \<and>
    im_version m' = im_version m + of_nat k \<and> (\<forall>p. valid_path p m \<longrightarrow> valid_path p m')"

definition visit_grows :: "visit \<Rightarrow> bool" where
  "visit_grows K \<longleftrightarrow> (\<forall>owner board m.
    grown_map m (length (en_created (K owner board m))) (en_map (K owner board m)))"

lemma field_count_put [simp]: "field_count_field (put_map m f) = FieldCountRecursive m"
  by (cases f) simp

lemma edge_count_put [simp]: "edge_count_field (put_map m f) = EdgeCountRecursive m"
  by (cases f) simp

lemma count_map_or_new [simp]:
  "FieldCountRecursive (map_or_new f) = field_count_field f"
  "EdgeCountRecursive (map_or_new f) = edge_count_field f"
proof -
  obtain n p c rs su im where f: "f = IField n p c rs su im" by (cases f)
  show "FieldCountRecursive (map_or_new f) = field_count_field f"
    "EdgeCountRecursive (map_or_new f) = edge_count_field f"
    by (cases c; cases "the c"; simp add: f map_or_new_def field_Map_def empty_map_def)+
qed

lemma map_or_new_put [simp]: "map_or_new (put_map m f) = m"
  by (cases f) (simp add: map_or_new_def field_Map_def)

lemma add_ref_simps [simp]:
  "field_Map (add_ref r f) = field_Map f" "if_Name (add_ref r f) = if_Name f"
  "if_Composite (add_ref r f) = if_Composite f" "map_or_new (add_ref r f) = map_or_new f"
  "field_count_field (add_ref r f) = field_count_field f" "edge_count_field (add_ref r f) = edge_count_field f"
  "if_Name (put_map m f) = if_Name f"
  by (cases f; simp add: field_Map_def map_or_new_def)+

lemma counts_Fields:
  "FieldCountRecursive m = length (im_Fields m) + sum_list (map field_count_field (im_Fields m)) +
     sum_list (map field_count_edge (im_Edges m))"
  "EdgeCountRecursive m = length (im_Edges m) + sum_list (map edge_count_field (im_Fields m)) +
     sum_list (map edge_count_edge (im_Edges m))"
  by (cases m; simp)+

lemma sum_list_update_nat:
  "j < length xs \<Longrightarrow> sum_list (map f (xs[j := y])) + f (xs ! j) = sum_list (map f xs) + (f y :: nat)"
  by (induction xs arbitrary: j) (auto split: nat.split)

lemma valid_path_update:
  assumes "j < length (im_Fields m)" "\<forall>q. valid_path q (map_or_new (im_Fields m ! j)) \<longrightarrow> valid_path q (map_or_new f)"
    and "valid_path p m"
  shows "valid_path p (bump k (set_Fields ((im_Fields m)[j := f]) m))"
  using assms by (cases p) (auto simp: nth_list_update)

lemma counts_update:
  assumes "j < length (im_Fields m)"
  shows "FieldCountRecursive (bump k (set_Fields ((im_Fields m)[j := f]) m)) + field_count_field (im_Fields m ! j) =
      FieldCountRecursive m + field_count_field f"
    and "EdgeCountRecursive (bump k (set_Fields ((im_Fields m)[j := f]) m)) + edge_count_field (im_Fields m ! j) =
      EdgeCountRecursive m + edge_count_field f"
  using sum_list_update_nat [OF assms, of field_count_field f] sum_list_update_nat [OF assms, of edge_count_field f]
  by (simp_all add: counts_Fields)

lemma grown_in_field:
  assumes "j < length (im_Fields m)"
    and "grown_map (map_or_new (im_Fields m ! j)) (length (en_created r)) (en_map r)"
  shows "grown_map m (length (en_created (in_field j r m))) (en_map (in_field j r m))"
proof -
  have "\<forall>p. valid_path p m \<longrightarrow> valid_path p (en_map (in_field j r m))"
    unfolding in_field_def ensured.simps
    using assms(2) by (intro allI impI valid_path_update [OF assms(1)]) (simp_all add: grown_map_def)
  then show ?thesis
    using assms(2) counts_update [OF assms(1), of "length (en_created r)" "put_map (en_map r) (im_Fields m ! j)"]
    unfolding grown_map_def by (simp add: in_field_def)
qed

lemma grown_at_field:
  assumes "visit_grows K" "valid_path p m"
  shows "grown_map m (length (en_created (at_field K p owner board m))) (en_map (at_field K p owner board m))"
  using assms(2)
proof (induction p arbitrary: owner board m)
  case Nil
  with assms(1) show ?case by (simp add: visit_grows_def)
next
  case (Cons j q)
  then show ?case by (simp add: Let_def grown_in_field)
qed

lemma grown_then:
  assumes "grown_map m (length (en_created r1)) (en_map r1)"
    and "\<And>m1. m1 = en_map r1 \<Longrightarrow> grown_map m1 (length (en_created (next m1))) (en_map (next m1))"
  shows "grown_map m (length (en_created (en_then r1 next))) (en_map (en_then r1 next))"
  using assms(1) assms(2) [OF refl] by (simp add: en_then_def Let_def grown_map_def)

lemma grown_at_fields:
  assumes "visit_grows K" "\<forall>p \<in> set ps. valid_path p m"
  shows "grown_map m (length (en_created (at_fields K ps owner board m))) (en_map (at_fields K ps owner board m))"
  using assms(2)
proof (induction ps arbitrary: m)
  case Nil
  then show ?case by (simp add: en_done_def grown_map_def)
next
  case (Cons p ps)
  have first: "grown_map m (length (en_created (at_field K p owner board m))) (en_map (at_field K p owner board m))"
    using Cons.prems by (intro grown_at_field [OF assms(1)]) simp
  show ?case
    unfolding at_fields.simps
  proof (rule grown_then [OF first])
    fix m1 assume "m1 = en_map (at_field K p owner board m)"
    with first Cons.prems have "\<forall>p \<in> set ps. valid_path p m1" by (simp add: grown_map_def)
    then show "grown_map m1 (length (en_created (at_fields K ps owner board m1))) (en_map (at_fields K ps owner board m1))"
      by (rule Cons.IH)
  qed
qed

text \<open>The fields a glob finds are there.\<close>

lemma glob_fields_valid:
  "p \<in> set (found kind owner path i fs) \<Longrightarrow>
   \<exists>j q. p = path @ (i + j) # q \<and> j < length fs \<and> (q = [] \<or> valid_path q (map_or_new (fs ! j)))"
proof (induction "size_list size fs" arbitrary: owner path i fs p rule: less_induct)
  case less
  show ?case
  proof (cases fs)
    case Nil
    with less.prems show ?thesis by simp
  next
    case (Cons f gs)
    from less.prems consider "p \<in> set (found_field kind owner path i f)" | "p \<in> set (found kind owner path (Suc i) gs)"
      by (auto simp: Cons found_Cons)
    then show ?thesis
    proof cases
      case 1
      then consider "p = path @ [i]" | m where "field_Map f = Some m" "p \<in> set (found kind (if_Name f) (path @ [i]) 0 (im_Fields m))"
        by (cases "field_Map f") (auto simp: found_field_eq split: if_splits)
      then show ?thesis
      proof cases
        case 1
        then show ?thesis by (intro exI [of _ 0] exI [of _ "[]"]) (simp add: Cons)
      next
        case (2 m)
        have "size_list size (im_Fields m) < size_list size fs"
          using field_Map_size [OF 2(1)] by (simp add: Cons)
        from less.hyps [OF this 2(2)] obtain j q where "p = (path @ [i]) @ j # q" "j < length (im_Fields m)"
          "q = [] \<or> valid_path q (map_or_new (im_Fields m ! j))" by auto
        then show ?thesis
          using 2(1) by (intro exI [of _ 0] exI [of _ "j # q"]) (auto simp: Cons map_or_new_def)
      qed
    next
      case 2
      from less.hyps [OF _ 2] obtain j q where "p = path @ (Suc i + j) # q" "j < length gs"
        "q = [] \<or> valid_path q (map_or_new (gs ! j))" by (auto simp: Cons)
      then show ?thesis
        by (intro exI [of _ "Suc j"] exI [of _ q]) (simp add: Cons)
    qed
  qed
qed

lemma panic_after_simps [simp]:
  "en_map (panic_after b r) = en_map r" "en_created (panic_after b r) = en_created r"
  "en_found (panic_after b r) = en_found r" "panic_after False r = r"
  by (simp_all add: panic_after_def)

lemma matched_from_valid:
  "p \<in> set (fst (matched_from lo pattern j fs)) \<Longrightarrow> \<exists>i. p = [j + i] \<and> i < length fs"
proof (induction fs arbitrary: j)
  case (Cons f fs)
  from Cons.prems have "p = [j] \<or> p \<in> set (fst (matched_from lo pattern (Suc j) fs))"
    by (auto split: option.splits prod.splits if_splits)
  with Cons.IH [of "Suc j"] have "p = [j + 0] \<or> (\<exists>i. p = [j + Suc i] \<and> i < length fs)"
    by auto
  then show ?case by (metis Suc_less_eq length_Cons zero_less_Suc)
qed simp

lemma glob_found_valid:
  assumes "p \<in> set (fst (glob_found lo pattern owner m))"
  shows "valid_path p m"
proof (cases "pattern_kind pattern")
  case None
  with assms matched_from_valid [of p lo pattern 0 "im_Fields m"] show ?thesis
    by (auto simp: glob_found_def multiGlob_def)
next
  case (Some kind)
  with assms glob_fields_valid [of p kind owner "[]" 0 "im_Fields m"] show ?thesis
    by (auto simp: glob_found_def multiGlob_def glob_fields_eq)
qed

lemma position_lt: "position P xs = Some j \<Longrightarrow> j < length xs"
  by (drule position_Some) simp

lemma grown_trans:
  "grown_map m a m1 \<Longrightarrow> grown_map m1 b m2 \<Longrightarrow> grown_map m (a + b) m2"
  by (simp add: grown_map_def)

lemma grown_refl [simp]: "grown_map m 0 m"
  by (simp add: grown_map_def)

lemma field_count_new [simp]:
  "field_count_field (new_field s) = 0" "edge_count_field (new_field s) = 0"
  "field_Map (new_field s) = None" "if_Name (new_field s) = Some s"
  by (simp_all add: new_field_def field_Map_def)

lemma valid_path_append: "valid_path p m \<Longrightarrow> valid_path p (bump 1 (set_Fields (im_Fields m @ [f]) m))"
  by (cases p) (auto simp: nth_append)

lemma grown_append:
  "field_count_field f = 0 \<Longrightarrow> edge_count_field f = 0 \<Longrightarrow>
   grown_map m 1 (bump 1 (set_Fields (im_Fields m @ [f]) m))"
  using valid_path_append [of _ m f] unfolding grown_map_def by (auto simp: counts_Fields)

lemma grown_touch:
  assumes "j < length (im_Fields m)"
  shows "grown_map m 0 (set_Fields ((im_Fields m)[j := add_ref r (im_Fields m ! j)]) m)"
proof -
  have b: "bump 0 x = x" for x by (cases x) simp
  show ?thesis
    using counts_update [OF assms, of 0 "add_ref r (im_Fields m ! j)"] valid_path_update [OF assms, of "add_ref r (im_Fields m ! j)" _ 0]
    unfolding b by (auto simp: grown_map_def)
qed

lemma ensureField_grows: "visit_grows (ensureField sf lo indexed refctx kp create es i)"
proof (induction es arbitrary: i)
  case Nil
  then show ?case by (simp add: visit_grows_def en_stop_def)
next
  case (Cons e rest)
  obtain a s where e: "e = (a, s)" by (cases e)
  let ?K = "ensureField sf lo indexed refctx kp create rest (Suc i)"
  note K = Cons.IH [of "Suc i"]
  show ?case
    unfolding visit_grows_def
  proof (intro allI)
    fix owner board m
    let ?r = "ensureField sf lo indexed refctx kp create (e # rest) i owner board m"
    let ?goal = "grown_map m (length (en_created ?r)) (en_map ?r)"
    show ?goal
    proof (cases "string_Pattern s \<noteq> []")
      case True
      obtain ps panicked where g: "glob_found lo (string_Pattern s) owner m = (ps, panicked)" by fastforce
      then show ?goal
        using True grown_at_fields [OF K, of ps m owner board] glob_found_valid [of _ lo "string_Pattern s" owner m]
        by (simp add: e en_done_def)
    next
      case plain: False
      show ?goal
      proof (cases "head_error i (rest = []) board s")
        case (Some err)
        with plain show ?goal by (simp add: e en_stop_def)
      next
        case None
        show ?goal
        proof (cases "position (field_accepts sf indexed s) (im_Fields m)")
          case (Some j)
          let ?m1 = "set_Fields ((im_Fields m)[j := add_ref (path_ref refctx kp a) (im_Fields m ! j)]) m"
          have m1: "grown_map m 0 ?m1" by (rule grown_touch [OF position_lt [OF Some]])
          have below: "grown_map ?m1 (length (en_created (at_field ?K [j] owner board ?m1)))
              (en_map (at_field ?K [j] owner board ?m1))"
            using position_lt [OF Some] by (intro grown_at_field [OF K]) simp
          show ?goal
            using plain None Some m1 grown_trans [OF m1 below]
            by (simp add: e en_stop_def en_done_def Let_def del: at_field.simps)
        next
          case none: None
          let ?m1 = "bump 1 (set_Fields (im_Fields m @ [add_ref (path_ref refctx kp a) (new_field s)]) m)"
          have m1: "grown_map m 1 ?m1" by (rule grown_append) simp_all
          have below: "grown_map ?m1 (length (en_created (at_field ?K [length (im_Fields m)] owner board ?m1)))
              (en_map (at_field ?K [length (im_Fields m)] owner board ?m1))"
            by (intro grown_at_field [OF K]) simp
          show ?goal
            using plain None none m1 grown_trans [OF m1 below]
            by (cases create) (simp_all add: e en_stop_def en_done_def Let_def del: at_field.simps)
        qed
      qed
    qed
  qed
qed

lemma valid_path_take: "valid_path p m \<Longrightarrow> valid_path (take n p) m"
  by (induction p m arbitrary: n rule: valid_path.induct) (auto simp: take_Cons split: nat.split)

lemma step_out_valid:
  "step_out i es here = Inr (i', es', here') \<Longrightarrow> valid_path here m \<Longrightarrow> valid_path here' m"
  by (induction i es here rule: step_out.induct) (auto split: if_splits simp: butlast_conv_take valid_path_take)

lemma EnsureField_grows:
  assumes "valid_path here m"
  shows "grown_map m (length (en_created (EnsureField sf lo indexed refctx kp create es here m)))
    (en_map (EnsureField sf lo indexed refctx kp create es here m))"
proof (cases "step_out 0 es here")
  case (Inl e)
  then show ?thesis by (simp add: EnsureField_def en_stop_def)
next
  case (Inr r)
  obtain i es' here' where r: "r = (i, es', here')" by (metis prod_cases3)
  have "valid_path here' m" using step_out_valid [OF _ assms] Inr r by blast
  from grown_at_field [OF ensureField_grows this] show ?thesis by (simp add: EnsureField_def Inr r)
qed

section \<open>Names\<close>

text \<open>What compilation keeps of a tree, \<open>tidy\<close>, every visit keeps as well.\<close>

definition visit_tidy :: "(rune \<Rightarrow> rune) \<Rightarrow> visit \<Rightarrow> bool" where
  "visit_tidy sf K \<longleftrightarrow> (\<forall>owner board m. tidy sf m \<longrightarrow> tidy sf (en_map (K owner board m)))"

lemma tidy_bump [simp]: "tidy sf (bump k m) = tidy sf m"
  by (cases m) simp

lemma tidy_set_Fields: "tidy sf (set_Fields fs m) \<longleftrightarrow> tidy_fields sf fs \<and> list_all (tidy_field sf) fs"
  by (cases m) (simp add: list.pred_map comp_def id_def)

lemma tidy_put [simp]: "tidy_field sf (put_map m f) = tidy sf m"
  by (cases f) simp

lemma tidy_add_ref [simp]: "tidy_field sf (add_ref r f) = tidy_field sf f"
  by (cases f) simp

lemma field_key_simps [simp]:
  "field_key_of sf (put_map m f) = field_key_of sf f" "field_key_of sf (add_ref r f) = field_key_of sf f"
  by (simp_all add: field_key_of_def)

lemma tidy_fields_update:
  assumes "tidy_fields sf fs" "j < length fs" "if_Name f = if_Name (fs ! j)"
  shows "tidy_fields sf (fs[j := f])"
  using assms
proof (induction fs arbitrary: j)
  case (Cons g gs)
  show ?case
  proof (cases j)
    case 0
    with Cons.prems show ?thesis by (simp add: tidy_fields_Cons field_key_of_def)
  next
    case (Suc k)
    with Cons.prems Cons.IH [of k] have "tidy_fields sf (gs[k := f])" by (simp add: tidy_fields_Cons)
    moreover have "field_key_of sf ` set (gs[k := f]) = field_key_of sf ` set gs"
    proof -
      have "map (field_key_of sf) (gs[k := f]) = map (field_key_of sf) gs"
        using Cons.prems Suc by (simp add: map_update field_key_of_def) (metis list_update_id map_update nth_map field_key_of_def)
      then show ?thesis by (metis list.set_map)
    qed
    ultimately show ?thesis using Cons.prems Suc by (simp add: tidy_fields_Cons)
  qed
qed simp

lemma tidy_map_or_new: "tidy_field sf f \<Longrightarrow> tidy sf (map_or_new f)"
  by (cases "field_Map f") (auto simp: map_or_new_def empty_map_def tidy_fields_def names_ok_def dest: tidy_below)

lemma tidy_in_field:
  assumes "tidy sf m" "j < length (im_Fields m)" "tidy sf (en_map r)"
  shows "tidy sf (en_map (in_field j r m))"
  using assms tidy_fields_update [of sf "im_Fields m" j "put_map (en_map r) (im_Fields m ! j)"]
  by (auto simp: in_field_def tidy_set_Fields tidy_iff list_all_length nth_list_update)

lemma tidy_at_field:
  assumes "visit_tidy sf K" "valid_path p m" "tidy sf m"
  shows "tidy sf (en_map (at_field K p owner board m))"
  using assms(2,3)
proof (induction p arbitrary: owner board m)
  case Nil
  with assms(1) show ?case by (simp add: visit_tidy_def)
next
  case (Cons j q)
  then have "tidy sf (map_or_new (im_Fields m ! j))"
    by (intro tidy_map_or_new) (simp add: tidy_iff list_all_length)
  with Cons show ?case by (simp add: Let_def tidy_in_field)
qed

lemma tidy_at_fields:
  assumes "visit_tidy sf K" "visit_grows K" "\<forall>p \<in> set ps. valid_path p m" "tidy sf m"
  shows "tidy sf (en_map (at_fields K ps owner board m))"
  using assms(3,4)
proof (induction ps arbitrary: m)
  case Nil
  then show ?case by (simp add: en_done_def)
next
  case (Cons p ps)
  let ?r = "at_field K p owner board m"
  have "grown_map m (length (en_created ?r)) (en_map ?r)" "tidy sf (en_map ?r)"
    using Cons.prems grown_at_field [OF assms(2)] tidy_at_field [OF assms(1)] by simp_all
  with Cons show ?case by (simp add: en_then_def Let_def grown_map_def)
qed

definition plain_elems :: "key_elem list \<Rightarrow> bool" where
  "plain_elems es \<longleftrightarrow> list_all (\<lambda>e. plain_name (snd e)) es"

lemma head_error_underscore: "head_error i final board s = None \<Longrightarrow> \<not> is_underscore s"
proof
  assume "is_underscore s"
  then have s: "string_ScalarString s = [rUnd]" "IsUnquoted s" by (simp_all add: is_underscore_def)
  have "\<not> is_reserved (to_lower [rUnd])" by code_simp
  with s have "head_error i final board s \<noteq> None" by (simp add: head_error_def Let_def)
  moreover assume "head_error i final board s = None"
  ultimately show False by blast
qed

lemma position_key:
  assumes "fold_ok sf" "plain_name s" "tidy_fields sf fs"
  shows "position (field_accepts sf ix s) fs = position (\<lambda>f. field_key_of sf f = makeFieldIndexKey sf s) fs"
  using assms(3) by (induction fs) (auto simp: tidy_fields_Cons tidy_accepts [OF assms(1,2)])

lemma tidy_fields_snoc:
  assumes "tidy_fields sf fs" "plain_name s" "\<not> is_underscore s" "if_Name f = Some s"
    and "\<forall>g \<in> set fs. field_key_of sf g \<noteq> makeFieldIndexKey sf s"
  shows "tidy_fields sf (fs @ [f])"
  using assms by (auto simp: tidy_fields_def names_ok_def field_key_of_def)

lemma ensureField_tidy:
  assumes "fold_ok sf" "plain_elems es"
  shows "visit_tidy sf (ensureField sf lo indexed refctx kp create es i)"
  using assms(2)
proof (induction es arbitrary: i)
  case Nil
  then show ?case by (simp add: visit_tidy_def en_stop_def)
next
  case (Cons e rest)
  obtain a s where e: "e = (a, s)" by (cases e)
  from Cons.prems have s: "plain_name s" and rest: "plain_elems rest" by (simp_all add: e plain_elems_def)
  let ?K = "ensureField sf lo indexed refctx kp create rest (Suc i)"
  note K = Cons.IH [OF rest, of "Suc i"]
  have G: "visit_grows ?K" by (rule ensureField_grows)
  show ?case
    unfolding visit_tidy_def
  proof (intro allI impI)
    fix owner board m
    assume m: "tidy sf m"
    then have fs: "tidy_fields sf (im_Fields m)" "list_all (tidy_field sf) (im_Fields m)"
      by (simp_all add: tidy_iff)
    let ?r = "ensureField sf lo indexed refctx kp create (e # rest) i owner board m"
    show "tidy sf (en_map ?r)"
    proof (cases "string_Pattern s \<noteq> []")
      case True
      obtain ps panicked where g: "glob_found lo (string_Pattern s) owner m = (ps, panicked)" by fastforce
      then show ?thesis
        using True tidy_at_fields [OF K G, of ps m owner board] glob_found_valid [of _ lo "string_Pattern s" owner m] m
        by (simp add: e en_done_def)
    next
      case plain: False
      show ?thesis
      proof (cases "head_error i (rest = []) board s")
        case (Some err)
        with plain m show ?thesis by (simp add: e en_stop_def)
      next
        case None
        show ?thesis
        proof (cases "position (field_accepts sf indexed s) (im_Fields m)")
          case (Some j)
          let ?m1 = "set_Fields ((im_Fields m)[j := add_ref (path_ref refctx kp a) (im_Fields m ! j)]) m"
          note j = position_lt [OF Some]
          have m1: "tidy sf ?m1"
            using fs j tidy_fields_update [OF fs(1) j, of "add_ref (path_ref refctx kp a) (im_Fields m ! j)"]
            by (auto simp: tidy_set_Fields list_all_length nth_list_update)
          have "tidy sf (en_map (at_field ?K [j] owner board ?m1))"
            by (rule tidy_at_field [OF K _ m1]) (use j in simp)
          with plain None Some m1 show ?thesis
            by (simp add: e en_stop_def en_done_def Let_def del: at_field.simps)
        next
          case none: None
          let ?f = "add_ref (path_ref refctx kp a) (new_field s)"
          let ?m1 = "bump 1 (set_Fields (im_Fields m @ [?f]) m)"
          have "\<forall>g \<in> set (im_Fields m). field_key_of sf g \<noteq> makeFieldIndexKey sf s"
            using none by (simp add: position_key [OF assms(1) s fs(1)] position_None)
          then have "tidy_fields sf (im_Fields m @ [?f])"
            by (intro tidy_fields_snoc [OF fs(1) s head_error_underscore [OF None]]) simp_all
          then have m1: "tidy sf ?m1"
            using fs(2) by (simp add: tidy_set_Fields new_field_def)
          have "tidy sf (en_map (at_field ?K [length (im_Fields m)] owner board ?m1))"
            by (rule tidy_at_field [OF K _ m1]) simp
          with plain None none m1 m show ?thesis
            by (cases create) (simp_all add: e en_stop_def en_done_def Let_def del: at_field.simps)
        qed
      qed
    qed
  qed
qed

section \<open>What is found\<close>

fun field_at :: "nat list \<Rightarrow> ir_map \<Rightarrow> ir_field option" where
  "field_at [] m = None"
| "field_at (j # q) m =
    (if j < length (im_Fields m) then
       (if q = [] then Some (im_Fields m ! j) else field_at q (map_or_new (im_Fields m ! j)))
     else None)"

text \<open>
  A result that stands: the path found denotes the field the index finds by the names, and looking again,
  without creating, finds it and changes nothing.
\<close>

definition settled ::
  "(rune \<Rightarrow> rune) \<Rightarrow> (rune \<Rightarrow> rune) \<Rightarrow> bool \<Rightarrow> key_elem list \<Rightarrow> nat \<Rightarrow> string_node option \<Rightarrow> bool \<Rightarrow> ensured \<Rightarrow> nat list \<Rightarrow> bool" where
  "settled sf lo ix es i owner board r p \<longleftrightarrow>
    en_found r = [p] \<and> p \<noteq> [] \<and> field_at p (en_map r) \<noteq> None \<and>
    getFieldIndexed sf (map snd es) (en_map r) = field_at p (en_map r) \<and>
    (\<forall>kp. ensureField sf lo ix None kp False es i owner board (en_map r) = en_done [p] [] (en_map r))"

lemma position_names:
  "map if_Name fs = map if_Name gs \<Longrightarrow> position (field_accepts sf ix s) fs = position (field_accepts sf ix s) gs"
proof (induction fs arbitrary: gs)
  case (Cons f fs)
  then show ?case by (cases gs) (auto simp: field_accepts_def)
qed simp

lemma position_append:
  "position P (xs @ ys) = (case position P xs of Some j \<Rightarrow> Some j | None \<Rightarrow> map_option (\<lambda>j. length xs + j) (position P ys))"
  by (induction xs) (cases "position P ys"; auto split: option.split)+

lemma position_both:
  assumes "fold_ok sf" "plain_name s" "tidy_fields sf fs" "position (field_accepts sf ix s) fs = Some j"
  shows "find (field_accepts sf True s) fs = Some (fs ! j)"
  using assms position_key [OF assms(1-3)] by (simp add: position_find)

lemma is_array_add_ref [simp]: "is_array (add_ref r f) = is_array f"
  by (simp add: is_array_def)

lemma path_ref_None [simp]: "path_ref None kp a = None" "add_ref None f = f"
  by (cases f; simp add: path_ref_def)+

lemma field_Map_put [simp]: "field_Map (put_map m f) = Some m" "is_array (put_map m f) = False"
  "put_map m (put_map m' f) = put_map m f"
  by (cases f; simp add: field_Map_def is_array_def)+

lemma set_Fields_id [simp]: "set_Fields (im_Fields m) m = m" "bump 0 m = m"
  "set_Fields fs (bump k (set_Fields fs m)) = bump k (set_Fields fs m)"
  by (cases m; simp)+

lemma settled_here:
  assumes "fold_ok sf" "plain_name s" "string_Pattern s = []" "head_error i True board s = None"
    and "tidy sf m" "position (field_accepts sf ix s) (im_Fields m) = Some j"
  shows "settled sf lo ix [(a, s)] i owner board (en_done [[j]] cs m) [j]"
  using assms position_lt [OF assms(6)] position_both [OF assms(1,2) _ assms(6)] head_error_underscore [OF assms(4)]
  by (simp add: settled_def en_done_def tidy_iff)

lemma settled_below:
  assumes "fold_ok sf" "plain_name s" "string_Pattern s = []" "head_error i False board s = None" "rest \<noteq> []"
    and "tidy sf m" "position (field_accepts sf ix s) (im_Fields m) = Some j" "f = im_Fields m ! j"
    and "settled sf lo ix rest (Suc i) (if_Name f) (board_name owner) r p"
    and "en_map r' = bump k (set_Fields ((im_Fields m)[j := put_map (en_map r) f]) m)" "en_found r' = [j # p]"
  shows "settled sf lo ix ((a, s) # rest) i owner board r' (j # p)"
proof -
  let ?fs = "(im_Fields m)[j := put_map (en_map r) f]"
  note j = position_lt [OF assms(7)]
  have names: "map if_Name ?fs = map if_Name (im_Fields m)"
    using j assms(8) by (simp add: map_update) (metis list_update_id map_update nth_map)
  have pos: "position (field_accepts sf ix s) ?fs = Some j"
    using position_names [OF names] assms(7) by simp
  have tidy: "tidy_fields sf ?fs"
    using tidy_fields_update [of sf "im_Fields m" j "put_map (en_map r) f"] assms(6,8) j by (simp add: tidy_iff)
  have get: "find (field_accepts sf True s) ?fs = Some (put_map (en_map r) f)"
    using position_both [OF assms(1,2) tidy pos] j by simp
  have again: "at_field (ensureField sf lo ix None kp False rest (Suc i)) [j] owner board (en_map r') =
      en_done [j # p] [] (en_map r')" for kp
    using assms(9) j by (simp add: settled_def assms(10) in_field_def en_done_def Let_def)
  show ?thesis
    using assms(9) assms(3-5) j get again pos head_error_underscore [OF assms(4)]
    by (simp add: settled_def assms(10,11) del: at_field.simps)
qed

lemma ensureField_found:
  assumes "fold_ok sf" "plain_elems es" "list_all (\<lambda>e. string_Pattern (snd e) = []) es" "tidy sf m"
    and "en_error (ensureField sf lo ix refctx kp True es i owner board m) = None"
  shows "\<exists>p. settled sf lo ix es i owner board (ensureField sf lo ix refctx kp True es i owner board m) p"
  using assms(2-5)
proof (induction es arbitrary: i owner board m)
  case Nil
  then show ?case by (simp add: en_stop_def)
next
  case (Cons e rest)
  obtain a s where e: "e = (a, s)" by (cases e)
  from Cons.prems have s: "plain_name s" "string_Pattern s = []"
    and rest: "plain_elems rest" "list_all (\<lambda>e. string_Pattern (snd e) = []) rest"
    by (simp_all add: e plain_elems_def)
  from Cons.prems(4) s(2) have none: "head_error i (rest = []) board s = None"
    by (cases "head_error i (rest = []) board s") (simp_all add: e en_stop_def)
  from Cons.prems(3) have fs: "tidy_fields sf (im_Fields m)" "list_all (tidy_field sf) (im_Fields m)"
    by (simp_all add: tidy_iff)
  let ?K = "ensureField sf lo ix refctx kp True rest (Suc i)"
  let ?r = "ensureField sf lo ix refctx kp True (e # rest) i owner board m"
  have below: "\<exists>p. settled sf lo ix (e # rest) i owner board r' p"
    if "rest \<noteq> []" "tidy sf m1" "position (field_accepts sf ix s) (im_Fields m1) = Some j"
      "en_map r' = en_map (at_field ?K [j] owner board m1)" "en_found r' = en_found (at_field ?K [j] owner board m1)"
      "en_error (at_field ?K [j] owner board m1) = None" for m1 j r'
  proof -
    let ?f = "im_Fields m1 ! j"
    let ?x = "?K (if_Name ?f) (board_name owner) (map_or_new ?f)"
    note j = position_lt [OF that(3)]
    have "tidy sf (map_or_new ?f)"
      using that(2) j by (intro tidy_map_or_new) (simp add: tidy_iff list_all_length)
    moreover have "en_error ?x = None" using that(6) by (simp add: in_field_def Let_def)
    ultimately obtain p where p: "settled sf lo ix rest (Suc i) (if_Name ?f) (board_name owner) ?x p"
      using Cons.IH [OF rest] by blast
    have "settled sf lo ix ((a, s) # rest) i owner board r' (j # p)"
      by (rule settled_below [OF assms(1) s(1,2) _ that(1,2,3) refl p])
        (use none that p in \<open>simp_all add: in_field_def settled_def Let_def\<close>)
    then show ?thesis by (auto simp: e)
  qed
  show ?case
  proof (cases "position (field_accepts sf ix s) (im_Fields m)")
    case (Some j)
    let ?m1 = "set_Fields ((im_Fields m)[j := add_ref (path_ref refctx kp a) (im_Fields m ! j)]) m"
    note j = position_lt [OF Some]
    have m1: "tidy sf ?m1"
      using fs j tidy_fields_update [OF fs(1) j, of "add_ref (path_ref refctx kp a) (im_Fields m ! j)"]
      by (auto simp: tidy_set_Fields list_all_length nth_list_update)
    have "map if_Name (im_Fields ?m1) = map if_Name (im_Fields m)"
      using j by (simp add: map_update) (metis list_update_id map_update nth_map)
    then have pos: "position (field_accepts sf ix s) (im_Fields ?m1) = Some j"
      using position_names Some by metis
    show ?thesis
    proof (cases "rest = []")
      case True
      with settled_here [OF assms(1) s _ m1 pos, of i board lo a owner "[]"] none Some s show ?thesis
        by (auto simp: e Let_def)
    next
      case False
      with Cons.prems(4) none Some s have "\<not> is_array (im_Fields m ! j)"
        by (auto simp: e Let_def en_stop_def)
      then have r: "?r = at_field ?K [j] owner board ?m1"
        using False none Some s by (simp add: e Let_def del: at_field.simps)
      show ?thesis by (rule below [OF False m1 pos]) (use r Cons.prems(4) in simp_all)
    qed
  next
    case new: None
    let ?f = "add_ref (path_ref refctx kp a) (new_field s)" and ?j = "length (im_Fields m)"
    let ?m1 = "bump 1 (set_Fields (im_Fields m @ [?f]) m)"
    have "\<forall>g \<in> set (im_Fields m). field_key_of sf g \<noteq> makeFieldIndexKey sf s"
      using new by (simp add: position_key [OF assms(1) s(1) fs(1)] position_None)
    then have "tidy_fields sf (im_Fields m @ [?f])"
      by (intro tidy_fields_snoc [OF fs(1) s(1) head_error_underscore [OF none]]) simp_all
    then have m1: "tidy sf ?m1"
      using fs(2) by (simp add: tidy_set_Fields new_field_def)
    have "field_accepts sf ix s ?f"
      by (subst tidy_accepts [OF assms(1) s(1)]) (simp_all add: s field_key_of_def)
    then have pos: "position (field_accepts sf ix s) (im_Fields ?m1) = Some ?j"
      using new by (simp add: position_append)
    show ?thesis
    proof (cases "rest = []")
      case True
      with settled_here [OF assms(1) s _ m1 pos, of i board lo a owner "[[?j]]"] none new s show ?thesis
        by (auto simp: e Let_def)
    next
      case False
      have r: "?r = (at_field ?K [?j] owner board ?m1)\<lparr>en_created := [?j] # en_created (at_field ?K [?j] owner board ?m1)\<rparr>"
        using False none new s by (simp add: e Let_def del: at_field.simps)
      show ?thesis by (rule below [OF False m1 pos]) (use r Cons.prems(4) in \<open>simp_all del: at_field.simps\<close>)
    qed
  qed
qed

lemma ensureField_no_create: "en_created (ensureField sf lo ix refctx kp False es i owner board m) = []"
proof (induction es arbitrary: i owner board m)
  case Nil
  then show ?case by (simp add: en_stop_def)
next
  case (Cons e rest)
  have one: "en_created (at_field (ensureField sf lo ix refctx kp False rest (Suc i)) p owner board m) = []" for p owner board m
    by (induction p arbitrary: owner board m) (simp_all add: Cons.IH Let_def in_field_def)
  have all: "en_created (at_fields (ensureField sf lo ix refctx kp False rest (Suc i)) ps owner board m) = []" for ps owner board m
    by (induction ps arbitrary: m) (simp_all add: one en_then_def Let_def en_done_def)
  show ?case
    by (cases e) (auto simp: one all en_stop_def en_done_def Let_def simp del: at_field.simps split: option.split prod.split)
qed

end
