(* ===== verification/Grid_Search.thy ===== *)
theory Grid_Search
  imports Main
begin

text \<open>
  The search for the rows of a grid in \<^verbatim>\<open>d2layouts/d2grid/grid_search.go\<close>: \<^verbatim>\<open>iterDivisions\<close> runs through the
  ways to cut a sequence of objects into rows. The two callbacks have a state of their own, \<open>'s\<close>;
  \<open>cuts\<close> is the slice they borrow.
\<close>

function visit_divisions ::
  "(nat list \<Rightarrow> 's \<Rightarrow> bool \<times> 's) \<Rightarrow> (nat \<Rightarrow> nat \<Rightarrow> bool \<Rightarrow> 's \<Rightarrow> bool \<times> 's) \<Rightarrow>
   nat \<Rightarrow> nat \<Rightarrow> nat \<Rightarrow> nat list \<Rightarrow> 's \<Rightarrow> bool \<times> nat list \<times> 's" where
  "visit_divisions f check e0 0 index cuts s = (False, cuts, s)"
| "visit_divisions f check e0 (Suc r) 0 cuts s = (False, cuts, s)"
| "visit_divisions f check e0 (Suc r) (Suc i) cuts s =
    (if i < r then (False, cuts, s)
     else (case check (Suc i) e0 False s of
             (False, s1) \<Rightarrow> visit_divisions f check e0 (Suc r) i cuts s1
           | (True, s1) \<Rightarrow>
               (let cuts1 = cuts[r := i]
                in if 0 < r then
                     (case visit_divisions f check (Suc i) r i cuts1 s1 of
                        (True, cuts2, s2) \<Rightarrow> (True, cuts2, s2)
                      | (False, cuts2, s2) \<Rightarrow> visit_divisions f check e0 (Suc r) i cuts2 s2)
                   else (case check 0 (Suc i) True s1 of
                           (False, s2) \<Rightarrow> visit_divisions f check e0 (Suc r) i cuts1 s2
                         | (True, s2) \<Rightarrow>
                             (case f cuts1 s2 of
                                (True, s3) \<Rightarrow> (True, cuts1, s3)
                              | (False, s3) \<Rightarrow> visit_divisions f check e0 (Suc r) i cuts1 s3)))))"
  by pat_completeness auto
termination
  by (relation "measures [\<lambda>(f, check, e, r, i, c, s). r, \<lambda>(f, check, e, r, i, c, s). i]") auto

text \<open>The result is the state of the callbacks; \<open>visit(nObjects, nCuts)\<close> starts at \<open>nObjects - 1\<close>.\<close>

definition iterDivisions ::
  "nat \<Rightarrow> nat \<Rightarrow> (nat list \<Rightarrow> 's \<Rightarrow> bool \<times> 's) \<Rightarrow> (nat \<Rightarrow> nat \<Rightarrow> bool \<Rightarrow> 's \<Rightarrow> bool \<times> 's) \<Rightarrow> 's \<Rightarrow> 's" where
  "iterDivisions nObjects nCuts f check s =
    (if nObjects < 2 \<or> nCuts = 0 then s
     else snd (snd (visit_divisions f check nObjects nCuts (nObjects - 1) (replicate nCuts 0) s)))"

section \<open>Which divisions are visited\<close>

text \<open>
  Rows as the callback sees them: the cuts \<open>c\<close> are the last objects of the rows but the last one, in order.
\<close>

fun rows_ok :: "(nat \<Rightarrow> nat \<Rightarrow> bool \<Rightarrow> bool) \<Rightarrow> nat \<Rightarrow> nat list \<Rightarrow> bool" where
  "rows_ok ok e0 [] = ok 0 e0 True"
| "rows_ok ok e0 (c # cs) = (ok (Suc c) e0 False \<and> rows_ok ok (Suc c) cs)"

text \<open>\<open>cs\<close> lists the cuts from the last row backwards: they decrease, and each row has an object.\<close>

fun cuts_below :: "nat \<Rightarrow> nat list \<Rightarrow> bool" where
  "cuts_below e0 [] = True"
| "cuts_below e0 (c # cs) = (Suc c < e0 \<and> cuts_below (Suc c) cs)"

text \<open>The order of the search: the last cut from the right, then the one before it.\<close>

fun divisions :: "(nat \<Rightarrow> nat \<Rightarrow> bool \<Rightarrow> bool) \<Rightarrow> nat \<Rightarrow> nat \<Rightarrow> nat list list" where
  "divisions ok e0 0 = (if ok 0 e0 True then [[]] else [])"
| "divisions ok e0 (Suc r) =
    concat (map (\<lambda>i. if ok (Suc i) e0 False then map (\<lambda>d. d @ [i]) (divisions ok (Suc i) r) else [])
      (rev [r..<e0 - 1]))"

lemma divisions_set:
  "d \<in> set (divisions ok e0 r) \<longleftrightarrow> length d = r \<and> cuts_below e0 (rev d) \<and> rows_ok ok e0 (rev d)"
proof (induction r arbitrary: d e0)
  case (Suc r)
  show ?case
  proof
    assume "d \<in> set (divisions ok e0 (Suc r))"
    then obtain i e where "r \<le> i" "i < e0 - 1" "ok (Suc i) e0 False" "d = e @ [i]"
      "e \<in> set (divisions ok (Suc i) r)"
      by (auto split: if_splits)
    then show "length d = Suc r \<and> cuts_below e0 (rev d) \<and> rows_ok ok e0 (rev d)"
      using Suc.IH [of e "Suc i"] by auto
  next
    assume d: "length d = Suc r \<and> cuts_below e0 (rev d) \<and> rows_ok ok e0 (rev d)"
    then obtain e i where e: "d = e @ [i]" "length e = r" by (cases d rule: rev_cases) auto
    have low: "cuts_below n (rev xs) \<Longrightarrow> length xs < n \<or> xs = []" for xs :: "nat list" and n
    proof (induction xs arbitrary: n rule: rev_induct)
      case (snoc x xs)
      then show ?case by fastforce
    qed simp
    have "e \<in> set (divisions ok (Suc i) r)" using d e Suc.IH [of e "Suc i"] by simp
    moreover have "r \<le> i" using low [of "Suc i" e] d e by auto
    moreover have "i < e0 - 1" "ok (Suc i) e0 False" using d e by auto
    ultimately show "d \<in> set (divisions ok e0 (Suc r))"
      using e(1) by (force simp del: upt_Suc)
  qed
qed auto

lemma divisions_length: "d \<in> set (divisions ok e0 r) \<Longrightarrow> length d = r"
  by (simp add: divisions_set)

lemma distinct_concat_map:
  "distinct xs \<Longrightarrow> (\<And>x. x \<in> set xs \<Longrightarrow> distinct (g x)) \<Longrightarrow>
   (\<And>x y. x \<in> set xs \<Longrightarrow> y \<in> set xs \<Longrightarrow> x \<noteq> y \<Longrightarrow> set (g x) \<inter> set (g y) = {}) \<Longrightarrow> distinct (concat (map g xs))"
proof (induction xs)
  case (Cons x xs)
  then show ?case by fastforce
qed simp

lemma divisions_distinct: "distinct (divisions ok e0 r)"
proof (induction r arbitrary: e0)
  case (Suc r)
  show ?case
    unfolding divisions.simps
    by (rule distinct_concat_map) (auto simp: distinct_map inj_on_def Suc)
qed simp

section \<open>The search visits them\<close>

text \<open>
  With a check that does not change the state and a callback that records what it is given and never
  stops, the search records the divisions in order. The slots behind the one being cut stay as they are.
\<close>

definition recording :: "nat list \<Rightarrow> nat list list \<Rightarrow> bool \<times> nat list list" where
  "recording c s = (False, s @ [c])"

definition pure_check :: "(nat \<Rightarrow> nat \<Rightarrow> bool \<Rightarrow> bool) \<Rightarrow> nat \<Rightarrow> nat \<Rightarrow> bool \<Rightarrow> 's \<Rightarrow> bool \<times> 's" where
  "pure_check ok a b start s = (ok a b start, s)"

text \<open>The divisions with the last cut below \<open>i\<close>.\<close>

definition divisions_upto :: "(nat \<Rightarrow> nat \<Rightarrow> bool \<Rightarrow> bool) \<Rightarrow> nat \<Rightarrow> nat \<Rightarrow> nat \<Rightarrow> nat list list" where
  "divisions_upto ok e0 r i =
    concat (map (\<lambda>i. if ok (Suc i) e0 False then map (\<lambda>d. d @ [i]) (divisions ok (Suc i) r) else []) (rev [r..<i]))"

lemma divisions_upto_Suc:
  "divisions_upto ok e0 r (Suc i) =
    (if i < r then []
     else (if ok (Suc i) e0 False then map (\<lambda>d. d @ [i]) (divisions ok (Suc i) r) else []) @ divisions_upto ok e0 r i)"
  by (simp add: divisions_upto_def)

lemma divisions_Suc: "divisions ok e0 (Suc r) = divisions_upto ok e0 r (e0 - 1)"
  by (simp add: divisions_upto_def)

lemma divisions_upto_small: "i \<le> r \<Longrightarrow> divisions_upto ok e0 r i = []"
  by (simp add: divisions_upto_def)

definition records ::
  "(nat \<Rightarrow> nat \<Rightarrow> bool \<Rightarrow> bool) \<Rightarrow> nat \<Rightarrow> nat \<Rightarrow> nat \<Rightarrow> nat list \<Rightarrow> nat list list \<Rightarrow> bool" where
  "records ok e0 r i cuts s \<longleftrightarrow>
    (\<exists>cuts'. visit_divisions recording (pure_check ok) e0 (Suc r) i cuts s =
        (False, cuts', s @ map (\<lambda>d. d @ drop (Suc r) cuts) (divisions_upto ok e0 r i)) \<and>
      length cuts' = length cuts \<and> drop (Suc r) cuts' = drop (Suc r) cuts)"

lemma drop_update: "r < length cuts \<Longrightarrow> drop r (cuts[r := i]) = i # drop (Suc r) cuts"
  by (simp add: drop_update_cancel Cons_nth_drop_Suc [symmetric] drop_update_swap)

lemma records_step:
  assumes "Suc r \<le> length cuts" "r \<le> i"
    and "\<And>cuts s. Suc r \<le> length cuts \<Longrightarrow> records ok e0 r i cuts s"
    and "\<And>q cuts s. r = Suc q \<Longrightarrow> Suc q \<le> length cuts \<Longrightarrow> records ok (Suc i) q i cuts s"
  shows "records ok e0 r (Suc i) cuts s"
proof (cases "ok (Suc i) e0 False")
  case False
  then show ?thesis
    using assms(1,2) assms(3) [of cuts s] by (simp add: records_def pure_check_def divisions_upto_Suc)
next
  case True
  let ?cuts = "cuts[r := i]"
  have d: "drop r ?cuts = i # drop (Suc r) cuts" using assms(1) by (simp add: drop_update)
  show ?thesis
  proof (cases r)
    case 0
    then have c: "?cuts = i # drop (Suc 0) cuts" using d by simp
    show ?thesis
    proof (cases "ok 0 (Suc i) True")
      case ok0: True
      show ?thesis
        using 0 True ok0 assms(1) assms(3) [of ?cuts "s @ [?cuts]"] c
        by (simp add: records_def pure_check_def recording_def divisions_upto_Suc Let_def)
    next
      case False
      then show ?thesis
        using 0 True assms(1) assms(3) [of ?cuts s] c
        by (simp add: records_def pure_check_def divisions_upto_Suc Let_def)
    qed
  next
    case (Suc q)
    have "records ok (Suc i) q i ?cuts s" using assms(1,4) Suc by simp
    then obtain cuts2 where v: "visit_divisions recording (pure_check ok) (Suc i) r i ?cuts s =
        (False, cuts2, s @ map (\<lambda>d. d @ drop r ?cuts) (divisions ok (Suc i) r))"
      and l: "length cuts2 = length cuts" "drop r cuts2 = drop r ?cuts"
      using Suc by (auto simp: records_def divisions_Suc simp del: divisions.simps)
    have "drop (Suc r) cuts2 = drop (Suc r) cuts"
      using l(2) d by (metis drop_Suc list.sel(3) tl_drop)
    then show ?thesis
      using assms(1,2) assms(3) [of cuts2 "s @ map (\<lambda>d. d @ drop r ?cuts) (divisions ok (Suc i) r)"] v l d True Suc
      by (simp add: records_def pure_check_def divisions_upto_Suc comp_def Let_def del: divisions.simps)
  qed
qed

lemma records_row:
  assumes "\<And>q j cuts s. r = Suc q \<Longrightarrow> Suc q \<le> length cuts \<Longrightarrow> records ok (Suc j) q j cuts s"
    and "Suc r \<le> length cuts"
  shows "records ok e0 r i cuts s"
  using assms(2)
proof (induction i arbitrary: cuts s)
  case 0
  then show ?case by (simp add: records_def divisions_upto_small)
next
  case (Suc i)
  show ?case
  proof (cases "r \<le> i")
    case True
    show ?thesis
      by (rule records_step [OF Suc.prems True Suc.IH assms(1)])
  next
    case False
    then show ?thesis by (simp add: records_def divisions_upto_small)
  qed
qed

lemma visit_records: "Suc r \<le> length cuts \<Longrightarrow> records ok e0 r i cuts s"
proof (induction r arbitrary: e0 i cuts s)
  case 0
  show ?case by (rule records_row [OF _ 0]) simp
next
  case (Suc r)
  have "records ok (Suc j) q j cuts s" if "Suc r = Suc q" "Suc q \<le> length cuts" for q j cuts s
  proof -
    have "q = r" using that(1) by simp
    with that(2) show ?thesis using Suc.IH by simp
  qed
  then show ?case by (rule records_row [OF _ Suc.prems])
qed

lemma iterDivisions_records:
  "iterDivisions n (Suc r) recording (pure_check ok) s = s @ divisions ok n (Suc r)"
proof (cases "n < 2")
  case True
  then have "n - 1 = 0" by simp
  with True show ?thesis by (simp add: iterDivisions_def)
next
  case False
  then show ?thesis
    using visit_records [of r "replicate (Suc r) 0" ok n "n - 1" s]
    by (auto simp: iterDivisions_def records_def divisions_Suc simp del: divisions.simps)
qed

end
