(* ===== verification/Ir_Properties.thy ===== *)
theory Ir_Properties
  imports Ir_Index Ir_Pattern Ir_Glob Ir_Reserve Ir_Path Ir_Ensure Grid_Search
begin

text \<open>
  The properties of the intermediate representation (\<^verbatim>\<open>d2ir\<close>), of comparing keys (\<^verbatim>\<open>d2ast\<close>) and of the
  grid search (\<^verbatim>\<open>d2layouts/d2grid\<close>), each with its witness, and a few inputs on which the code surprises.
\<close>

section \<open>Values for the witnesses\<close>

definition flat :: "string \<Rightarrow> string_node" where
  "flat s = FlatUnquotedString (runes s)"

section \<open>Properties\<close>



text \<open>
  C4. The derived indexes refine the lists they are derived from: after any sequence of lookups, appends, removals and
  insertions of fields whose name is not there yet, the only insertions \<^verbatim>\<open>expandSubstitution\<close> makes,
  \<^verbatim>\<open>lookupField\<close> finds what the linear scan of the fields finds, and \<^verbatim>\<open>getEdgesIndexed\<close> the edges a scan finds, in
  order, as long as neither the names of the fields nor the name looked up hold LATIN SMALL LETTER LONG S. Both
  conditions are needed: \<open>insert_present_differs\<close> and \<open>lookups_differ\<close> show what happens otherwise.
\<close>

theorem map_index_refines:
  assumes "fold_ok sf" "tables_reach sf m" "0x17F \<notin> set (string_ScalarString s)"
    and "\<forall>f \<in> set (Fields m). \<forall>n. ptr_name f = Some n \<longrightarrow> 0x17F \<notin> set (string_ScalarString n)"
  shows "fst (lookupField sf s m) = linear_field sf s (Fields m) \<and>
    fst (getEdgesIndexed_here sf eid m) = filter (ptr_match sf eid) (Edges m)"
  using lookupField_scan [OF tables_reach_ok [OF assms(2)], of s]
    getEdgesIndexed_scan [OF tables_reach_ok [OF assms(2)], of eid]
    linear_field_scan [OF assms(1,3), of "Fields m"] bucket_complete [OF assms(1)] assms(4)
  by simp

definition fresh_tables :: map_tables where
  "fresh_tables = \<lparr>Fields = [], fieldIndex = None, fieldIndexSize = 0, Edges = [], edgeIndex = None,
    edgeIndexSize = 0, versions = [0]\<rparr>"

definition named_ptr :: "nat \<Rightarrow> string \<Rightarrow> string_node ptr" where
  "named_ptr a s = Some (Pointer a (Some (flat s)))"

theorem map_index_refines_witness:
  "fst (lookupField ascii_simple_fold (flat ''A'')
     (appendField ascii_simple_fold (named_ptr 2 ''a'') (appendField ascii_simple_fold (named_ptr 1 ''b'') fresh_tables))) =
   named_ptr 2 ''a''"
proof -
  let ?m = "appendField ascii_simple_fold (named_ptr 2 ''a'')
    (appendField ascii_simple_fold (named_ptr 1 ''b'') fresh_tables)"
  have "tables_reach ascii_simple_fold fresh_tables"
    by (rule tables_reach.fresh) (simp_all add: fresh_tables_def)
  then have reach: "tables_reach ascii_simple_fold ?m"
    by (meson tables_reach.step tables_step.append)
  have fields: "Fields ?m = [named_ptr 1 ''b'', named_ptr 2 ''a'']"
    by code_simp
  have "0x17F \<notin> set (string_ScalarString (flat ''A''))"
    "\<forall>f \<in> set (Fields ?m). \<forall>n. ptr_name f = Some n \<longrightarrow> 0x17F \<notin> set (string_ScalarString n)"
    unfolding fields
    by (simp_all add: named_ptr_def ptr_name_def flat_def FlatUnquotedString_def text_box_def boxes_String_def)
  moreover have "linear_field ascii_simple_fold (flat ''A'') [named_ptr 1 ''b'', named_ptr 2 ''a''] = named_ptr 2 ''a''"
    by code_simp
  ultimately show ?thesis
    using map_index_refines [OF ascii_fold_ok reach] fields by metis
qed

text \<open>
  C32. Two edges have the same index key exactly when one matches the other without its index: the same
  paths up to case and reserved quoting and the same arrows, in the same or the opposite direction.
\<close>

theorem edge_key_iff_Match:
  assumes "fold_ok sf"
  shows "makeEdgeIndexKey sf e = makeEdgeIndexKey sf e2 \<longleftrightarrow> edge_Match sf (e\<lparr>eid_Index := None\<rparr>) e2"
  by (rule makeEdgeIndexKey_Match [OF assms])

definition sample_edge :: edge_id where
  "sample_edge = \<lparr>eid_SrcPath = [flat ''a''], eid_SrcArrow = False, eid_DstPath = [flat ''B''],
    eid_DstArrow = True, eid_Index = Some 0, eid_Glob = False\<rparr>"

theorem edge_key_iff_Match_witness:
  "makeEdgeIndexKey ascii_simple_fold sample_edge =
   makeEdgeIndexKey ascii_simple_fold \<lparr>eid_SrcPath = [flat ''b''], eid_SrcArrow = True,
     eid_DstPath = [flat ''A''], eid_DstArrow = False, eid_Index = None, eid_Glob = False\<rparr>"
  unfolding edge_key_iff_Match [OF ascii_fold_ok] by code_simp

text \<open>
  C33. The two lookups of a field agree on a tree whose maps have named fields with distinct keys and no
  LATIN SMALL LETTER LONG S in a name: \<^verbatim>\<open>getFieldIndexed\<close> finds what \<^verbatim>\<open>getFieldLinear\<close> finds, for a path
  of any length.
\<close>

theorem field_lookups_agree:
  assumes "fold_ok sf" "tidy sf m" "list_all plain_name ida"
  shows "getFieldIndexed sf ida m = getFieldLinear sf ida (im_Fields m)"
  by (rule getField_agree [OF assms])

definition leaf :: "string \<Rightarrow> ir_field" where
  "leaf s = IField (Some (flat s)) None None [] False None"

definition holder :: "string \<Rightarrow> ir_field list \<Rightarrow> ir_field" where
  "holder s fs = IField (Some (flat s)) None (Some (MapC (IMap fs [] 0 None))) [] False None"

definition sample_map :: ir_map where
  "sample_map = IMap [leaf ''x'', holder ''Y'' [leaf ''z'']] [] 0 None"

theorem field_lookups_agree_witness:
  "getFieldIndexed ascii_simple_fold [flat ''y'', flat ''z''] sample_map = Some (leaf ''z'') \<and>
   getFieldLinear ascii_simple_fold [flat ''y'', flat ''z''] (im_Fields sample_map) = Some (leaf ''z'')"
proof -
  have "tidy ascii_simple_fold sample_map" "list_all plain_name [flat ''y'', flat ''z'']"
    by code_simp+
  moreover have "getFieldIndexed ascii_simple_fold [flat ''y'', flat ''z''] sample_map = Some (leaf ''z'')"
    by code_simp
  ultimately show ?thesis
    using field_lookups_agree [OF ascii_fold_ok, of sample_map "[flat ''y'', flat ''z'']"] by simp
qed

text \<open>
  C15. Overlaying a map leaves every name as the overlay says: a name of the overlay alone becomes a copy
  of its field, a name of both the base field overlaid with the other, a name of the base alone its
  field; the fields of the base keep their places and the new ones follow in the order of the overlay.
\<close>

theorem overlay_lookup:
  assumes "overlayMap sf True om base = Some (m, k)" "names_ok sf (im_Fields om)" "names_ok sf (im_Fields base)"
  shows "getFieldIndexed sf [s] m =
      overlaid sf (getFieldIndexed sf [s] base) (getFieldIndexed sf [s] om) \<and>
    names_ok sf (im_Fields m) \<and>
    map (field_key_of sf) (im_Fields m) = map (field_key_of sf) (im_Fields base) @
      filter (\<lambda>x. x \<notin> field_key_of sf ` set (im_Fields base)) (map (field_key_of sf) (im_Fields om))"
proof (cases om)
  case (IMap fs es v i)
  with assms(1) obtain m1 k1 where m1: "overlay_fields sf True fs base = Some (m1, k1)"
    "im_Fields m = im_Fields m1"
    by (auto split: option.splits prod.splits dest: overlay_edges_Fields)
  have key: "by_key sf (im_Fields m1) q = overlaid sf (by_key sf (im_Fields base) q) (by_key sf fs q)"
    and names: "names_ok sf (im_Fields m1)" for q
    using overlay_fields_by_key [OF m1(1) _ assms(3)] assms(2) IMap by simp_all
  have get: "getFieldIndexed sf [s] x = (if is_underscore s then None
      else by_key sf (im_Fields x) (makeFieldIndexKey sf s))" if "names_ok sf (im_Fields x)" for x
    by (simp add: find_by_key [OF that] split: option.split)
  have found: "getFieldIndexed sf [s] m =
      overlaid sf (getFieldIndexed sf [s] base) (getFieldIndexed sf [s] om)"
    using get [of m] get [of base] get [of om] assms(2,3) names m1(2) key IMap by (simp add: overlaid_def)
  have order: "map (field_key_of sf) (im_Fields m) = map (field_key_of sf) (im_Fields base) @
      filter (\<lambda>x. x \<notin> field_key_of sf ` set (im_Fields base)) (map (field_key_of sf) (im_Fields om))"
    using overlay_fields_by_key [OF m1(1) _ assms(3)] assms(2) IMap m1(2) by simp
  show ?thesis using found names order m1(2) by simp
qed

theorem overlay_lookup_witness:
  "\<exists>m k. overlayMap ascii_simple_fold True sample_map (IMap [leaf ''y''] [] 0 None) = Some (m, k) \<and>
    getFieldIndexed ascii_simple_fold [flat ''X''] m = Some (leaf ''x'') \<and>
    map (field_key_of ascii_simple_fold) (im_Fields m) = map (field_key_of ascii_simple_fold) [leaf ''y'', leaf ''x'']"
proof -
  let ?base = "IMap [leaf ''y''] [] 0 None"
  have "overlayMap ascii_simple_fold True sample_map ?base \<noteq> None"
    by code_simp
  then obtain m k where m: "overlayMap ascii_simple_fold True sample_map ?base = Some (m, k)"
    by auto
  have "names_ok ascii_simple_fold (im_Fields sample_map)" "names_ok ascii_simple_fold (im_Fields ?base)"
    by code_simp+
  note r = overlay_lookup [OF m this, of "flat ''X''"]
  have "overlaid ascii_simple_fold (getFieldIndexed ascii_simple_fold [flat ''X''] ?base)
      (getFieldIndexed ascii_simple_fold [flat ''X''] sample_map) = Some (leaf ''x'')"
    "map (field_key_of ascii_simple_fold) (im_Fields ?base) @
      filter (\<lambda>x. x \<notin> field_key_of ascii_simple_fold ` set (im_Fields ?base))
        (map (field_key_of ascii_simple_fold) (im_Fields sample_map)) =
     map (field_key_of ascii_simple_fold) [leaf ''y'', leaf ''x'']"
    by code_simp+
  with m r show ?thesis by simp
qed

text \<open>
  An overlay whose fields are named and whose edges name no common container always returns, and the
  version of the base map grows by one for each change to its structure.
\<close>

theorem overlay_returns:
  assumes "ov_map sf om"
  shows "\<exists>m k. overlayMap sf True om base = Some (m, k) \<and> im_version m = im_version base + of_nat k"
  using overlay_total(1) [OF assms, of base] overlay_version by metis

theorem overlay_returns_witness:
  "\<exists>m k. overlayMap ascii_simple_fold True sample_map sample_map = Some (m, k) \<and> im_version m = of_nat k"
proof -
  have "ov_map ascii_simple_fold sample_map" by code_simp
  from overlay_returns [OF this, of sample_map] show ?thesis by (simp add: sample_map_def)
qed

text \<open>
  C14. Resolving an edge keeps the absolute paths of its ends: from a map whose outer fields are \<open>up\<close>, the
  identifier is moved up as many maps as the longer run of underscores says and the common containers are
  split off, so that map, containers and what is left spell the path each end had. With more underscores
  than maps it is the error \<open>invalid underscore\<close>. All this holds for two paths that each have a part other than
  underscores, and then there is no panic; \<open>underscore_path_panics\<close> shows one for a path without such a part.
\<close>

theorem edge_resolve_paths:
  assumes "path_ok (eid_SrcPath e)" "path_ok (eid_DstPath e)" "list_all (\<lambda>s. \<not> is_underscore s) up"
  shows "case edge_resolve sf up e of
      GoOk (e', k, common) \<Rightarrow>
        k = max (countUnderscores (eid_SrcPath e)) (countUnderscores (eid_DstPath e)) \<and> k \<le> length up \<and>
        rev (drop k up) @ common @ eid_SrcPath e' = abs_path up (eid_SrcPath e) \<and>
        (\<exists>common2. edgePathEqual sf common common2 \<and>
           rev (drop k up) @ common2 @ eid_DstPath e' = abs_path up (eid_DstPath e))
    | GoErr msg \<Rightarrow>
        msg = runes ''invalid underscore'' \<and>
        length up < max (countUnderscores (eid_SrcPath e)) (countUnderscores (eid_DstPath e))
    | GoPanic \<Rightarrow> False"
proof -
  let ?s = "countUnderscores (eid_SrcPath e)" and ?d = "countUnderscores (eid_DstPath e)"
  let ?n = "max ?s ?d"
  show ?thesis
  proof (cases "?n \<le> length up")
    case True
    let ?src = "lifted ?n up (eid_SrcPath e)" and ?dst = "lifted ?n up (eid_DstPath e)"
    have up: "resolve_up ?n up 0 e = GoOk (e\<lparr>eid_SrcPath := ?src, eid_DstPath := ?dst\<rparr>, ?n)"
      using resolve_up_lifted [OF assms(1,2) _ _ True assms(3), of 0] by simp
    obtain src dst common where c: "resolve_common sf ?src ?dst [] = (src, dst, common)"
      by (metis prod_cases3)
    with resolve_common_paths [OF c] show ?thesis
      using True lifted_abs [of "eid_SrcPath e" ?n up] lifted_abs [of "eid_DstPath e" ?n up]
      by (auto simp: edge_resolve_def up)
  next
    case False
    then have less: "length up < ?n" by linarith
    have "resolve_up ?n up 0 e = GoErr (runes ''invalid underscore'')"
      by (rule resolve_up_error [OF assms(1,2) _ _ less assms(3)]) simp_all
    with less show ?thesis by (simp only: edge_resolve_def go_res.case simp_thms)
  qed
qed

theorem edge_resolve_paths_witness:
  "\<exists>e' k common. edge_resolve ascii_simple_fold [flat ''c'', flat ''d'']
     (sample_edge\<lparr>eid_SrcPath := [flat ''_'', flat ''x'', flat ''a''], eid_DstPath := [flat ''y'']\<rparr>) =
       GoOk (e', k, common) \<and>
     [flat ''d''] @ common @ eid_SrcPath e' = [flat ''d'', flat ''x'', flat ''a'']"
proof -
  let ?e = "sample_edge\<lparr>eid_SrcPath := [flat ''_'', flat ''x'', flat ''a''], eid_DstPath := [flat ''y'']\<rparr>"
  let ?up = "[flat ''c'', flat ''d'']"
  have ok: "path_ok (eid_SrcPath ?e)" "path_ok (eid_DstPath ?e)" "list_all (\<lambda>s. \<not> is_underscore s) ?up"
    by code_simp+
  have facts: "countUnderscores (eid_SrcPath ?e) = 1" "countUnderscores (eid_DstPath ?e) = 0"
    "abs_path ?up (eid_SrcPath ?e) = [flat ''d'', flat ''x'', flat ''a'']"
    by code_simp+
  show ?thesis
    using edge_resolve_paths [OF ok, of ascii_simple_fold] unfolding facts
    by (auto split: go_res.splits)
qed

text \<open>
  C31. The expansion budgets are never overdrawn, whatever is reserved in whatever order: from the state a
  compilation starts with, each budget stays between zero and its limit, the edge budget counts the
  distinct pairs of edges expanded so far, and the compiler has halted exactly if an error was recorded.
  Once it has halted nothing more is charged.
\<close>

theorem reservations_bounded:
  assumes "initial_reserve v g e w = Inr c0" "v \<le> max_int" "g \<le> max_int" "e \<le> max_int" "w \<le> max_int"
    and "reserve_steps poll c0 c"
  shows "reserve_ok c \<and> (\<forall>c'. rs_halted c \<longrightarrow> reserve_steps poll c c' \<longrightarrow> c' = c)"
  using reserve_steps_ok [OF assms(6) initial_ok [OF assms(1-5)]] halted_steps by blast

theorem reservations_bounded_witness:
  "\<exists>c0. initial_reserve 10 10 10 10 = Inr c0 \<and>
     reserve_ok (snd (reserveVariableExpansion (\<lambda>k. None) None 11 (snd (reserveGlobField (\<lambda>k. None) None c0))))"
proof -
  obtain c0 where c0: "initial_reserve 10 10 10 10 = Inr c0"
    by (simp add: initial_reserve_def newVariableExpansionBudget_def newGlobExpansionBudget_def
        newEdgeExpansionBudget_def newEdgeExpansionWorkBudget_def new_budget_def)
  have "reserve_steps (\<lambda>k. None) c0
    (snd (reserveVariableExpansion (\<lambda>k. None) None 11 (snd (reserveGlobField (\<lambda>k. None) None c0))))"
    by (meson reserve_step.intros rtranclp.rtrancl_into_rtrancl rtranclp.rtrancl_refl)
  from reservations_bounded [OF c0 _ _ _ _ this] c0 show ?thesis
    by (simp add: max_int_def)
qed

text \<open>
  Charging a copy charges every node of it once: without a context error the walk fails exactly if
  the units of all nodes under the root exceed what is left of the budget, and otherwise uses just those.
\<close>

theorem copy_charge:
  assumes "budget_ok b"
  shows "fst (walkVariableExpansion (\<lambda>k. None) 0 err [n] b) =
      (if b_used b + total_units n \<le> b_limit b then None else Some (err (b_limit b))) \<and>
    (b_used b + total_units n \<le> b_limit b \<longrightarrow>
      snd (walkVariableExpansion (\<lambda>k. None) 0 err [n] b) = b\<lparr>b_used := b_used b + total_units n\<rparr>)"
  using walk_total [OF assms, where ctx = "\<lambda>k. None" and k = 0 and err = err and stack = "[n]"] by simp

theorem copy_charge_witness:
  "fst (walkVariableExpansion (\<lambda>k. None) 0 VariableExpansionLimit [NodeMap sample_map]
     \<lparr>b_limit = 2, b_used = 0\<rparr>) = Some (VariableExpansionLimit 2)"
proof -
  have "budget_ok \<lparr>b_limit = 2, b_used = 0\<rparr>" "\<not> total_units (NodeMap sample_map) \<le> 2"
    by code_simp+
  then show ?thesis
    using copy_charge [of "\<lparr>b_limit = 2, b_used = 0\<rparr>" VariableExpansionLimit "NodeMap sample_map"] by simp
qed

text \<open>
  C37. Deleting the edges of a deleted field removes exactly the edges that refer to a context of one of
  its references, and keeps the others in order, if no two edges match each other and no context is the
  context of more than one of them.
\<close>

theorem delete_edges_exact:
  assumes "ids_ok sf es" "\<forall>fr \<in> set frs. length (filter (refers (fr_Context fr)) es) \<le> 1"
  shows "delete_for_refs sf frs es =
    Some (filter (\<lambda>e. \<not> list_ex (\<lambda>fr. refers (fr_Context fr) e) frs) es)"
  by (rule delete_for_refs_filter [OF assms(1)]) (use assms(2) in blast)

definition context_at :: "nat \<Rightarrow> ref_context option" where
  "context_at a = Some \<lparr>rc_addr = a, rc_Edge = None, rc_Key = None, rc_Scope = None, rc_ScopeMap = None,
    rc_ScopeAST = None\<rparr>"

definition edge_from :: "string \<Rightarrow> string \<Rightarrow> nat \<Rightarrow> ir_edge" where
  "edge_from src dst a =
    IEdge (Some (sample_edge\<lparr>eid_SrcPath := [flat src], eid_DstPath := [flat dst]\<rparr>)) None None
      [\<lparr>er_Context = context_at a, er_DueToGlob = False, er_DueToLazyGlob = False\<rparr>] False None"

definition ref_at :: "nat \<Rightarrow> field_ref" where
  "ref_at a = \<lparr>fr_String = None, fr_KeyPath = None, fr_Context = context_at a, fr_DueToGlob = False,
    fr_DueToLazyGlob = False\<rparr>"

theorem delete_edges_exact_witness:
  "delete_for_refs ascii_simple_fold [ref_at 2]
     [edge_from ''a'' ''b'' 1, edge_from ''a'' ''c'' 2, edge_from ''b'' ''c'' 3] =
   Some [edge_from ''a'' ''b'' 1, edge_from ''b'' ''c'' 3]"
proof -
  let ?es = "[edge_from ''a'' ''b'' 1, edge_from ''a'' ''c'' 2, edge_from ''b'' ''c'' 3]"
  have "ids_ok ascii_simple_fold ?es"
    "\<forall>fr \<in> set [ref_at 2]. length (filter (refers (fr_Context fr)) ?es) \<le> 1"
    "filter (\<lambda>e. \<not> list_ex (\<lambda>fr. refers (fr_Context fr) e) [ref_at 2]) ?es =
      [edge_from ''a'' ''b'' 1, edge_from ''b'' ''c'' 3]"
    by code_simp+
  then show ?thesis using delete_edges_exact [of ascii_simple_fold ?es "[ref_at 2]"] by simp
qed

text \<open>
  C38. Replaying a glob toward one target finds what the full replay finds in the branch of the target,
  in the same order: \<^verbatim>\<open>multiGlobMatchesToward\<close> is \<^verbatim>\<open>multiGlob\<close> restricted to that branch.
\<close>

theorem glob_branch_replay:
  assumes "j < length fs"
  shows "multiGlobMatchesToward no_visit owner (j # q) pattern fs () =
    (filter (\<lambda>p. hd p = j) (fst (fst (multiGlob no_visit owner pattern fs ()))), ())"
  using found_branch [OF assms, of 0]
  by (cases "pattern_kind pattern")
    (simp_all add: multiGlobMatchesToward_def multiGlob_def glob_fields_eq found_field_def prod_eq_iff
      split: prod.split)

theorem glob_branch_replay_witness:
  "multiGlobMatchesToward no_visit None [1, 0] [rStarStr, [], rStarStr] (im_Fields sample_map) () = ([[1], [1, 0]], ())"
proof -
  have "1 < length (im_Fields sample_map)"
    "filter (\<lambda>p. hd p = 1) (fst (fst (multiGlob no_visit None [rStarStr, [], rStarStr] (im_Fields sample_map) ()))) =
      [[1], [1, 0]]"
    by code_simp+
  then show ?thesis
    using glob_branch_replay [of 1 "im_Fields sample_map" None "[0]" "[rStarStr, [], rStarStr]"] by simp
qed

text \<open>
  The grid search tries each way to cut the objects into rows that passes the checks exactly once:
  the divisions it visits are distinct and are all lists of as many cuts, increasing from row to row,
  whose rows the checks accept.
\<close>

theorem iterDivisions_complete:
  "distinct (iterDivisions n (Suc r) recording (pure_check ok) []) \<and>
    (\<forall>d. d \<in> set (iterDivisions n (Suc r) recording (pure_check ok) []) \<longleftrightarrow>
      length d = Suc r \<and> cuts_below n (rev d) \<and> rows_ok ok n (rev d))"
  unfolding iterDivisions_records by (simp add: divisions_set divisions_distinct del: divisions.simps)

text \<open>
  \<^verbatim>\<open>Key.Equals\<close> holds of a key and a copy of it, down to the keys of its maps, when its edges have both ends
  and its edge index, if any, is the star: numbers of edge indexes are compared by address.
\<close>

theorem key_Equals_reflexive:
  assumes "comparable k"
  shows "key_Equals k k = Some True"
  by (rule Equals_refl(1) [OF assms refl])

definition sample_key :: key where
  "sample_key = Key range0 False False (Some (KeyPath range0 [flat ''a''])) [] None None None
    (Some (MapV (Map range0 [KeyN (Key range0 False False (Some (KeyPath range0 [flat ''b''])) [] None None None
      (Some (ScalarV (String (flat ''c'')))))])))"

theorem key_Equals_reflexive_witness: "key_Equals sample_key sample_key = Some True"
  by (rule key_Equals_reflexive) code_simp

text \<open>
  The paths of a node fit together: \<^verbatim>\<open>BoardIDA\<close> is the end of \<^verbatim>\<open>IDA\<close>, and \<^verbatim>\<open>IDA\<close> of a node below a
  field, with no edge between, is \<^verbatim>\<open>IDA\<close> of the field followed by \<^verbatim>\<open>RelIDA\<close> of the node relative to it.
\<close>

theorem node_paths_compose:
  assumes "IDA (xs @ p # up) = Some full" "xs \<noteq> []" "is_FieldL p" "list_all (\<lambda>l. \<not> is_EdgeL l) xs"
  shows "(\<exists>above b. BoardIDA (xs @ p # up) = Some b \<and> full = above @ b) \<and>
    (\<exists>i r. IDA (p # up) = Some i \<and> RelIDA (Suc (length up)) (xs @ p # up) = Some r \<and> full = i @ r)"
  using BoardIDA_suffix [OF assms(1)] RelIDA_IDA [OF assms(2-4,1)] by blast

definition field_link :: "string \<Rightarrow> link" where
  "field_link s = FieldL (flat s) None None"

definition sample_chain :: chain where
  "sample_chain = [field_link ''z'', MapL sample_map, field_link ''y'', MapL sample_map, field_link ''root'']"

theorem node_paths_compose_witness:
  "IDA sample_chain = Some [flat ''root'', flat ''y'', flat ''z''] \<and>
   (\<exists>i. IDA [field_link ''y'', MapL sample_map, field_link ''root''] = Some i \<and>
     RelIDA 3 sample_chain = Some [flat ''z''] \<and> i @ [flat ''z''] = [flat ''root'', flat ''y'', flat ''z''])"
proof -
  have ida: "IDA sample_chain = Some [flat ''root'', flat ''y'', flat ''z'']" by code_simp
  have rel: "RelIDA 3 sample_chain = Some [flat ''z'']" by code_simp
  show ?thesis
    using node_paths_compose [of "[field_link ''z'', MapL sample_map]" "field_link ''y''"
        "[MapL sample_map, field_link ''root'']"] ida rel
    by (auto simp: sample_chain_def field_link_def numeral_3_eq_3)
qed

text \<open>
  The name of an edge is the text of its identifier: the two paths as \<^verbatim>\<open>FormatKeyPath\<close> prints them,
  with the arrow between, in parentheses, and the index, whatever the edge holds. A copy has the syntax
  of the original.
\<close>

theorem edge_name_text:
  assumes "edge_AST e up \<noteq> None" "ie_ID e = Some eid" "eid_Index eid = Some i"
  shows "(\<exists>src dst. FormatKeyPath (eid_SrcPath eid) = Some src \<and> FormatKeyPath (eid_DstPath eid) = Some dst \<and>
      IDString e up = Some (FlatUnquotedString
        ([rLPar] @ src @ [rSp] @ arrow_text eid @ [rSp] @ dst @ [rRPar, rLBr] @ itoa i @ [rRBr]))) \<and>
    edge_AST (copy_edge e) up = edge_AST e up"
  using IDString_text [OF assms] AST_copy(5) by simp

theorem edge_name_text_witness:
  "IDString (edge_from ''a'' ''b'' 1) None = Some (flat ''(a -> b)[0]'')"
proof -
  let ?e = "edge_from ''a'' ''b'' 1"
  have e: "edge_AST ?e None \<noteq> None" "ie_ID ?e = Some (the (ie_ID ?e))" "eid_Index (the (ie_ID ?e)) = Some 0"
    by code_simp+
  have texts: "FormatKeyPath (eid_SrcPath (the (ie_ID ?e))) = Some (runes ''a'')"
    "FormatKeyPath (eid_DstPath (the (ie_ID ?e))) = Some (runes ''b'')"
    "arrow_text (the (ie_ID ?e)) = runes ''->''" "itoa 0 = runes ''0''"
    by code_simp+
  show ?thesis
    using edge_name_text [OF e] texts by (simp add: flat_def)
qed

text \<open>
  C24. Ensuring a path keeps the books of the tree: from any map of it, as many fields come to be as are reported
  as created, also when it ends in an error, no edge does, the version grows by as much, and what was reached
  by a path before still is. Without permission to create, nothing is created.
\<close>

theorem ensure_keeps_counts:
  assumes "valid_path here m" "EnsureField sf lo indexed refctx kp create es here m = r"
  shows "FieldCountRecursive (en_map r) = FieldCountRecursive m + length (en_created r) \<and>
    EdgeCountRecursive (en_map r) = EdgeCountRecursive m \<and>
    im_version (en_map r) = im_version m + of_nat (length (en_created r)) \<and>
    (\<forall>p. valid_path p m \<longrightarrow> valid_path p (en_map r))"
  using EnsureField_grows [OF assms(1), of sf lo indexed refctx kp create es] assms(2)
  by (auto simp: grown_map_def)

definition elems :: "string list \<Rightarrow> key_elem list" where
  "elems ss = map (\<lambda>s. (0, flat s)) ss"

theorem ensure_keeps_counts_witness:
  "FieldCountRecursive (en_map (EnsureField ascii_simple_fold lower_rune True None 0 True (elems [''_'', ''x'', ''n'']) [1] sample_map)) = 4"
proof -
  have "valid_path [1] sample_map" "FieldCountRecursive sample_map = 3"
    "length (en_created (EnsureField ascii_simple_fold lower_rune True None 0 True (elems [''_'', ''x'', ''n'']) [1] sample_map)) = 1"
    by code_simp+
  then show ?thesis
    using ensure_keeps_counts [of "[1]" sample_map ascii_simple_fold lower_rune True None 0 True "elems [''_'', ''x'', ''n'']"]
    by simp
qed

text \<open>
  C16. A path of plain names that can be created denotes one field afterwards: it is reported as found, the index
  finds it by the names, ensuring it again without creating finds the same field and changes nothing, and the
  tree stays tidy.
\<close>

theorem ensured_is_found:
  assumes "fold_ok sf" "plain_elems es" "list_all (\<lambda>e. string_Pattern (snd e) = []) es" "tidy sf m"
    and "EnsureField sf lo indexed refctx kp True es [] m = r" "en_error r = None"
  shows "\<exists>p. en_found r = [p] \<and> field_at p (en_map r) \<noteq> None \<and>
    getFieldIndexed sf (map snd es) (en_map r) = field_at p (en_map r) \<and>
    EnsureField sf lo indexed None kp False es [] (en_map r) = en_done [p] [] (en_map r) \<and>
    tidy sf (en_map r)"
proof (cases es)
  case Nil
  with assms(5) [symmetric] assms(6) show ?thesis by (simp add: EnsureField_def en_stop_def)
next
  case (Cons e rest)
  let ?run = "\<lambda>refctx create m. ensureField sf lo indexed refctx kp create es 0 (Some root_name) True m"
  have head: "\<not> is_underscore (snd e)"
    using assms(5) [symmetric] assms(6) by (cases e) (auto simp: Cons EnsureField_def en_stop_def split: if_splits)
  then have run: "EnsureField sf lo indexed refctx kp create es [] m = ?run refctx create m" for refctx create m
    by (cases e) (simp add: EnsureField_def Cons)
  have "en_error (?run refctx True m) = None" using assms(5,6) run by metis
  from ensureField_found [OF assms(1-4) this]
  obtain p where p: "settled sf lo indexed es 0 (Some root_name) True (?run refctx True m) p" by blast
  have "tidy sf (en_map (?run refctx True m))"
    using ensureField_tidy [OF assms(1,2)] assms(4) by (auto simp: visit_tidy_def)
  with p show ?thesis
    using assms(5) run by (auto simp: settled_def)
qed

theorem ensured_is_found_witness:
  "\<exists>p. en_found (EnsureField ascii_simple_fold lower_rune True None 0 True (elems [''y'', ''Q'']) [] sample_map) = [p] \<and>
     tidy ascii_simple_fold (en_map (EnsureField ascii_simple_fold lower_rune True None 0 True (elems [''y'', ''Q'']) [] sample_map))"
proof -
  have "plain_elems (elems [''y'', ''Q''])" "list_all (\<lambda>e. string_Pattern (snd e) = []) (elems [''y'', ''Q''])"
    "tidy ascii_simple_fold sample_map"
    "en_error (EnsureField ascii_simple_fold lower_rune True None 0 True (elems [''y'', ''Q'']) [] sample_map) = None"
    by code_simp+
  from ensured_is_found [OF ascii_fold_ok this(1-3) refl this(4)] show ?thesis by blast
qed

section \<open>Places where the intermediate representation surprises\<close>

text \<open>A path of underscores only makes resolving an edge panic, as in \<^verbatim>\<open>a: { _ -> _._.b }\<close>.\<close>

theorem underscore_path_panics:
  "edge_resolve ascii_simple_fold [flat ''c'', flat ''d'']
     (sample_edge\<lparr>eid_SrcPath := [flat ''_''], eid_DstPath := [flat ''_'', flat ''_'', flat ''b'']\<rparr>) = GoPanic"
  by code_simp

text \<open>A part longer than the text it matches when both are lower case: the slice is out of range.\<close>

theorem pattern_slice_panics:
  "matchPattern (\<lambda>r. if r = 0x212A then 107 else r) (runes ''k'') [[0x212A], rStarStr] = None"
  by code_simp

text \<open>
  Two of three edges with one context are deleted: the slice moves under the range loop, which then
  passes over the second edge.
\<close>

theorem delete_skips_edge:
  "delete_for_refs ascii_simple_fold [ref_at 1]
     [edge_from ''a'' ''b'' 1, edge_from ''a'' ''c'' 1, edge_from ''a'' ''d'' 1] \<noteq> Some []"
  by code_simp

text \<open>
  The two lookups differ on LATIN SMALL LETTER LONG S, which folds to the letter s of a keyword but is
  not lowered to it.
\<close>

theorem lookups_differ:
  "getFieldIndexed ascii_simple_fold [FlatDoubleQuotedString (0x17F # runes ''hape'')]
     (IMap [leaf ''shape''] [] 0 None) = None \<and>
   getFieldLinear ascii_simple_fold [FlatDoubleQuotedString (0x17F # runes ''hape'')] [leaf ''shape''] =
     Some (leaf ''shape'')"
  by code_simp

text \<open>
  Inserting a field whose name is there already sets index and scan apart: with a live index the old field is found,
  though the new one stands before it.
\<close>

theorem insert_present_differs:
  "map_option (\<lambda>m. (fst (lookupField ascii_simple_fold (flat ''a'') m), linear_field ascii_simple_fold (flat ''a'') (Fields m)))
     (insertField ascii_simple_fold 0 (named_ptr 2 ''a'')
       (snd (lookupField ascii_simple_fold (flat ''a'') (appendField ascii_simple_fold (named_ptr 1 ''a'') fresh_tables)))) =
   Some (named_ptr 1 ''a'', named_ptr 2 ''a'')"
  by code_simp

text \<open>\<^verbatim>\<open>Key.Equals\<close> is not symmetric: a primary value only on the right is not compared.\<close>

theorem key_Equals_not_symmetric:
  "key_Equals (Key range0 False False None [] None None None None)
      (Key range0 False False None [] None None (Some (Null range0)) None) \<noteq>
   key_Equals (Key range0 False False None [] None None (Some (Null range0)) None)
      (Key range0 False False None [] None None None None)"
  by code_simp

text \<open>A pattern replaces an array by an empty map on its way: after \<^verbatim>\<open>a: [1]; *.x: 1\<close> the array is gone.\<close>

theorem glob_drops_array:
  "map if_Composite (im_Fields (en_map (EnsureField ascii_simple_fold lower_rune True None 0 True
      [(0, UnquotedString range0 [] [rStarStr]), (0, flat ''x'')] []
      (IMap [IField (Some (flat ''a'')) None (Some (ArrayC [])) [] False None] [] 0 None)))) =
    [Some (MapC (IMap [leaf ''x''] [] 1 None))]"
  by code_simp


end
