(* ===== verification/Tala_Limits.thy ===== *)
theory Tala_Limits
  imports Prelude "HOL-Library.Word" "HOL-Library.Signed_Division"
begin

unbundle bit_operations_syntax

text \<open>
  The work budgets of the TALA layout engine, \<^verbatim>\<open>d2layouts/d2talalayout/internal/limits\<close>, and the checked
  64-bit arithmetic of its rank solver (\<^verbatim>\<open>hierarchy/rank.go\<close>). Machine integers are given as \<open>int\<close> and
  \<open>nat\<close>, with every place where they could wrap written out. A context is what the calls of \<^verbatim>\<open>ctx.Err\<close> answer
  one after the other; the guards count their calls.
\<close>

section \<open>Checked arithmetic\<close>

definition MinInt64 :: int where "MinInt64 = - (2 ^ 63)"
definition MaxInt64 :: int where "MaxInt64 = 2 ^ 63 - 1"

definition int64 :: "int \<Rightarrow> bool" where
  "int64 a \<longleftrightarrow> MinInt64 \<le> a \<and> a \<le> MaxInt64"

text \<open>What a Go operation on \<^verbatim>\<open>int64\<close> makes of a result out of range.\<close>

definition wrap64 :: "int \<Rightarrow> int" where
  "wrap64 a = (a + 2 ^ 63) mod 2 ^ 64 - 2 ^ 63"

definition checkedSubInt64 :: "int \<Rightarrow> int \<Rightarrow> int option" where
  "checkedSubInt64 a b =
    (if 0 < b \<and> a < MinInt64 + b \<or> b < 0 \<and> MaxInt64 + b < a then None
     else Some (wrap64 (a - b)))"

definition checkedAddInt64 :: "int \<Rightarrow> int \<Rightarrow> int option" where
  "checkedAddInt64 a b =
    (if 0 < b \<and> MaxInt64 - b < a \<or> b < 0 \<and> a < MinInt64 - b then None
     else Some (wrap64 (a + b)))"

definition checkedMulInt64 :: "int \<Rightarrow> int \<Rightarrow> int option" where
  "checkedMulInt64 a b =
    (if a = 0 \<or> b = 0 then Some 0
     else if a = -1 \<and> b = MinInt64 \<or> b = -1 \<and> a = MinInt64 then None
     else let product = wrap64 (a * b)
          in if wrap64 (product sdiv b) = a then Some product else None)"

lemma wrap64_id: "int64 a \<Longrightarrow> wrap64 a = a"
  by (simp add: wrap64_def int64_def MinInt64_def MaxInt64_def)

lemma wrap64_range [simp]: "int64 (wrap64 a)"
  unfolding wrap64_def int64_def MinInt64_def MaxInt64_def
  using pos_mod_bound [of "2 ^ 64 :: int" "a + 2 ^ 63"] by simp

lemma wrap64_diff: "\<exists>k. a = wrap64 a + k * 2 ^ 64"
  using div_mult_mod_eq [of "a + 2 ^ 63" "2 ^ 64"] unfolding wrap64_def
  by (intro exI [of _ "(a + 2 ^ 63) div 2 ^ 64"]) linarith

lemma checkedSub_exact:
  "int64 a \<Longrightarrow> int64 b \<Longrightarrow> checkedSubInt64 a b = (if int64 (a - b) then Some (a - b) else None)"
  using wrap64_id [of "a - b"]
  by (auto simp: checkedSubInt64_def int64_def MinInt64_def MaxInt64_def)

lemma checkedAdd_exact:
  "int64 a \<Longrightarrow> int64 b \<Longrightarrow> checkedAddInt64 a b = (if int64 (a + b) then Some (a + b) else None)"
  using wrap64_id [of "a + b"]
  by (auto simp: checkedAddInt64_def int64_def MinInt64_def MaxInt64_def)

lemma sdiv_close:
  fixes p b :: int
  assumes "b \<noteq> 0"
  shows "\<bar>p - (p sdiv b) * b\<bar> < \<bar>b\<bar>"
  using assms pos_mod_bound [of "\<bar>b\<bar>" "\<bar>p\<bar>"]
  by (simp add: minus_sdiv_mult_eq_smod signed_modulo_int_def abs_mult sgn_if)

lemma sdiv_exact:
  fixes a b :: int
  assumes "b \<noteq> 0"
  shows "(a * b) sdiv b = a"
proof -
  have "\<bar>b\<bar> * \<bar>a - (a * b) sdiv b\<bar> < \<bar>b\<bar> * 1"
    using sdiv_close [OF assms, of "a * b"]
    by (simp only: left_diff_distrib [symmetric] abs_mult mult.commute [of "\<bar>b\<bar>"] mult_1_left)
  then have "\<bar>a - (a * b) sdiv b\<bar> < 1" using assms by (metis mult_less_cancel_left_pos zero_less_abs_iff)
  then show ?thesis by simp
qed

lemma sdiv_abs_le:
  fixes p b :: int
  shows "\<bar>p sdiv b\<bar> \<le> \<bar>p\<bar>"
proof -
  have "0 \<le> \<bar>p\<bar> div \<bar>b\<bar>" by (cases "b = 0") (simp_all add: pos_imp_zdiv_nonneg_iff)
  moreover have "\<bar>p\<bar> div \<bar>b\<bar> \<le> \<bar>p\<bar>"
    using zdiv_mono2 [of "\<bar>p\<bar>" 1 "\<bar>b\<bar>"] by (cases "b = 0") auto
  ultimately show ?thesis by (auto simp: signed_divide_int_def abs_mult sgn_if)
qed

lemma checkedMul_exact:
  assumes "int64 a" "int64 b"
  shows "checkedMulInt64 a b = (if int64 (a * b) then Some (a * b) else None)"
proof (cases "a = 0 \<or> b = 0 \<or> (a = -1 \<and> b = MinInt64 \<or> b = -1 \<and> a = MinInt64)")
  case True
  then show ?thesis by (auto simp: checkedMulInt64_def int64_def MinInt64_def MaxInt64_def)
next
  case False
  let ?p = "wrap64 (a * b)"
  have b: "b \<noteq> 0" using False by simp
  have unfold: "checkedMulInt64 a b = (if wrap64 (?p sdiv b) = a then Some ?p else None)"
    using False by (auto simp: checkedMulInt64_def)
  show ?thesis
  proof (cases "int64 (a * b)")
    case True
    then show ?thesis by (simp add: unfold wrap64_id sdiv_exact [OF b] assms(1))
  next
    case out: False
    have "wrap64 (?p sdiv b) \<noteq> a"
    proof
      assume eq: "wrap64 (?p sdiv b) = a"
      have p: "\<bar>?p\<bar> \<le> 2 ^ 63" using wrap64_range [of "a * b"]
        by (auto simp: int64_def MinInt64_def MaxInt64_def)
      show False
      proof (cases "int64 (?p sdiv b)")
        case True
        obtain k where k: "a * b = ?p + k * 2 ^ 64" using wrap64_diff by blast
        have "k \<noteq> 0" using k out wrap64_range [of "a * b"] by (metis add.right_neutral mult_zero_left)
        moreover have "\<bar>k * 2 ^ 64\<bar> < \<bar>b\<bar>"
          using sdiv_close [OF b, of ?p] k eq True by (simp add: wrap64_id)
        moreover have "\<bar>b\<bar> \<le> 2 ^ 63" using assms(2) by (auto simp: int64_def MinInt64_def MaxInt64_def)
        ultimately show False by auto
      next
        case wide: False
        with p sdiv_abs_le [of ?p b] have q: "?p sdiv b = 2 ^ 63"
          by (auto simp: int64_def MinInt64_def MaxInt64_def)
        then have a: "a = MinInt64" using eq by (simp add: wrap64_def MinInt64_def)
        have "\<bar>?p - 2 ^ 63 * b\<bar> < \<bar>b\<bar>" using sdiv_close [OF b, of ?p] q by simp
        with p b have "b = 1 \<or> b = -1" by auto
        with False out a show False by (auto simp: int64_def MinInt64_def MaxInt64_def)
      qed
    qed
    with out show ?thesis by (simp add: unfold)
  qed
qed

section \<open>Contexts and errors\<close>

text \<open>
  A context with a \<^verbatim>\<open>Done\<close> channel says at each look whether the channel is closed; \<^verbatim>\<open>Err\<close> is what it
  answers at that look.
\<close>

record go_context =
  ctx_done :: "(nat \<Rightarrow> bool) option"
  ctx_err :: "nat \<Rightarrow> gostr option"

definition cachedContextErr :: "go_context \<Rightarrow> nat \<Rightarrow> gostr option" where
  "cachedContextErr c n =
    (case ctx_done c of
       None \<Rightarrow> ctx_err c n
     | Some is_closed \<Rightarrow> (if is_closed n then ctx_err c n else None))"

text \<open>
  Errors of the engine: a cancelled context, a budget that is used up or overflows, a rejected input, a violated
  invariant. The last two carry the text and the numbers it prints.
\<close>

datatype tala_error =
    WorkCancelled gostr gostr
  | NeedsContext gostr
  | NegativeLimit gostr
  | NegativeCharge gostr
  | WorkExceeds gostr int
  | WorkOverflow gostr
  | NeedsRandom gostr
  | IndexPanic
  | OutOfTurns
  | Rejected string "int list"
  | Violated string "int list"

section \<open>\<open>WorkGuard\<close>\<close>

record work_guard =
  wg_ctx :: go_context
  wg_location :: gostr
  wg_used :: int
  wg_limit :: int
  wg_polls :: nat

type_synonym charged = "tala_error option \<times> work_guard"

definition contextCheckStride :: int where "contextCheckStride = 64"
definition cancellableContextCheckStride :: int where "cancellableContextCheckStride = 1024"

definition guard_Check :: "work_guard \<Rightarrow> charged" where
  "guard_Check g =
    (map_option (WorkCancelled (wg_location g)) (cachedContextErr (wg_ctx g) (wg_polls g)),
     g\<lparr>wg_polls := wg_polls g + 1\<rparr>)"

definition NewWorkGuard :: "go_context option \<Rightarrow> gostr \<Rightarrow> int \<Rightarrow> tala_error + work_guard" where
  "NewWorkGuard ctx location limit =
    (case ctx of
       None \<Rightarrow> Inl (NeedsContext location)
     | Some c \<Rightarrow>
         (if limit < 0 then Inl (NegativeLimit location)
          else (case guard_Check \<lparr>wg_ctx = c, wg_location = location, wg_used = 0, wg_limit = limit, wg_polls = 0\<rparr> of
                  (Some e, _) \<Rightarrow> Inl e
                | (None, g) \<Rightarrow> Inr g)))"

definition pollingStride :: "work_guard \<Rightarrow> int" where
  "pollingStride g =
    (if ctx_done (wg_ctx g) = None then contextCheckStride else cancellableContextCheckStride)"

definition checkAtStride :: "work_guard \<Rightarrow> charged" where
  "checkAtStride g =
    (if wg_used g smod pollingStride g \<noteq> 0 then (None, g) else guard_Check g)"

definition guard_Step :: "work_guard \<Rightarrow> charged" where
  "guard_Step g =
    (let g1 = g\<lparr>wg_used := wrap64 (wg_used g + 1)\<rparr>
     in if wg_used g1 > wg_limit g1 then (Some (WorkExceeds (wg_location g) (wg_limit g)), g1)
        else checkAtStride g1)"

definition checkAfterAdd :: "int \<Rightarrow> work_guard \<Rightarrow> charged" where
  "checkAfterAdd previous g =
    (let stride = pollingStride g
     in if wg_used g smod stride \<noteq> 0 \<and> previous sdiv stride = wg_used g sdiv stride then (None, g)
        else guard_Check g)"

definition guard_Add :: "int \<Rightarrow> work_guard \<Rightarrow> charged" where
  "guard_Add units g =
    (if units < 0 then (Some (NegativeCharge (wg_location g)), g)
     else if units > wg_limit g \<or> wg_used g > wg_limit g - units then
       (let previous = wg_used g;
            g1 = g\<lparr>wg_used := wrap64 (wg_limit g + 1)\<rparr>;
            stride = pollingStride g1;
            exceeds = Some (WorkExceeds (wg_location g) (wg_limit g))
        in if previous \<le> wg_limit g \<and> previous sdiv stride \<noteq> wg_limit g sdiv stride then
             (case guard_Check g1 of
                (Some e, g2) \<Rightarrow> (Some e, g2)
              | (None, g2) \<Rightarrow> (exceeds, g2))
           else (exceeds, g1))
     else checkAfterAdd (wg_used g) (g\<lparr>wg_used := wrap64 (wg_used g + units)\<rparr>))"

definition SetLimit :: "int \<Rightarrow> work_guard \<Rightarrow> work_guard" where
  "SetLimit limit g = g\<lparr>wg_limit := limit\<rparr>"

text \<open>Several steps, up to the first error.\<close>

primrec guard_Steps :: "nat \<Rightarrow> work_guard \<Rightarrow> charged" where
  "guard_Steps 0 g = (None, g)"
| "guard_Steps (Suc n) g =
    (case guard_Step g of
       (Some e, g1) \<Rightarrow> (Some e, g1)
     | (None, g1) \<Rightarrow> guard_Steps n g1)"

text \<open>A context that gives the same answer at every look.\<close>

definition steady :: "go_context \<Rightarrow> bool" where
  "steady c \<longleftrightarrow> (\<forall>m n. cachedContextErr c m = cachedContextErr c n)"

section \<open>\<open>OptimizationWorkGuard\<close>\<close>

record opt_guard =
  og_ctx :: "nat \<Rightarrow> gostr option"
  og_location :: gostr
  og_used :: nat
  og_limit :: nat
  og_polls :: nat

definition MaxUint64 :: nat where "MaxUint64 = 2 ^ 64 - 1"
definition optimizationContextCheckStride :: nat where "optimizationContextCheckStride = 64"

definition opt_Check :: "opt_guard \<Rightarrow> tala_error + opt_guard" where
  "opt_Check g =
    (case og_ctx g (og_polls g) of
       Some e \<Rightarrow> Inl (WorkCancelled (og_location g) e)
     | None \<Rightarrow> Inr (g\<lparr>og_polls := og_polls g + 1\<rparr>))"

definition NewOptimizationWorkGuard ::
  "(nat \<Rightarrow> gostr option) option \<Rightarrow> gostr \<Rightarrow> nat \<Rightarrow> tala_error + opt_guard" where
  "NewOptimizationWorkGuard ctx location limit =
    (case ctx of
       None \<Rightarrow> Inl (NeedsContext location)
     | Some c \<Rightarrow>
         opt_Check \<lparr>og_ctx = c, og_location = location, og_used = 0, og_limit = limit, og_polls = 0\<rparr>)"

definition opt_Add :: "nat \<Rightarrow> opt_guard \<Rightarrow> tala_error + opt_guard" where
  "opt_Add amount g =
    (if amount = 0 then opt_Check g
     else if MaxUint64 - og_used g < amount then Inl (WorkOverflow (og_location g))
     else let previous = og_used g; next_used = previous + amount
          in if next_used > og_limit g then Inl (WorkExceeds (og_location g) (int (og_limit g)))
             else let g1 = g\<lparr>og_used := next_used\<rparr>
                  in if previous div optimizationContextCheckStride \<noteq> next_used div optimizationContextCheckStride
                     then opt_Check g1 else Inr g1)"

definition opt_Step :: "opt_guard \<Rightarrow> tala_error + opt_guard" where
  "opt_Step g = opt_Add 1 g"

definition opt_AddProduct :: "nat \<Rightarrow> nat \<Rightarrow> opt_guard \<Rightarrow> tala_error + opt_guard" where
  "opt_AddProduct a b g =
    (if a \<noteq> 0 \<and> MaxUint64 div a < b then Inl (WorkOverflow (og_location g))
     else opt_Add (a * b) g)"

text \<open>\<^verbatim>\<open>bits.Len64\<close>: the bits needed for a number.\<close>

fun bits_Len :: "nat \<Rightarrow> nat" where
  "bits_Len n = (if n = 0 then 0 else Suc (bits_Len (n div 2)))"

declare bits_Len.simps [simp del]

definition opt_AddSort :: "nat \<Rightarrow> opt_guard \<Rightarrow> tala_error + opt_guard" where
  "opt_AddSort len g =
    (if len \<le> 1 then opt_Check g else opt_AddProduct len (bits_Len (len - 1)) g)"

section \<open>What the budgets promise\<close>

lemma opt_Check_keeps: "opt_Check g = Inr g' \<Longrightarrow> og_used g' = og_used g \<and> og_limit g' = og_limit g"
  by (auto simp: opt_Check_def split: option.splits)

lemma opt_Add_used:
  "opt_Add n g = Inr g' \<Longrightarrow> og_used g' = og_used g + n \<and> og_limit g' = og_limit g \<and> (0 < n \<longrightarrow> og_used g' \<le> og_limit g)"
  by (auto simp: opt_Add_def Let_def dest!: opt_Check_keeps split: if_splits)

lemma opt_Step_used:
  "opt_Step g = Inr g' \<Longrightarrow> og_used g' = Suc (og_used g) \<and> og_limit g' = og_limit g \<and> og_used g' \<le> og_limit g"
  using opt_Add_used [of 1 g g'] by (simp add: opt_Step_def)

lemma opt_AddProduct_used:
  "opt_AddProduct a b g = Inr g' \<Longrightarrow> og_used g' = og_used g + a * b \<and> og_limit g' = og_limit g"
  by (auto simp: opt_AddProduct_def dest: opt_Add_used split: if_splits)

lemma opt_AddSort_used:
  "opt_AddSort n g = Inr g' \<Longrightarrow> og_used g \<le> og_used g' \<and> og_limit g' = og_limit g"
  by (auto simp: opt_AddSort_def dest: opt_AddProduct_used opt_Check_keeps split: if_splits)

section \<open>A charge is as many steps\<close>

lemma sdiv_nonneg: "0 \<le> a \<Longrightarrow> 0 < b \<Longrightarrow> (a :: int) sdiv b = a div b"
  by (auto simp: signed_divide_int_eq_divide_int sgn_if)

lemma smod_nonneg: "0 \<le> a \<Longrightarrow> 0 < b \<Longrightarrow> (a :: int) smod b = a mod b"
  by (auto simp: signed_modulo_int_eq_modulo_int sgn_if)

lemma stride_pos: "0 < pollingStride g"
  by (simp add: pollingStride_def contextCheckStride_def cancellableContextCheckStride_def)

definition wg_err :: "work_guard \<Rightarrow> tala_error option" where
  "wg_err g = map_option (WorkCancelled (wg_location g)) (cachedContextErr (wg_ctx g) 0)"

text \<open>What a charge of \<open>n\<close> units comes to under a context with one answer.\<close>

definition charge_outcome :: "work_guard \<Rightarrow> int \<Rightarrow> tala_error option" where
  "charge_outcome g n =
    (if wg_err g \<noteq> None \<and>
        wg_used g div pollingStride g \<noteq> min (wg_used g + n) (wg_limit g) div pollingStride g
     then wg_err g
     else if wg_used g + n \<le> wg_limit g then None
     else Some (WorkExceeds (wg_location g) (wg_limit g)))"

text \<open>The guard is within its limit, and the limit has room for a rejected unit.\<close>

definition within_limit :: "work_guard \<Rightarrow> bool" where
  "within_limit g \<longleftrightarrow> 0 \<le> wg_used g \<and> wg_used g \<le> wg_limit g \<and> wg_limit g < MaxInt64 \<and> steady (wg_ctx g)"

lemma guard_Check_steady: "steady (wg_ctx g) \<Longrightarrow> guard_Check g = (wg_err g, g\<lparr>wg_polls := wg_polls g + 1\<rparr>)"
  by (simp add: guard_Check_def wg_err_def steady_def) metis

lemma wrap_within: "0 \<le> a \<Longrightarrow> a \<le> MaxInt64 \<Longrightarrow> wrap64 a = a"
  by (rule wrap64_id) (simp add: int64_def MinInt64_def)

lemma wg_err_simps [simp]:
  "wg_err (g\<lparr>wg_used := u\<rparr>) = wg_err g" "wg_err (g\<lparr>wg_polls := k\<rparr>) = wg_err g"
  "pollingStride (g\<lparr>wg_used := u\<rparr>) = pollingStride g" "pollingStride (g\<lparr>wg_polls := k\<rparr>) = pollingStride g"
  by (simp_all add: wg_err_def pollingStride_def)

lemma guard_Step_within:
  assumes "within_limit g"
  shows "guard_Step g =
    (let g1 = g\<lparr>wg_used := wg_used g + 1\<rparr>
     in if wg_used g + 1 > wg_limit g then (Some (WorkExceeds (wg_location g) (wg_limit g)), g1)
        else if (wg_used g + 1) mod pollingStride g \<noteq> 0 then (None, g1)
        else (wg_err g, g1\<lparr>wg_polls := wg_polls g + 1\<rparr>))"
proof -
  have w: "wrap64 (wg_used g + 1) = wg_used g + 1"
    using assms by (intro wrap_within) (simp_all add: within_limit_def)
  have "steady (wg_ctx (g\<lparr>wg_used := wg_used g + 1\<rparr>))" using assms by (simp add: within_limit_def)
  from guard_Check_steady [OF this] show ?thesis
    using assms stride_pos [of g]
    by (simp add: guard_Step_def w checkAtStride_def Let_def smod_nonneg within_limit_def)
qed

lemma div_next:
  fixes a :: int
  assumes "0 < s"
  shows "(a + 1) div s = (if (a + 1) mod s = 0 then a div s + 1 else a div s)"
proof -
  have "a mod s < s" "0 \<le> a mod s" using assms by simp_all
  show ?thesis
  proof (cases "a mod s + 1 = s")
    case True
    have "a + 1 = s * (a div s) + (a mod s + 1)" using mult_div_mod_eq [of s a] by linarith
    then have "a + 1 = (a div s + 1) * s" by (simp only: True) (simp add: distrib_right)
    with assms show ?thesis by simp
  next
    case False
    with \<open>a mod s < s\<close> have m: "a mod s + 1 < s" by simp
    have e: "a + 1 = s * (a div s) + (a mod s + 1)" using mult_div_mod_eq [of s a] by linarith
    have "(a + 1) mod s = a mod s + 1" "(a + 1) div s = a div s"
      using int_mod_pos_eq [OF e _ m] int_div_pos_eq [OF e _ m] \<open>0 \<le> a mod s\<close> by simp_all
    then show ?thesis using \<open>0 \<le> a mod s\<close> by simp
  qed
qed

lemma guard_Steps_outcome:
  "within_limit g \<Longrightarrow> fst (guard_Steps n g) = charge_outcome g (int n) \<and>
    (fst (guard_Steps n g) = None \<longrightarrow> wg_used (snd (guard_Steps n g)) = wg_used g + int n)"
proof (induction n arbitrary: g)
  case 0
  then show ?case by (auto simp: charge_outcome_def within_limit_def min_def)
next
  case (Suc n)
  let ?g = "g\<lparr>wg_used := wg_used g + 1\<rparr>" and ?s = "pollingStride g" and ?u = "wg_used g"
  have s: "0 < ?s" by (rule stride_pos)
  show ?case
  proof (cases "wg_limit g < ?u + 1")
    case True
    with Suc.prems have "?u = wg_limit g" by (simp add: within_limit_def)
    with True Suc.prems show ?thesis
      by (simp add: guard_Step_within [OF Suc.prems] charge_outcome_def Let_def min_def)
  next
    case False
    then have inner: "within_limit ?g" "within_limit (?g\<lparr>wg_polls := wg_polls g + 1\<rparr>)"
      using Suc.prems by (simp_all add: within_limit_def)
    let ?m = "min (?u + int (Suc n)) (wg_limit g)"
    have le: "(?u + 1) div ?s \<le> ?m div ?s"
      using False s by (intro zdiv_mono1) auto
    have same: "min (?u + 1 + int n) (wg_limit g) = ?m" by simp
    show ?thesis
    proof (cases "(?u + 1) mod ?s = 0 \<and> wg_err g \<noteq> None")
      case True
      with le div_next [OF s, of ?u] have "?u div ?s \<noteq> ?m div ?s" by auto
      with True False show ?thesis
        by (auto simp: guard_Step_within [OF Suc.prems] charge_outcome_def Let_def split: option.split)
    next
      case go: False
      have tail: "fst (guard_Steps (Suc n) g) = charge_outcome ?g (int n) \<and>
        (fst (guard_Steps (Suc n) g) = None \<longrightarrow> wg_used (snd (guard_Steps (Suc n) g)) = ?u + 1 + int n)"
        using go False Suc.IH [OF inner(1)] Suc.IH [OF inner(2)]
        by (auto simp: guard_Step_within [OF Suc.prems] charge_outcome_def Let_def)
      moreover have "charge_outcome ?g (int n) = charge_outcome g (int (Suc n))"
        using go div_next [OF s, of ?u] same by (auto simp: charge_outcome_def add.assoc)
      ultimately show ?thesis by (simp add: add.assoc)
    qed
  qed
qed

lemma guard_Add_outcome:
  assumes "within_limit g" "0 < n"
  shows "fst (guard_Add n g) = charge_outcome g n \<and>
    (fst (guard_Add n g) = None \<longrightarrow> wg_used (snd (guard_Add n g)) = wg_used g + n)"
proof -
  let ?s = "pollingStride g" and ?u = "wg_used g"
  have s: "0 < ?s" by (rule stride_pos)
  have r: "0 \<le> ?u" "?u \<le> wg_limit g" "wg_limit g < MaxInt64" "steady (wg_ctx g)"
    using assms(1) by (simp_all add: within_limit_def)
  show ?thesis
  proof (cases "?u + n \<le> wg_limit g")
    case True
    have w: "wrap64 (?u + n) = ?u + n" using True r assms(2) by (intro wrap_within) auto
    have "?u div ?s = (?u + n) div ?s \<Longrightarrow> (?u + n) mod ?s \<noteq> 0"
      using mult_div_mod_eq [of ?s ?u] mult_div_mod_eq [of ?s "?u + n"] pos_mod_sign [OF s, of ?u] assms(2) by auto
    then show ?thesis
      using True r assms(2) s guard_Check_steady [of "g\<lparr>wg_used := ?u + n\<rparr>"]
      by (auto simp: guard_Add_def checkAfterAdd_def charge_outcome_def w Let_def smod_nonneg sdiv_nonneg min_def)
  next
    case False
    then show ?thesis
      using r assms(2) s guard_Check_steady [of "g\<lparr>wg_used := wrap64 (wg_limit g + 1)\<rparr>"]
      by (auto simp: guard_Add_def charge_outcome_def Let_def sdiv_nonneg min_def split: option.split)
  qed
qed

end
