(* ===== verification/Tala_Monad.thy ===== *)
theory Tala_Monad
  imports Tala_Limits
begin

text \<open>
  Computations of the TALA engine under an optimization budget: they pass the guard on and end in a value or
  in the first error. A loop that charges a unit in every turn ends because the budget does.
\<close>

type_synonym 'a tala = "opt_guard \<Rightarrow> tala_error + ('a \<times> opt_guard)"

section \<open>Computations\<close>

definition tret :: "'a \<Rightarrow> 'a tala" where
  "tret x = (\<lambda>g. Inr (x, g))"

definition tfail :: "tala_error \<Rightarrow> 'a tala" where
  "tfail e = (\<lambda>g. Inl e)"

definition tbind :: "'a tala \<Rightarrow> ('a \<Rightarrow> 'b tala) \<Rightarrow> 'b tala" where
  "tbind m f = (\<lambda>g. case m g of Inl e \<Rightarrow> Inl e | Inr (x, g1) \<Rightarrow> f x g1)"

text \<open>A charge to the guard, and what follows.\<close>

definition charge :: "(opt_guard \<Rightarrow> tala_error + opt_guard) \<Rightarrow> 'a tala \<Rightarrow> 'a tala" where
  "charge c m = (\<lambda>g. case c g of Inl e \<Rightarrow> Inl e | Inr g1 \<Rightarrow> m g1)"

abbreviation stepping :: "'a tala \<Rightarrow> 'a tala" where
  "stepping \<equiv> charge opt_Step"

text \<open>Slices are read and written in range, or the program panics.\<close>

definition get_at :: "'a list \<Rightarrow> nat \<Rightarrow> ('a \<Rightarrow> 'b tala) \<Rightarrow> 'b tala" where
  "get_at xs i K = (if i < length xs then K (xs ! i) else tfail IndexPanic)"

definition put_at :: "'a list \<Rightarrow> nat \<Rightarrow> 'a \<Rightarrow> ('a list \<Rightarrow> 'b tala) \<Rightarrow> 'b tala" where
  "put_at xs i v K = (if i < length xs then K (xs[i := v]) else tfail IndexPanic)"

text \<open>The result of a checked operation, or an error.\<close>

definition checked :: "'a option \<Rightarrow> tala_error \<Rightarrow> ('a \<Rightarrow> 'b tala) \<Rightarrow> 'b tala" where
  "checked r e K = (case r of None \<Rightarrow> tfail e | Some v \<Rightarrow> K v)"

definition ensure_that :: "bool \<Rightarrow> tala_error \<Rightarrow> 'a tala \<Rightarrow> 'a tala" where
  "ensure_that b e m = (if b then m else tfail e)"

text \<open>The loop over a slice.\<close>

primrec tfold :: "('x \<Rightarrow> 's \<Rightarrow> 's tala) \<Rightarrow> 'x list \<Rightarrow> 's \<Rightarrow> 's tala" where
  "tfold f [] s = tret s"
| "tfold f (x # xs) s = tbind (f x s) (tfold f xs)"

text \<open>A loop with a condition, for so many turns; \<open>while_cost\<close> shows that the budget gives turns enough.\<close>

primrec tloop :: "nat \<Rightarrow> ('s \<Rightarrow> bool) \<Rightarrow> ('s \<Rightarrow> 's tala) \<Rightarrow> 's \<Rightarrow> 's tala" where
  "tloop 0 b f s = tfail OutOfTurns"
| "tloop (Suc n) b f s = (if b s then tbind (f s) (tloop n b f) else tret s)"

definition twhile :: "('s \<Rightarrow> bool) \<Rightarrow> ('s \<Rightarrow> 's tala) \<Rightarrow> 's \<Rightarrow> 's tala" where
  "twhile b f s = (\<lambda>g. tloop (Suc (og_limit g - og_used g)) b f s g)"

section \<open>What a computation yields\<close>

definition yields :: "'a tala \<Rightarrow> ('a \<Rightarrow> bool) \<Rightarrow> bool" where
  "yields m Q \<longleftrightarrow> (\<forall>g x g'. m g = Inr (x, g') \<longrightarrow> Q x)"

named_theorems yields_rules \<open>rules for what a computation yields\<close>

lemma yields_ret [yields_rules]: "Q x \<Longrightarrow> yields (tret x) Q"
  by (simp add: yields_def tret_def)

lemma yields_fail [yields_rules]: "yields (tfail e) Q"
  by (simp add: yields_def tfail_def)

lemma yields_bind: "yields m P \<Longrightarrow> (\<And>x. P x \<Longrightarrow> yields (f x) Q) \<Longrightarrow> yields (tbind m f) Q"
  unfolding yields_def tbind_def by (fastforce split: sum.splits)

lemma yields_charge [yields_rules]: "yields m Q \<Longrightarrow> yields (charge c m) Q"
  unfolding yields_def charge_def by (auto split: sum.splits)

lemma yields_get_at [yields_rules]: "(i < length xs \<Longrightarrow> yields (K (xs ! i)) Q) \<Longrightarrow> yields (get_at xs i K) Q"
  by (simp add: get_at_def yields_fail)

lemma yields_put_at [yields_rules]: "(i < length xs \<Longrightarrow> yields (K (xs[i := v])) Q) \<Longrightarrow> yields (put_at xs i v K) Q"
  by (simp add: put_at_def yields_fail)

lemma yields_checked [yields_rules]: "(\<And>v. r = Some v \<Longrightarrow> yields (K v) Q) \<Longrightarrow> yields (checked r e K) Q"
  by (auto simp: checked_def yields_fail split: option.split)

lemma yields_ensure [yields_rules]: "(b \<Longrightarrow> yields m Q) \<Longrightarrow> yields (ensure_that b e m) Q"
  by (simp add: ensure_that_def yields_fail)

lemma yields_if [yields_rules]: "(b \<Longrightarrow> yields m Q) \<Longrightarrow> (\<not> b \<Longrightarrow> yields n Q) \<Longrightarrow> yields (if b then m else n) Q"
  by simp

lemma yields_weaken: "yields m P \<Longrightarrow> (\<And>x. P x \<Longrightarrow> Q x) \<Longrightarrow> yields m Q"
  unfolding yields_def by blast

text \<open>An invariant of a loop; over a slice it may speak of what was done and what is left.\<close>

lemma yields_tfold_gen:
  assumes "\<And>done x rest s. xs = done @ x # rest \<Longrightarrow> I done s \<Longrightarrow> yields (f x s) (I (done @ [x]))"
    and "I [] s"
  shows "yields (tfold f xs s) (I xs)"
proof -
  have "xs = pre @ ys \<Longrightarrow> I pre s \<Longrightarrow> yields (tfold f ys s) (I xs)" for pre ys s
  proof (induction ys arbitrary: pre s)
    case Nil
    then show ?case by (simp add: yields_ret)
  next
    case (Cons y ys)
    have "yields (f y s) (I (pre @ [y]))" using assms(1) Cons.prems by blast
    then show ?case
      unfolding tfold.simps by (rule yields_bind) (rule Cons.IH, use Cons.prems in simp_all)
  qed
  from this [of "[]" xs s] assms(2) show ?thesis by simp
qed

lemma yields_tfold:
  assumes "\<And>x s. x \<in> set xs \<Longrightarrow> I s \<Longrightarrow> yields (f x s) I" "I s"
  shows "yields (tfold f xs s) I"
  by (rule yields_tfold_gen [where I = "\<lambda>_. I"]) (use assms in auto)

lemma yields_tloop:
  assumes "\<And>s. b s \<Longrightarrow> I s \<Longrightarrow> yields (f s) I"
  shows "I s \<Longrightarrow> yields (tloop n b f s) (\<lambda>s. I s \<and> \<not> b s)"
proof (induction n arbitrary: s)
  case 0
  then show ?case by (simp add: yields_fail)
next
  case (Suc n)
  show ?case
  proof (cases "b s")
    case True
    have "yields (tbind (f s) (tloop n b f)) (\<lambda>s. I s \<and> \<not> b s)"
      by (rule yields_bind, rule assms [OF True Suc.prems], rule Suc.IH)
    with True show ?thesis by simp
  qed (use Suc.prems in \<open>simp add: yields_ret\<close>)
qed

lemma yields_twhile:
  assumes "\<And>s. b s \<Longrightarrow> I s \<Longrightarrow> yields (f s) I" "I s"
  shows "yields (twhile b f s) (\<lambda>s. I s \<and> \<not> b s)"
proof -
  have "yields (tloop n b f s) (\<lambda>s. I s \<and> \<not> b s)" for n
    by (rule yields_tloop [OF assms])
  then show ?thesis unfolding yields_def twhile_def by blast
qed

section \<open>What a computation costs\<close>

text \<open>
  Started within the limit, a computation charges what it charges within the limit, and it never runs out of
  turns; a costly one charges at least a unit.
\<close>

definition in_budget :: "opt_guard \<Rightarrow> tala_error + ('a \<times> opt_guard) \<Rightarrow> bool" where
  "in_budget g r \<longleftrightarrow>
    (case r of
       Inl e \<Rightarrow> e \<noteq> OutOfTurns
     | Inr (x, g') \<Rightarrow> og_limit g' = og_limit g \<and> og_used g \<le> og_used g' \<and> og_used g' \<le> og_limit g)"

definition tame :: "'a tala \<Rightarrow> bool" where
  "tame m \<longleftrightarrow> (\<forall>g. og_used g \<le> og_limit g \<longrightarrow> in_budget g (m g))"

definition costly :: "'a tala \<Rightarrow> bool" where
  "costly m \<longleftrightarrow> (\<forall>g x g'. og_used g \<le> og_limit g \<longrightarrow> m g = Inr (x, g') \<longrightarrow> og_used g < og_used g')"

definition charges :: "(opt_guard \<Rightarrow> tala_error + opt_guard) \<Rightarrow> bool" where
  "charges c \<longleftrightarrow> (\<forall>g. og_used g \<le> og_limit g \<longrightarrow> in_budget g (map_sum id (\<lambda>g'. ((), g')) (c g)))"

lemma in_budget_simps [simp]:
  "in_budget g (Inl e) \<longleftrightarrow> e \<noteq> OutOfTurns"
  "in_budget g (Inr (x, g')) \<longleftrightarrow> og_limit g' = og_limit g \<and> og_used g \<le> og_used g' \<and> og_used g' \<le> og_limit g"
  by (simp_all add: in_budget_def)

lemma in_budget_trans:
  "in_budget g1 r \<Longrightarrow> og_limit g1 = og_limit g \<Longrightarrow> og_used g \<le> og_used g1 \<Longrightarrow> in_budget g r"
  by (auto simp: in_budget_def split: sum.splits)

lemma tameD:
  assumes "tame m" "og_used g \<le> og_limit g" "m g = Inr (x, g')"
  shows "og_limit g' = og_limit g" "og_used g \<le> og_used g'" "og_used g' \<le> og_limit g'"
  using assms by (auto simp: tame_def dest: spec [of _ g])

named_theorems tame_rules \<open>rules for the cost of a computation\<close>
named_theorems costly_rules \<open>rules for computations that charge\<close>

lemma charges_Check [tame_rules]: "charges opt_Check"
  by (auto simp: charges_def opt_Check_def split: option.split)

lemma charges_Add [tame_rules]: "charges (opt_Add n)"
  by (auto simp: charges_def opt_Add_def opt_Check_def Let_def split: option.split)

lemma charges_Step [tame_rules]: "charges opt_Step"
  using charges_Add [of 1] by (simp add: charges_def opt_Step_def)

lemma charges_AddProduct: "charges (opt_AddProduct a b)"
  using charges_Add [of "a * b"] by (auto simp: charges_def opt_AddProduct_def)

lemma charges_AddSort [tame_rules]: "charges (opt_AddSort n)"
  using charges_AddProduct [of n "bits_Len (n - 1)"] charges_Check
  by (auto simp: charges_def opt_AddSort_def)

lemma tame_ret [tame_rules]: "tame (tret x)"
  by (simp add: tame_def tret_def)

lemma tame_fail [tame_rules]: "e \<noteq> OutOfTurns \<Longrightarrow> tame (tfail e)"
  by (simp add: tame_def tfail_def)

lemma tame_bind [tame_rules]:
  assumes "tame m" "\<And>x. tame (f x)"
  shows "tame (tbind m f)"
  unfolding tame_def
proof (intro allI impI)
  fix g :: opt_guard assume g: "og_used g \<le> og_limit g"
  show "in_budget g (tbind m f g)"
  proof (cases "m g")
    case (Inl e)
    with assms(1) g show ?thesis by (auto simp: tame_def tbind_def dest: spec [of _ g])
  next
    case (Inr r)
    obtain x g1 where r: "r = (x, g1)" by (cases r)
    note g1 = tameD [OF assms(1) g Inr [unfolded r]]
    have "in_budget g1 (f x g1)" using assms(2) g1 by (simp add: tame_def)
    then have "in_budget g (f x g1)" by (rule in_budget_trans) (use g1 in simp_all)
    with Inr r show ?thesis by (simp add: tbind_def)
  qed
qed

lemma tame_charge [tame_rules]:
  assumes "charges c" "tame m"
  shows "tame (charge c m)"
  unfolding tame_def
proof (intro allI impI)
  fix g :: opt_guard assume g: "og_used g \<le> og_limit g"
  show "in_budget g (charge c m g)"
  proof (cases "c g")
    case (Inl e)
    with assms(1) g show ?thesis by (auto simp: charges_def charge_def dest: spec [of _ g])
  next
    case (Inr g1)
    with assms(1) g have g1: "og_limit g1 = og_limit g" "og_used g \<le> og_used g1" "og_used g1 \<le> og_limit g"
      by (auto simp: charges_def dest: spec [of _ g])
    with assms(2) have "in_budget g1 (m g1)" by (simp add: tame_def)
    then have "in_budget g (m g1)" by (rule in_budget_trans) (use g1 in simp_all)
    with Inr show ?thesis by (simp add: charge_def)
  qed
qed

lemma tame_get_at [tame_rules]: "(\<And>x. tame (K x)) \<Longrightarrow> tame (get_at xs i K)"
  by (simp add: get_at_def tame_fail)

lemma tame_put_at [tame_rules]: "(\<And>ys. tame (K ys)) \<Longrightarrow> tame (put_at xs i v K)"
  by (simp add: put_at_def tame_fail)

lemma tame_checked [tame_rules]: "e \<noteq> OutOfTurns \<Longrightarrow> (\<And>v. tame (K v)) \<Longrightarrow> tame (checked r e K)"
  by (auto simp: checked_def tame_fail split: option.split)

lemma tame_ensure [tame_rules]: "e \<noteq> OutOfTurns \<Longrightarrow> tame m \<Longrightarrow> tame (ensure_that b e m)"
  by (simp add: ensure_that_def tame_fail)

lemma tame_if [tame_rules]: "(b \<Longrightarrow> tame m) \<Longrightarrow> (\<not> b \<Longrightarrow> tame n) \<Longrightarrow> tame (if b then m else n)"
  by simp

lemma tame_tfold [tame_rules]: "(\<And>x s. tame (f x s)) \<Longrightarrow> tame (tfold f xs s)"
  by (induction xs arbitrary: s) (simp_all add: tame_ret tame_bind)

lemma costly_step [costly_rules]: "tame m \<Longrightarrow> costly (stepping m)"
  unfolding costly_def
proof (intro allI impI)
  fix g g' :: opt_guard and x assume m: "tame m" and g: "og_used g \<le> og_limit g" "stepping m g = Inr (x, g')"
  then obtain g1 where g1: "opt_Step g = Inr g1" "m g1 = Inr (x, g')"
    by (auto simp: charge_def split: sum.splits)
  with opt_Step_used [OF g1(1)] tameD(2) [OF m _ g1(2)] show "og_used g < og_used g'" by simp
qed

lemma costly_fail [costly_rules]: "costly (tfail e)"
  by (simp add: costly_def tfail_def)

lemma tbind_Inr: "tbind m f g = Inr (y, g') \<Longrightarrow> \<exists>x g1. m g = Inr (x, g1) \<and> f x g1 = Inr (y, g')"
  by (auto simp: tbind_def split: sum.splits)

lemma costly_bind_first:
  assumes "costly m" "tame m" "\<And>x. tame (f x)"
  shows "costly (tbind m f)"
  unfolding costly_def
proof (intro allI impI)
  fix g g' :: opt_guard and y assume g: "og_used g \<le> og_limit g" "tbind m f g = Inr (y, g')"
  then obtain x g1 where r: "m g = Inr (x, g1)" "f x g1 = Inr (y, g')" by (blast dest: tbind_Inr)
  from assms(1) g(1) r(1) have "og_used g < og_used g1" by (simp add: costly_def)
  also have "\<dots> \<le> og_used g'" using tameD(2) [OF assms(3) _ r(2)] tameD(3) [OF assms(2) g(1) r(1)] by simp
  finally show "og_used g < og_used g'" .
qed

lemma costly_bind_then:
  assumes "tame m" "\<And>x. costly (f x)"
  shows "costly (tbind m f)"
  unfolding costly_def
proof (intro allI impI)
  fix g g' :: opt_guard and y assume g: "og_used g \<le> og_limit g" "tbind m f g = Inr (y, g')"
  then obtain x g1 where r: "m g = Inr (x, g1)" "f x g1 = Inr (y, g')" by (blast dest: tbind_Inr)
  have "og_used g \<le> og_used g1" using tameD(2) [OF assms(1) g(1) r(1)] .
  also have "\<dots> < og_used g'"
    using assms(2) [of x] tameD(3) [OF assms(1) g(1) r(1)] r(2) by (simp add: costly_def)
  finally show "og_used g < og_used g'" .
qed

lemma costly_get_at [costly_rules]: "(\<And>x. costly (K x)) \<Longrightarrow> costly (get_at xs i K)"
  by (simp add: get_at_def costly_fail)

lemma costly_if [costly_rules]: "costly m \<Longrightarrow> costly n \<Longrightarrow> costly (if b then m else n)"
  by simp

lemma costly_tfold: "xs \<noteq> [] \<Longrightarrow> (\<And>x s. tame (f x s)) \<Longrightarrow> (\<And>x s. costly (f x s)) \<Longrightarrow> costly (tfold f xs s)"
  by (cases xs) (simp_all add: costly_bind_first tame_tfold)

text \<open>The budget gives turns enough to a loop that charges in every turn.\<close>

lemma loop_turn:
  assumes "tame m" "costly m" "og_used g \<le> og_limit g" "m g = Inr (s1, g1)"
  shows "og_limit g1 = og_limit g" "og_used g < og_used g1" "og_used g1 \<le> og_limit g"
  using tameD [OF assms(1,3,4)] assms(2-4) by (simp_all add: costly_def)

lemma tame_tloop:
  assumes "\<And>s. b s \<Longrightarrow> tame (f s)" "\<And>s. b s \<Longrightarrow> costly (f s)"
  shows "og_used g \<le> og_limit g \<Longrightarrow> og_limit g - og_used g < n \<Longrightarrow> in_budget g (tloop n b f s g)"
proof (induction n arbitrary: s g)
  case (Suc n)
  show ?case
  proof (cases "b s")
    case True
    show ?thesis
    proof (cases "f s g")
      case (Inl e)
      with assms(1) [OF True] Suc.prems(1) True show ?thesis
        by (auto simp: tame_def tbind_def dest: spec [of _ g])
    next
      case (Inr r)
      obtain s1 g1 where r: "r = (s1, g1)" by (cases r)
      note turn = loop_turn [OF assms(1) [OF True] assms(2) [OF True] Suc.prems(1) Inr [unfolded r]]
      have "in_budget g1 (tloop n b f s1 g1)" using Suc.prems turn by (intro Suc.IH) linarith+
      then have "in_budget g (tloop n b f s1 g1)" by (rule in_budget_trans) (use turn in simp_all)
      with True Inr r show ?thesis by (simp add: tbind_def)
    qed
  qed (use Suc.prems in \<open>simp add: tret_def\<close>)
qed simp

lemma tame_twhile [tame_rules]:
  assumes "\<And>s. b s \<Longrightarrow> tame (f s)" "\<And>s. b s \<Longrightarrow> costly (f s)"
  shows "tame (twhile b f s)"
  unfolding tame_def
proof (intro allI impI)
  fix g :: opt_guard assume "og_used g \<le> og_limit g"
  then show "in_budget g (twhile b f s g)"
    unfolding twhile_def by (intro tame_tloop assms) simp_all
qed

lemma tloop_more:
  assumes "\<And>s. b s \<Longrightarrow> tame (f s)" "\<And>s. b s \<Longrightarrow> costly (f s)"
  shows "og_used g \<le> og_limit g \<Longrightarrow> og_limit g - og_used g < n \<Longrightarrow> og_limit g - og_used g < k \<Longrightarrow>
    tloop n b f s g = tloop k b f s g"
proof (induction n arbitrary: k s g)
  case (Suc n)
  then obtain k' where k: "k = Suc k'" by (cases k) auto
  show ?case
  proof (cases "b s")
    case True
    show ?thesis
    proof (cases "f s g")
      case (Inr r)
      obtain s1 g1 where r: "r = (s1, g1)" by (cases r)
      note turn = loop_turn [OF assms(1) [OF True] assms(2) [OF True] Suc.prems(1) Inr [unfolded r]]
      have "tloop n b f s1 g1 = tloop k' b f s1 g1"
        using Suc.prems turn k by (intro Suc.IH) linarith+
      with True Inr r k show ?thesis by (simp add: tbind_def)
    qed (simp add: k tbind_def)
  qed (simp add: k)
qed simp

text \<open>So the loop is the code's recursion.\<close>

lemma twhile_equation:
  assumes "\<And>s. b s \<Longrightarrow> tame (f s)" "\<And>s. b s \<Longrightarrow> costly (f s)" "og_used g \<le> og_limit g"
  shows "twhile b f s g = (if b s then tbind (f s) (twhile b f) else tret s) g"
proof (cases "b s")
  case True
  show ?thesis
  proof (cases "f s g")
    case (Inr r)
    obtain s1 g1 where r: "r = (s1, g1)" by (cases r)
    note turn = loop_turn [OF assms(1) [OF True] assms(2) [OF True] assms(3) Inr [unfolded r]]
    have "tloop (og_limit g - og_used g) b f s1 g1 = tloop (Suc (og_limit g1 - og_used g1)) b f s1 g1"
      using turn by (intro tloop_more assms(1,2)) linarith+
    with True Inr r show ?thesis by (simp add: twhile_def tbind_def del: tloop.simps(2)) (simp add: tbind_def)
  qed (use True in \<open>simp add: twhile_def tbind_def\<close>)
qed (simp add: twhile_def)

end
