(* ===== verification/Heap_Order.thy ===== *)
theory Heap_Order
  imports "HOL-Library.Multiset"
begin

text \<open>
  Binary heaps in a slice, as TALA's priority queues keep them: the loops that move an element up or down,
  for any order on the elements, and \<^verbatim>\<open>nodeMinHeap\<close> of \<^verbatim>\<open>hierarchy/rank_queue.go\<close>, which holds the indices of
  the nodes ready to be ranked.
\<close>

section \<open>The loops\<close>

fun sift_up :: "('a \<Rightarrow> 'a \<Rightarrow> bool) \<Rightarrow> nat \<Rightarrow> 'a list \<Rightarrow> 'a list" where
  "sift_up le child xs =
    (if child = 0 then xs
     else let parent = (child - 1) div 2
          in if le (xs ! parent) (xs ! child) then xs
             else sift_up le parent (xs[parent := xs ! child, child := xs ! parent]))"

definition lower_child :: "('a \<Rightarrow> 'a \<Rightarrow> bool) \<Rightarrow> nat \<Rightarrow> 'a list \<Rightarrow> nat" where
  "lower_child le left xs =
    (let right = left + 1
     in if right < length xs \<and> \<not> le (xs ! left) (xs ! right) then right else left)"

lemma lower_child_cases:
  "left < length xs \<Longrightarrow> left \<le> lower_child le left xs \<and> lower_child le left xs < length xs \<and>
    (lower_child le left xs = left \<or> lower_child le left xs = Suc left)"
  by (auto simp: lower_child_def Let_def)

function sift_down :: "('a \<Rightarrow> 'a \<Rightarrow> bool) \<Rightarrow> nat \<Rightarrow> 'a list \<Rightarrow> 'a list" where
  "sift_down le parent xs =
    (let left = parent * 2 + 1
     in if left \<ge> length xs then xs
        else let child = lower_child le left xs
             in if le (xs ! parent) (xs ! child) then xs
                else sift_down le child (xs[parent := xs ! child, child := xs ! parent]))"
  by pat_completeness auto
termination
proof (relation "measure (\<lambda>(le, parent, xs). length xs - parent)", goal_cases)
  case (2 le parent xs left child)
  then show ?case using lower_child_cases [of left xs le] by auto
qed simp

declare sift_up.simps [simp del] sift_down.simps [simp del]

section \<open>\<open>nodeMinHeap\<close>\<close>

definition heap_push :: "nat \<Rightarrow> nat list \<Rightarrow> nat list" where
  "heap_push node h = sift_up (\<le>) (length h) (h @ [node])"

text \<open>The smallest index and the rest of the heap; the empty heap panics.\<close>

definition heap_pop :: "nat list \<Rightarrow> (nat \<times> nat list) option" where
  "heap_pop h =
    (if h = [] then None
     else let rest = butlast h
          in Some (h ! 0, if rest = [] then rest else sift_down (\<le>) 0 (rest[0 := last h])))"

section \<open>What a heap is\<close>

definition heap_parent :: "nat \<Rightarrow> nat" where
  "heap_parent i = (i - 1) div 2"

definition heap_ok :: "('a \<Rightarrow> 'a \<Rightarrow> bool) \<Rightarrow> 'a list \<Rightarrow> bool" where
  "heap_ok le xs \<longleftrightarrow> (\<forall>i < length xs. 0 < i \<longrightarrow> le (xs ! heap_parent i) (xs ! i))"

text \<open>A heap but for the element at \<open>i\<close>, which may be smaller than its parent, or larger than its children.\<close>

definition heap_but_up :: "('a \<Rightarrow> 'a \<Rightarrow> bool) \<Rightarrow> nat \<Rightarrow> 'a list \<Rightarrow> bool" where
  "heap_but_up le i xs \<longleftrightarrow>
    (\<forall>k < length xs. 0 < k \<longrightarrow> k \<noteq> i \<longrightarrow> le (xs ! heap_parent k) (xs ! k)) \<and>
    (\<forall>k < length xs. 0 < k \<longrightarrow> heap_parent k = i \<longrightarrow> 0 < i \<longrightarrow> le (xs ! heap_parent i) (xs ! k))"

definition heap_but_down :: "('a \<Rightarrow> 'a \<Rightarrow> bool) \<Rightarrow> nat \<Rightarrow> 'a list \<Rightarrow> bool" where
  "heap_but_down le i xs \<longleftrightarrow>
    (\<forall>k < length xs. 0 < k \<longrightarrow> heap_parent k \<noteq> i \<longrightarrow> le (xs ! heap_parent k) (xs ! k)) \<and>
    (\<forall>k < length xs. 0 < k \<longrightarrow> heap_parent k = i \<longrightarrow> 0 < i \<longrightarrow> le (xs ! heap_parent i) (xs ! k))"

lemma heap_parent_less: "0 < i \<Longrightarrow> heap_parent i < i"
  by (simp add: heap_parent_def)

lemma heap_children: "heap_parent k = i \<Longrightarrow> 0 < k \<Longrightarrow> k = 2 * i + 1 \<or> k = 2 * i + 2"
  unfolding heap_parent_def by presburger

lemma length_sift_up [simp]: "length (sift_up le i xs) = length xs"
proof (induction le i xs rule: sift_up.induct)
  case (1 le i xs)
  then show ?case by (subst sift_up.simps) (auto simp: Let_def)
qed

lemma length_sift_down [simp]: "length (sift_down le i xs) = length xs"
proof (induction le i xs rule: sift_down.induct)
  case (1 le i xs)
  then show ?case by (subst sift_down.simps) (auto simp: Let_def)
qed

lemma mset_sift_up: "i < length xs \<Longrightarrow> mset (sift_up le i xs) = mset xs"
proof (induction le i xs rule: sift_up.induct)
  case (1 le i xs)
  then have "(i - 1) div 2 < length xs" by linarith
  with 1 show ?case by (subst sift_up.simps) (auto simp: Let_def mset_swap)
qed

lemma mset_sift_down: "i < length xs \<Longrightarrow> mset (sift_down le i xs) = mset xs"
proof (induction le i xs rule: sift_down.induct)
  case (1 le i xs)
  then show ?case
    using lower_child_cases [of "i * 2 + 1" xs le]
    by (subst sift_down.simps) (auto simp: Let_def mset_swap)
qed

section \<open>Restoring the order\<close>

text \<open>The contract of the comparison: a total preorder.\<close>

locale heap_order =
  fixes le :: "'a \<Rightarrow> 'a \<Rightarrow> bool"
  assumes le_trans: "le x y \<Longrightarrow> le y z \<Longrightarrow> le x z"
    and le_total: "le x y \<or> le y x"
begin

lemma le_refl: "le x x"
  using le_total by blast

lemma but_up_step:
  assumes "heap_but_up le i xs" "0 < i" "i < length xs" "\<not> le (xs ! heap_parent i) (xs ! i)"
  shows "heap_but_up le (heap_parent i) (xs[heap_parent i := xs ! i, i := xs ! heap_parent i])"
proof -
  let ?p = "heap_parent i"
  have p: "?p < i" using assms(2) by (rule heap_parent_less)
  have small: "le (xs ! i) (xs ! ?p)" using assms(4) le_total by blast
  have old: "k < length xs \<Longrightarrow> 0 < k \<Longrightarrow> k \<noteq> i \<Longrightarrow> le (xs ! heap_parent k) (xs ! k)" for k
    using assms(1) by (simp add: heap_but_up_def)
  have below: "k < length xs \<Longrightarrow> 0 < k \<Longrightarrow> heap_parent k = i \<Longrightarrow> le (xs ! ?p) (xs ! k)" for k
    using assms(1,2) by (simp add: heap_but_up_def)
  have above: "0 < ?p \<Longrightarrow> le (xs ! heap_parent ?p) (xs ! ?p)"
    using old [of ?p] p assms(3) by simp
  let ?ys = "xs[?p := xs ! i, i := xs ! ?p]"
  have ys: "?ys ! i = xs ! ?p" "?ys ! ?p = xs ! i" "j \<noteq> i \<Longrightarrow> j \<noteq> ?p \<Longrightarrow> ?ys ! j = xs ! j" for j
    using p assms(3) by simp_all
  show ?thesis
    unfolding heap_but_up_def length_list_update
  proof (intro conjI allI impI)
    fix k assume k: "k < length xs" "0 < k" "k \<noteq> ?p"
    consider "k = i" | "k \<noteq> i" "heap_parent k = ?p" | "k \<noteq> i" "heap_parent k = i" |
      "k \<noteq> i" "heap_parent k \<noteq> ?p" "heap_parent k \<noteq> i" by blast
    then show "le (?ys ! heap_parent k) (?ys ! k)"
    proof cases
      case 2
      with old [OF k(1,2)] le_trans [OF small] have "le (xs ! i) (xs ! k)" by simp
      then show ?thesis using ys(3) [OF 2(1) k(3)] ys(2) 2(2) by simp
    next
      case 3
      then show ?thesis using ys(3) [OF 3(1) k(3)] ys(1) below [OF k(1,2)] by simp
    next
      case 4
      then show ?thesis using ys(3) [OF 4(1) k(3)] ys(3) [OF 4(3,2)] old [OF k(1,2)] by simp
    qed (use ys small in simp)
  next
    fix k assume k: "k < length xs" "0 < k" "heap_parent k = ?p" "0 < ?p"
    have top: "heap_parent ?p < ?p" using k(4) by (rule heap_parent_less)
    then have kp: "k \<noteq> ?p" "heap_parent ?p \<noteq> i" "heap_parent ?p \<noteq> ?p" using k p by auto
    have "le (xs ! heap_parent ?p) (?ys ! k)"
    proof (cases "k = i")
      case False
      with old [OF k(1,2)] le_trans [OF above [OF k(4)]] k(3) ys(3) [OF False kp(1)] show ?thesis by simp
    qed (use ys above [OF k(4)] in simp)
    then show "le (?ys ! heap_parent ?p) (?ys ! k)" by (simp only: ys(3) [OF kp(2,3)])
  qed
qed

lemma sift_up_heap: "i < length xs \<Longrightarrow> heap_but_up le i xs \<Longrightarrow> heap_ok le (sift_up le i xs)"
proof (induction le\<equiv>le i xs rule: sift_up.induct)
  case (1 i xs)
  show ?case
  proof (cases "i = 0")
    case True
    with 1 show ?thesis by (subst sift_up.simps) (simp add: heap_ok_def heap_but_up_def)
  next
    case False
    show ?thesis
    proof (cases "le (xs ! heap_parent i) (xs ! i)")
      case True
      with 1 False show ?thesis
        by (subst sift_up.simps) (auto simp: heap_ok_def heap_but_up_def heap_parent_def)
    next
      case up: False
      have "heap_parent i < length xs" using heap_parent_less [of i] False 1 by simp
      with 1(1) [OF False refl, folded heap_parent_def, OF up] but_up_step [OF 1(3) _ 1(2) up] False up
      show ?thesis by (subst sift_up.simps) (simp add: Let_def heap_parent_def)
    qed
  qed
qed

lemma but_down_step:
  assumes "heap_but_down le i xs" "c < length xs" "heap_parent c = i" "0 < c" "\<not> le (xs ! i) (xs ! c)"
    and least: "\<And>k. k < length xs \<Longrightarrow> 0 < k \<Longrightarrow> heap_parent k = i \<Longrightarrow> le (xs ! c) (xs ! k)"
  shows "heap_but_down le c (xs[i := xs ! c, c := xs ! i])"
proof -
  have ic: "i < c" using heap_parent_less [OF assms(4)] assms(3) by simp
  have small: "le (xs ! c) (xs ! i)" using assms(5) le_total by blast
  have old: "k < length xs \<Longrightarrow> 0 < k \<Longrightarrow> heap_parent k \<noteq> i \<Longrightarrow> le (xs ! heap_parent k) (xs ! k)" for k
    using assms(1) by (simp add: heap_but_down_def)
  have above: "0 < i \<Longrightarrow> le (xs ! heap_parent i) (xs ! c)"
    using assms(1-4) by (simp add: heap_but_down_def)
  let ?ys = "xs[i := xs ! c, c := xs ! i]"
  have ys: "?ys ! c = xs ! i" "?ys ! i = xs ! c" "j \<noteq> i \<Longrightarrow> j \<noteq> c \<Longrightarrow> ?ys ! j = xs ! j" for j
    using ic assms(2) by simp_all
  show ?thesis
    unfolding heap_but_down_def length_list_update
  proof (intro conjI allI impI)
    fix k assume k: "k < length xs" "0 < k" "heap_parent k \<noteq> c"
    consider "k = c" | "k \<noteq> c" "heap_parent k = i" | "k = i" "heap_parent k \<noteq> i" |
      "k \<noteq> c" "k \<noteq> i" "heap_parent k \<noteq> i" by blast
    then show "le (?ys ! heap_parent k) (?ys ! k)"
    proof cases
      case 1
      then show ?thesis using ys small assms(3) by simp
    next
      case 2
      then have "k \<noteq> i" using heap_parent_less [OF k(2)] by simp
      then show ?thesis using ys(3) [of k] 2 ys(2) least [OF k(1,2)] by simp
    next
      case 3
      then show ?thesis using ys(2) ys(3) [OF 3(2) k(3)] above k(2) by simp
    next
      case 4
      then show ?thesis using ys(3) [of k] ys(3) [OF 4(3) k(3)] old [OF k(1,2)] by simp
    qed
  next
    fix k assume k: "k < length xs" "0 < k" "heap_parent k = c" "0 < c"
    then have ki: "k \<noteq> c" "k \<noteq> i" using heap_parent_less [OF k(2)] ic by auto
    have "le (xs ! c) (xs ! k)" using old [OF k(1,2)] k(3) ic by simp
    then show "le (?ys ! heap_parent c) (?ys ! k)"
      by (simp only: assms(3) ys(2) ys(3) [OF ki(2,1)])
  qed
qed

lemma sift_down_heap: "i < length xs \<Longrightarrow> heap_but_down le i xs \<Longrightarrow> heap_ok le (sift_down le i xs)"
proof (induction le\<equiv>le i xs rule: sift_down.induct)
  case (1 i xs)
  have old: "k < length xs \<Longrightarrow> 0 < k \<Longrightarrow> heap_parent k \<noteq> i \<Longrightarrow> le (xs ! heap_parent k) (xs ! k)" for k
    using 1(3) by (simp add: heap_but_down_def)
  let ?c = "lower_child le (i * 2 + 1) xs"
  show ?case
  proof (cases "length xs \<le> i * 2 + 1")
    case True
    then have "k < length xs \<Longrightarrow> 0 < k \<Longrightarrow> heap_parent k \<noteq> i" for k
      using heap_children [of k i] by auto
    with old True show ?thesis by (subst sift_down.simps) (simp add: heap_ok_def)
  next
    case False
    have c: "?c < length xs" "heap_parent ?c = i" "0 < ?c"
      using False lower_child_cases [of "i * 2 + 1" xs le] by (auto simp: heap_parent_def)
    have least: "le (xs ! ?c) (xs ! k)" if "k < length xs" "0 < k" "heap_parent k = i" for k
    proof -
      have "k = i * 2 + 1 \<or> k = i * 2 + 1 + 1" using heap_children [OF that(3,2)] by auto
      then show ?thesis
        using that(1) le_refl le_total [of "xs ! (i * 2 + 1)" "xs ! (i * 2 + 1 + 1)"]
        by (auto simp: lower_child_def Let_def)
    qed
    show ?thesis
    proof (cases "le (xs ! i) (xs ! ?c)")
      case True
      have "le (xs ! heap_parent k) (xs ! k)" if "k < length xs" "0 < k" for k
        using old [OF that] least [OF that] le_trans [OF True] by (cases "heap_parent k = i") auto
      then have "heap_ok le xs" by (simp add: heap_ok_def)
      with False True show ?thesis by (subst sift_down.simps) (simp add: Let_def)
    next
      case down: False
      have go: "sift_down le i xs = sift_down le ?c (xs[i := xs ! ?c, ?c := xs ! i])"
        using False down by (subst sift_down.simps) (simp only: Let_def if_False)
      show ?thesis
        unfolding go
        by (rule 1(1) [OF refl False refl down _ but_down_step [OF 1(3) c down least]]) (use c(1) in simp_all)
    qed
  qed
qed

lemma heap_least: "heap_ok le xs \<Longrightarrow> i < length xs \<Longrightarrow> le (xs ! 0) (xs ! i)"
proof (induction i rule: less_induct)
  case (less i)
  show ?case
  proof (cases "i = 0")
    case True
    then show ?thesis by (simp add: le_refl)
  next
    case False
    with less heap_parent_less [of i] have "le (xs ! 0) (xs ! heap_parent i)" "le (xs ! heap_parent i) (xs ! i)"
      by (auto simp: heap_ok_def)
    then show ?thesis by (rule le_trans)
  qed
qed

lemma push_but_up:
  assumes "heap_ok le xs"
  shows "heap_but_up le (length xs) (xs @ [x])"
  unfolding heap_but_up_def
proof (intro conjI allI impI)
  fix k assume k: "k < length (xs @ [x])" "0 < k" "k \<noteq> length xs"
  then show "le ((xs @ [x]) ! heap_parent k) ((xs @ [x]) ! k)"
    using assms heap_parent_less [of k] by (simp add: heap_ok_def nth_append)
next
  fix k assume "k < length (xs @ [x])" "0 < k" "heap_parent k = length xs"
  then show "le ((xs @ [x]) ! heap_parent (length xs)) ((xs @ [x]) ! k)"
    using heap_parent_less [of k] by simp
qed

lemma root_but_down:
  assumes "heap_ok le xs" "xs \<noteq> []"
  shows "heap_but_down le 0 (xs[0 := x])"
  using assms heap_parent_less by (auto simp: heap_ok_def heap_but_down_def nth_list_update)

lemma heap_ok_butlast:
  assumes "heap_ok le xs"
  shows "heap_ok le (butlast xs)"
  unfolding heap_ok_def
proof (intro allI impI)
  fix i assume i: "i < length (butlast xs)" "0 < i"
  then have "heap_parent i < length (butlast xs)" using heap_parent_less [of i] by simp
  with i assms show "le (butlast xs ! heap_parent i) (butlast xs ! i)"
    by (simp add: heap_ok_def nth_butlast)
qed

lemma push_heap: "heap_ok le xs \<Longrightarrow> heap_ok le (sift_up le (length xs) (xs @ [x]))"
  by (simp add: push_but_up sift_up_heap)

lemma pop_heap: "heap_ok le xs \<Longrightarrow> butlast xs \<noteq> [] \<Longrightarrow> heap_ok le (sift_down le 0 ((butlast xs)[0 := x]))"
  using sift_down_heap [OF _ root_but_down [OF heap_ok_butlast]] by (simp only: length_list_update length_greater_0_conv simp_thms not_False_eq_True)

text \<open>An element that became smaller.\<close>

lemma smaller_but_up:
  assumes "heap_ok le xs" "i < length xs" "le x (xs ! i)"
  shows "heap_but_up le i (xs[i := x])"
  unfolding heap_but_up_def length_list_update
proof (intro conjI allI impI)
  fix k assume k: "k < length xs" "0 < k" "k \<noteq> i"
  then have old: "le (xs ! heap_parent k) (xs ! k)" using assms(1) by (simp add: heap_ok_def)
  show "le (xs[i := x] ! heap_parent k) (xs[i := x] ! k)"
    using k old assms(2) le_trans [OF assms(3)] heap_parent_less [of k] by (cases "heap_parent k = i") auto
next
  fix k assume k: "k < length xs" "0 < k" "heap_parent k = i" "0 < i"
  have "le (xs ! heap_parent i) (xs ! i)" "le (xs ! i) (xs ! k)"
    using k assms by (auto simp: heap_ok_def)
  then have "le (xs ! heap_parent i) (xs ! k)" by (rule le_trans)
  then show "le (xs[i := x] ! heap_parent i) (xs[i := x] ! k)"
    using k heap_parent_less [of i] heap_parent_less [of k] by simp
qed

end

interpretation node_heap: heap_order "(\<le>) :: nat \<Rightarrow> nat \<Rightarrow> bool"
  by unfold_locales auto

lemma heap_push_ok: "heap_ok (\<le>) h \<Longrightarrow> heap_ok (\<le>) (heap_push node h)"
  by (simp add: heap_push_def node_heap.push_heap)

lemma heap_push_mset [simp]: "mset (heap_push node h) = add_mset node (mset h)"
  by (simp add: heap_push_def mset_sift_up)

lemma pop_mset:
  assumes "h \<noteq> []" "butlast h \<noteq> []"
  shows "mset ((butlast h)[0 := last h]) = mset h - {#h ! 0#}"
proof -
  have "mset h = add_mset (last h) (mset (butlast h))"
    using assms(1) by (metis append_butlast_last_id mset_append mset_single_iff_right add_mset_add_single)
  moreover have "butlast h ! 0 = h ! 0" using nth_butlast [of 0 h] assms(2) by (simp only: length_greater_0_conv simp_thms not_False_eq_True)
  moreover from this have "h ! 0 \<in># mset (butlast h)"
    using assms(2) nth_mem [of 0 "butlast h"] by (metis length_greater_0_conv set_mset_mset)
  moreover have "0 < length (butlast h)" using assms(2) by (simp only: length_greater_0_conv simp_thms not_False_eq_True)
  ultimately show ?thesis by (simp add: mset_update del: length_butlast)
qed

lemma heap_pop_spec:
  assumes "heap_ok (\<le>) h" "h \<noteq> []"
  obtains x h' where "heap_pop h = Some (x, h')" "heap_ok (\<le>) h'" "mset h = add_mset x (mset h')" "\<forall>y \<in> set h. x \<le> y"
proof -
  have least: "\<forall>y \<in> set h. h ! 0 \<le> y"
    using node_heap.heap_least [OF assms(1)] by (auto simp: in_set_conv_nth)
  have mem: "h ! 0 \<in># mset h" using assms(2) by simp
  show thesis
  proof (cases "butlast h = []")
    case True
    with assms(2) obtain x where "h = [x]" by (metis append_butlast_last_id append_Nil)
    then show thesis by (intro that [of x "[]"]) (auto simp: heap_pop_def heap_ok_def)
  next
    case False
    let ?h = "sift_down (\<le>) 0 ((butlast h)[0 := last h])"
    have "mset ?h = mset h - {#h ! 0#}"
      using False pop_mset [OF assms(2) False] mset_sift_down [of 0 "(butlast h)[0 := last h]"]
      by (simp only: length_list_update length_greater_0_conv simp_thms not_False_eq_True)
    then show thesis
      using that [of "h ! 0" ?h] node_heap.pop_heap [OF assms(1) False] least mem assms(2) False
      by (simp add: heap_pop_def)
  qed
qed

end
