(* ===== verification/Rank_Graph.thy ===== *)
theory Rank_Graph
  imports Tala_Monad Heap_Order "HOL-Library.Option_ord" "HOL-Library.Product_Lexorder"
begin

text \<open>
  The input of TALA's rank solver, \<^verbatim>\<open>hierarchy/rank_graph.go\<close>: checking that a graph is a connected simple graph
  of directed edges, and the first ranking, by longest paths. Nodes and edges are pointers: a number is the
  address of one, None is nil. A text printed in an error is left out but for its numbers; for the name of a node
  its address stands.
\<close>

section \<open>Graphs\<close>

record graph_node =
  gn_ID :: int
  gn_Edges :: "nat option list"

record graph_edge =
  ge_ID :: int
  ge_From :: "nat option"
  ge_To :: "nat option"
  SourceArrowhead :: string
  TargetArrowhead :: string
  hierarchyRankWeight :: int
  hierarchyRankWeightSet :: bool

record layout_graph =
  lg_Nodes :: "nat option list"
  lg_Edges :: "nat option list"
  lg_node :: "nat \<Rightarrow> graph_node"
  lg_edge :: "nat \<Rightarrow> graph_edge"

definition NoArrowhead :: string where "NoArrowhead = ''none''"

definition HasSourceArrow :: "graph_edge \<Rightarrow> bool" where
  "HasSourceArrow e \<longleftrightarrow> SourceArrowhead e \<noteq> '''' \<and> SourceArrowhead e \<noteq> NoArrowhead"

definition HasTargetArrow :: "graph_edge \<Rightarrow> bool" where
  "HasTargetArrow e \<longleftrightarrow> TargetArrowhead e \<noteq> '''' \<and> TargetArrowhead e \<noteq> NoArrowhead"

definition HierarchyRankWeight :: "graph_edge \<Rightarrow> int" where
  "HierarchyRankWeight e = (if \<not> hierarchyRankWeightSet e then 1 else hierarchyRankWeight e)"

definition Adjacent :: "nat \<Rightarrow> graph_edge \<Rightarrow> nat option" where
  "Adjacent n e = (if Some n = ge_From e then ge_To e else ge_From e)"

definition MaxEngineNodes :: nat where "MaxEngineNodes = 10000"
definition MaxEngineEdges :: nat where "MaxEngineEdges = 50000"

section \<open>The problem\<close>

record rank_edge =
  re_from :: nat
  re_to :: nat
  re_weight :: int
  re_id :: int

record rank_problem =
  rp_nodes :: "nat list"
  rp_edges :: "rank_edge list"
  outgoingStart :: "nat list"
  pivotOrder :: "nat list"

definition rankMinSpan :: int where "rankMinSpan = 1"

text \<open>A key missing in a Go map reads as the zero value.\<close>

definition index_of :: "(nat \<Rightarrow> nat option) \<Rightarrow> nat option \<Rightarrow> nat" where
  "index_of idx p = (case p of None \<Rightarrow> 0 | Some a \<Rightarrow> (case idx a of None \<Rightarrow> 0 | Some i \<Rightarrow> i))"

definition index_nodes :: "layout_graph \<Rightarrow> nat option list \<Rightarrow> (nat list \<times> (nat \<Rightarrow> nat option)) tala" where
  "index_nodes g nodes =
    tfold (\<lambda>i (addrs, idx).
      stepping (case nodes ! i of
          None \<Rightarrow> tfail (Rejected ''nil node'' [])
        | Some a \<Rightarrow>
            if 0 < i \<and> map_option (gn_ID \<circ> lg_node g) (nodes ! (i - 1)) = Some (gn_ID (lg_node g a))
            then tfail (Rejected ''duplicate node ID'' [gn_ID (lg_node g a)])
            else if idx a \<noteq> None then tfail (Rejected ''duplicate node'' [int a])
            else tret (addrs @ [a], idx(a \<mapsto> i))))
      [0..<length nodes] ([], Map.empty)"

record edge_state =
  es_edges :: "(nat \<times> nat \<times> nat) list"
  seenEdges :: "nat list"
  seenEdgeIDs :: "int list"
  seenEndpoints :: "(nat \<times> nat) list"

definition check_edge ::
  "layout_graph \<Rightarrow> (nat \<Rightarrow> nat option) \<Rightarrow> nat option \<Rightarrow> edge_state \<Rightarrow> edge_state tala" where
  "check_edge g idx p s = stepping
    (case p of
       None \<Rightarrow> tfail (Rejected ''edge has a nil endpoint'' [])
     | Some a \<Rightarrow>
         (let e = lg_edge g a in
          case (ge_From e, ge_To e) of
            (Some x, Some y) \<Rightarrow>
              (case (idx x, idx y) of
                 (Some i, Some j) \<Rightarrow>
                   if i = j then tfail (Rejected ''self edge on'' [int x])
                   else if HasSourceArrow e \<or> \<not> HasTargetArrow e then
                     tfail (Rejected ''canonical source-to-target directed edges required'' [])
                   else if HierarchyRankWeight e \<le> 0 \<or> HierarchyRankWeight e > int MaxEngineEdges then
                     tfail (Rejected ''edge has invalid rank weight'' [ge_ID e, HierarchyRankWeight e])
                   else if a \<in> set (seenEdges s) then tfail (Rejected ''duplicate edge reference'' [ge_ID e])
                   else if ge_ID e \<in> set (seenEdgeIDs s) then tfail (Rejected ''duplicate edge ID'' [ge_ID e])
                   else if (i, j) \<in> set (seenEndpoints s) then
                     tfail (Rejected ''duplicate directed edge'' [int x, int y])
                   else tret \<lparr>es_edges = es_edges s @ [(a, i, j)], seenEdges = a # seenEdges s,
                     seenEdgeIDs = ge_ID e # seenEdgeIDs s, seenEndpoints = (i, j) # seenEndpoints s\<rparr>
               | _ \<Rightarrow> tfail (Rejected ''edge references a node outside the graph'' [ge_ID e]))
          | _ \<Rightarrow> tfail (Rejected ''edge has a nil endpoint'' [])))"

record incident_state =
  incidentCounts :: "nat \<Rightarrow> nat \<times> nat"
  incidentReferences :: nat

definition check_incident ::
  "layout_graph \<Rightarrow> nat list \<Rightarrow> nat \<Rightarrow> nat option \<Rightarrow> incident_state \<Rightarrow> incident_state tala" where
  "check_incident g seen node p s = stepping
    (let refs = incidentReferences s + 1 in
     if refs > MaxEngineEdges * 2 then
       tfail (Rejected ''incident edge references exceed limit'' [int (MaxEngineEdges * 2)])
     else
       (case p of
          None \<Rightarrow> tfail (Rejected ''malformed incident edge on'' [int node])
        | Some a \<Rightarrow>
            (let e = lg_edge g a in
             if ge_From e \<noteq> Some node \<and> ge_To e \<noteq> Some node then
               tfail (Rejected ''malformed incident edge on'' [int node])
             else if a \<notin> set seen then
               tfail (Rejected ''node references an edge outside the graph'' [int node])
             else
               (case incidentCounts s a of
                  (x, y) \<Rightarrow>
                    tret \<lparr>incidentCounts = (incidentCounts s)
                        (a := (if ge_From e = Some node then (x + 1, y) else (x, y + 1))),
                      incidentReferences = refs\<rparr>))))"

definition check_counts :: "layout_graph \<Rightarrow> (nat \<Rightarrow> nat \<times> nat) \<Rightarrow> nat \<Rightarrow> unit \<Rightarrow> unit tala" where
  "check_counts g counts a u = stepping
    (if counts a = (1, 1) then tret ()
     else tfail (Rejected ''edge must appear once on each endpoint''
       [ge_ID (lg_edge g a), int (fst (counts a)), int (snd (counts a))]))"

text \<open>The search for the nodes connected to the first one: its queue is what is left to visit.\<close>

definition visit_edge ::
  "layout_graph \<Rightarrow> (nat \<Rightarrow> nat option) \<Rightarrow> nat \<Rightarrow> nat option \<Rightarrow> bool list \<times> nat list \<Rightarrow> (bool list \<times> nat list) tala" where
  "visit_edge g idx node p = (\<lambda>(seen, queued). stepping
    (case p of
       None \<Rightarrow> tfail IndexPanic
     | Some a \<Rightarrow>
         (let v = index_of idx (Adjacent node (lg_edge g a)) in
          get_at seen v (\<lambda>b. if b then tret (seen, queued) else tret (seen[v := True], queued @ [v])))))"

text \<open>Each node is queued at most once, so as many turns as there are nodes suffice.\<close>

primrec search_nodes ::
  "nat \<Rightarrow> layout_graph \<Rightarrow> (nat \<Rightarrow> nat option) \<Rightarrow> nat list \<Rightarrow> bool list \<Rightarrow> nat list \<Rightarrow> nat \<Rightarrow> nat tala" where
  "search_nodes 0 g idx nodes seen todo n = (if todo = [] then tret n else tfail OutOfTurns)"
| "search_nodes (Suc k) g idx nodes seen todo n =
    (case todo of
       [] \<Rightarrow> tret n
     | u # rest \<Rightarrow>
         get_at nodes u (\<lambda>node.
           tbind (tfold (visit_edge g idx node) (gn_Edges (lg_node g node)) (seen, []))
             (\<lambda>(seen1, queued). search_nodes k g idx nodes seen1 (rest @ queued) (n + length queued))))"

definition problem_edges ::
  "layout_graph \<Rightarrow> nat \<Rightarrow> (nat \<times> nat \<times> nat) list \<Rightarrow> (rank_edge list \<times> nat list) tala" where
  "problem_edges g n edges =
    tfold (\<lambda>(a, i, j) (es, outgoing).
      stepping (get_at outgoing (i + 1) (\<lambda>c. put_at outgoing (i + 1) (c + 1) (\<lambda>outgoing1.
        tret (es @ [\<lparr>re_from = i, re_to = j, re_weight = HierarchyRankWeight (lg_edge g a),
          re_id = ge_ID (lg_edge g a)\<rparr>], outgoing1)))))
      edges ([], replicate (n + 1) 0)"

definition prefix_sums :: "nat \<Rightarrow> nat list \<Rightarrow> nat list tala" where
  "prefix_sums n outgoing =
    tfold (\<lambda>node out. stepping (get_at out node (\<lambda>x. get_at out (node + 1) (\<lambda>y.
      put_at out (node + 1) (y + x) tret)))) [0..<n] outgoing"

definition newRankProblem :: "layout_graph option \<Rightarrow> rank_problem tala" where
  "newRankProblem g =
    (case g of
       None \<Rightarrow> tfail (Rejected ''graph is required'' [])
     | Some g \<Rightarrow>
         ensure_that (length (lg_Nodes g) \<le> MaxEngineNodes)
           (Rejected ''node count exceeds limit'' [int MaxEngineNodes])
         (ensure_that (length (lg_Edges g) \<le> MaxEngineEdges)
           (Rejected ''edge count exceeds limit'' [int MaxEngineEdges])
         (charge (opt_AddSort (length (lg_Nodes g)))
           (let sorted = sort_key (map_option (gn_ID \<circ> lg_node g)) (lg_Nodes g) in
            tbind (index_nodes g sorted) (\<lambda>(nodes, idx).
            tbind (tfold (check_edge g idx) (lg_Edges g)
                \<lparr>es_edges = [], seenEdges = [], seenEdgeIDs = [], seenEndpoints = []\<rparr>) (\<lambda>s.
            charge (opt_AddSort (length (es_edges s)))
              (let edges = sort_key (\<lambda>(a, i, j). (i, j, ge_ID (lg_edge g a))) (es_edges s) in
               tbind (tfold (\<lambda>node s1. tfold (check_incident g (seenEdges s) node) (gn_Edges (lg_node g node)) s1)
                   nodes \<lparr>incidentCounts = (\<lambda>a. (0, 0)), incidentReferences = 0\<rparr>) (\<lambda>inc.
               tbind (tfold (check_counts g (incidentCounts inc)) (map fst edges) ()) (\<lambda>u.
               tbind (if length nodes > 1 then
                        tbind (search_nodes (length nodes) g idx nodes ((replicate (length nodes) False)[0 := True]) [0] 1) (\<lambda>found.
                          if found = length nodes then tret ()
                          else tfail (Rejected ''input graph is disconnected'' []))
                      else tret ()) (\<lambda>u.
               tbind (problem_edges g (length nodes) edges) (\<lambda>(es, outgoing).
               tbind (prefix_sums (length nodes) outgoing) (\<lambda>outgoing.
               tbind (tfold (\<lambda>i xs. stepping (tret (xs @ [i]))) [0..<length es] []) (\<lambda>pivots.
               charge (opt_AddSort (length pivots))
                 (tret \<lparr>rp_nodes = nodes, rp_edges = es, outgoingStart = outgoing,
                    pivotOrder = sort_key (\<lambda>i. re_id (es ! i)) pivots\<rparr>))))))))))))))"

section \<open>Longest paths\<close>

record kahn_state =
  ks_ready :: "nat list"
  ks_levels :: "int list"
  ks_indegree :: "int list"
  ks_visited :: nat

definition count_indegrees :: "rank_problem \<Rightarrow> int list tala" where
  "count_indegrees P =
    tfold (\<lambda>e deg. stepping (get_at deg (re_to e) (\<lambda>d. put_at deg (re_to e) (d + 1) tret)))
      (rp_edges P) (replicate (length (rp_nodes P)) 0)"

definition first_ready :: "int list \<Rightarrow> nat list tala" where
  "first_ready deg =
    tfold (\<lambda>node ready. stepping
      (if deg ! node = 0 then stepping (tret (heap_push node ready)) else tret ready))
      [0..<length deg] []"

definition relax_edge :: "rank_problem \<Rightarrow> nat \<Rightarrow> nat \<Rightarrow> kahn_state \<Rightarrow> kahn_state tala" where
  "relax_edge P u k s = stepping
    (get_at (rp_edges P) k (\<lambda>e.
     get_at (ks_levels s) u (\<lambda>l.
     checked (checkedAddInt64 l rankMinSpan) (Rejected ''initial level overflow'' []) (\<lambda>candidate.
     get_at (ks_levels s) (re_to e) (\<lambda>old.
     put_at (ks_levels s) (re_to e) (max old candidate) (\<lambda>levels.
     get_at (ks_indegree s) (re_to e) (\<lambda>d.
     put_at (ks_indegree s) (re_to e) (d - 1) (\<lambda>deg.
       let s1 = s\<lparr>ks_levels := levels, ks_indegree := deg\<rparr>
       in if d - 1 = 0 then stepping (tret (s1\<lparr>ks_ready := heap_push (re_to e) (ks_ready s1)\<rparr>))
          else tret s1))))))))"

definition kahn_step :: "rank_problem \<Rightarrow> kahn_state \<Rightarrow> kahn_state tala" where
  "kahn_step P s = stepping
    (case heap_pop (ks_ready s) of
       None \<Rightarrow> tfail IndexPanic
     | Some (u, ready) \<Rightarrow>
         get_at (outgoingStart P) u (\<lambda>a.
         get_at (outgoingStart P) (u + 1) (\<lambda>b.
           tfold (relax_edge P u) [a..<b] (s\<lparr>ks_ready := ready, ks_visited := ks_visited s + 1\<rparr>))))"

definition longestPathLevels :: "rank_problem \<Rightarrow> int list tala" where
  "longestPathLevels P =
    tbind (count_indegrees P) (\<lambda>deg.
    tbind (first_ready deg) (\<lambda>ready.
    tbind (twhile (\<lambda>s. ks_ready s \<noteq> []) (kahn_step P)
        \<lparr>ks_ready = ready, ks_levels = replicate (length (rp_nodes P)) 0, ks_indegree = deg, ks_visited = 0\<rparr>) (\<lambda>s.
    if ks_visited s = length (rp_nodes P) then tret (ks_levels s)
    else tfail (Rejected ''input graph contains a directed cycle'' []))))"

end
