(* ===== verification/Rank_Simplex.thy ===== *)
theory Rank_Simplex
  imports Rank_Graph
begin

text \<open>
  The rank solver of TALA's hierarchies: \<^verbatim>\<open>hierarchy/rank_simplex.go\<close> and \<^verbatim>\<open>hierarchy/rank.go\<close>. The arrays
  of \<^verbatim>\<open>rankSimplexScratch\<close> are set anew before every use, so each is a value of the call that uses it.
\<close>

record rank_simplex =
  rs_problem :: rank_problem
  incidentStart :: "nat list"
  incidentEdges :: "nat list"
  rs_balance :: "int list"

definition overflow :: "string \<Rightarrow> tala_error" where
  "overflow s = Rejected s []"

definition rankSpan :: "rank_edge \<Rightarrow> int list \<Rightarrow> (int \<Rightarrow> 'a tala) \<Rightarrow> 'a tala" where
  "rankSpan e levels K =
    get_at levels (re_to e) (\<lambda>x. get_at levels (re_from e) (\<lambda>y.
      checked (checkedSubInt64 x y) (overflow ''edge span overflow'') K))"

definition rankSlack :: "rank_edge \<Rightarrow> int list \<Rightarrow> (int \<Rightarrow> 'a tala) \<Rightarrow> 'a tala" where
  "rankSlack e levels K =
    rankSpan e levels (\<lambda>span.
      checked (checkedSubInt64 span rankMinSpan) (overflow ''edge slack overflow'') (\<lambda>slack.
        if slack < 0 then tfail (Violated ''infeasible span'' [span]) else K slack))"

definition other_end :: "rank_edge \<Rightarrow> nat \<Rightarrow> nat" where
  "other_end e node = (if re_from e = node then re_to e else re_from e)"

section \<open>The solver\<close>

definition count_ends :: "rank_edge \<Rightarrow> nat list \<times> int list \<Rightarrow> (nat list \<times> int list) tala" where
  "count_ends e = (\<lambda>(degree, balance). stepping
    (get_at degree (re_from e) (\<lambda>d. put_at degree (re_from e) (d + 1) (\<lambda>degree.
     get_at degree (re_to e) (\<lambda>d. put_at degree (re_to e) (d + 1) (\<lambda>degree.
     get_at balance (re_from e) (\<lambda>b.
     checked (checkedAddInt64 b (re_weight e)) (overflow ''supply overflow'') (\<lambda>b1.
     put_at balance (re_from e) b1 (\<lambda>balance.
     get_at balance (re_to e) (\<lambda>b.
     checked (checkedSubInt64 b (re_weight e)) (overflow ''demand overflow'') (\<lambda>b1.
     put_at balance (re_to e) b1 (\<lambda>balance. tret (degree, balance)))))))))))))"

definition incident_starts :: "nat list \<Rightarrow> nat list tala" where
  "incident_starts degree =
    tfold (\<lambda>node starts. stepping (get_at degree node (\<lambda>count. get_at starts node (\<lambda>s.
      put_at starts (node + 1) (s + count) tret))))
      [0..<length degree] (replicate (length degree + 1) 0)"

definition place_edge :: "rank_problem \<Rightarrow> nat \<Rightarrow> nat list \<times> nat list \<Rightarrow> (nat list \<times> nat list) tala" where
  "place_edge P k = (\<lambda>(incident, free). stepping
    (get_at (rp_edges P) k (\<lambda>e.
     get_at free (re_from e) (\<lambda>i. put_at incident i k (\<lambda>incident. put_at free (re_from e) (i + 1) (\<lambda>free.
     get_at free (re_to e) (\<lambda>i. put_at incident i k (\<lambda>incident. put_at free (re_to e) (i + 1) (\<lambda>free.
       tret (incident, free))))))))))"

definition newRankSimplex :: "rank_problem \<Rightarrow> rank_simplex tala" where
  "newRankSimplex P =
    (let n = length (rp_nodes P) in
     tbind (tfold count_ends (rp_edges P) (replicate n 0, replicate n 0)) (\<lambda>(degree, balance).
     tbind (incident_starts degree) (\<lambda>starts.
     tbind (tfold (place_edge P) (pivotOrder P) (replicate (length (rp_edges P) * 2) 0, take n starts)) (\<lambda>(incident, free).
     tbind (tfold (\<lambda>amount total. stepping
         (checked (checkedAddInt64 total amount) (overflow ''balance overflow'') tret)) balance 0) (\<lambda>total.
     if total \<noteq> 0 then tfail (Violated ''unbalanced supplies'' [total])
     else tret \<lparr>rs_problem = P, incidentStart = starts, incidentEdges = incident, rs_balance = balance\<rparr>)))))"

section \<open>A tight tree\<close>

record grow_state =
  gs_tree :: "bool list"
  gs_inTree :: "bool list"
  treeNodeCount :: nat
  gs_queue :: "nat list"

text \<open>Taking an edge into the tree, with its node outside.\<close>

definition join_tree :: "nat \<Rightarrow> nat \<Rightarrow> grow_state \<Rightarrow> grow_state tala" where
  "join_tree k v s =
    put_at (gs_tree s) k True (\<lambda>tree. put_at (gs_inTree s) v True (\<lambda>inTree.
      tret \<lparr>gs_tree = tree, gs_inTree = inTree, treeNodeCount = treeNodeCount s + 1,
        gs_queue = gs_queue s @ [v]\<rparr>))"

definition grow_edge :: "rank_simplex \<Rightarrow> int list \<Rightarrow> nat \<Rightarrow> nat \<Rightarrow> grow_state \<Rightarrow> grow_state tala" where
  "grow_edge S levels node i s = stepping
    (get_at (incidentEdges S) i (\<lambda>k.
     get_at (rp_edges (rs_problem S)) k (\<lambda>e.
       let v = other_end e node in
       get_at (gs_inTree s) v (\<lambda>b.
         if b then tret s
         else rankSlack e levels (\<lambda>slack. if slack \<noteq> 0 then tret s else join_tree k v s)))))"

definition grow_node :: "rank_simplex \<Rightarrow> int list \<Rightarrow> grow_state \<Rightarrow> grow_state tala" where
  "grow_node S levels s = stepping
    (case gs_queue s of
       [] \<Rightarrow> tret s
     | node # rest \<Rightarrow>
         get_at (incidentStart S) node (\<lambda>a. get_at (incidentStart S) (node + 1) (\<lambda>b.
           tfold (grow_edge S levels node) [a..<b] (s\<lparr>gs_queue := rest\<rparr>))))"

definition growTight :: "rank_simplex \<Rightarrow> int list \<Rightarrow> grow_state \<Rightarrow> grow_state tala" where
  "growTight S levels s = twhile (\<lambda>s. gs_queue s \<noteq> []) (grow_node S levels) s"

definition find_boundary ::
  "rank_simplex \<Rightarrow> int list \<Rightarrow> bool list \<Rightarrow> nat \<Rightarrow> int \<times> nat list \<Rightarrow> (int \<times> nat list) tala" where
  "find_boundary S levels inTree k = (\<lambda>(bestSlack, boundary). stepping
    (get_at (rp_edges (rs_problem S)) k (\<lambda>e.
     get_at inTree (re_from e) (\<lambda>a. get_at inTree (re_to e) (\<lambda>b.
       if a = b then tret (bestSlack, boundary)
       else rankSlack e levels (\<lambda>slack.
         if slack < bestSlack then tret (slack, [k])
         else if slack = bestSlack then tret (bestSlack, boundary @ [k])
         else tret (bestSlack, boundary)))))))"

text \<open>Shifting the marked nodes.\<close>

definition shift_levels :: "tala_error \<Rightarrow> bool list \<Rightarrow> int \<Rightarrow> int list \<Rightarrow> int list tala" where
  "shift_levels err marked delta levels =
    tfold (\<lambda>node levels. stepping
      (if \<not> marked ! node then tret levels
       else get_at levels node (\<lambda>l. checked (checkedAddInt64 l delta) err (\<lambda>l1.
         put_at levels node l1 tret))))
      [0..<length marked] levels"

definition join_boundary ::
  "rank_simplex \<Rightarrow> int list \<Rightarrow> int \<Rightarrow> bool \<Rightarrow> nat \<Rightarrow> grow_state \<Rightarrow> grow_state tala" where
  "join_boundary S levels bestSlack selectedTailInTree k s = stepping
    (get_at (rp_edges (rs_problem S)) k (\<lambda>e.
     get_at (gs_inTree s) (re_from e) (\<lambda>a. get_at (gs_inTree s) (re_to e) (\<lambda>b.
       if a = b then tret s
       else if bestSlack \<noteq> 0 \<and> a \<noteq> selectedTailInTree then tret s
       else rankSlack e levels (\<lambda>slack.
         if slack \<noteq> 0 then tret s
         else join_tree k (if a then re_to e else re_from e) s)))))"

definition extend_tree :: "rank_simplex \<Rightarrow> int list \<times> grow_state \<Rightarrow> (int list \<times> grow_state) tala" where
  "extend_tree S = (\<lambda>(levels, s).
    tbind (tfold (find_boundary S levels (gs_inTree s)) (pivotOrder (rs_problem S)) (MaxInt64, [])) (\<lambda>(bestSlack, boundary).
    case boundary of
      [] \<Rightarrow> tfail (Violated ''could not construct a spanning feasible tree'' [])
    | first # _ \<Rightarrow>
        get_at (rp_edges (rs_problem S)) first (\<lambda>selected.
        get_at (gs_inTree s) (re_from selected) (\<lambda>tail.
        checked (if tail then Some bestSlack else checkedSubInt64 0 bestSlack)
            (overflow ''feasible-tree shift overflow'') (\<lambda>delta.
        tbind (shift_levels (overflow ''feasible-tree level overflow'') (gs_inTree s) delta levels) (\<lambda>levels.
        tbind (tfold (join_boundary S levels bestSlack tail) boundary s) (\<lambda>s.
        if gs_queue s = [] then tfail (Violated ''feasible-tree shift did not add a node'' [])
        else tbind (growTight S levels s) (\<lambda>s. tret (levels, s)))))))))"

definition feasibleTree :: "rank_simplex \<Rightarrow> int list \<Rightarrow> (int list \<times> bool list) tala" where
  "feasibleTree S levels =
    (let n = length (rp_nodes (rs_problem S)) in
     put_at (replicate n False) 0 True (\<lambda>inTree.
     tbind (growTight S levels \<lparr>gs_tree = replicate (length (rp_edges (rs_problem S))) False,
         gs_inTree = inTree, treeNodeCount = 1, gs_queue = [0]\<rparr>) (\<lambda>s.
     tbind (twhile (\<lambda>(levels, s). treeNodeCount s < n) (extend_tree S) (levels, s)) (\<lambda>(levels, s).
     tret (levels, gs_tree s)))))"

section \<open>Cut values\<close>

text \<open>A node not visited has no parent yet; the root has the parent -1.\<close>

datatype tree_parent = Unvisited | TreeRoot | TreeNode nat

record walk_state =
  ws_parent :: "tree_parent list"
  ws_parentEdge :: "nat option list"
  ws_order :: "nat list"
  ws_stack :: "nat list"

definition walk_edge :: "rank_simplex \<Rightarrow> bool list \<Rightarrow> nat \<Rightarrow> nat \<Rightarrow> walk_state \<Rightarrow> walk_state tala" where
  "walk_edge S tree node i s = stepping
    (get_at (incidentEdges S) i (\<lambda>k.
     get_at tree k (\<lambda>present.
     if \<not> present then tret s
     else get_at (ws_parentEdge s) node (\<lambda>pe.
       if pe = Some k then tret s
       else
         get_at (rp_edges (rs_problem S)) k (\<lambda>e.
           let v = other_end e node in
           get_at (ws_parent s) v (\<lambda>p.
             if p \<noteq> Unvisited then tfail (Violated ''basis contains a cycle through edge'' [re_id e])
             else put_at (ws_parent s) v (TreeNode node) (\<lambda>parent.
               put_at (ws_parentEdge s) v (Some k) (\<lambda>parentEdge.
                 tret (s\<lparr>ws_parent := parent, ws_parentEdge := parentEdge, ws_stack := v # ws_stack s\<rparr>)))))))))"

text \<open>The stack is kept with its top in front.\<close>

definition walk_node :: "rank_simplex \<Rightarrow> bool list \<Rightarrow> walk_state \<Rightarrow> walk_state tala" where
  "walk_node S tree s = stepping
    (case ws_stack s of
       [] \<Rightarrow> tret s
     | node # rest \<Rightarrow>
         get_at (incidentStart S) node (\<lambda>a. get_at (incidentStart S) (node + 1) (\<lambda>b.
           tfold (walk_edge S tree node) [a..<b]
             (s\<lparr>ws_stack := rest, ws_order := ws_order s @ [node]\<rparr>))))"

definition cut_node :: "rank_simplex \<Rightarrow> walk_state \<Rightarrow> nat \<Rightarrow> int list \<times> int list \<Rightarrow> (int list \<times> int list) tala" where
  "cut_node S w i = (\<lambda>(subtree, cut). stepping
    (get_at (ws_order w) i (\<lambda>node.
     get_at (ws_parentEdge w) node (\<lambda>pe.
     case pe of None \<Rightarrow> tfail IndexPanic | Some k \<Rightarrow>
     get_at (rp_edges (rs_problem S)) k (\<lambda>e.
     get_at subtree node (\<lambda>amount.
     checked (if re_from e = node then Some amount
              else if re_to e = node then checkedSubInt64 0 amount else Some 0)
         (overflow ''cut-value overflow'') (\<lambda>value.
     ensure_that (re_from e = node \<or> re_to e = node) (Violated ''malformed tree edge'' [re_id e])
     (put_at cut k value (\<lambda>cut.
     get_at (ws_parent w) node (\<lambda>p.
     case p of TreeNode q \<Rightarrow>
       get_at subtree q (\<lambda>x.
       checked (checkedAddInt64 x amount) (overflow ''subtree-balance overflow'') (\<lambda>y.
       put_at subtree q y (\<lambda>subtree. tret (subtree, cut))))
     | _ \<Rightarrow> tfail IndexPanic))))))))))"

definition computeCutValues :: "rank_simplex \<Rightarrow> bool list \<Rightarrow> int list tala" where
  "computeCutValues S tree =
    (let n = length (rp_nodes (rs_problem S)) in
     tbind (tfold (\<lambda>present count. stepping (tret (if present then count + 1 else count))) tree 0) (\<lambda>treeEdgeCount.
     if int treeEdgeCount \<noteq> int n - 1 then tfail (Violated ''basis has tree edges, want'' [int treeEdgeCount, int n - 1])
     else
       tbind (tfold (\<lambda>node u. stepping (tret u)) [0..<n] ()) (\<lambda>u.
       put_at (replicate n Unvisited) 0 TreeRoot (\<lambda>parent.
       tbind (twhile (\<lambda>w. ws_stack w \<noteq> []) (walk_node S tree)
           \<lparr>ws_parent = parent, ws_parentEdge = replicate n None, ws_order = [], ws_stack = [0]\<rparr>) (\<lambda>w.
       if length (ws_order w) \<noteq> n then tfail (Violated ''basis is disconnected'' [])
       else
         tbind (tfold (\<lambda>amount xs. stepping (tret (xs @ [amount]))) (rs_balance S) []) (\<lambda>subtree.
         tbind (tfold (cut_node S w) (rev [1..<length (ws_order w)])
             (subtree, replicate (length (rp_edges (rs_problem S))) 0)) (\<lambda>(subtree, cut).
         get_at subtree 0 (\<lambda>b.
           if b \<noteq> 0 then tfail (Violated ''tree balance is, want zero'' [b]) else tret cut))))))))"

section \<open>Exchanges\<close>

definition head_edge ::
  "rank_simplex \<Rightarrow> bool list \<Rightarrow> nat \<Rightarrow> nat \<Rightarrow> nat \<Rightarrow> bool list \<times> nat list \<times> nat \<Rightarrow> (bool list \<times> nat list \<times> nat) tala" where
  "head_edge S tree leaving node i = (\<lambda>(head, queue, count). stepping
    (get_at (incidentEdges S) i (\<lambda>k.
       if k = leaving then tret (head, queue, count)
       else get_at tree k (\<lambda>present.
         if \<not> present then tret (head, queue, count)
         else get_at (rp_edges (rs_problem S)) k (\<lambda>e.
           let v = other_end e node in
           get_at head v (\<lambda>b.
             if b then tret (head, queue, count)
             else tret (head[v := True], queue @ [v], count + 1)))))))"

definition head_node ::
  "rank_simplex \<Rightarrow> bool list \<Rightarrow> nat \<Rightarrow> bool list \<times> nat list \<times> nat \<Rightarrow> (bool list \<times> nat list \<times> nat) tala" where
  "head_node S tree leaving = (\<lambda>(head, queue, count). stepping
    (case queue of
       [] \<Rightarrow> tret (head, queue, count)
     | node # rest \<Rightarrow>
         get_at (incidentStart S) node (\<lambda>a. get_at (incidentStart S) (node + 1) (\<lambda>b.
           tfold (head_edge S tree leaving node) [a..<b] (head, rest, count)))))"

text \<open>\<open>count\<close> is the length of the code's queue, which keeps the nodes it visited.\<close>

definition computeHeadComponent :: "rank_simplex \<Rightarrow> bool list \<Rightarrow> nat \<Rightarrow> bool list tala" where
  "computeHeadComponent S tree leaving =
    (let n = length (rp_nodes (rs_problem S)) in
     get_at (rp_edges (rs_problem S)) leaving (\<lambda>e.
     put_at (replicate n False) (re_to e) True (\<lambda>head.
     tbind (twhile (\<lambda>(head, queue, count). queue \<noteq> []) (head_node S tree leaving) (head, [re_to e], 1)) (\<lambda>(head, queue, count).
     if count = n then tfail (Violated ''leaving edge does not cut the tree'' [re_id e])
     else tret head))))"

text \<open>The loop over the pivots up to the first tree edge with a negative cut.\<close>

primrec find_leaving :: "bool list \<Rightarrow> int list \<Rightarrow> nat list \<Rightarrow> nat option tala" where
  "find_leaving tree cuts [] = tret None"
| "find_leaving tree cuts (k # ks) = stepping
    (get_at tree k (\<lambda>present.
       if \<not> present then find_leaving tree cuts ks
       else get_at cuts k (\<lambda>c. if c < 0 then tret (Some k) else find_leaving tree cuts ks)))"

definition find_entering ::
  "rank_simplex \<Rightarrow> int list \<Rightarrow> bool list \<Rightarrow> bool list \<Rightarrow> nat \<Rightarrow> nat option \<times> int \<Rightarrow> (nat option \<times> int) tala" where
  "find_entering S levels tree head k = (\<lambda>(entering, minimumSlack). stepping
    (get_at (rp_edges (rs_problem S)) k (\<lambda>e.
     get_at tree k (\<lambda>present.
     if present then tret (entering, minimumSlack)
     else get_at head (re_from e) (\<lambda>a.
     if \<not> a then tret (entering, minimumSlack)
     else get_at head (re_to e) (\<lambda>b.
       if b then tret (entering, minimumSlack)
       else rankSlack e levels (\<lambda>slack.
         if slack < minimumSlack then tret (Some k, slack) else tret (entering, minimumSlack))))))))"

record pivot_state =
  pv_levels :: "int list"
  pv_tree :: "bool list"
  pv_done :: bool

definition pivot :: "rank_simplex \<Rightarrow> pivot_state \<Rightarrow> pivot_state tala" where
  "pivot S s =
    (let levels = pv_levels s; tree = pv_tree s; P = rs_problem S in
     tbind (computeCutValues S tree) (\<lambda>cuts.
     tbind (find_leaving tree cuts (pivotOrder P)) (\<lambda>leaving.
     case leaving of
       None \<Rightarrow> tret (s\<lparr>pv_done := True\<rparr>)
     | Some k \<Rightarrow>
         tbind (computeHeadComponent S tree k) (\<lambda>head.
         tbind (tfold (find_entering S levels tree head) (pivotOrder P) (None, MaxInt64)) (\<lambda>(entering, minimumSlack).
         case entering of
           None \<Rightarrow> get_at (rp_edges P) k (\<lambda>e.
             tfail (Violated ''negative cut on edge has no entering edge'' [re_id e]))
         | Some j \<Rightarrow>
             tbind (shift_levels (overflow ''simplex level overflow'') head minimumSlack levels) (\<lambda>levels.
             get_at (rp_edges P) j (\<lambda>e.
             rankSlack e levels (\<lambda>slack.
               if slack \<noteq> 0 then tfail (Violated ''entering edge has slack after exchange'' [re_id e, slack])
               else put_at tree k False (\<lambda>tree. put_at tree j True (\<lambda>tree.
                 tret (s\<lparr>pv_levels := levels, pv_tree := tree\<rparr>)))))))))))"

definition optimize :: "rank_simplex \<Rightarrow> int list \<Rightarrow> bool list \<Rightarrow> (int list \<times> bool list) tala" where
  "optimize S levels tree =
    tbind (twhile (\<lambda>s. \<not> pv_done s) (pivot S) \<lparr>pv_levels = levels, pv_tree = tree, pv_done = False\<rparr>)
      (\<lambda>s. tret (pv_levels s, pv_tree s))"

section \<open>The certificate\<close>

definition certify_edge ::
  "rank_simplex \<Rightarrow> int list \<Rightarrow> bool list \<Rightarrow> int list \<Rightarrow> nat \<Rightarrow> int list \<times> int \<Rightarrow> (int list \<times> int) tala" where
  "certify_edge S levels tree cuts k = (\<lambda>(computed, dual). stepping
    (get_at (rp_edges (rs_problem S)) k (\<lambda>e.
     get_at tree k (\<lambda>present.
     tbind (if \<not> present then tret 0
            else get_at cuts k (\<lambda>flow.
              ensure_that (\<not> flow < 0) (Violated ''final tree edge has negative cut value'' [re_id e, flow])
              (rankSpan e levels (\<lambda>span.
                if span \<noteq> rankMinSpan then tfail (Violated ''final tree edge is not tight'' [re_id e])
                else tret flow)))) (\<lambda>flow.
     get_at computed (re_from e) (\<lambda>x.
     checked (checkedAddInt64 x flow) (overflow ''certificate balance overflow'') (\<lambda>x1.
     put_at computed (re_from e) x1 (\<lambda>computed.
     get_at computed (re_to e) (\<lambda>y.
     checked (checkedSubInt64 y flow) (overflow ''certificate balance overflow'') (\<lambda>y1.
     put_at computed (re_to e) y1 (\<lambda>computed.
     checked (checkedMulInt64 flow rankMinSpan) (overflow ''dual value overflow'') (\<lambda>contribution.
     checked (checkedAddInt64 dual contribution) (overflow ''dual value overflow'') (\<lambda>dual.
       tret (computed, dual))))))))))))))"

definition certify :: "rank_simplex \<Rightarrow> int list \<Rightarrow> bool list \<Rightarrow> int tala" where
  "certify S levels tree =
    tbind (computeCutValues S tree) (\<lambda>cuts.
    tbind (tfold (certify_edge S levels tree cuts) [0..<length (rp_edges (rs_problem S))]
        (replicate (length (rp_nodes (rs_problem S))) 0, 0)) (\<lambda>(computed, dual).
    tbind (tfold (\<lambda>node u. stepping (get_at computed node (\<lambda>c.
        if c \<noteq> rs_balance S ! node then
          tfail (Violated ''certificate balance mismatch on node'' [int node, c, rs_balance S ! node])
        else tret u))) [0..<length (rs_balance S)] ()) (\<lambda>u.
    tret dual)))"

definition solve :: "rank_problem \<Rightarrow> int list \<Rightarrow> (int list \<times> int) tala" where
  "solve P initialLevels =
    tbind (newRankSimplex P) (\<lambda>S.
    tbind (feasibleTree S initialLevels) (\<lambda>(levels, tree).
    tbind (optimize S levels tree) (\<lambda>(levels, tree).
    tbind (certify S levels tree) (\<lambda>dualValue.
    tret (levels, dualValue)))))"

section \<open>The result\<close>

record rank_result =
  nodeToLevel :: "nat \<Rightarrow> int option"
  levelCount :: int

definition weigh_edge :: "int list \<Rightarrow> rank_edge \<Rightarrow> int \<Rightarrow> int tala" where
  "weigh_edge levels e primal = stepping
    (rankSpan e levels (\<lambda>span.
     ensure_that (\<not> span < rankMinSpan) (Violated ''infeasible span'' [span])
     (checked (checkedMulInt64 (re_weight e) span) (overflow ''objective overflow'') (\<lambda>w.
      checked (checkedAddInt64 primal w) (overflow ''objective overflow'') tret))))"

definition makeResult :: "rank_problem \<Rightarrow> int list \<Rightarrow> (rank_result \<times> int) tala" where
  "makeResult P levels =
    tbind (tfold (\<lambda>l (lo, hi). stepping (tret (min lo l, max hi l))) levels (MaxInt64, MinInt64)) (\<lambda>(minLevel, maxLevel).
    tbind (tfold (weigh_edge levels) (rp_edges P) 0) (\<lambda>primal.
    checked (checkedSubInt64 maxLevel minLevel) (overflow ''level count overflow'') (\<lambda>range.
    ensure_that (\<not> range > MaxInt64 - 1) (overflow ''level count overflow'')
    (tbind (tfold (\<lambda>node r. stepping
        (checked (checkedSubInt64 (levels ! node) minLevel) (overflow ''normalized level overflow'') (\<lambda>normalized.
         ensure_that (\<not> normalized > MaxInt64) (overflow ''normalized level overflow'')
         (get_at (rp_nodes P) node (\<lambda>a. tret (r(a \<mapsto> normalized)))))))
        [0..<length levels] Map.empty) (\<lambda>levels.
     tret (\<lparr>nodeToLevel = levels, levelCount = range + 1\<rparr>, primal))))))"

definition rankDAG_body :: "layout_graph option \<Rightarrow> rank_result tala" where
  "rankDAG_body g =
    tbind (newRankProblem g) (\<lambda>P.
    if rp_nodes P = [] then charge opt_Check (tret \<lparr>nodeToLevel = Map.empty, levelCount = 0\<rparr>)
    else
      tbind (longestPathLevels P) (\<lambda>initialLevels.
      if rp_edges P = [] then
        charge opt_Check (tret \<lparr>nodeToLevel = [hd (rp_nodes P) \<mapsto> 0], levelCount = 1\<rparr>)
      else
        tbind (solve P initialLevels) (\<lambda>(levels, dualValue).
        tbind (makeResult P levels) (\<lambda>(result, primalValue).
        if primalValue \<noteq> dualValue then
          tfail (Violated ''optimality certificate failed'' [primalValue, dualValue])
        else charge opt_Check (tret result)))))"

definition rankDAGWithLimit ::
  "(nat \<Rightarrow> gostr option) option \<Rightarrow> layout_graph option \<Rightarrow> nat \<Rightarrow> tala_error + rank_result" where
  "rankDAGWithLimit ctx g workLimit =
    (case NewOptimizationWorkGuard ctx (runes ''RankDAG'') workLimit of
       Inl e \<Rightarrow> Inl e
     | Inr guard \<Rightarrow> map_sum id fst (rankDAG_body g guard))"

definition MaxOptimizationWorkUnits :: nat where
  "MaxOptimizationWorkUnits = 250000000"

definition rankDAG :: "(nat \<Rightarrow> gostr option) option \<Rightarrow> layout_graph option \<Rightarrow> tala_error + rank_result" where
  "rankDAG ctx g = rankDAGWithLimit ctx g MaxOptimizationWorkUnits"

end
