(* ===== verification/Rank_Cost.thy ===== *)
theory Rank_Cost
  imports Rank_Simplex
begin

text \<open>
  The rank solver ends: every loop of it charges the budget in each turn, so it stays within the limit and the
  turns the model gives its loops are enough.
\<close>

lemma tame_case_prod [tame_rules]: "(\<And>a b. tame (f a b)) \<Longrightarrow> tame (case x of (a, b) \<Rightarrow> f a b)"
  by (cases x) simp

lemma tame_case_prod_app [tame_rules]: "(\<And>a b. tame (f a b s)) \<Longrightarrow> tame ((case x of (a, b) \<Rightarrow> f a b) s)"
  by (cases x) simp

lemma tame_case_option [tame_rules]: "tame m \<Longrightarrow> (\<And>x. tame (f x)) \<Longrightarrow> tame (case p of None \<Rightarrow> m | Some x \<Rightarrow> f x)"
  by (cases p) simp_all

lemma tame_case_list [tame_rules]: "tame m \<Longrightarrow> (\<And>x xs. tame (f x xs)) \<Longrightarrow> tame (case l of [] \<Rightarrow> m | x # xs \<Rightarrow> f x xs)"
  by (cases l) simp_all

lemma tame_case_parent [tame_rules]:
  "tame m \<Longrightarrow> tame n \<Longrightarrow> (\<And>x. tame (f x)) \<Longrightarrow> tame (case p of Unvisited \<Rightarrow> m | TreeRoot \<Rightarrow> n | TreeNode x \<Rightarrow> f x)"
  by (cases p) simp_all

lemma tame_Let [tame_rules]: "tame (f x) \<Longrightarrow> tame (Let x f)"
  by simp

lemma costly_put_at [costly_rules]: "(\<And>ys. costly (K ys)) \<Longrightarrow> costly (put_at xs i v K)"
  by (simp add: put_at_def costly_fail)

lemma costly_case_prod [costly_rules]: "(\<And>a b. costly (f a b)) \<Longrightarrow> costly (case x of (a, b) \<Rightarrow> f a b)"
  by (cases x) simp

lemma costly_Let [costly_rules]: "costly (f x) \<Longrightarrow> costly (Let x f)"
  by simp

lemma costly_twhile:
  assumes "b s" "\<And>s. b s \<Longrightarrow> tame (f s)" "\<And>s. b s \<Longrightarrow> costly (f s)"
  shows "costly (twhile b f s)"
proof -
  have "costly (tbind (f s) (twhile b f))"
    by (rule costly_bind_first) (use assms in \<open>auto intro: tame_twhile\<close>)
  then show ?thesis
    using twhile_equation [of b f _ s] assms by (simp add: costly_def)
qed

lemma tame_bind_yields:
  assumes "tame m" "yields m P" "\<And>x. P x \<Longrightarrow> tame (f x)"
  shows "tame (tbind m f)"
  unfolding tame_def
proof (intro allI impI)
  fix g :: opt_guard assume g: "og_used g \<le> og_limit g"
  show "in_budget g (tbind m f g)"
  proof (cases "m g")
    case (Inl e)
    with assms(1) g show ?thesis by (auto simp: tame_def tbind_def dest: spec [of _ g])
  next
    case (Inr r)
    obtain x g1 where r: "r = (x, g1)" by (cases r)
    note g1 = tameD [OF assms(1) g Inr [unfolded r]]
    have "P x" using assms(2) Inr r by (auto simp: yields_def)
    then have "in_budget g1 (f x g1)" using assms(3) g1 by (simp add: tame_def)
    then have "in_budget g (f x g1)" by (rule in_budget_trans) (use g1 in simp_all)
    with Inr r show ?thesis by (simp add: tbind_def)
  qed
qed

section \<open>Reading the graph\<close>

lemma tame_index_nodes [tame_rules]: "tame (index_nodes g nodes)"
  unfolding index_nodes_def by (rule tame_rules | simp)+

lemma tame_check_edge [tame_rules]: "tame (check_edge g idx p s)"
  unfolding check_edge_def by (rule tame_rules | simp)+

lemma tame_check_incident [tame_rules]: "tame (check_incident g seen node p s)"
  unfolding check_incident_def by (rule tame_rules | simp)+

lemma tame_check_counts [tame_rules]: "tame (check_counts g counts a u)"
  unfolding check_counts_def by (rule tame_rules | simp)+

lemma tame_visit_edge [tame_rules]: "tame (visit_edge g idx node p s)"
  unfolding visit_edge_def by (rule tame_rules | simp)+

lemma tame_problem_edges [tame_rules]: "tame (problem_edges g n edges)"
  unfolding problem_edges_def by (rule tame_rules | simp)+

lemma tame_prefix_sums [tame_rules]: "tame (prefix_sums n outgoing)"
  unfolding prefix_sums_def by (rule tame_rules | simp)+

abbreviation unseen :: "bool list \<Rightarrow> nat" where
  "unseen seen \<equiv> length (filter Not seen)"

lemma unseen_update: "v < length seen \<Longrightarrow> \<not> seen ! v \<Longrightarrow> Suc (unseen (seen[v := True])) = unseen seen"
  by (induction seen arbitrary: v) (auto split: nat.split)

lemma visit_edge_yields:
  "yields (visit_edge g idx node p s) (\<lambda>s1. unseen (fst s1) + length (snd s1) = unseen (fst s) + length (snd s))"
  unfolding visit_edge_def
  by (cases s) (auto intro!: yields_rules simp: Let_def split: option.split dest: unseen_update)

lemma tame_search_nodes:
  "length todo + unseen seen \<le> k \<Longrightarrow> tame (search_nodes k g idx nodes seen todo n)"
proof (induction k arbitrary: seen todo n)
  case 0
  then show ?case by (simp add: tame_ret)
next
  case (Suc k)
  show ?case
  proof (cases todo)
    case Nil
    then show ?thesis by (simp add: tame_ret)
  next
    case (Cons u rest)
    have fold: "yields (tfold (visit_edge g idx node) ps (seen, []))
      (\<lambda>s1. unseen (fst s1) + length (snd s1) = unseen seen)" for node ps
      by (rule yields_tfold) (use visit_edge_yields in \<open>fastforce simp: yields_def\<close>)+
    show ?thesis
      unfolding Cons search_nodes.simps list.case
    proof (rule tame_get_at, rule tame_bind_yields [OF _ fold])
      fix node :: nat and ps
      show "tame (tfold (visit_edge g idx node) (gn_Edges (lg_node g node)) (seen, []))"
        by (rule tame_rules)+
    next
      fix node :: nat and s1 :: "bool list \<times> nat list"
      assume "unseen (fst s1) + length (snd s1) = unseen seen"
      with Suc.prems Cons show "tame (case s1 of (seen1, queued) \<Rightarrow>
          search_nodes k g idx nodes seen1 (rest @ queued) (n + length queued))"
        by (cases s1) (auto intro: Suc.IH)
    qed
  qed
qed

lemma unseen_replicate: "unseen ((replicate n False)[0 := True]) = n - 1"
  by (cases n) simp_all

lemma tame_search_start [tame_rules]:
  "1 < n \<Longrightarrow> tame (search_nodes n g idx nodes ((replicate n False)[0 := True]) [0] 1)"
  by (rule tame_search_nodes) (simp add: unseen_replicate)

lemma tame_newRankProblem [tame_rules]: "tame (newRankProblem g)"
  unfolding newRankProblem_def
  by (cases g) (simp_all only: option.case Let_def, (rule tame_rules | simp)+)

lemma tame_longestPathLevels [tame_rules]: "tame (longestPathLevels P)"
proof -
  have relax: "tame (relax_edge P u k s)" for u k s
    unfolding relax_edge_def by (rule tame_rules | simp)+
  have turn: "tame (kahn_step P s)" "costly (kahn_step P s)" for s
    unfolding kahn_step_def by (rule costly_step tame_rules relax | simp)+
  show ?thesis
    unfolding longestPathLevels_def count_indegrees_def first_ready_def
    by (rule tame_rules turn | simp)+
qed

section \<open>The solver\<close>

lemma tame_rankSpan [tame_rules]: "(\<And>x. tame (K x)) \<Longrightarrow> tame (rankSpan e levels K)"
  unfolding rankSpan_def overflow_def by (rule tame_rules | simp)+

lemma tame_rankSlack [tame_rules]: "(\<And>x. tame (K x)) \<Longrightarrow> tame (rankSlack e levels K)"
  unfolding rankSlack_def overflow_def by (rule tame_rules | simp)+

lemma tame_newRankSimplex [tame_rules]: "tame (newRankSimplex P)"
  unfolding newRankSimplex_def count_ends_def incident_starts_def place_edge_def overflow_def
  by (rule tame_rules | simp)+

lemma tame_join_tree [tame_rules]: "tame (join_tree k v s)"
  unfolding join_tree_def by (rule tame_rules | simp)+

lemma tame_growTight [tame_rules]: "tame (growTight S levels s)"
proof -
  have edge: "tame (grow_edge S levels node i s)" for node i s
    unfolding grow_edge_def by (rule tame_rules | simp)+
  have turn: "tame (grow_node S levels s)" "costly (grow_node S levels s)" for s
    unfolding grow_node_def by (rule costly_step tame_rules edge | simp)+
  show ?thesis unfolding growTight_def by (rule tame_rules turn)+
qed

lemma tame_shift_levels [tame_rules]: "err \<noteq> OutOfTurns \<Longrightarrow> tame (shift_levels err marked delta levels)"
  unfolding shift_levels_def by (rule tame_rules | simp)+

lemma extend_tree_turn: "tame (extend_tree S s)" "costly (extend_tree S s)"
proof -
  have find: "tame (find_boundary S levels inTree k b)" "costly (find_boundary S levels inTree k b)" for levels inTree k b
    unfolding find_boundary_def by (rule costly_rules tame_rules | simp)+
  have join: "tame (join_boundary S levels best tail k t)" for levels best tail k t
    unfolding join_boundary_def by (rule tame_rules | simp)+
  show "tame (extend_tree S s)"
    unfolding extend_tree_def overflow_def by (rule tame_rules find join | simp)+
  show "costly (extend_tree S s)"
  proof (cases "pivotOrder (rs_problem S) = []")
    case True
    then show ?thesis
      unfolding extend_tree_def by (cases s) (simp add: tbind_def tret_def costly_def tfail_def)
  next
    case False
    show ?thesis
      unfolding extend_tree_def overflow_def
      by (rule costly_case_prod, rule costly_bind_first, rule costly_tfold [OF False])
        (rule find tame_rules join | simp)+
  qed
qed

lemma tame_feasibleTree [tame_rules]: "tame (feasibleTree S levels)"
  unfolding feasibleTree_def by (rule tame_rules extend_tree_turn | simp)+

lemma walk_node_turn: "tame (walk_node S tree w)" "costly (walk_node S tree w)"
proof -
  have edge: "tame (walk_edge S tree node i s)" for node i s
    unfolding walk_edge_def by (rule tame_rules | simp)+
  show "tame (walk_node S tree w)" "costly (walk_node S tree w)"
    unfolding walk_node_def by (rule costly_step tame_rules edge | simp)+
qed

lemma tame_cut_node: "tame (cut_node S w i s)"
  unfolding cut_node_def overflow_def by (rule tame_rules | simp)+

lemma tame_computeCutValues [tame_rules]: "tame (computeCutValues S tree)"
  unfolding computeCutValues_def by (rule tame_rules walk_node_turn tame_cut_node | simp)+

lemma costly_computeCutValues: "costly (computeCutValues S tree)"
  unfolding computeCutValues_def Let_def
  by (intro costly_bind_then costly_if costly_fail costly_put_at costly_bind_first costly_twhile)
    (rule tame_rules walk_node_turn tame_cut_node | simp)+

lemma tame_computeHeadComponent [tame_rules]: "tame (computeHeadComponent S tree leaving)"
proof -
  have edge: "tame (head_edge S tree leaving node i s)" for node i s
    unfolding head_edge_def by (rule tame_rules | simp)+
  have turn: "tame (head_node S tree leaving s)" "costly (head_node S tree leaving s)" for s
    unfolding head_node_def by (rule costly_case_prod costly_step tame_rules edge | simp)+
  show ?thesis unfolding computeHeadComponent_def by (rule tame_rules turn | simp)+
qed

lemma tame_find_leaving [tame_rules]: "tame (find_leaving tree cuts ks)"
  by (induction ks) (simp_all, (rule tame_rules | simp)+)

lemma pivot_turn: "tame (pivot S s)" "costly (pivot S s)"
proof -
  have enter: "tame (find_entering S levels tree head k t)" for levels tree head k t
    unfolding find_entering_def by (rule tame_rules | simp)+
  show "tame (pivot S s)"
    unfolding pivot_def overflow_def by (rule tame_rules enter | simp)+
  show "costly (pivot S s)"
    unfolding pivot_def overflow_def Let_def
    by (intro costly_bind_first costly_computeCutValues) (rule tame_rules enter | simp)+
qed

lemma tame_optimize [tame_rules]: "tame (optimize S levels tree)"
  unfolding optimize_def by (rule tame_rules pivot_turn | simp)+

lemma tame_certify [tame_rules]: "tame (certify S levels tree)"
  unfolding certify_def certify_edge_def overflow_def by (rule tame_rules | simp)+

lemma tame_solve [tame_rules]: "tame (solve P levels)"
  unfolding solve_def by (rule tame_rules | simp)+

lemma tame_makeResult [tame_rules]: "tame (makeResult P levels)"
  unfolding makeResult_def weigh_edge_def overflow_def by (rule tame_rules | simp)+

lemma tame_rankDAG_body: "tame (rankDAG_body g)"
  unfolding rankDAG_body_def by (rule tame_rules | simp)+

end
