(* ===== verification/Rank_Optimal.thy ===== *)
theory Rank_Optimal
  imports Rank_Cost
begin

text \<open>
  The rank solver is right: a ranking it returns spans every edge by a level at least, and no other such
  ranking has a smaller sum of weighted spans. The proof uses what the solver checks before it returns, a flow
  on the edges that supplies what the weights demand; how it found the ranking does not matter.
\<close>

section \<open>Weak duality\<close>

definition end_sign :: "rank_edge \<Rightarrow> nat \<Rightarrow> int" where
  "end_sign e v = (if re_from e = v then 1 else 0) - (if re_to e = v then 1 else 0)"

text \<open>What a flow \<open>f\<close> on the edges takes out of a node.\<close>

definition net_flow :: "(nat \<Rightarrow> int) \<Rightarrow> rank_edge list \<Rightarrow> nat \<Rightarrow> int" where
  "net_flow f es v = (\<Sum>k < length es. f k * end_sign (es ! k) v)"

definition edge_span :: "(nat \<Rightarrow> int) \<Rightarrow> rank_edge \<Rightarrow> int" where
  "edge_span r e = r (re_to e) - r (re_from e)"

definition edge_weights :: "rank_edge list \<Rightarrow> nat \<Rightarrow> int" where
  "edge_weights es k = re_weight (es ! k)"

definition feasible :: "rank_edge list \<Rightarrow> (nat \<Rightarrow> int) \<Rightarrow> bool" where
  "feasible es r \<longleftrightarrow> (\<forall>e \<in> set es. 1 \<le> edge_span r e)"

lemma net_flow_Nil [simp]: "net_flow f [] v = 0"
  by (simp add: net_flow_def)

lemma net_flow_snoc: "net_flow f (es @ [e]) v = net_flow f es v + f (length es) * end_sign e v"
  by (simp add: net_flow_def nth_append)

lemma end_sign_sum:
  assumes "re_from e < n" "re_to e < n"
  shows "(\<Sum>v < n. r v * end_sign e v) = - edge_span r e"
proof -
  have "(\<Sum>v < n. r v * end_sign e v) =
    (\<Sum>v < n. if re_from e = v then r v else 0) - (\<Sum>v < n. if re_to e = v then r v else 0)"
    by (simp add: end_sign_def right_diff_distrib sum_subtractf if_distrib [of "(*) _"] cong: if_cong)
  also have "\<dots> = r (re_from e) - r (re_to e)"
    using assms by (simp add: sum.delta')
  finally show ?thesis by (simp add: edge_span_def)
qed

lemma flow_potential:
  assumes "\<forall>e \<in> set es. re_from e < n \<and> re_to e < n"
  shows "(\<Sum>v < n. r v * net_flow f es v) = - (\<Sum>k < length es. f k * edge_span r (es ! k))"
proof -
  have "(\<Sum>v < n. r v * net_flow f es v) = (\<Sum>v < n. \<Sum>k < length es. f k * (r v * end_sign (es ! k) v))"
    by (simp add: net_flow_def sum_distrib_left mult.left_commute)
  also have "\<dots> = (\<Sum>k < length es. f k * (\<Sum>v < n. r v * end_sign (es ! k) v))"
    by (subst sum.swap) (simp add: sum_distrib_left)
  also have "\<dots> = (\<Sum>k < length es. f k * (- edge_span r (es ! k)))"
    using assms by (intro sum.cong) (simp_all add: end_sign_sum)
  finally show ?thesis by (simp add: sum_negf)
qed

lemma weak_duality:
  assumes ends: "\<forall>e \<in> set es. re_from e < n \<and> re_to e < n"
    and flow: "\<forall>k < length es. 0 \<le> f k" "\<forall>v < n. net_flow f es v = net_flow (edge_weights es) es v"
    and "feasible es r"
  shows "(\<Sum>k < length es. f k) \<le> (\<Sum>k < length es. edge_weights es k * edge_span r (es ! k))"
proof -
  have "(\<Sum>k < length es. f k) \<le> (\<Sum>k < length es. f k * edge_span r (es ! k))"
  proof (intro sum_mono)
    fix k assume "k \<in> {..<length es}"
    then have "0 \<le> f k" "1 \<le> edge_span r (es ! k)"
      using flow(1) assms(4) by (simp_all add: feasible_def)
    then show "f k \<le> f k * edge_span r (es ! k)" by (metis mult_left_mono mult.right_neutral)
  qed
  also have "\<dots> = (\<Sum>k < length es. edge_weights es k * edge_span r (es ! k))"
    using flow_potential [OF ends, of r f] flow_potential [OF ends, of r "edge_weights es"] flow(2) by simp
  finally show ?thesis .
qed

section \<open>Exact arithmetic\<close>

definition all64 :: "int list \<Rightarrow> bool" where
  "all64 xs \<longleftrightarrow> (\<forall>x \<in> set xs. int64 x)"

lemma checkedAdd_Some: "checkedAddInt64 a b = Some c \<Longrightarrow> int64 c"
  by (auto simp: checkedAddInt64_def split: if_splits)

lemma checkedSub_Some: "checkedSubInt64 a b = Some c \<Longrightarrow> int64 c"
  by (auto simp: checkedSubInt64_def split: if_splits)

lemma checkedAdd_sum: "checkedAddInt64 a b = Some c \<Longrightarrow> int64 a \<Longrightarrow> int64 b \<Longrightarrow> c = a + b"
  by (auto simp: checkedAdd_exact split: if_splits)

lemma checkedSub_diff: "checkedSubInt64 a b = Some c \<Longrightarrow> int64 a \<Longrightarrow> int64 b \<Longrightarrow> c = a - b"
  by (auto simp: checkedSub_exact split: if_splits)

lemma checkedMul_prod: "checkedMulInt64 a b = Some c \<Longrightarrow> int64 a \<Longrightarrow> int64 b \<Longrightarrow> c = a * b \<and> int64 c"
  by (auto simp: checkedMul_exact split: if_splits)

lemma int64_small [simp]: "int64 0" "int64 1"
  by (simp_all add: int64_def MinInt64_def MaxInt64_def)

lemma all64_update: "all64 xs \<Longrightarrow> int64 x \<Longrightarrow> all64 (xs[i := x])"
  using set_update_subset_insert [of xs i x] unfolding all64_def by blast

lemma all64_nth: "all64 xs \<Longrightarrow> i < length xs \<Longrightarrow> int64 (xs ! i)"
  by (simp add: all64_def)

lemma all64_simps [simp]:
  "all64 []" "all64 (xs @ [x]) \<longleftrightarrow> all64 xs \<and> int64 x" "all64 (replicate n 0)"
  by (auto simp: all64_def)

section \<open>Rules\<close>

lemma yields_case_prod [yields_rules]: "(\<And>a b. x = (a, b) \<Longrightarrow> yields (f a b) Q) \<Longrightarrow> yields (case x of (a, b) \<Rightarrow> f a b) Q"
  by (cases x) simp

lemma yields_case_prod_app [yields_rules]: "(\<And>a b. x = (a, b) \<Longrightarrow> yields (f a b s) Q) \<Longrightarrow> yields ((case x of (a, b) \<Rightarrow> f a b) s) Q"
  by (cases x) simp

lemma yields_case_option [yields_rules]:
  "(p = None \<Longrightarrow> yields m Q) \<Longrightarrow> (\<And>x. p = Some x \<Longrightarrow> yields (f x) Q) \<Longrightarrow> yields (case p of None \<Rightarrow> m | Some x \<Rightarrow> f x) Q"
  by (cases p) simp_all

lemma yields_case_list [yields_rules]:
  "(l = [] \<Longrightarrow> yields m Q) \<Longrightarrow> (\<And>x xs. l = x # xs \<Longrightarrow> yields (f x xs) Q) \<Longrightarrow> yields (case l of [] \<Rightarrow> m | x # xs \<Rightarrow> f x xs) Q"
  by (cases l) simp_all

lemma yields_case_parent [yields_rules]:
  "(p = Unvisited \<Longrightarrow> yields m Q) \<Longrightarrow> (p = TreeRoot \<Longrightarrow> yields n Q) \<Longrightarrow> (\<And>x. p = TreeNode x \<Longrightarrow> yields (f x) Q) \<Longrightarrow>
   yields (case p of Unvisited \<Rightarrow> m | TreeRoot \<Rightarrow> n | TreeNode x \<Rightarrow> f x) Q"
  by (cases p) simp_all

lemma yields_Let [yields_rules]: "yields (f x) Q \<Longrightarrow> yields (Let x f) Q"
  by simp

lemma yields_rankSpan:
  assumes "all64 levels"
    and "\<And>s. re_to e < length levels \<Longrightarrow> re_from e < length levels \<Longrightarrow> s = edge_span ((!) levels) e \<Longrightarrow> int64 s \<Longrightarrow> yields (K s) Q"
  shows "yields (rankSpan e levels K) Q"
  unfolding rankSpan_def
proof (rule yields_get_at, rule yields_get_at, rule yields_checked)
  fix s assume r: "re_to e < length levels" "re_from e < length levels"
    "checkedSubInt64 (levels ! re_to e) (levels ! re_from e) = Some s"
  then have "s = edge_span ((!) levels) e" "int64 s"
    using checkedSub_diff [OF r(3)] all64_nth [OF assms(1)] by (auto simp: edge_span_def dest: checkedSub_Some)
  with r show "yields (K s) Q" by (intro assms(2))
qed

lemma yields_rankSlack [yields_rules]: "(\<And>s. yields (K s) Q) \<Longrightarrow> yields (rankSlack e levels K) Q"
  unfolding rankSlack_def rankSpan_def by (rule yields_rules)+

text \<open>A loop over positions.\<close>

lemma yields_tfold_upt:
  assumes "\<And>i s. i < n \<Longrightarrow> I i s \<Longrightarrow> yields (f i s) (I (Suc i))" "I 0 s"
  shows "yields (tfold f [0..<n] s) (I n)"
proof -
  have "yields (tfold f [0..<n] s) (\<lambda>s. I (length [0..<n]) s)"
  proof (rule yields_tfold_gen [where I = "\<lambda>pre. I (length pre)"])
    fix pre x rest s assume eq: "[0..<n] = pre @ x # rest" and "I (length pre) s"
    have n: "n = length pre + Suc (length rest)" using arg_cong [OF eq, of length] by simp
    then have "x = length pre" "length pre < n"
      using nth_append_length [of pre x rest] nth_upt [of 0 "length pre" n] by (simp_all add: eq [symmetric])
    then show "yields (f x s) (I (length (pre @ [x])))" using assms(1) \<open>I (length pre) s\<close> by simp
  qed (use assms(2) in simp)
  then show ?thesis by simp
qed

section \<open>The flow\<close>

definition weights64 :: "rank_edge list \<Rightarrow> bool" where
  "weights64 es \<longleftrightarrow> (\<forall>e \<in> set es. int64 (re_weight e))"

text \<open>What the solver knows of the problem.\<close>

definition solver_of :: "rank_problem \<Rightarrow> rank_simplex \<Rightarrow> bool" where
  "solver_of P S \<longleftrightarrow> rs_problem S = P \<and> length (rs_balance S) = length (rp_nodes P) \<and> all64 (rs_balance S) \<and>
    (\<forall>v < length (rp_nodes P). rs_balance S ! v = net_flow (edge_weights (rp_edges P)) (rp_edges P) v)"

lemma edge_weights_prefix:
  "xs = done @ x # rest \<Longrightarrow> net_flow (edge_weights xs) (done @ [x]) v = net_flow (edge_weights xs) done v + re_weight x * end_sign x v"
  by (simp add: net_flow_snoc edge_weights_def)

lemma pay_ends:
  assumes "int64 (re_weight e)" "all64 balance"
    and r: "re_from e < length balance" "checkedAddInt64 (balance ! re_from e) (re_weight e) = Some b1"
    "re_to e < length balance" "checkedSubInt64 (balance[re_from e := b1] ! re_to e) (re_weight e) = Some b2"
  shows "all64 (balance[re_from e := b1, re_to e := b2]) \<and>
    (\<forall>v < length balance. balance[re_from e := b1, re_to e := b2] ! v = balance ! v + re_weight e * end_sign e v)"
proof -
  have b1: "b1 = balance ! re_from e + re_weight e" "int64 b1"
    using checkedAdd_sum [OF r(2)] checkedAdd_Some [OF r(2)] assms(1) all64_nth [OF assms(2) r(1)] by simp_all
  then have B: "all64 (balance[re_from e := b1])" using assms(2) by (intro all64_update)
  then have b2: "b2 = balance[re_from e := b1] ! re_to e - re_weight e" "int64 b2"
    using checkedSub_diff [OF r(4)] checkedSub_Some [OF r(4)] assms(1) r(3) all64_nth [OF B, of "re_to e"] by simp_all
  have "all64 (balance[re_from e := b1, re_to e := b2])" using B b2(2) by (rule all64_update)
  moreover have "balance[re_from e := b1, re_to e := b2] ! v = balance ! v + re_weight e * end_sign e v"
    if "v < length balance" for v
    using that b1(1) b2(1) by (auto simp: end_sign_def nth_list_update)
  ultimately show ?thesis by blast
qed

lemma count_ends_yields:
  assumes "int64 (re_weight e)" "all64 balance"
  shows "yields (count_ends e (degree, balance)) (\<lambda>(d, b). length b = length balance \<and> all64 b \<and>
    (\<forall>v < length b. b ! v = balance ! v + re_weight e * end_sign e v))"
  unfolding count_ends_def prod.case
  by (rule yields_rules)+ (simp only: length_list_update prod.case simp_thms, rule pay_ends [OF assms]; assumption)

lemma newRankSimplex_yields:
  assumes "weights64 (rp_edges P)"
  shows "yields (newRankSimplex P) (solver_of P)"
proof -
  let ?n = "length (rp_nodes P)" and ?es = "rp_edges P"
  let ?I = "\<lambda>pre (d :: nat list, b). length b = ?n \<and> all64 b \<and>
    (\<forall>v < ?n. b ! v = net_flow (edge_weights ?es) pre v)"
  have "yields (tfold count_ends ?es (replicate ?n 0, replicate ?n 0)) (?I ?es)"
  proof (rule yields_tfold_gen [where I = ?I])
    fix pre e rest s assume eq: "?es = pre @ e # rest" and I: "?I pre s"
    obtain d b where s: "s = (d, b)" by (cases s)
    have "int64 (re_weight e)" using assms eq by (simp add: weights64_def)
    then have "yields (count_ends e (d, b)) (\<lambda>(d, b'). length b' = length b \<and> all64 b' \<and>
      (\<forall>v < length b'. b' ! v = b ! v + re_weight e * end_sign e v))"
      using I unfolding s prod.case by (intro count_ends_yields) simp_all
    then show "yields (count_ends e s) (?I (pre @ [e]))"
      unfolding s by (rule yields_weaken) (use I s eq in \<open>auto simp: edge_weights_prefix\<close>)
  qed simp
  then show ?thesis
    unfolding newRankSimplex_def Let_def
    by (rule yields_bind) (auto simp: solver_of_def yields_def tbind_def tret_def tfail_def split: sum.splits if_splits)
qed

section \<open>Cut values and levels\<close>

lemma cut_node_yields:
  assumes "all64 (fst s)" "all64 (snd s)"
  shows "yields (cut_node S w i s) (\<lambda>s. all64 (fst s) \<and> all64 (snd s))"
proof -
  obtain subtree c where s: "s = (subtree, c)" by (cases s)
  show ?thesis
    unfolding cut_node_def s prod.case
    by (intro yields_rules)
      (use assms s in \<open>auto intro: all64_update all64_nth dest: checkedSub_Some checkedAdd_Some split: if_splits\<close>)
qed

lemma computeCutValues_yields:
  assumes "all64 (rs_balance S)"
  shows "yields (computeCutValues S tree) all64"
proof -
  have copy: "yields (tfold (\<lambda>amount xs. stepping (tret (xs @ [amount]))) (rs_balance S) []) all64"
    by (rule yields_tfold [where I = all64], intro yields_rules) (use assms in \<open>auto simp: all64_def\<close>)
  have cuts: "yields (tfold (cut_node S w) is (subtree, replicate n 0)) (\<lambda>s. all64 (fst s) \<and> all64 (snd s))"
    if "all64 subtree" for w "is" subtree n
    by (rule yields_tfold) (use that in \<open>auto intro: cut_node_yields\<close>)
  have any: "yields m (\<lambda>x. True)" for m :: "'a tala"
    by (simp add: yields_def)
  show ?thesis
    unfolding computeCutValues_def Let_def
    by (rule yields_bind [OF any] yields_if yields_fail yields_put_at yields_bind [OF copy] yields_bind [OF cuts]
        yields_case_prod yields_get_at yields_ret | simp)+
qed

lemma shift_levels_yields:
  assumes "all64 levels"
  shows "yields (shift_levels err marked delta levels) (\<lambda>l. length l = length levels \<and> all64 l)"
  unfolding shift_levels_def
  by (rule yields_tfold, intro yields_rules)
    (use assms in \<open>auto intro: all64_update dest: checkedAdd_Some\<close>)

lemma extend_tree_yields:
  assumes "all64 (fst s)"
  shows "yields (extend_tree S s) (\<lambda>s'. length (fst s') = length (fst s) \<and> all64 (fst s'))"
proof -
  obtain levels t where s: "s = (levels, t)" by (cases s)
  have any: "yields m (\<lambda>x. True)" for m :: "'a tala"
    by (simp add: yields_def)
  have all: "all64 levels" using assms s by simp
  show ?thesis
    unfolding extend_tree_def s prod.case fst_conv
    by (rule yields_bind [OF shift_levels_yields [OF all]] yields_bind [OF any] yields_rules | simp)+
qed

lemma feasibleTree_yields:
  assumes "all64 levels"
  shows "yields (feasibleTree S levels) (\<lambda>(l, tree). length l = length levels \<and> all64 l)"
proof -
  have any: "yields m (\<lambda>x. True)" for m :: "'a tala"
    by (simp add: yields_def)
  have loop: "yields (twhile (\<lambda>(levels, s). treeNodeCount s < n) (extend_tree S) (levels, s))
    (\<lambda>s'. (length (fst s') = length levels \<and> all64 (fst s')) \<and> \<not> (case s' of (levels, s) \<Rightarrow> treeNodeCount s < n))" for n s
    by (rule yields_twhile, rule yields_weaken [OF extend_tree_yields]) (use assms in auto)
  show ?thesis
    unfolding feasibleTree_def Let_def
    by (rule yields_bind [OF loop] yields_bind [OF any] yields_rules | simp)+
qed

lemma pivot_yields:
  assumes "all64 (pv_levels s)"
  shows "yields (pivot S s) (\<lambda>s'. length (pv_levels s') = length (pv_levels s) \<and> all64 (pv_levels s'))"
proof -
  have any: "yields m (\<lambda>x. True)" for m :: "'a tala"
    by (simp add: yields_def)
  show ?thesis
    unfolding pivot_def Let_def
    by (rule yields_bind [OF shift_levels_yields [OF assms]] yields_bind [OF any] yields_rules | simp add: assms)+
qed

lemma optimize_yields:
  assumes "all64 levels"
  shows "yields (optimize S levels tree) (\<lambda>(l, tree). length l = length levels \<and> all64 l)"
proof -
  have "yields (twhile (\<lambda>s. \<not> pv_done s) (pivot S) \<lparr>pv_levels = levels, pv_tree = tree, pv_done = False\<rparr>)
    (\<lambda>s. (length (pv_levels s) = length levels \<and> all64 (pv_levels s)) \<and> \<not> \<not> pv_done s)"
    by (rule yields_twhile, rule yields_weaken [OF pivot_yields]) (use assms in auto)
  then show ?thesis
    unfolding optimize_def by (rule yields_bind) (simp add: yields_ret)
qed

lemma longestPathLevels_yields: "yields (longestPathLevels P) (\<lambda>l. length l = length (rp_nodes P) \<and> all64 l)"
proof -
  let ?I = "\<lambda>s. length (ks_levels s) = length (rp_nodes P) \<and> all64 (ks_levels s)"
  have any: "yields m (\<lambda>x. True)" for m :: "'a tala"
    by (simp add: yields_def)
  have relax: "yields (relax_edge P u k s) ?I" if "?I s" for u k s
    unfolding relax_edge_def Let_def
    by (intro yields_rules) (use that in \<open>auto intro!: all64_update dest: checkedAdd_Some simp: max_def all64_nth\<close>)
  have turn: "yields (kahn_step P s) ?I" if "?I s" for s
    unfolding kahn_step_def
    by (rule yields_tfold relax yields_rules | use that in simp)+
  have loop: "yields (twhile (\<lambda>s. ks_ready s \<noteq> []) (kahn_step P) s) (\<lambda>s. ?I s \<and> \<not> ks_ready s \<noteq> [])" if "?I s" for s
    by (rule yields_twhile) (use turn that in auto)
  show ?thesis
    unfolding longestPathLevels_def
    by (rule yields_bind [OF loop] yields_bind [OF any] yields_rules | simp)+
qed

section \<open>The certificate\<close>

text \<open>A flow from the tree edges with the value \<open>dual\<close> that supplies the balances.\<close>

definition certified :: "rank_edge list \<Rightarrow> int list \<Rightarrow> int \<Rightarrow> bool" where
  "certified es balance dual \<longleftrightarrow>
    (\<forall>e \<in> set es. re_from e < length balance \<and> re_to e < length balance) \<and>
    (\<exists>f. (\<forall>k < length es. 0 \<le> f k) \<and> dual = (\<Sum>k < length es. f k) \<and>
      (\<forall>v < length balance. net_flow f es v = balance ! v))"

definition tree_flow :: "bool list \<Rightarrow> int list \<Rightarrow> nat \<Rightarrow> int" where
  "tree_flow tree cuts k = (if tree ! k then cuts ! k else 0)"

definition certifying ::
  "rank_edge list \<Rightarrow> nat \<Rightarrow> bool list \<Rightarrow> int list \<Rightarrow> nat \<Rightarrow> int list \<times> int \<Rightarrow> bool" where
  "certifying es n tree cuts i s \<longleftrightarrow>
    length (fst s) = n \<and> all64 (fst s) \<and> int64 (snd s) \<and>
    (\<forall>k < i. k < length es \<and> 0 \<le> tree_flow tree cuts k \<and> re_from (es ! k) < n \<and> re_to (es ! k) < n) \<and>
    snd s = (\<Sum>k < i. tree_flow tree cuts k) \<and>
    (\<forall>v < n. fst s ! v = (\<Sum>k < i. tree_flow tree cuts k * end_sign (es ! k) v))"

lemma certify_edge_yields:
  assumes "all64 cuts" and I: "certifying (rp_edges (rs_problem S)) n tree cuts i s"
  shows "yields (certify_edge S levels tree cuts i s) (certifying (rp_edges (rs_problem S)) n tree cuts (Suc i))"
proof -
  let ?es = "rp_edges (rs_problem S)"
  obtain computed dual where s: "s = (computed, dual)" by (cases s)
  have i: "length computed = n" "all64 computed" "int64 dual"
    "\<forall>k < i. k < length ?es \<and> 0 \<le> tree_flow tree cuts k \<and> re_from (?es ! k) < n \<and> re_to (?es ! k) < n"
    "dual = (\<Sum>k < i. tree_flow tree cuts k)"
    "\<forall>v < n. computed ! v = (\<Sum>k < i. tree_flow tree cuts k * end_sign (?es ! k) v)"
    using I unfolding certifying_def s fst_conv snd_conv by blast+
  have flow: "yields (if \<not> tree ! i then tret 0
      else get_at cuts i (\<lambda>flow. ensure_that (\<not> flow < 0) (err flow) (rankSpan e levels (\<lambda>span. if span \<noteq> rankMinSpan then tfail err' else tret flow))))
    (\<lambda>flow. flow = tree_flow tree cuts i \<and> 0 \<le> flow \<and> int64 flow)" for err e err'
    unfolding rankSpan_def
    by (intro yields_rules) (use assms(1) in \<open>auto simp: tree_flow_def all64_nth\<close>)
  have step: "certifying ?es n tree cuts (Suc i) (computed[re_from (?es ! i) := x, re_to (?es ! i) := y], d)"
    if "i < length ?es" and f: "f = tree_flow tree cuts i" "0 \<le> f" "int64 f"
      and r: "re_from (?es ! i) < length computed" "checkedAddInt64 (computed ! re_from (?es ! i)) f = Some x"
        "re_to (?es ! i) < length (computed[re_from (?es ! i) := x])"
        "checkedSubInt64 (computed[re_from (?es ! i) := x] ! re_to (?es ! i)) f = Some y"
        "checkedMulInt64 f rankMinSpan = Some c" "checkedAddInt64 dual c = Some d" for f x y c d
  proof -
    let ?e = "(?es ! i)\<lparr>re_weight := f\<rparr>"
    have pay: "all64 (computed[re_from ?e := x, re_to ?e := y]) \<and>
      (\<forall>v < length computed. computed[re_from ?e := x, re_to ?e := y] ! v = computed ! v + re_weight ?e * end_sign ?e v)"
      by (rule pay_ends) (use r f(3) i(2) in simp_all)
    have c: "c = f" "int64 c"
      using checkedMul_prod [OF r(5) f(3)] by (auto simp: rankMinSpan_def)
    then have d: "d = dual + f" "int64 d"
      using checkedAdd_sum [OF r(6)] checkedAdd_Some [OF r(6)] i(3) by simp_all
    have sign: "end_sign ?e v = end_sign (?es ! i) v" for v by (simp add: end_sign_def)
    have paid: "all64 (computed[re_from (?es ! i) := x, re_to (?es ! i) := y])"
      "\<forall>v < n. computed[re_from (?es ! i) := x, re_to (?es ! i) := y] ! v = computed ! v + f * end_sign (?es ! i) v"
      using pay i(1) by (simp_all add: sign)
    show ?thesis
      unfolding certifying_def using that(1) f r(1,3) paid d i by (auto simp: less_Suc_eq)
  qed
  show ?thesis
    unfolding certify_edge_def s prod.case
    by (rule yields_bind [OF flow] yields_charge yields_get_at yields_checked yields_put_at yields_ret)+
      (rule step; (assumption | (erule conjE)+, assumption))
qed

lemma certify_yields:
  assumes "all64 (rs_balance S)" "length (rs_balance S) = length (rp_nodes (rs_problem S))"
  shows "yields (certify S levels tree) (certified (rp_edges (rs_problem S)) (rs_balance S))"
proof -
  let ?es = "rp_edges (rs_problem S)" and ?n = "length (rp_nodes (rs_problem S))"
  let ?check = "\<lambda>computed node u. stepping (get_at computed node (\<lambda>c.
    if c \<noteq> rs_balance S ! node then
      tfail (Violated ''certificate balance mismatch on node'' [int node, c, rs_balance S ! node])
    else tret u))"
  have sums: "yields (tfold (certify_edge S levels tree cuts) [0..<length ?es] (replicate ?n 0, 0))
    (certifying ?es ?n tree cuts (length ?es))" if "all64 cuts" for cuts
  proof (rule yields_tfold_upt)
    show "yields (certify_edge S levels tree cuts i s) (certifying ?es ?n tree cuts (Suc i))"
      if "certifying ?es ?n tree cuts i s" for i s
      by (rule certify_edge_yields [OF \<open>all64 cuts\<close> that])
  qed (simp add: certifying_def)
  have checks: "yields (tfold (?check computed) [0..<length (rs_balance S)] ())
    (\<lambda>u. \<forall>v < length (rs_balance S). computed ! v = rs_balance S ! v)" for computed
    by (rule yields_tfold_upt [where I = "\<lambda>i u. \<forall>v < i. computed ! v = rs_balance S ! v"])
      (auto intro!: yields_rules simp: less_Suc_eq)
  have finish: "certified ?es (rs_balance S) dual"
    if "certifying ?es ?n tree cuts (length ?es) (computed, dual)"
      "\<forall>v < length (rs_balance S). computed ! v = rs_balance S ! v" for cuts computed dual
    using that assms(2) unfolding certified_def certifying_def net_flow_def
    by (auto simp: in_set_conv_nth intro!: exI [of _ "tree_flow tree cuts"])
  show ?thesis
    unfolding certify_def
    by (rule yields_bind [OF computeCutValues_yields [OF assms(1)]], rule yields_bind [OF sums], assumption,
      rule yields_case_prod, rule yields_bind [OF checks], rule yields_ret) (use finish in auto)
qed

section \<open>The result\<close>

definition ranked :: "rank_problem \<Rightarrow> int list \<Rightarrow> rank_result \<times> int \<Rightarrow> bool" where
  "ranked P levels r \<longleftrightarrow>
    feasible (rp_edges P) ((!) levels) \<and>
    snd r = (\<Sum>k < length (rp_edges P). edge_weights (rp_edges P) k * edge_span ((!) levels) (rp_edges P ! k)) \<and>
    (\<exists>lo hi. lo \<in> set levels \<and> hi \<in> set levels \<and> (\<forall>l \<in> set levels. lo \<le> l \<and> l \<le> hi) \<and>
      levelCount (fst r) = hi - lo + 1 \<and>
      (\<forall>v < length levels. nodeToLevel (fst r) (rp_nodes P ! v) = Some (levels ! v - lo)) \<and>
      dom (nodeToLevel (fst r)) = set (take (length levels) (rp_nodes P)))"

lemma weigh_edges_yields:
  assumes "all64 levels" "weights64 es"
  shows "yields (tfold (weigh_edge levels) es 0) (\<lambda>p. int64 p \<and> feasible es ((!) levels) \<and>
    p = (\<Sum>k < length es. edge_weights es k * edge_span ((!) levels) (es ! k)))"
proof (rule yields_tfold_gen [where I = "\<lambda>pre p. int64 p \<and> feasible pre ((!) levels) \<and>
    p = (\<Sum>k < length pre. edge_weights pre k * edge_span ((!) levels) (pre ! k))"])
  fix pre e rest p
  assume eq: "es = pre @ e # rest" and I: "int64 p \<and> feasible pre ((!) levels) \<and>
    p = (\<Sum>k < length pre. edge_weights pre k * edge_span ((!) levels) (pre ! k))"
  let ?s = "edge_span ((!) levels) e"
  have w: "int64 (re_weight e)" using assms(2) eq by (simp add: weights64_def)
  have "int64 q \<and> feasible (pre @ [e]) ((!) levels) \<and>
      q = (\<Sum>k < length (pre @ [e]). edge_weights (pre @ [e]) k * edge_span ((!) levels) ((pre @ [e]) ! k))"
    if r: "int64 ?s" "\<not> ?s < rankMinSpan" "checkedMulInt64 (re_weight e) ?s = Some u" "checkedAddInt64 p u = Some q" for u q
  proof -
    have u: "u = re_weight e * ?s" "int64 u" using checkedMul_prod [OF r(3) w r(1)] by auto
    have q: "q = p + u" "int64 q" using checkedAdd_sum [OF r(4)] checkedAdd_Some [OF r(4)] I u by auto
    have "(\<Sum>k < length pre. edge_weights (pre @ [e]) k * edge_span ((!) levels) ((pre @ [e]) ! k)) = p"
      using I by (simp add: edge_weights_def nth_append)
    moreover have "feasible (pre @ [e]) ((!) levels)"
      using I r(2) by (auto simp: feasible_def rankMinSpan_def)
    ultimately show ?thesis using q u by (simp add: edge_weights_def)
  qed
  then show "yields (weigh_edge levels e p) (\<lambda>p. int64 p \<and> feasible (pre @ [e]) ((!) levels) \<and>
      p = (\<Sum>k < length (pre @ [e]). edge_weights (pre @ [e]) k * edge_span ((!) levels) ((pre @ [e]) ! k)))"
    unfolding weigh_edge_def
    by (intro yields_charge yields_rankSpan [OF assms(1)] yields_ensure yields_checked yields_ret) simp
qed (simp add: feasible_def)

lemma extremes_yields:
  assumes "all64 levels" "levels \<noteq> []"
  shows "yields (tfold (\<lambda>l (lo, hi). stepping (tret (min lo l, max hi l))) levels (MaxInt64, MinInt64))
    (\<lambda>(lo, hi). lo \<in> set levels \<and> hi \<in> set levels \<and> (\<forall>l \<in> set levels. lo \<le> l \<and> l \<le> hi))"
proof -
  let ?I = "\<lambda>pre (lo :: int, hi). (\<forall>l \<in> set pre. lo \<le> l \<and> l \<le> hi) \<and>
    (if pre = [] then lo = MaxInt64 \<and> hi = MinInt64 else lo \<in> set pre \<and> hi \<in> set pre)"
  have "yields (tfold (\<lambda>l (lo, hi). stepping (tret (min lo l, max hi l))) levels (MaxInt64, MinInt64)) (?I levels)"
  proof (rule yields_tfold_gen [where I = ?I])
    fix pre l rest s assume eq: "levels = pre @ l # rest" and I: "?I pre s"
    obtain lo hi where s: "s = (lo, hi)" by (cases s)
    have "int64 l" using assms(1) eq by (simp add: all64_def)
    then have "?I (pre @ [l]) (min lo l, max hi l)"
      using I unfolding s by (auto simp: int64_def min_def max_def split: if_splits)
    then show "yields ((case s of (lo, hi) \<Rightarrow> stepping (tret (min lo l, max hi l)))) (?I (pre @ [l]))"
      unfolding s prod.case by (intro yields_charge yields_ret) (simp only: prod.case)
  qed simp
  then show ?thesis by (rule yields_weaken) (use assms(2) in auto)
qed

lemma normalize_yields:
  fixes nodes :: "nat list"
  assumes "all64 levels" "int64 lo" "distinct nodes"
  shows "yields (tfold (\<lambda>node r. stepping
      (checked (checkedSubInt64 (levels ! node) lo) err (\<lambda>normalized.
       ensure_that (\<not> normalized > MaxInt64) err
       (get_at nodes node (\<lambda>a. tret (r(a \<mapsto> normalized)))))))
      [0..<length levels] Map.empty)
    (\<lambda>r. (\<forall>v < length levels. r (nodes ! v) = Some (levels ! v - lo)) \<and> dom r = set (take (length levels) nodes))"
proof (rule yields_weaken, rule yields_tfold_upt [where I = "\<lambda>i r. i \<le> length nodes \<and>
    (\<forall>v < i. r (nodes ! v) = Some (levels ! v - lo)) \<and> dom r = set (take i nodes)"])
  fix i and r :: "nat \<Rightarrow> int option"
  assume i: "i < length levels" and I: "i \<le> length nodes \<and>
    (\<forall>v < i. r (nodes ! v) = Some (levels ! v - lo)) \<and> dom r = set (take i nodes)"
  have "Suc i \<le> length nodes \<and> (\<forall>v < Suc i. (r(nodes ! i \<mapsto> x)) (nodes ! v) = Some (levels ! v - lo)) \<and>
      dom (r(nodes ! i \<mapsto> x)) = set (take (Suc i) nodes)"
    if "checkedSubInt64 (levels ! i) lo = Some x" "i < length nodes" for x
    using that I i checkedSub_diff [OF that(1) all64_nth [OF assms(1) i] assms(2)] nth_eq_iff_index_eq [OF assms(3)]
    by (auto simp: less_Suc_eq take_Suc_conv_app_nth)
  then show "yields (stepping
      (checked (checkedSubInt64 (levels ! i) lo) err (\<lambda>normalized.
       ensure_that (\<not> normalized > MaxInt64) err
       (get_at nodes i (\<lambda>a. tret (r(a \<mapsto> normalized)))))))
    (\<lambda>r. Suc i \<le> length nodes \<and> (\<forall>v < Suc i. r (nodes ! v) = Some (levels ! v - lo)) \<and> dom r = set (take (Suc i) nodes))"
    by (intro yields_charge yields_checked yields_ensure yields_get_at yields_ret)
qed auto

lemma makeResult_yields:
  assumes "all64 levels" "levels \<noteq> []" "weights64 (rp_edges P)" "distinct (rp_nodes P)"
  shows "yields (makeResult P levels) (ranked P levels)"
proof -
  have int64: "int64 l" if "l \<in> set levels" for l using that assms(1) by (simp add: all64_def)
  have "ranked P levels (\<lparr>nodeToLevel = m, levelCount = range + 1\<rparr>, primal)"
    if "lo \<in> set levels \<and> hi \<in> set levels \<and> (\<forall>l \<in> set levels. lo \<le> l \<and> l \<le> hi)"
      "int64 primal \<and> feasible (rp_edges P) ((!) levels) \<and>
        primal = (\<Sum>k < length (rp_edges P). edge_weights (rp_edges P) k * edge_span ((!) levels) (rp_edges P ! k))"
      "checkedSubInt64 hi lo = Some range"
      "(\<forall>v < length levels. m (rp_nodes P ! v) = Some (levels ! v - lo)) \<and> dom m = set (take (length levels) (rp_nodes P))"
    for lo hi primal range m
  proof -
    have r: "range + 1 = hi - lo + 1" using checkedSub_diff [OF that(3)] int64 that(1) by simp
    have ends: "lo \<in> set levels" "hi \<in> set levels" "\<forall>l \<in> set levels. lo \<le> l \<and> l \<le> hi"
      using that(1) by blast+
    show ?thesis
      unfolding ranked_def fst_conv snd_conv rank_result.simps
      by (rule conjI, use that(2) in blast, rule conjI, use that(2) in blast,
        rule exI [of _ lo], rule exI [of _ hi], intro conjI, (rule ends r)+, (use that(4) in blast)+)
  qed
  then show ?thesis
    unfolding makeResult_def
    by (intro yields_bind [OF extremes_yields [OF assms(1,2)]] yields_case_prod
        yields_bind [OF weigh_edges_yields [OF assms(1,3)]] yields_checked yields_ensure
        yields_bind [OF normalize_yields [OF assms(1) _ assms(4)]] yields_ret)
      (use int64 in \<open>auto simp del: fst_conv snd_conv\<close>)
qed

section \<open>The problem of a graph\<close>

definition edge_of :: "layout_graph \<Rightarrow> nat \<times> nat \<times> nat \<Rightarrow> rank_edge" where
  "edge_of g = (\<lambda>(a, i, j). \<lparr>re_from = i, re_to = j, re_weight = HierarchyRankWeight (lg_edge g a),
    re_id = ge_ID (lg_edge g a)\<rparr>)"

definition edge_ok :: "layout_graph \<Rightarrow> nat list \<Rightarrow> nat \<times> nat \<times> nat \<Rightarrow> bool" where
  "edge_ok g nodes = (\<lambda>(a, i, j). i < length nodes \<and> j < length nodes \<and>
    ge_From (lg_edge g a) = Some (nodes ! i) \<and> ge_To (lg_edge g a) = Some (nodes ! j) \<and>
    0 < HierarchyRankWeight (lg_edge g a) \<and> HierarchyRankWeight (lg_edge g a) \<le> int MaxEngineEdges)"

definition problem_of :: "layout_graph \<Rightarrow> rank_problem \<Rightarrow> bool" where
  "problem_of g P \<longleftrightarrow>
    mset (map Some (rp_nodes P)) = mset (lg_Nodes g) \<and> distinct (rp_nodes P) \<and>
    (\<exists>es. mset (map (Some \<circ> fst) es) = mset (lg_Edges g) \<and> rp_edges P = map (edge_of g) es \<and>
      (\<forall>e \<in> set es. edge_ok g (rp_nodes P) e)) \<and>
    (rp_edges P = [] \<longrightarrow> length (rp_nodes P) \<le> 1)"

definition index_ok :: "nat list \<Rightarrow> (nat \<Rightarrow> nat option) \<Rightarrow> bool" where
  "index_ok nodes idx \<longleftrightarrow> distinct nodes \<and> (\<forall>a i. idx a = Some i \<longleftrightarrow> i < length nodes \<and> nodes ! i = a)"

lemma index_ok_snoc:
  assumes "index_ok nodes idx" "idx a = None"
  shows "index_ok (nodes @ [a]) (idx(a \<mapsto> length nodes))"
proof -
  have none: "nodes ! i \<noteq> a" if "i < length nodes" for i
    using assms that by (metis index_ok_def option.distinct(1))
  have "(idx(a \<mapsto> length nodes)) b = Some i \<longleftrightarrow> i < length (nodes @ [a]) \<and> (nodes @ [a]) ! i = b" for b i
  proof (cases "b = a")
    case True
    then show ?thesis using none [of i] by (cases "i < length nodes") (auto simp: nth_append)
  next
    case False
    then show ?thesis using assms(1) by (cases "i < length nodes") (auto simp: index_ok_def nth_append)
  qed
  moreover have "distinct (nodes @ [a])" using assms(1) none by (auto simp: index_ok_def in_set_conv_nth)
  ultimately show ?thesis by (simp add: index_ok_def)
qed

lemma index_nodes_yields:
  "yields (index_nodes g nodes) (\<lambda>(addrs, idx). map Some addrs = nodes \<and> index_ok addrs idx)"
proof -
  let ?I = "\<lambda>i (addrs, idx). map Some addrs = take i nodes \<and> index_ok addrs idx"
  have "yields (index_nodes g nodes) (?I (length nodes))"
    unfolding index_nodes_def
  proof (rule yields_tfold_upt [where I = ?I])
    fix i s assume i: "i < length nodes" and I: "?I i s"
    obtain addrs idx where s: "s = (addrs, idx)" by (cases s)
    from I s have I': "map Some addrs = take i nodes" "index_ok addrs idx" by simp_all
    have len: "length addrs = i" using arg_cong [OF I'(1), of length] i by simp
    have "map Some (addrs @ [a]) = take (Suc i) nodes \<and> index_ok (addrs @ [a]) (idx(a \<mapsto> i))"
      if "nodes ! i = Some a" "\<not> idx a \<noteq> None" for a
      using that I' i len index_ok_snoc [OF I'(2), of a] by (simp add: take_Suc_conv_app_nth)
    then show "yields ((case s of (addrs, idx) \<Rightarrow> stepping (case nodes ! i of
          None \<Rightarrow> tfail (Rejected ''nil node'' [])
        | Some a \<Rightarrow>
            if 0 < i \<and> map_option (gn_ID \<circ> lg_node g) (nodes ! (i - 1)) = Some (gn_ID (lg_node g a))
            then tfail (Rejected ''duplicate node ID'' [gn_ID (lg_node g a)])
            else if idx a \<noteq> None then tfail (Rejected ''duplicate node'' [int a])
            else tret (addrs @ [a], idx(a \<mapsto> i))))) (?I (Suc i))"
      unfolding s prod.case by (intro yields_rules) simp_all
  qed (simp add: index_ok_def)
  then show ?thesis by simp
qed

lemma check_edges_yields:
  "yields (tfold (check_edge g idx) ps \<lparr>es_edges = [], seenEdges = [], seenEdgeIDs = [], seenEndpoints = []\<rparr>)
    (\<lambda>s. map (Some \<circ> fst) (es_edges s) = ps \<and> seenEdges s = rev (map fst (es_edges s)) \<and>
      (\<forall>nodes. index_ok nodes idx \<longrightarrow> (\<forall>e \<in> set (es_edges s). edge_ok g nodes e)))"
proof (rule yields_tfold_gen [where I = "\<lambda>pre s. map (Some \<circ> fst) (es_edges s) = pre \<and> seenEdges s = rev (map fst (es_edges s)) \<and>
    (\<forall>nodes. index_ok nodes idx \<longrightarrow> (\<forall>e \<in> set (es_edges s). edge_ok g nodes e))"])
  fix pre p rest and s :: edge_state
  assume I: "map (Some \<circ> fst) (es_edges s) = pre \<and> seenEdges s = rev (map fst (es_edges s)) \<and>
    (\<forall>nodes. index_ok nodes idx \<longrightarrow> (\<forall>e \<in> set (es_edges s). edge_ok g nodes e))"
  show "yields (check_edge g idx p s) (\<lambda>s. map (Some \<circ> fst) (es_edges s) = pre @ [p] \<and>
    seenEdges s = rev (map fst (es_edges s)) \<and>
    (\<forall>nodes. index_ok nodes idx \<longrightarrow> (\<forall>e \<in> set (es_edges s). edge_ok g nodes e)))"
    unfolding check_edge_def
    by (intro yields_rules) (use I in \<open>auto simp: edge_ok_def index_ok_def\<close>)
qed simp

lemma problem_edges_yields: "yields (problem_edges g n es) (\<lambda>(res, outgoing). res = map (edge_of g) es)"
  unfolding problem_edges_def
proof (rule yields_tfold_gen [where I = "\<lambda>pre (res, outgoing). res = map (edge_of g) pre"])
  fix pre e rest s assume I: "case s of (res, outgoing :: nat list) \<Rightarrow> res = map (edge_of g) pre"
  show "yields ((case e of (a, i, j) \<Rightarrow> \<lambda>(es, outgoing).
      stepping (get_at outgoing (i + 1) (\<lambda>c. put_at outgoing (i + 1) (c + 1) (\<lambda>outgoing1.
        tret (es @ [\<lparr>re_from = i, re_to = j, re_weight = HierarchyRankWeight (lg_edge g a),
          re_id = ge_ID (lg_edge g a)\<rparr>], outgoing1))))) s)
    (\<lambda>(res, outgoing). res = map (edge_of g) (pre @ [e]))"
    by (intro yields_rules) (use I in \<open>simp add: edge_of_def\<close>)
qed simp

lemma incident_alone:
  "yields (tfold (\<lambda>node s1. tfold (check_incident g seen node) (gn_Edges (lg_node g node)) s1) nodes s0)
    (\<lambda>s. seen = [] \<longrightarrow> (\<forall>node \<in> set nodes. gn_Edges (lg_node g node) = []))"
proof (rule yields_tfold_gen [where I = "\<lambda>pre s. seen = [] \<longrightarrow> (\<forall>node \<in> set pre. gn_Edges (lg_node g node) = [])"])
  fix pre node rest and s :: incident_state
  assume I: "seen = [] \<longrightarrow> (\<forall>node \<in> set pre. gn_Edges (lg_node g node) = [])"
  have never: "yields (check_incident g [] node p s) (\<lambda>s. False)" for p s
    unfolding check_incident_def by (intro yields_rules) simp
  show "yields (tfold (check_incident g seen node) (gn_Edges (lg_node g node)) s)
    (\<lambda>s. seen = [] \<longrightarrow> (\<forall>node \<in> set (pre @ [node]). gn_Edges (lg_node g node) = []))"
  proof (cases "gn_Edges (lg_node g node)")
    case Nil
    then show ?thesis using I by (simp add: yields_ret)
  next
    case (Cons p ps)
    have "yields (tfold (check_incident g seen node) (p # ps) s) (\<lambda>s. seen = [] \<longrightarrow> False)"
    proof (cases "seen = []")
      case True
      show ?thesis unfolding tfold.simps True by (rule yields_bind [OF never]) simp
    qed (simp add: yields_def)
    then show ?thesis unfolding Cons by (rule yields_weaken) simp
  qed
qed simp

lemma search_alone:
  "\<forall>node \<in> set nodes. gn_Edges (lg_node g node) = [] \<Longrightarrow> yields (search_nodes n g idx nodes seen [0] m) (\<lambda>k. k = m)"
proof (cases n)
  case (Suc k)
  assume none: "\<forall>node \<in> set nodes. gn_Edges (lg_node g node) = []"
  have "search_nodes k g idx nodes seen [] m = tret m" for seen by (cases k) simp_all
  with none show ?thesis
    unfolding Suc search_nodes.simps list.case
    by (intro yields_get_at) (simp add: yields_def tbind_def tret_def)
qed (simp add: yields_fail)

lemma newRankProblem_yields: "yields (newRankProblem (Some g)) (problem_of g)"
proof -
  have any: "yields m (\<lambda>x. True)" for m :: "'a tala"
    by (simp add: yields_def)
  have finish: "problem_of g \<lparr>rp_nodes = nodes, rp_edges = map (edge_of g) (sort_key k es), outgoingStart = out, pivotOrder = piv\<rparr>"
    if "map Some nodes = sort_key f (lg_Nodes g) \<and> index_ok nodes idx"
      "map (Some \<circ> fst) es = lg_Edges g" "\<forall>nodes. index_ok nodes idx \<longrightarrow> (\<forall>e \<in> set es. edge_ok g nodes e)"
      "es = [] \<longrightarrow> length nodes \<le> 1"
    for nodes idx es out piv and f :: "nat option \<Rightarrow> int option" and k :: "nat \<times> nat \<times> nat \<Rightarrow> nat \<times> nat \<times> int"
  proof -
    have "mset (map (Some \<circ> fst) (sort_key k es)) = mset (lg_Edges g)"
      using that(2) by (metis mset_map mset_sort)
    moreover have "mset (map Some nodes) = mset (lg_Nodes g)" using that(1) by (metis mset_sort)
    ultimately show ?thesis
      using that unfolding problem_of_def index_ok_def
      by (auto intro!: exI [of _ "sort_key k es"] dest!: arg_cong [where f = length])
  qed
  have connected: "yields (if length nodes > 1 then
        tbind (search_nodes (length nodes) g idx nodes ((replicate (length nodes) False)[0 := True]) [0] 1)
          (\<lambda>found. if found = length nodes then tret () else tfail e)
      else tret ()) (\<lambda>u. length nodes \<le> 1)"
    if "\<forall>node \<in> set nodes. gn_Edges (lg_node g node) = []" for nodes idx e
    using that by (auto intro!: yields_ret yields_bind [OF search_alone] yields_fail)
  have search: "yields (if length nodes > 1 then
        tbind (search_nodes (length nodes) g idx nodes ((replicate (length nodes) False)[0 := True]) [0] 1)
          (\<lambda>found. if found = length nodes then tret () else tfail e)
      else tret ()) (\<lambda>u. seen = [] \<longrightarrow> length nodes \<le> 1)"
    if "seen = [] \<longrightarrow> (\<forall>node \<in> set nodes. gn_Edges (lg_node g node) = [])" for nodes idx e and seen :: "nat list"
    using connected [of nodes idx e] that by (cases "seen = []") (auto simp: yields_def)
  show ?thesis
    unfolding newRankProblem_def option.case Let_def
    by (rule yields_ensure, rule yields_ensure, rule yields_charge, rule yields_bind [OF index_nodes_yields],
      rule yields_case_prod, rule yields_bind [OF check_edges_yields], rule yields_charge,
      rule yields_bind [OF incident_alone], rule yields_bind [OF any], rule yields_bind [OF search], assumption, rule yields_bind [OF problem_edges_yields],
      rule yields_case_prod, rule yields_bind [OF any], rule yields_bind [OF any], rule yields_charge, rule yields_ret)
      (auto intro!: finish)
qed

section \<open>Rankings of a graph\<close>

text \<open>Every edge goes down by a level at least.\<close>

definition ranking_ok :: "layout_graph \<Rightarrow> (nat \<Rightarrow> int) \<Rightarrow> bool" where
  "ranking_ok g level \<longleftrightarrow> (\<forall>a x y. Some a \<in> set (lg_Edges g) \<longrightarrow>
    ge_From (lg_edge g a) = Some x \<longrightarrow> ge_To (lg_edge g a) = Some y \<longrightarrow> level x + 1 \<le> level y)"

text \<open>The sum of the weighted spans.\<close>

definition edge_cost :: "layout_graph \<Rightarrow> (nat \<Rightarrow> int) \<Rightarrow> nat option \<Rightarrow> int" where
  "edge_cost g level p =
    (case p of
       None \<Rightarrow> 0
     | Some a \<Rightarrow> HierarchyRankWeight (lg_edge g a) *
         (level (the (ge_To (lg_edge g a))) - level (the (ge_From (lg_edge g a)))))"

definition ranking_cost :: "layout_graph \<Rightarrow> (nat \<Rightarrow> int) \<Rightarrow> int" where
  "ranking_cost g level = sum_list (map (edge_cost g level) (lg_Edges g))"

lemma sum_list_mset_eq:
  fixes f :: "'a \<Rightarrow> int"
  assumes "mset xs = mset ys"
  shows "sum_list (map f xs) = sum_list (map f ys)"
  using assms by (metis mset_map sum_mset_sum_list)

lemma problem_cost:
  assumes "problem_of g P" "\<And>i. i < length (rp_nodes P) \<Longrightarrow> r i = level (rp_nodes P ! i) - c"
  shows "(\<Sum>k < length (rp_edges P). edge_weights (rp_edges P) k * edge_span r (rp_edges P ! k)) = ranking_cost g level"
proof -
  obtain es where es: "mset (map (Some \<circ> fst) es) = mset (lg_Edges g)" "rp_edges P = map (edge_of g) es"
    "\<forall>e \<in> set es. edge_ok g (rp_nodes P) e"
    using assms(1) by (auto simp: problem_of_def)
  have "(\<Sum>k < length es. edge_weights (rp_edges P) k * edge_span r (rp_edges P ! k)) =
      (\<Sum>k < length es. edge_cost g level (Some (fst (es ! k))))"
  proof (rule sum.cong)
    fix k assume "k \<in> {..<length es}"
    then have k: "k < length es" "edge_ok g (rp_nodes P) (es ! k)" using es(3) by auto
    obtain a i j where e: "es ! k = (a, i, j)" by (cases "es ! k")
    with k assms(2) show "edge_weights (rp_edges P) k * edge_span r (rp_edges P ! k) = edge_cost g level (Some (fst (es ! k)))"
      by (simp add: es(2) edge_weights_def edge_of_def edge_span_def edge_cost_def edge_ok_def)
  qed simp
  also have "\<dots> = sum_list (map (edge_cost g level) (map (Some \<circ> fst) es))"
    by (simp add: sum_list_sum_nth atLeast0LessThan)
  also have "\<dots> = ranking_cost g level"
    unfolding ranking_cost_def by (rule sum_list_mset_eq [OF es(1)])
  finally show ?thesis by (simp add: es(2))
qed

lemma problem_feasible:
  assumes "problem_of g P" "\<And>i. i < length (rp_nodes P) \<Longrightarrow> r i = level (rp_nodes P ! i) - c"
  shows "feasible (rp_edges P) r \<longleftrightarrow> ranking_ok g level"
proof -
  obtain es where es: "mset (map (Some \<circ> fst) es) = mset (lg_Edges g)" "rp_edges P = map (edge_of g) es"
    "\<forall>e \<in> set es. edge_ok g (rp_nodes P) e"
    using assms(1) by (auto simp: problem_of_def)
  have edges: "set (lg_Edges g) = (Some \<circ> fst) ` set es" using mset_eq_setD [OF es(1)] by simp
  have one: "1 \<le> edge_span r (edge_of g (a, i, j)) \<longleftrightarrow>
      (\<forall>x y. ge_From (lg_edge g a) = Some x \<longrightarrow> ge_To (lg_edge g a) = Some y \<longrightarrow> level x + 1 \<le> level y)"
    if "(a, i, j) \<in> set es" for a i j
    using es(3) that assms(2) by (fastforce simp: edge_ok_def edge_of_def edge_span_def)
  have "feasible (rp_edges P) r \<longleftrightarrow> (\<forall>a i j. (a, i, j) \<in> set es \<longrightarrow> 1 \<le> edge_span r (edge_of g (a, i, j)))"
    by (auto simp: feasible_def es(2))
  also have "\<dots> \<longleftrightarrow> ranking_ok g level"
    unfolding ranking_ok_def edges using one by fastforce
  finally show ?thesis .
qed

lemma problem_weights: "problem_of g P \<Longrightarrow> weights64 (rp_edges P)"
  by (fastforce simp: problem_of_def weights64_def edge_ok_def edge_of_def MaxEngineEdges_def int64_def MinInt64_def MaxInt64_def)

lemma solve_yields:
  assumes "weights64 (rp_edges P)" "all64 initial" "length initial = length (rp_nodes P)"
  shows "yields (solve P initial) (\<lambda>(levels, dual). length levels = length (rp_nodes P) \<and> all64 levels \<and>
    (\<exists>balance. length balance = length (rp_nodes P) \<and>
      (\<forall>v < length (rp_nodes P). balance ! v = net_flow (edge_weights (rp_edges P)) (rp_edges P) v) \<and>
      certified (rp_edges P) balance dual))"
proof -
  have cert: "yields (certify S levels tree) (certified (rp_edges P) (rs_balance S))" if "solver_of P S" for S levels tree
    using certify_yields [of S] that by (simp add: solver_of_def)
  show ?thesis
    unfolding solve_def
  proof (rule yields_bind [OF newRankSimplex_yields [OF assms(1)]], rule yields_bind [OF feasibleTree_yields [OF assms(2)]],
      rule yields_case_prod)
    fix S x levels and tree :: "bool list"
    assume S: "solver_of P S" and x: "case x of (l, tree) \<Rightarrow> length l = length initial \<and> all64 l" "x = (levels, tree)"
    then have l: "all64 levels" "length levels = length (rp_nodes P)" using assms(3) by simp_all
    show "yields (tbind (optimize S levels tree) (\<lambda>(levels, tree). tbind (certify S levels tree) (\<lambda>dualValue. tret (levels, dualValue))))
      (\<lambda>(levels, dual). length levels = length (rp_nodes P) \<and> all64 levels \<and>
        (\<exists>balance. length balance = length (rp_nodes P) \<and>
          (\<forall>v < length (rp_nodes P). balance ! v = net_flow (edge_weights (rp_edges P)) (rp_edges P) v) \<and>
          certified (rp_edges P) balance dual))"
      by (rule yields_bind [OF optimize_yields [OF l(1)]], rule yields_case_prod, rule yields_bind [OF cert [OF S]], rule yields_ret)
        (use S l(2) in \<open>auto simp: solver_of_def\<close>)
  qed
qed

lemma problem_nodes: "problem_of g P \<Longrightarrow> set (lg_Nodes g) = Some ` set (rp_nodes P)"
  unfolding problem_of_def by (metis set_map set_mset_mset)

text \<open>What it is for a result to be a best ranking.\<close>

definition best_ranking :: "layout_graph \<Rightarrow> rank_result \<Rightarrow> bool" where
  "best_ranking g r \<longleftrightarrow>
    (\<forall>p \<in> set (lg_Nodes g). \<exists>a l. p = Some a \<and> nodeToLevel r a = Some l \<and> 0 \<le> l \<and> l < levelCount r) \<and>
    (lg_Nodes g \<noteq> [] \<longrightarrow> (\<exists>a. nodeToLevel r a = Some 0) \<and> (\<exists>a. nodeToLevel r a = Some (levelCount r - 1))) \<and>
    ranking_ok g (\<lambda>a. the (nodeToLevel r a)) \<and>
    (\<forall>level. ranking_ok g level \<longrightarrow> ranking_cost g (\<lambda>a. the (nodeToLevel r a)) \<le> ranking_cost g level)"

lemma solved_best:
  assumes P: "problem_of g P" "rp_nodes P \<noteq> []"
    and levels: "length levels = length (rp_nodes P)" "ranked P levels (r, primal)"
    and balance: "length balance = length (rp_nodes P)"
      "\<forall>v < length (rp_nodes P). balance ! v = net_flow (edge_weights (rp_edges P)) (rp_edges P) v"
      "certified (rp_edges P) balance primal"
  shows "best_ranking g r"
proof -
  let ?n = "length (rp_nodes P)" and ?es = "rp_edges P" and ?level = "\<lambda>a. the (nodeToLevel r a)"
  obtain lo hi where l: "lo \<in> set levels" "hi \<in> set levels" "\<forall>l \<in> set levels. lo \<le> l \<and> l \<le> hi"
    "levelCount r = hi - lo + 1" "\<forall>v < length levels. nodeToLevel r (rp_nodes P ! v) = Some (levels ! v - lo)"
    and f: "feasible ?es ((!) levels)"
    and primal: "primal = (\<Sum>k < length ?es. edge_weights ?es k * edge_span ((!) levels) (?es ! k))"
    using levels(2) by (auto simp: ranked_def)
  have r: "levels ! i = ?level (rp_nodes P ! i) - (- lo)" if "i < ?n" for i
    using l(5) levels(1) that by simp
  obtain flow where flow: "\<forall>k < length ?es. 0 \<le> flow k" "primal = (\<Sum>k < length ?es. flow k)"
    "\<forall>v < ?n. net_flow flow ?es v = net_flow (edge_weights ?es) ?es v"
    and ends: "\<forall>e \<in> set ?es. re_from e < ?n \<and> re_to e < ?n"
    using balance by (auto simp: certified_def)
  note nodes = problem_nodes [OF P(1)]
  have cost: "ranking_cost g ?level = primal"
    using problem_cost [OF P(1), of "(!) levels" ?level "- lo"] r primal by simp
  have "ranking_cost g ?level \<le> ranking_cost g level" if "ranking_ok g level" for level
  proof -
    let ?r = "\<lambda>i. level (rp_nodes P ! i)"
    have "feasible ?es ?r" using problem_feasible [OF P(1), of ?r level 0] that by simp
    from weak_duality [OF ends flow(1,3) this] flow(2) cost problem_cost [OF P(1), of ?r level 0]
    show ?thesis by simp
  qed
  moreover have "ranking_ok g ?level"
    using problem_feasible [OF P(1), of "(!) levels" ?level "- lo"] r f by simp
  moreover have "\<exists>a l. p = Some a \<and> nodeToLevel r a = Some l \<and> 0 \<le> l \<and> l < levelCount r" if "p \<in> set (lg_Nodes g)" for p
  proof -
    from that nodes obtain a where "p = Some a" "a \<in> set (rp_nodes P)" by auto
    then obtain v where v: "v < ?n" "p = Some (rp_nodes P ! v)" by (auto simp: in_set_conv_nth)
    then have "levels ! v \<in> set levels" using levels(1) by simp
    then have "lo \<le> levels ! v \<and> levels ! v \<le> hi" using l(3) by blast
    with v l(4,5) levels(1) show ?thesis by simp
  qed
  moreover have "\<exists>a. nodeToLevel r a = Some (x - lo)" if "x \<in> set levels" for x
    using that l(5) by (auto simp: in_set_conv_nth)
  from this [OF l(1)] this [OF l(2)]
  have "\<exists>a. nodeToLevel r a = Some 0" "\<exists>a. nodeToLevel r a = Some (levelCount r - 1)" by (simp_all add: l(4))
  ultimately show ?thesis unfolding best_ranking_def by blast
qed

lemma rankDAG_body_yields: "yields (rankDAG_body (Some g)) (best_ranking g)"
proof -
  have small: "best_ranking g \<lparr>nodeToLevel = m, levelCount = k\<rparr>"
    if "problem_of g P" "rp_edges P = []" "(rp_nodes P = [] \<and> m = Map.empty \<and> k = 0) \<or> (\<exists>a. rp_nodes P = [a] \<and> m = [a \<mapsto> 0] \<and> k = 1)" for P m k
  proof -
    have "lg_Edges g = []"
      using that(1,2) by (auto simp: problem_of_def)
    then show ?thesis
      using that(3) problem_nodes [OF that(1)] by (auto simp: best_ranking_def ranking_ok_def ranking_cost_def)
  qed
  have no_edges: "rp_edges P = []" if "problem_of g P" "rp_nodes P = []" for P
  proof -
    from that(1) obtain es where es: "rp_edges P = map (edge_of g) es" "\<forall>e \<in> set es. edge_ok g (rp_nodes P) e"
      by (auto simp: problem_of_def)
    with that(2) show ?thesis by (cases es) (auto simp: edge_ok_def)
  qed
  show ?thesis
    unfolding rankDAG_body_def
  proof (rule yields_bind [OF newRankProblem_yields], rule yields_if)
    fix P assume P: "problem_of g P" "rp_nodes P = []"
    show "yields (charge opt_Check (tret \<lparr>nodeToLevel = Map.empty, levelCount = 0\<rparr>)) (best_ranking g)"
      by (intro yields_charge yields_ret small [OF P(1) no_edges [OF P]]) (simp add: P(2))
  next
    fix P assume P: "problem_of g P" "rp_nodes P \<noteq> []"
    show "yields (tbind (longestPathLevels P) (\<lambda>initialLevels.
      if rp_edges P = [] then
        charge opt_Check (tret \<lparr>nodeToLevel = [hd (rp_nodes P) \<mapsto> 0], levelCount = 1\<rparr>)
      else
        tbind (solve P initialLevels) (\<lambda>(levels, dualValue).
        tbind (makeResult P levels) (\<lambda>(result, primalValue).
        if primalValue \<noteq> dualValue then
          tfail (Violated ''optimality certificate failed'' [primalValue, dualValue])
        else charge opt_Check (tret result))))) (best_ranking g)"
    proof (rule yields_bind [OF longestPathLevels_yields], rule yields_if)
      fix l assume "rp_edges P = []"
      moreover from this P have "length (rp_nodes P) \<le> 1" by (simp add: problem_of_def)
      with P(2) obtain a where "rp_nodes P = [a]" by (cases "rp_nodes P") auto
      ultimately show "yields (charge opt_Check (tret \<lparr>nodeToLevel = [hd (rp_nodes P) \<mapsto> 0], levelCount = 1\<rparr>)) (best_ranking g)"
        by (intro yields_charge yields_ret small [OF P(1)]) simp_all
    next
      fix initial assume "length initial = length (rp_nodes P) \<and> all64 initial"
      then have i: "all64 initial" "length initial = length (rp_nodes P)" by simp_all
      note weights = problem_weights [OF P(1)]
      have dist: "distinct (rp_nodes P)" using P(1) by (simp add: problem_of_def)
      show "yields (tbind (solve P initial) (\<lambda>(levels, dualValue).
        tbind (makeResult P levels) (\<lambda>(result, primalValue).
        if primalValue \<noteq> dualValue then
          tfail (Violated ''optimality certificate failed'' [primalValue, dualValue])
        else charge opt_Check (tret result)))) (best_ranking g)"
      proof (rule yields_bind [OF solve_yields [OF weights i]], rule yields_case_prod)
        fix x levels dual
        assume "x = (levels, dual)" "case x of (levels, dual) \<Rightarrow> length levels = length (rp_nodes P) \<and> all64 levels \<and>
          (\<exists>balance. length balance = length (rp_nodes P) \<and>
            (\<forall>v < length (rp_nodes P). balance ! v = net_flow (edge_weights (rp_edges P)) (rp_edges P) v) \<and>
            certified (rp_edges P) balance dual)"
        then obtain balance where l: "length levels = length (rp_nodes P)" "all64 levels"
          and b: "length balance = length (rp_nodes P)"
            "\<forall>v < length (rp_nodes P). balance ! v = net_flow (edge_weights (rp_edges P)) (rp_edges P) v"
            "certified (rp_edges P) balance dual" by auto
        have "levels \<noteq> []" using l(1) P(2) by auto
        from makeResult_yields [OF l(2) this weights dist]
        show "yields (tbind (makeResult P levels) (\<lambda>(result, primalValue).
          if primalValue \<noteq> dual then
            tfail (Violated ''optimality certificate failed'' [primalValue, dual])
          else charge opt_Check (tret result))) (best_ranking g)"
          by (rule yields_bind) (intro yields_rules, use solved_best [OF P l(1) _ b(1,2)] b(3) in auto)
      qed
    qed
  qed
qed

end
