(* ===== verification/Rank_Kahn.thy ===== *)
theory Rank_Kahn
  imports Rank_Optimal
begin

text \<open>
  The first ranking, by longest paths, is the least one, and the solver rejects a graph as cyclic only if it
  has no ranking at all.
\<close>

section \<open>Errors a computation does not end in\<close>

definition avoids :: "tala_error \<Rightarrow> 'a tala \<Rightarrow> bool" where
  "avoids e m \<longleftrightarrow> (\<forall>g. m g \<noteq> Inl e)"

definition cycle_error :: tala_error where
  "cycle_error = Rejected ''input graph contains a directed cycle'' []"

named_theorems avoids_rules \<open>rules for the errors of a computation\<close>

lemma avoids_ret [avoids_rules]: "avoids e (tret x)"
  by (simp add: avoids_def tret_def)

lemma avoids_fail [avoids_rules]: "e' \<noteq> e \<Longrightarrow> avoids e (tfail e')"
  by (simp add: avoids_def tfail_def)

lemma avoids_bind [avoids_rules]: "avoids e m \<Longrightarrow> (\<And>x. avoids e (f x)) \<Longrightarrow> avoids e (tbind m f)"
  by (auto simp: avoids_def tbind_def split: sum.split)

lemma avoids_charge [avoids_rules]: "(\<And>g. c g \<noteq> Inl e) \<Longrightarrow> avoids e m \<Longrightarrow> avoids e (charge c m)"
  by (auto simp: avoids_def charge_def split: sum.split)

lemma avoids_get_at [avoids_rules]: "IndexPanic \<noteq> e \<Longrightarrow> (\<And>x. avoids e (K x)) \<Longrightarrow> avoids e (get_at xs i K)"
  by (simp add: get_at_def avoids_fail)

lemma avoids_put_at [avoids_rules]: "IndexPanic \<noteq> e \<Longrightarrow> (\<And>ys. avoids e (K ys)) \<Longrightarrow> avoids e (put_at xs i v K)"
  by (simp add: put_at_def avoids_fail)

lemma avoids_checked [avoids_rules]: "e' \<noteq> e \<Longrightarrow> (\<And>v. avoids e (K v)) \<Longrightarrow> avoids e (checked r e' K)"
  by (auto simp: checked_def avoids_fail split: option.split)

lemma avoids_ensure [avoids_rules]: "e' \<noteq> e \<Longrightarrow> avoids e m \<Longrightarrow> avoids e (ensure_that b e' m)"
  by (simp add: ensure_that_def avoids_fail)

lemma avoids_if [avoids_rules]: "avoids e m \<Longrightarrow> avoids e n \<Longrightarrow> avoids e (if b then m else n)"
  by simp

lemma avoids_tfold [avoids_rules]: "(\<And>x s. avoids e (f x s)) \<Longrightarrow> avoids e (tfold f xs s)"
  by (induction xs arbitrary: s) (simp_all add: avoids_ret avoids_bind)

lemma avoids_twhile [avoids_rules]:
  assumes "OutOfTurns \<noteq> e" "\<And>s. avoids e (f s)"
  shows "avoids e (twhile b f s)"
proof -
  have "avoids e (tloop n b f s)" for n s
    by (induction n arbitrary: s) (simp_all add: avoids_fail avoids_ret avoids_bind assms)
  then show ?thesis by (simp add: avoids_def twhile_def del: tloop.simps)
qed

lemma avoids_case_prod [avoids_rules]: "(\<And>a b. avoids e (f a b)) \<Longrightarrow> avoids e (case x of (a, b) \<Rightarrow> f a b)"
  by (cases x) simp

lemma avoids_case_prod_app [avoids_rules]: "(\<And>a b. avoids e (f a b s)) \<Longrightarrow> avoids e ((case x of (a, b) \<Rightarrow> f a b) s)"
  by (cases x) simp

lemma avoids_case_option [avoids_rules]:
  "avoids e m \<Longrightarrow> (\<And>x. avoids e (f x)) \<Longrightarrow> avoids e (case p of None \<Rightarrow> m | Some x \<Rightarrow> f x)"
  by (cases p) simp_all

lemma avoids_case_list [avoids_rules]:
  "avoids e m \<Longrightarrow> (\<And>x xs. avoids e (f x xs)) \<Longrightarrow> avoids e (case l of [] \<Rightarrow> m | x # xs \<Rightarrow> f x xs)"
  by (cases l) simp_all

lemma avoids_case_parent [avoids_rules]:
  "avoids e m \<Longrightarrow> avoids e n \<Longrightarrow> (\<And>x. avoids e (f x)) \<Longrightarrow>
   avoids e (case p of Unvisited \<Rightarrow> m | TreeRoot \<Rightarrow> n | TreeNode x \<Rightarrow> f x)"
  by (cases p) simp_all

lemma avoids_Let [avoids_rules]: "avoids e (f x) \<Longrightarrow> avoids e (Let x f)"
  by simp

lemma charges_avoid [avoids_rules]:
  "opt_Check g \<noteq> Inl cycle_error" "opt_Add n g \<noteq> Inl cycle_error" "opt_Step g \<noteq> Inl cycle_error"
  "opt_AddSort n g \<noteq> Inl cycle_error"
proof -
  show check: "opt_Check g \<noteq> Inl cycle_error" for g
    by (auto simp: opt_Check_def cycle_error_def split: option.split)
  show add: "opt_Add n g \<noteq> Inl cycle_error" for n g
    using check by (auto simp: opt_Add_def Let_def) (simp_all add: cycle_error_def)
  show "opt_Step g \<noteq> Inl cycle_error" by (simp add: opt_Step_def add)
  show "opt_AddSort n g \<noteq> Inl cycle_error"
    using check add by (auto simp: opt_AddSort_def opt_AddProduct_def) (simp add: cycle_error_def)
qed

lemma cycle_error_simps [simp]:
  "IndexPanic \<noteq> cycle_error" "OutOfTurns \<noteq> cycle_error"
  "Rejected s xs = cycle_error \<longleftrightarrow> s = ''input graph contains a directed cycle'' \<and> xs = []"
  "Violated s xs \<noteq> cycle_error"
  by (auto simp: cycle_error_def)

section \<open>The edges of a node\<close>

text \<open>\<open>outgoingStart\<close> delimits the edges that leave a node.\<close>

definition csr_ok :: "rank_problem \<Rightarrow> bool" where
  "csr_ok P \<longleftrightarrow>
    length (outgoingStart P) = length (rp_nodes P) + 1 \<and>
    (\<forall>e \<in> set (rp_edges P). re_from e < length (rp_nodes P) \<and> re_to e < length (rp_nodes P) \<and> re_from e \<noteq> re_to e) \<and>
    (\<forall>u < length (rp_nodes P). \<forall>k. outgoingStart P ! u \<le> k \<and> k < outgoingStart P ! (u + 1) \<longleftrightarrow>
      k < length (rp_edges P) \<and> re_from (rp_edges P ! k) = u)"

text \<open>The edges into a node that are not yet taken: their tail is not done, nor is it \<open>u\<close> and they are before \<open>j\<close>.\<close>

definition waiting :: "rank_problem \<Rightarrow> nat set \<Rightarrow> nat \<Rightarrow> nat \<Rightarrow> nat \<Rightarrow> nat set" where
  "waiting P D u j v = {k. k < length (rp_edges P) \<and> re_to (rp_edges P ! k) = v \<and>
    re_from (rp_edges P ! k) \<notin> D \<and> \<not> (re_from (rp_edges P ! k) = u \<and> k < j)}"

definition taken :: "rank_problem \<Rightarrow> nat set \<Rightarrow> nat \<Rightarrow> nat \<Rightarrow> nat \<Rightarrow> bool" where
  "taken P D u j k \<longleftrightarrow> k < length (rp_edges P) \<and>
    (re_from (rp_edges P ! k) \<in> D \<or> (re_from (rp_edges P ! k) = u \<and> k < j))"

definition nonneg_feasible :: "rank_edge list \<Rightarrow> (nat \<Rightarrow> int) \<Rightarrow> bool" where
  "nonneg_feasible es r \<longleftrightarrow> feasible es r \<and> (\<forall>v. 0 \<le> r v)"

text \<open>
  Nodes in \<open>D\<close> are done, \<open>u\<close> is being taken, its edges before \<open>j\<close> are. Between two nodes \<open>u\<close> is the number of
  nodes, which is no node.
\<close>

definition kahn_inv :: "rank_problem \<Rightarrow> nat set \<Rightarrow> nat \<Rightarrow> nat \<Rightarrow> kahn_state \<Rightarrow> bool" where
  "kahn_inv P D u j s \<longleftrightarrow>
    (length (ks_levels s) = length (rp_nodes P) \<and> length (ks_indegree s) = length (rp_nodes P) \<and>
      all64 (ks_levels s) \<and> heap_ok (\<le>) (ks_ready s)) \<and>
    (\<forall>v < length (rp_nodes P). ks_indegree s ! v = int (card (waiting P D u j v))) \<and>
    mset (ks_ready s) = mset_set {v. v < length (rp_nodes P) \<and> v \<notin> D \<and> v \<noteq> u \<and> ks_indegree s ! v = 0} \<and>
    (u \<notin> D \<and> (\<forall>k < length (rp_edges P). re_to (rp_edges P ! k) \<in> insert u D \<longrightarrow> re_from (rp_edges P ! k) \<in> D)) \<and>
    (\<forall>k. taken P D u j k \<longrightarrow> 1 \<le> edge_span ((!) (ks_levels s)) (rp_edges P ! k)) \<and>
    (\<forall>r. nonneg_feasible (rp_edges P) r \<longrightarrow> (\<forall>v < length (rp_nodes P). ks_levels s ! v \<le> r v)) \<and>
    (\<forall>v < length (rp_nodes P). 0 \<le> ks_levels s ! v)"

lemma finite_waiting [simp]: "finite (waiting P D u j v)"
  by (rule finite_subset [of _ "{..<length (rp_edges P)}"]) (auto simp: waiting_def)

lemma relax_inv:
  assumes P: "csr_ok P" and I: "kahn_inv P D u k s" and k: "k < length (rp_edges P)" "re_from (rp_edges P ! k) = u"
  shows "yields (relax_edge P u k s) (\<lambda>s1. kahn_inv P D u (Suc k) s1 \<and> ks_visited s1 = ks_visited s)"
proof -
  let ?es = "rp_edges P" and ?n = "length (rp_nodes P)" and ?t = "re_to (rp_edges P ! k)"
  let ?lv = "ks_levels s" and ?dg = "ks_indegree s"
  have len: "length ?lv = ?n" "length ?dg = ?n" "all64 ?lv" "heap_ok (\<le>) (ks_ready s)"
    and dg: "\<forall>v < ?n. ?dg ! v = int (card (waiting P D u k v))"
    and ready: "mset (ks_ready s) = mset_set {v. v < ?n \<and> v \<notin> D \<and> v \<noteq> u \<and> ?dg ! v = 0}"
    and closed: "u \<notin> D" "\<forall>k < length ?es. re_to (?es ! k) \<in> insert u D \<longrightarrow> re_from (?es ! k) \<in> D"
    and span: "\<forall>k'. taken P D u k k' \<longrightarrow> 1 \<le> edge_span ((!) ?lv) (?es ! k')"
    and least: "\<forall>r. nonneg_feasible ?es r \<longrightarrow> (\<forall>v < ?n. ?lv ! v \<le> r v)"
    and low: "\<forall>v < ?n. 0 \<le> ?lv ! v"
    using I unfolding kahn_inv_def by blast+
  have e: "?es ! k \<in> set ?es" using k(1) by simp
  then have t: "?t < ?n" "u < ?n" "?t \<noteq> u" using P k(2) by (auto simp: csr_ok_def)
  have tD: "?t \<notin> D" using closed k by auto
  have kw: "k \<in> waiting P D u k ?t" using k closed(1) by (auto simp: waiting_def)
  have waiting: "waiting P D u (Suc k) v = (if v = ?t then waiting P D u k v - {k} else waiting P D u k v)" for v
    using k closed(1) by (auto simp: waiting_def less_Suc_eq)
  have taken: "taken P D u (Suc k) k' \<longleftrightarrow> taken P D u k k' \<or> k' = k" for k'
  proof -
    have "k' < Suc k \<longleftrightarrow> k' < k \<or> k' = k" by (rule less_Suc_eq)
    then show ?thesis using k unfolding taken_def by blast
  qed
  have pos: "0 < card (waiting P D u k ?t)" using kw finite_waiting [of P D u k "?t"] by (auto simp only: card_gt_0_iff)
  have inv: "kahn_inv P D u (Suc k) s1"
    if c: "checkedAddInt64 (?lv ! u) rankMinSpan = Some c"
      and s1: "ks_levels s1 = ?lv[?t := max (?lv ! ?t) c]" "ks_indegree s1 = ?dg[?t := ?dg ! ?t - 1]"
        "ks_ready s1 = (if ?dg ! ?t - 1 = 0 then heap_push ?t (ks_ready s) else ks_ready s)" for c s1
  proof -
    have c: "c = ?lv ! u + 1" "int64 c"
      using checkedAdd_sum [OF c all64_nth [OF len(3)]] checkedAdd_Some [OF c] t(2) len(1) by (simp_all add: rankMinSpan_def)
    have new_dg: "ks_indegree s1 ! v = int (card (waiting P D u (Suc k) v))" if "v < ?n" for v
      using that dg pos kw t(1) len(2) by (auto simp: s1 waiting card_Diff_singleton of_nat_diff)
    have old: "?dg ! ?t \<noteq> 0" using dg t(1) kw by auto
    have "mset (ks_ready s1) = mset_set {v. v < ?n \<and> v \<notin> D \<and> v \<noteq> u \<and> ks_indegree s1 ! v = 0}"
    proof (cases "?dg ! ?t - 1 = 0")
      case True
      then have "{v. v < ?n \<and> v \<notin> D \<and> v \<noteq> u \<and> ks_indegree s1 ! v = 0} =
          insert ?t {v. v < ?n \<and> v \<notin> D \<and> v \<noteq> u \<and> ?dg ! v = 0}"
        using t tD len(2) by (auto simp: s1 nth_list_update)
      with True old ready show ?thesis by (simp add: s1)
    next
      case False
      then have "{v. v < ?n \<and> v \<notin> D \<and> v \<noteq> u \<and> ks_indegree s1 ! v = 0} =
          {v. v < ?n \<and> v \<notin> D \<and> v \<noteq> u \<and> ?dg ! v = 0}"
        using old t(1) len(2) by (auto simp: s1 nth_list_update split: if_splits)
      with False ready show ?thesis by (simp add: s1)
    qed
    moreover have "1 \<le> edge_span ((!) (ks_levels s1)) (?es ! k')" if "taken P D u (Suc k) k'" for k'
    proof (cases "k' = k")
      case True
      then show ?thesis using t len(1) k(2) c(1) by (simp add: edge_span_def s1)
    next
      case False
      with that have old: "taken P D u k k'" by (simp add: taken)
      with span have "1 \<le> edge_span ((!) ?lv) (?es ! k')" by blast
      moreover have "re_from (?es ! k') \<noteq> ?t" using old tD t(3) by (auto simp: taken_def)
      ultimately show ?thesis using t(1) len(1) by (auto simp: edge_span_def s1 nth_list_update)
    qed
    moreover have "ks_levels s1 ! v \<le> r v" if "nonneg_feasible ?es r" "v < ?n" for r v
    proof -
      have "1 \<le> edge_span r (?es ! k)" using that(1) e by (simp add: nonneg_feasible_def feasible_def)
      then have "r u + 1 \<le> r ?t" using k(2) by (simp add: edge_span_def)
      moreover have "?lv ! u \<le> r u" "?lv ! v \<le> r v" "?lv ! ?t \<le> r ?t" using least that t by blast+
      ultimately show ?thesis using that(2) t(1) len(1) c(1) by (cases "v = ?t") (auto simp: s1)
    qed
    moreover have "0 \<le> ks_levels s1 ! v" if "v < ?n" for v
      using low that t(1) len(1) by (cases "v = ?t") (auto simp: s1)
    moreover have "all64 (ks_levels s1)" using len(3) c(2) t(1) len(1) by (auto simp: s1 max_def intro: all64_update all64_nth)
    moreover have "heap_ok (\<le>) (ks_ready s1)" using len(4) heap_push_ok by (simp add: s1)
    ultimately show ?thesis
      unfolding kahn_inv_def using len closed new_dg by (simp add: s1)
  qed
  show ?thesis
    unfolding relax_edge_def Let_def
    by (intro yields_rules) (use inv in simp_all)
qed

section \<open>A node\<close>

text \<open>Between two nodes: the done nodes are as many as the visited ones.\<close>

definition kahn_done :: "rank_problem \<Rightarrow> nat set \<Rightarrow> kahn_state \<Rightarrow> bool" where
  "kahn_done P D s \<longleftrightarrow> kahn_inv P D (length (rp_nodes P)) 0 s \<and> D \<subseteq> {..<length (rp_nodes P)} \<and> ks_visited s = card D"

lemma csr_edge:
  assumes "csr_ok P" "k < length (rp_edges P)"
  shows "re_from (rp_edges P ! k) < length (rp_nodes P)" "re_to (rp_edges P ! k) < length (rp_nodes P)"
    "re_from (rp_edges P ! k) \<noteq> re_to (rp_edges P ! k)"
  using assms nth_mem [OF assms(2)] by (auto simp: csr_ok_def)

lemma csr_range:
  assumes "csr_ok P" "u < length (rp_nodes P)"
  shows "outgoingStart P ! u \<le> k \<and> k < outgoingStart P ! (u + 1) \<longleftrightarrow> k < length (rp_edges P) \<and> re_from (rp_edges P ! k) = u"
  using assms by (simp add: csr_ok_def)

lemma csr_before:
  assumes "csr_ok P" "u < length (rp_nodes P)" "k < length (rp_edges P)" "re_from (rp_edges P ! k) = u"
  shows "\<not> k < outgoingStart P ! u" "k < max (outgoingStart P ! u) (outgoingStart P ! (u + 1))"
  using csr_range [OF assms(1,2), of k] assms(3,4) by auto

lemma kahn_pop:
  assumes P: "csr_ok P" and I: "kahn_done P D s" and pop: "heap_ok (\<le>) h" "mset (ks_ready s) = add_mset u (mset h)"
  shows "u < length (rp_nodes P) \<and> u \<notin> D \<and>
    kahn_inv P D u (outgoingStart P ! u) (s\<lparr>ks_ready := h, ks_visited := ks_visited s + 1\<rparr>)"
proof -
  let ?n = "length (rp_nodes P)" and ?es = "rp_edges P" and ?o = "outgoingStart P ! u"
  let ?R = "{v. v < ?n \<and> v \<notin> D \<and> v \<noteq> ?n \<and> ks_indegree s ! v = 0}"
  have inv: "kahn_inv P D ?n 0 s" using I by (simp add: kahn_done_def)
  then have ready: "mset (ks_ready s) = mset_set ?R"
    and dg: "\<forall>v < ?n. ks_indegree s ! v = int (card (waiting P D ?n 0 v))"
    and closed: "\<forall>k < length ?es. re_to (?es ! k) \<in> insert ?n D \<longrightarrow> re_from (?es ! k) \<in> D"
    by (simp_all add: kahn_inv_def)
  have "u \<in># mset_set ?R" using ready pop(2) by (metis union_single_eq_member)
  then have u: "u < ?n" "u \<notin> D" "ks_indegree s ! u = 0" by simp_all
  have waiting: "waiting P D u ?o v = waiting P D ?n 0 v" for v
    using csr_before [OF P u(1)] by (auto simp: waiting_def)
  have taken: "taken P D u ?o k \<longleftrightarrow> taken P D ?n 0 k" for k
    using csr_before [OF P u(1)] by (auto simp: taken_def)
  have "waiting P D ?n 0 u = {}" using dg u(1,3) finite_waiting by simp
  then have "re_from (?es ! k) \<in> D" if "k < length ?es" "re_to (?es ! k) \<in> insert u D" for k
    using that closed by (auto simp: waiting_def)
  moreover have "mset h = mset_set {v. v < ?n \<and> v \<notin> D \<and> v \<noteq> u \<and> ks_indegree s ! v = 0}"
  proof -
    have "mset h = mset (ks_ready s) - {#u#}" using pop(2) by simp
    also have "\<dots> = mset_set ?R - {#u#}" unfolding ready ..
    also have "\<dots> = mset_set (?R - {u})" using \<open>u \<in># mset_set ?R\<close> by (simp add: mset_set_Diff)
    also have "?R - {u} = {v. v < ?n \<and> v \<notin> D \<and> v \<noteq> u \<and> ks_indegree s ! v = 0}" by auto
    finally show ?thesis .
  qed
  ultimately show ?thesis
    using inv u(1,2) pop(1) unfolding kahn_inv_def waiting taken by simp
qed

lemma kahn_close:
  assumes P: "csr_ok P" and u: "u < length (rp_nodes P)" "u \<notin> D" and D: "D \<subseteq> {..<length (rp_nodes P)}"
    and I: "kahn_inv P D u b s" "ks_visited s = card D + 1"
    and all: "\<And>k. k < length (rp_edges P) \<Longrightarrow> re_from (rp_edges P ! k) = u \<Longrightarrow> k < b"
  shows "kahn_done P (insert u D) s"
proof -
  let ?n = "length (rp_nodes P)" and ?es = "rp_edges P"
  have waiting: "waiting P (insert u D) ?n 0 v = waiting P D u b v" for v
    using all by (auto simp: waiting_def)
  have taken: "taken P (insert u D) ?n 0 k \<longleftrightarrow> taken P D u b k" for k
    using all by (auto simp: taken_def)
  have "\<forall>k < length ?es. re_to (?es ! k) \<in> insert ?n (insert u D) \<longrightarrow> re_from (?es ! k) \<in> insert u D"
    using I(1) csr_edge(2) [OF P] by (fastforce simp: kahn_inv_def)
  moreover have "{v. v < ?n \<and> v \<notin> insert u D \<and> v \<noteq> ?n \<and> ks_indegree s ! v = 0} =
      {v. v < ?n \<and> v \<notin> D \<and> v \<noteq> u \<and> ks_indegree s ! v = 0}" by auto
  moreover have "?n \<notin> insert u D" using u(1) D by auto
  ultimately have "kahn_inv P (insert u D) ?n 0 s"
    using I(1) unfolding kahn_inv_def waiting taken by (elim conjE, intro conjI) (assumption | simp only:)+
  moreover have "finite D" using D finite_subset by blast
  ultimately show ?thesis using u D I(2) by (simp add: kahn_done_def)
qed

lemma kahn_turn:
  assumes P: "csr_ok P" and I: "kahn_done P D s"
  shows "yields (kahn_step P s) (\<lambda>s1. \<exists>D. kahn_done P D s1)"
proof (cases "ks_ready s = []")
  case True
  then show ?thesis by (simp add: kahn_step_def heap_pop_def yields_def charge_def tfail_def split: sum.split)
next
  case False
  have heap: "heap_ok (\<le>) (ks_ready s)" using I by (simp add: kahn_done_def kahn_inv_def)
  obtain u h where pop: "heap_pop (ks_ready s) = Some (u, h)" "heap_ok (\<le>) h" "mset (ks_ready s) = add_mset u (mset h)"
    using heap_pop_spec [OF heap False] by blast
  let ?s = "s\<lparr>ks_ready := h, ks_visited := ks_visited s + 1\<rparr>"
  let ?a = "outgoingStart P ! u" and ?b = "outgoingStart P ! (u + 1)"
  have u: "u < length (rp_nodes P)" "u \<notin> D" "kahn_inv P D u ?a ?s"
    using kahn_pop [OF P I pop(2,3)] by blast+
  have edges: "yields (tfold (relax_edge P u) [?a..<?b] ?s) (\<lambda>s1. kahn_inv P D u (?a + length [?a..<?b]) s1 \<and> ks_visited s1 = card D + 1)"
  proof (rule yields_tfold_gen [where I = "\<lambda>pre s1. kahn_inv P D u (?a + length pre) s1 \<and> ks_visited s1 = card D + 1"])
    fix pre k rest s1
    assume eq: "[?a..<?b] = pre @ k # rest" and J: "kahn_inv P D u (?a + length pre) s1 \<and> ks_visited s1 = card D + 1"
    have "?a + length pre < ?b" using arg_cong [OF eq, of length] by simp
    moreover have k: "k = ?a + length pre"
      using arg_cong [OF eq, of "\<lambda>l. l ! length pre"] calculation by (simp add: nth_append)
    ultimately have "k < length (rp_edges P)" "re_from (rp_edges P ! k) = u"
      using csr_range [OF P u(1), of k] by simp_all
    from relax_inv [OF P _ this, of D s1] J k
    show "yields (relax_edge P u k s1) (\<lambda>s1. kahn_inv P D u (?a + length (pre @ [k])) s1 \<and> ks_visited s1 = card D + 1)"
      by simp
  qed (use u(3) I in \<open>simp add: kahn_done_def\<close>)
  have last: "kahn_done P (insert u D) s1"
    if J: "kahn_inv P D u (?a + length [?a..<?b]) s1 \<and> ks_visited s1 = card D + 1" for s1
  proof (rule kahn_close [OF P u(1,2)])
    show "D \<subseteq> {..<length (rp_nodes P)}" using I by (simp add: kahn_done_def)
    show "k < ?a + length [?a..<?b]" if "k < length (rp_edges P)" "re_from (rp_edges P ! k) = u" for k
      using csr_range [OF P u(1), of k] that by simp
  qed (use J in blast)+
  show ?thesis
    unfolding kahn_step_def pop(1) option.case prod.case
    by (intro yields_charge yields_get_at yields_weaken [OF edges]) (use last in blast)
qed

section \<open>The whole search\<close>

lemma count_indegrees_yields:
  "yields (count_indegrees P) (\<lambda>deg. length deg = length (rp_nodes P) \<and>
    (\<forall>v < length (rp_nodes P). deg ! v = int (card {k. k < length (rp_edges P) \<and> re_to (rp_edges P ! k) = v})))"
proof -
  let ?n = "length (rp_nodes P)" and ?es = "rp_edges P"
  let ?I = "\<lambda>pre deg. length deg = ?n \<and>
    (\<forall>v < ?n. deg ! v = int (card {k. k < length pre \<and> re_to (pre ! k) = v}))"
  have snoc: "card {k. k < length (pre @ [e]) \<and> re_to ((pre @ [e]) ! k) = v} =
      (if re_to e = v then 1 else 0) + card {k. k < length pre \<and> re_to (pre ! k) = v}" for pre e v
  proof -
    have "{k. k < length (pre @ [e]) \<and> re_to ((pre @ [e]) ! k) = v} =
        (if re_to e = v then insert (length pre) {k. k < length pre \<and> re_to (pre ! k) = v}
         else {k. k < length pre \<and> re_to (pre ! k) = v})"
      by (auto simp: nth_append less_Suc_eq split: if_splits)
    then show ?thesis by simp
  qed
  show ?thesis
    unfolding count_indegrees_def
  proof (rule yields_tfold_gen [where I = ?I])
    fix pre e rest deg assume I: "?I pre deg"
    have step: "?I (pre @ [e]) (deg[re_to e := deg ! re_to e + 1])" if "re_to e < length deg"
      unfolding snoc using I that by (auto simp: nth_list_update)
    show "yields (stepping (get_at deg (re_to e) (\<lambda>d. put_at deg (re_to e) (d + 1) tret))) (?I (pre @ [e]))"
      by (intro yields_charge yields_get_at yields_put_at yields_ret step)
  qed simp
qed

lemma first_ready_yields:
  "yields (first_ready deg) (\<lambda>ready. heap_ok (\<le>) ready \<and> mset ready = mset_set {v. v < length deg \<and> deg ! v = 0})"
  unfolding first_ready_def
proof (rule yields_tfold_upt [where I = "\<lambda>n ready. heap_ok (\<le>) ready \<and> mset ready = mset_set {v. v < n \<and> deg ! v = 0}"])
  fix n ready assume I: "heap_ok (\<le>) ready \<and> mset ready = mset_set {v. v < n \<and> deg ! v = 0}"
  have "{v. v < Suc n \<and> deg ! v = 0} =
      (if deg ! n = 0 then insert n {v. v < n \<and> deg ! v = 0} else {v. v < n \<and> deg ! v = 0})"
    by (auto simp: less_Suc_eq)
  then show "yields (stepping (if deg ! n = 0 then stepping (tret (heap_push n ready)) else tret ready))
    (\<lambda>ready. heap_ok (\<le>) ready \<and> mset ready = mset_set {v. v < Suc n \<and> deg ! v = 0})"
    by (intro yields_rules) (use I heap_push_ok in simp_all)
qed (simp add: heap_ok_def)

lemma kahn_start:
  assumes "length deg = length (rp_nodes P)"
    and "\<forall>v < length (rp_nodes P). deg ! v = int (card {k. k < length (rp_edges P) \<and> re_to (rp_edges P ! k) = v})"
    and "heap_ok (\<le>) ready" "mset ready = mset_set {v. v < length deg \<and> deg ! v = 0}" and P: "csr_ok P"
  shows "kahn_done P {} \<lparr>ks_ready = ready, ks_levels = replicate (length (rp_nodes P)) 0, ks_indegree = deg, ks_visited = 0\<rparr>"
proof -
  let ?n = "length (rp_nodes P)"
  have "waiting P {} ?n 0 v = {k. k < length (rp_edges P) \<and> re_to (rp_edges P ! k) = v}" for v
    by (auto simp: waiting_def)
  moreover have "{v. v < ?n \<and> v \<notin> {} \<and> v \<noteq> ?n \<and> deg ! v = 0} = {v. v < length deg \<and> deg ! v = 0}"
    using assms(1) by auto
  moreover have "\<not> taken P {} ?n 0 k" for k by (simp add: taken_def)
  moreover have "re_to (rp_edges P ! k) \<noteq> ?n" if "k < length (rp_edges P)" for k
    using csr_edge(2) [OF P that] by simp
  ultimately show ?thesis
    using assms(1-4) by (auto simp: kahn_done_def kahn_inv_def nonneg_feasible_def)
qed

text \<open>When no node is ready, either all are done or no ranking exists.\<close>

lemma kahn_stuck:
  assumes P: "csr_ok P" and I: "kahn_done P D s" "ks_ready s = []" and f: "feasible (rp_edges P) r"
  shows "D = {..<length (rp_nodes P)}"
proof (rule ccontr)
  let ?n = "length (rp_nodes P)" and ?es = "rp_edges P"
  let ?rest = "{..<?n} - D"
  assume "D \<noteq> {..<?n}"
  then have "?rest \<noteq> {}" "finite ?rest" using I(1) by (auto simp: kahn_done_def)
  then obtain v where v: "v \<in> ?rest" "\<forall>w \<in> ?rest. r v \<le> r w"
    by (metis (mono_tags, lifting) arg_min_if_finite(1) arg_min_least)
  have inv: "kahn_inv P D ?n 0 s" using I(1) by (simp add: kahn_done_def)
  then have "{v. v < ?n \<and> v \<notin> D \<and> v \<noteq> ?n \<and> ks_indegree s ! v = 0} = {}"
    using I(2) by (auto simp: kahn_inv_def mset_set_empty_iff)
  then have "ks_indegree s ! v \<noteq> 0" using v(1) by auto
  moreover have "ks_indegree s ! v = int (card (waiting P D ?n 0 v))"
    using inv v(1) unfolding kahn_inv_def by blast
  ultimately obtain k where k: "k \<in> waiting P D ?n 0 v" by fastforce
  then have k': "k < length ?es" "re_to (?es ! k) = v" "re_from (?es ! k) \<notin> D" by (auto simp: waiting_def)
  then have "re_from (?es ! k) \<in> ?rest" using csr_edge(1) [OF P k'(1)] by simp
  then have "r v \<le> r (re_from (?es ! k))" using v(2) by blast
  moreover have "1 \<le> edge_span r (?es ! k)" using f k'(1) by (auto simp: feasible_def)
  ultimately show False using k'(2) by (simp add: edge_span_def)
qed

lemma kahn_all:
  assumes P: "csr_ok P" and I: "kahn_done P D s" "D = {..<length (rp_nodes P)}"
  shows "feasible (rp_edges P) ((!) (ks_levels s)) \<and>
    (\<forall>v < length (rp_nodes P). 0 \<le> ks_levels s ! v) \<and>
    (\<forall>r. nonneg_feasible (rp_edges P) r \<longrightarrow> (\<forall>v < length (rp_nodes P). ks_levels s ! v \<le> r v))"
proof -
  have "taken P D (length (rp_nodes P)) 0 k" if "k < length (rp_edges P)" for k
    using that csr_edge(1) [OF P that] I(2) by (simp add: taken_def)
  then have "1 \<le> edge_span ((!) (ks_levels s)) e" if "e \<in> set (rp_edges P)" for e
    using I(1) that by (auto simp: kahn_done_def kahn_inv_def in_set_conv_nth)
  then show ?thesis using I(1) by (auto simp: feasible_def kahn_done_def kahn_inv_def)
qed

section \<open>The edges by their tails\<close>

lemma yields_conj: "yields m P \<Longrightarrow> yields m Q \<Longrightarrow> yields m (\<lambda>x. P x \<and> Q x)"
  by (simp add: yields_def)

lemma sorted_filter_less:
  fixes xs :: "nat list"
  shows "sorted xs \<Longrightarrow> k < length (filter (\<lambda>x. x < v) xs) \<longleftrightarrow> k < length xs \<and> xs ! k < v"
proof (induction xs arbitrary: k)
  case (Cons x xs)
  show ?case
  proof (cases "x < v")
    case True
    with Cons show ?thesis by (cases k) auto
  next
    case False
    with Cons.prems have none: "\<forall>y \<in> set (x # xs). \<not> y < v" by auto
    then have "filter (\<lambda>x. x < v) (x # xs) = []" by (simp add: filter_empty_conv)
    moreover have "\<not> (x # xs) ! k < v" if "k < length (x # xs)" using none nth_mem [OF that] by blast
    ultimately show ?thesis by auto
  qed
qed simp

definition tails_before :: "rank_edge list \<Rightarrow> nat \<Rightarrow> nat" where
  "tails_before es v = length (filter (\<lambda>x. x < v) (map re_from es))"

definition tails_at :: "rank_edge list \<Rightarrow> nat \<Rightarrow> nat" where
  "tails_at es v = length (filter (\<lambda>x. x = v) (map re_from es))"

lemma tails_Suc: "tails_before es (Suc v) = tails_before es v + tails_at es v"
  by (induction es) (auto simp: tails_before_def tails_at_def)

lemma tails_0: "tails_before es 0 = 0"
  by (simp add: tails_before_def)

lemma tails_range:
  assumes "sorted (map re_from es)"
  shows "tails_before es u \<le> k \<and> k < tails_before es (Suc u) \<longleftrightarrow> k < length es \<and> re_from (es ! k) = u"
proof -
  have "k < tails_before es v \<longleftrightarrow> k < length es \<and> re_from (es ! k) < v" for v
    using sorted_filter_less [OF assms, of k v] by (auto simp: tails_before_def)
  from this [of u] this [of "Suc u"] show ?thesis by auto
qed

lemma problem_edges_tails:
  "yields (problem_edges g n es) (\<lambda>(res, outgoing). length outgoing = n + 1 \<and> outgoing ! 0 = 0 \<and>
    (\<forall>v < n. outgoing ! (v + 1) = tails_at (map (edge_of g) es) v))"
  unfolding problem_edges_def
proof (rule yields_tfold_gen [where I = "\<lambda>pre (res, outgoing). length outgoing = n + 1 \<and> outgoing ! 0 = 0 \<and>
    (\<forall>v < n. outgoing ! (v + 1) = tails_at (map (edge_of g) pre) v)"])
  fix pre e rest s
  assume I: "case s of (res :: rank_edge list, outgoing :: nat list) \<Rightarrow> length outgoing = n + 1 \<and> outgoing ! 0 = 0 \<and>
    (\<forall>v < n. outgoing ! (v + 1) = tails_at (map (edge_of g) pre) v)"
  have snoc: "tails_at (map (edge_of g) pre @ [edge_of g (a, i, j)]) v =
      tails_at (map (edge_of g) pre) v + (if i = v then 1 else 0)" for a i j v
    by (simp add: tails_at_def edge_of_def)
  show "yields ((case e of (a, i, j) \<Rightarrow> \<lambda>(es, outgoing).
      stepping (get_at outgoing (i + 1) (\<lambda>c. put_at outgoing (i + 1) (c + 1) (\<lambda>outgoing1.
        tret (es @ [\<lparr>re_from = i, re_to = j, re_weight = HierarchyRankWeight (lg_edge g a),
          re_id = ge_ID (lg_edge g a)\<rparr>], outgoing1))))) s)
    (\<lambda>(res, outgoing). length outgoing = n + 1 \<and> outgoing ! 0 = 0 \<and>
    (\<forall>v < n. outgoing ! (v + 1) = tails_at (map (edge_of g) (pre @ [e])) v))"
    by (intro yields_rules) (use I in \<open>auto simp: snoc nth_list_update\<close>)
qed (auto simp: tails_at_def nth_Cons')

lemma prefix_sums_tails:
  assumes "length out = n + 1" "out ! 0 = 0" "\<forall>v < n. out ! (v + 1) = tails_at es v"
  shows "yields (prefix_sums n out) (\<lambda>out. length out = n + 1 \<and> (\<forall>v \<le> n. out ! v = tails_before es v))"
proof -
  let ?I = "\<lambda>m out. length out = n + 1 \<and> (\<forall>v \<le> n. out ! v = (if v \<le> m then tails_before es v else tails_at es (v - 1)))"
  have "yields (prefix_sums n out) (?I n)"
    unfolding prefix_sums_def
  proof (rule yields_tfold_upt [where I = ?I])
    fix node out assume n: "node < n" and I: "?I node out"
    have "?I (Suc node) (out[node + 1 := out ! (node + 1) + out ! node])"
    proof (intro conjI allI impI)
      fix v assume "v \<le> n"
      then show "out[node + 1 := out ! (node + 1) + out ! node] ! v =
          (if v \<le> Suc node then tails_before es v else tails_at es (v - 1))"
        using I n by (cases "v = node + 1") (auto simp: tails_Suc)
    qed (use I in simp)
    then show "yields (stepping (get_at out node (\<lambda>x. get_at out (node + 1) (\<lambda>y.
      put_at out (node + 1) (y + x) tret)))) (?I (Suc node))"
      by (intro yields_charge yields_get_at yields_put_at yields_ret)
  next
    show "?I 0 out"
    proof (intro conjI allI impI)
      fix v assume "v \<le> n"
      then show "out ! v = (if v \<le> 0 then tails_before es v else tails_at es (v - 1))"
        using assms by (cases v) (auto simp: tails_0)
    qed (use assms in simp)
  qed
  then show ?thesis by (rule yields_weaken) simp
qed

lemma check_edges_distinct:
  "yields (tfold (check_edge g idx) ps \<lparr>es_edges = [], seenEdges = [], seenEdgeIDs = [], seenEndpoints = []\<rparr>)
    (\<lambda>s. \<forall>(a, i, j) \<in> set (es_edges s). i \<noteq> j)"
proof (rule yields_tfold)
  fix p and s :: edge_state assume "\<forall>(a, i, j) \<in> set (es_edges s). i \<noteq> j"
  then show "yields (check_edge g idx p s) (\<lambda>s. \<forall>(a, i, j) \<in> set (es_edges s). i \<noteq> j)"
    unfolding check_edge_def by (intro yields_rules) auto
qed simp

lemma sort_tails: "sorted (map re_from (map (edge_of g) (sort_key (\<lambda>(a, i, j). (i, j, ge_ID (lg_edge g a))) es)))"
proof -
  let ?k = "\<lambda>(a, i, j). (i, j, ge_ID (lg_edge g a))"
  have "sorted_wrt (\<lambda>x y. ?k x \<le> ?k y) (sort_key ?k es)" by (metis sorted_map sorted_sort_key)
  then have "sorted_wrt (\<lambda>x y. re_from (edge_of g x) \<le> re_from (edge_of g y)) (sort_key ?k es)"
    by (rule sorted_wrt_mono_rel [rotated]) (auto simp: edge_of_def)
  then show ?thesis by (simp add: sorted_wrt_map sorted_map)
qed

lemma newRankProblem_csr: "yields (newRankProblem (Some g)) csr_ok"
proof -
  have any: "yields m (\<lambda>x. True)" for m :: "'a tala"
    by (simp add: yields_def)
  have finish: "csr_ok \<lparr>rp_nodes = nodes, rp_edges = res, outgoingStart = out, pivotOrder = piv\<rparr>"
    if "map Some nodes = sorted \<and> index_ok nodes idx"
      "(\<forall>nodes. index_ok nodes idx \<longrightarrow> (\<forall>e \<in> set es. edge_ok g nodes e)) \<and> (\<forall>(a, i, j) \<in> set es. i \<noteq> j)"
      "res = map (edge_of g) (sort_key (\<lambda>(a, i, j). (i, j, ge_ID (lg_edge g a))) es)"
      "length out = length nodes + 1 \<and> (\<forall>v \<le> length nodes. out ! v = tails_before res v)"
    for nodes sorted idx es res out piv
  proof -
    have "re_from e < length nodes \<and> re_to e < length nodes \<and> re_from e \<noteq> re_to e" if "e \<in> set res" for e
      using that \<open>map Some nodes = sorted \<and> index_ok nodes idx\<close>
        \<open>(\<forall>nodes. index_ok nodes idx \<longrightarrow> (\<forall>e \<in> set es. edge_ok g nodes e)) \<and> (\<forall>(a, i, j) \<in> set es. i \<noteq> j)\<close>
        \<open>res = map (edge_of g) (sort_key (\<lambda>(a, i, j). (i, j, ge_ID (lg_edge g a))) es)\<close>
      by (fastforce simp: edge_of_def edge_ok_def)
    moreover have "out ! u \<le> k \<and> k < out ! (u + 1) \<longleftrightarrow> k < length res \<and> re_from (res ! k) = u" if "u < length nodes" for u k
      using tails_range [of res u k] sort_tails [of g es] that \<open>res = _\<close> \<open>length out = _ \<and> _\<close> by simp
    ultimately show ?thesis using that(4) by (simp add: csr_ok_def)
  qed
  show ?thesis
    unfolding newRankProblem_def option.case Let_def
    by (rule yields_ensure, rule yields_ensure, rule yields_charge, rule yields_bind [OF index_nodes_yields],
      rule yields_case_prod, rule yields_bind [OF yields_conj [OF check_edges_yields check_edges_distinct]], rule yields_charge,
      rule yields_bind [OF any], rule yields_bind [OF any], rule yields_bind [OF any],
      rule yields_bind [OF yields_conj [OF problem_edges_yields problem_edges_tails]], rule yields_case_prod,
      rule yields_bind [OF prefix_sums_tails], blast, blast, blast,
      rule yields_bind [OF any], rule yields_charge, rule yields_ret)
      (rule finish, auto)
qed

section \<open>The verdict on cycles\<close>

definition fails_only :: "tala_error \<Rightarrow> 'a tala \<Rightarrow> bool \<Rightarrow> bool" where
  "fails_only e m Q \<longleftrightarrow> (\<forall>g. m g = Inl e \<longrightarrow> Q)"

lemma fails_only_bind:
  "avoids e m \<Longrightarrow> yields m I \<Longrightarrow> (\<And>x. I x \<Longrightarrow> fails_only e (f x) Q) \<Longrightarrow> fails_only e (tbind m f) Q"
  unfolding fails_only_def avoids_def yields_def tbind_def by (fastforce split: sum.splits)

lemma fails_only_first: "fails_only e m Q \<Longrightarrow> (\<And>x. avoids e (f x)) \<Longrightarrow> fails_only e (tbind m f) Q"
  unfolding fails_only_def avoids_def tbind_def by (fastforce split: sum.splits)

lemma avoids_only: "avoids e m \<Longrightarrow> fails_only e m Q"
  by (simp add: avoids_def fails_only_def)

lemma avoids_parts:
  "avoids cycle_error (count_indegrees P)" "avoids cycle_error (first_ready deg)"
  "avoids cycle_error (kahn_step P s)"
  unfolding count_indegrees_def first_ready_def kahn_step_def relax_edge_def
  by (intro avoids_rules; simp)+

lemma kahn_loop:
  assumes P: "csr_ok P"
    and deg: "length deg = length (rp_nodes P) \<and>
      (\<forall>v < length (rp_nodes P). deg ! v = int (card {k. k < length (rp_edges P) \<and> re_to (rp_edges P ! k) = v}))"
    and ready: "heap_ok (\<le>) ready \<and> mset ready = mset_set {v. v < length deg \<and> deg ! v = 0}"
  shows "yields (twhile (\<lambda>s. ks_ready s \<noteq> []) (kahn_step P)
      \<lparr>ks_ready = ready, ks_levels = replicate (length (rp_nodes P)) 0, ks_indegree = deg, ks_visited = 0\<rparr>)
    (\<lambda>s. (\<exists>D. kahn_done P D s) \<and> \<not> ks_ready s \<noteq> [])"
  by (rule yields_twhile) (use kahn_turn [OF P] kahn_start [of deg P ready] deg ready P in blast)+

text \<open>The first levels are the least that are not negative.\<close>

lemma longestPathLevels_least:
  assumes P: "csr_ok P"
  shows "yields (longestPathLevels P) (\<lambda>levels. feasible (rp_edges P) ((!) levels) \<and> (\<forall>v < length (rp_nodes P). 0 \<le> levels ! v) \<and>
    (\<forall>r. nonneg_feasible (rp_edges P) r \<longrightarrow> (\<forall>v < length (rp_nodes P). levels ! v \<le> r v)))"
proof -
  have all: "D = {..<length (rp_nodes P)}" if "kahn_done P D s" "ks_visited s = length (rp_nodes P)" for D s
    proof (rule card_subset_eq)
    show "D \<subseteq> {..<length (rp_nodes P)}" using that(1) by (simp add: kahn_done_def)
    show "card D = card {..<length (rp_nodes P)}" using that by (simp add: kahn_done_def)
  qed simp
  have fin: "yields (if ks_visited s = length (rp_nodes P) then tret (ks_levels s)
      else tfail (Rejected ''input graph contains a directed cycle'' []))
    (\<lambda>levels. feasible (rp_edges P) ((!) levels) \<and> (\<forall>v < length (rp_nodes P). 0 \<le> levels ! v) \<and>
      (\<forall>r. nonneg_feasible (rp_edges P) r \<longrightarrow> (\<forall>v < length (rp_nodes P). levels ! v \<le> r v)))"
    if "(\<exists>D. kahn_done P D s) \<and> \<not> ks_ready s \<noteq> []" for s
  proof (rule yields_if)
    assume v: "ks_visited s = length (rp_nodes P)"
    from that obtain D where D: "kahn_done P D s" by blast
    show "yields (tret (ks_levels s)) (\<lambda>levels. feasible (rp_edges P) ((!) levels) \<and> (\<forall>v < length (rp_nodes P). 0 \<le> levels ! v) \<and>
      (\<forall>r. nonneg_feasible (rp_edges P) r \<longrightarrow> (\<forall>v < length (rp_nodes P). levels ! v \<le> r v)))"
      using kahn_all [OF P D all [OF D v]] by (intro yields_ret)
  qed (rule yields_fail)
  show ?thesis
    unfolding longestPathLevels_def
    by (rule yields_bind [OF count_indegrees_yields], rule yields_bind [OF first_ready_yields],
      rule yields_bind [OF kahn_loop [OF P]], assumption, assumption, rule fin)
qed

text \<open>It is called cyclic only if it has no ranking.\<close>

lemma longestPathLevels_cycle:
  assumes P: "csr_ok P"
  shows "fails_only cycle_error (longestPathLevels P) (\<nexists>r. feasible (rp_edges P) r)"
proof -
  have stuck: "fails_only cycle_error (if ks_visited s = length (rp_nodes P) then tret (ks_levels s)
      else tfail (Rejected ''input graph contains a directed cycle'' [])) (\<nexists>r. feasible (rp_edges P) r)"
    if "(\<exists>D. kahn_done P D s) \<and> \<not> ks_ready s \<noteq> []" for s
  proof (cases "ks_visited s = length (rp_nodes P)")
    case True
    then show ?thesis by (simp add: avoids_only avoids_ret)
  next
    case False
    from that obtain D where D: "kahn_done P D s" "ks_ready s = []" by blast
    then have "D \<noteq> {..<length (rp_nodes P)}" using False by (auto simp: kahn_done_def)
    then have "\<nexists>r. feasible (rp_edges P) r" using kahn_stuck [OF P D] by blast
    then show ?thesis by (simp add: fails_only_def)
  qed
  show ?thesis
    unfolding longestPathLevels_def
    by (intro fails_only_bind [OF avoids_parts(1) count_indegrees_yields]
        fails_only_bind [OF avoids_parts(2) first_ready_yields]
        fails_only_bind [OF _ kahn_loop [OF P]] avoids_twhile avoids_parts stuck) simp_all
qed

lemma rankSpan_avoids [avoids_rules]: "(\<And>x. avoids cycle_error (K x)) \<Longrightarrow> avoids cycle_error (rankSpan e levels K)"
  unfolding rankSpan_def overflow_def by (rule avoids_rules | simp)+

lemma rankSlack_avoids [avoids_rules]: "(\<And>x. avoids cycle_error (K x)) \<Longrightarrow> avoids cycle_error (rankSlack e levels K)"
  unfolding rankSlack_def overflow_def by (rule avoids_rules | simp)+

lemma newRankSimplex_avoids [avoids_rules]: "avoids cycle_error (newRankSimplex P)"
  unfolding newRankSimplex_def count_ends_def incident_starts_def place_edge_def overflow_def
  by (rule avoids_rules | simp)+

lemma growTight_avoids [avoids_rules]: "avoids cycle_error (growTight S levels s)"
  unfolding growTight_def grow_node_def grow_edge_def join_tree_def by (rule avoids_rules | simp)+

lemma shift_levels_avoids [avoids_rules]:
  "err \<noteq> cycle_error \<Longrightarrow> avoids cycle_error (shift_levels err marked delta levels)"
  unfolding shift_levels_def by (rule avoids_rules | simp)+

lemma feasibleTree_avoids [avoids_rules]: "avoids cycle_error (feasibleTree S levels)"
  unfolding feasibleTree_def extend_tree_def find_boundary_def join_boundary_def join_tree_def overflow_def
  by (rule avoids_rules | simp)+

lemma computeCutValues_avoids [avoids_rules]: "avoids cycle_error (computeCutValues S tree)"
  unfolding computeCutValues_def walk_node_def walk_edge_def cut_node_def overflow_def
  by (rule avoids_rules | simp)+

lemma computeHeadComponent_avoids [avoids_rules]: "avoids cycle_error (computeHeadComponent S tree leaving)"
  unfolding computeHeadComponent_def head_node_def head_edge_def by (rule avoids_rules | simp)+

lemma find_leaving_avoids [avoids_rules]: "avoids cycle_error (find_leaving tree cuts ks)"
  by (induction ks) (simp_all, (rule avoids_rules | simp)+)

lemma optimize_avoids [avoids_rules]: "avoids cycle_error (optimize S levels tree)"
  unfolding optimize_def pivot_def find_entering_def overflow_def by (rule avoids_rules | simp)+

lemma certify_avoids [avoids_rules]: "avoids cycle_error (certify S levels tree)"
  unfolding certify_def certify_edge_def overflow_def by (rule avoids_rules | simp)+

lemma solve_avoids [avoids_rules]: "avoids cycle_error (solve P levels)"
  unfolding solve_def by (rule avoids_rules | simp)+

lemma makeResult_avoids [avoids_rules]: "avoids cycle_error (makeResult P levels)"
  unfolding makeResult_def weigh_edge_def overflow_def by (rule avoids_rules | simp)+

lemma search_nodes_avoids [avoids_rules]: "avoids cycle_error (search_nodes k g idx nodes seen todo n)"
proof (induction k arbitrary: seen todo n)
  case 0
  then show ?case by (simp add: avoids_ret avoids_fail)
next
  case (Suc k)
  show ?case
    unfolding search_nodes.simps visit_edge_def Let_def by (rule Suc avoids_rules | simp)+
qed

lemma newRankProblem_avoids [avoids_rules]: "avoids cycle_error (newRankProblem g)"
  unfolding newRankProblem_def index_nodes_def check_edge_def check_incident_def check_counts_def
    problem_edges_def prefix_sums_def
  by (cases g) (simp_all only: option.case Let_def, (rule avoids_rules | simp)+)

lemma rankDAG_body_cycle:
  "fails_only cycle_error (rankDAG_body (Some g)) (\<nexists>level. ranking_ok g level)"
proof -
  have none: "\<nexists>level. ranking_ok g level" if "problem_of g P" "\<nexists>r. feasible (rp_edges P) r" for P
    using problem_feasible [OF that(1), of _ _ 0] that(2) by fastforce
  show ?thesis
    unfolding rankDAG_body_def
  proof (rule fails_only_bind [OF newRankProblem_avoids yields_conj [OF newRankProblem_yields newRankProblem_csr]])
    fix P assume P: "problem_of g P \<and> csr_ok P"
    have "fails_only cycle_error (longestPathLevels P) (\<nexists>level. ranking_ok g level)"
      using longestPathLevels_cycle [of P] none [of P] P unfolding fails_only_def by blast
    note first = fails_only_first [OF this]
    show "fails_only cycle_error (if rp_nodes P = [] then charge opt_Check (tret \<lparr>nodeToLevel = Map.empty, levelCount = 0\<rparr>)
    else
      tbind (longestPathLevels P) (\<lambda>initialLevels.
      if rp_edges P = [] then
        charge opt_Check (tret \<lparr>nodeToLevel = [hd (rp_nodes P) \<mapsto> 0], levelCount = 1\<rparr>)
      else
        tbind (solve P initialLevels) (\<lambda>(levels, dualValue).
        tbind (makeResult P levels) (\<lambda>(result, primalValue).
        if primalValue \<noteq> dualValue then
          tfail (Violated ''optimality certificate failed'' [primalValue, dualValue])
        else charge opt_Check (tret result))))) (\<nexists>level. ranking_ok g level)"
    proof (cases "rp_nodes P = []")
      case True
      then show ?thesis by (simp add: avoids_only avoids_charge avoids_ret charges_avoid)
    next
      case False
      show ?thesis unfolding if_not_P [OF False] by (rule first) (rule avoids_rules | simp)+
    qed
  qed
qed

end
