(* ===== verification/Tala_Shuffle.thy ===== *)
theory Tala_Shuffle
  imports Tala_Limits "HOL-Library.Multiset"
begin

text \<open>
  The guarded shuffle of \<^verbatim>\<open>limits/optimization.go\<close>. The generator is a parameter: its state \<open>'s\<close> and what
  \<^verbatim>\<open>Uint32\<close> and \<^verbatim>\<open>Int63n\<close> draw from it.
\<close>

section \<open>Drawing an index\<close>

definition draw_product :: "32 word \<Rightarrow> 32 word \<Rightarrow> 64 word" where
  "draw_product n v = ucast v * scast n"

definition draw_low :: "32 word \<Rightarrow> 32 word \<Rightarrow> 32 word" where
  "draw_low n v = ucast (draw_product n v)"

definition draw_index :: "32 word \<Rightarrow> 32 word \<Rightarrow> 32 word" where
  "draw_index n v = ucast (drop_bit 32 (draw_product n v))"

definition draw_threshold :: "32 word \<Rightarrow> 32 word" where
  "draw_threshold n = (- n) mod n"

text \<open>The rejection loop; it gives the last word drawn. Each turn costs a unit.\<close>

function (sequential) draw_loop ::
  "('s \<Rightarrow> 32 word \<times> 's) \<Rightarrow> 32 word \<Rightarrow> 32 word \<Rightarrow> 's \<Rightarrow> opt_guard \<Rightarrow> tala_error + (32 word \<times> 's \<times> opt_guard)" where
  "draw_loop uint32 n v s g =
    (if \<not> draw_low n v < draw_threshold n then Inr (v, s, g)
     else (case opt_Step g of
             Inl e \<Rightarrow> Inl e
           | Inr g1 \<Rightarrow> draw_loop uint32 n (fst (uint32 s)) (snd (uint32 s)) g1))"
  by pat_completeness auto
termination
  by (relation "measure (\<lambda>(uint32, n, v, s, g). og_limit g - og_used g)") (auto dest: opt_Step_used)

declare draw_loop.simps [simp del]

definition shuffleIndex ::
  "('s \<Rightarrow> 32 word \<times> 's) \<Rightarrow> 32 word \<Rightarrow> 's \<Rightarrow> opt_guard \<Rightarrow> tala_error + (32 word \<times> 's \<times> opt_guard)" where
  "shuffleIndex uint32 n s g =
    (case opt_Step g of
       Inl e \<Rightarrow> Inl e
     | Inr g1 \<Rightarrow>
         (let v = fst (uint32 s); s1 = snd (uint32 s)
          in if draw_low n v < n then
               (case draw_loop uint32 n v s1 g1 of
                  Inl e \<Rightarrow> Inl e
                | Inr (w, s2, g2) \<Rightarrow> Inr (draw_index n w, s2, g2))
             else Inr (draw_index n v, s1, g1)))"

section \<open>The shuffle\<close>

definition swap_at :: "nat \<Rightarrow> nat \<Rightarrow> 'a list \<Rightarrow> 'a list" where
  "swap_at i j xs = xs[i := xs ! j, j := xs ! i]"

text \<open>Both loops count \<open>i\<close> down; indices of 31 bits come from \<^verbatim>\<open>shuffleIndex\<close>.\<close>

primrec shuffle_from ::
  "('s \<Rightarrow> 32 word \<times> 's) \<Rightarrow> (int \<Rightarrow> 's \<Rightarrow> int \<times> 's) \<Rightarrow> nat \<Rightarrow> 'a list \<Rightarrow> 's \<Rightarrow> opt_guard \<Rightarrow>
   tala_error + ('a list \<times> 's \<times> opt_guard)" where
  "shuffle_from uint32 int63n 0 xs s g = Inr (xs, s, g)"
| "shuffle_from uint32 int63n (Suc i) xs s g =
    (if Suc i > 2 ^ 31 - 1 - 1 then
       (case opt_Step g of
          Inl e \<Rightarrow> Inl e
        | Inr g1 \<Rightarrow>
            (case int63n (int (Suc i + 1)) s of
               (j, s1) \<Rightarrow> shuffle_from uint32 int63n i (swap_at (Suc i) (nat j) xs) s1 g1))
     else
       (case shuffleIndex uint32 (of_nat (Suc i + 1)) s g of
          Inl e \<Rightarrow> Inl e
        | Inr (j, s1, g1) \<Rightarrow> shuffle_from uint32 int63n i (swap_at (Suc i) (unat j) xs) s1 g1))"

definition Shuffle ::
  "('s \<Rightarrow> 32 word \<times> 's) \<Rightarrow> (int \<Rightarrow> 's \<Rightarrow> int \<times> 's) \<Rightarrow> 'a list \<Rightarrow> 's option \<Rightarrow> opt_guard \<Rightarrow>
   tala_error + ('a list \<times> 's \<times> opt_guard)" where
  "Shuffle uint32 int63n xs random g =
    (case random of
       None \<Rightarrow> Inl (NeedsRandom (og_location g))
     | Some s \<Rightarrow> shuffle_from uint32 int63n (length xs - 1) xs s g)"

section \<open>Draws are unbiased\<close>

text \<open>A word is accepted unless the low half of its product is below the threshold.\<close>

definition accepted :: "32 word \<Rightarrow> 32 word \<Rightarrow> bool" where
  "accepted n v \<longleftrightarrow> \<not> draw_low n v < draw_threshold n"

lemma unat_scast_pos:
  fixes n :: "32 word"
  assumes "unat n < 2 ^ 31"
  shows "unat (scast n :: 64 word) = unat n"
proof -
  have u: "uint n < 2 ^ 31" using assms unfolding unat_eq_nat_uint by (subst (asm) nat_less_iff) simp_all
  have "signed_take_bit 31 (uint n) = uint n"
    by (rule signed_take_bit_int_eq_self) (use u uint_ge_0 [of n] in linarith)+
  then have "sint n = uint n" by (simp add: sint_uint)
  then have "(scast n :: 64 word) = word_of_int (uint n)" by (metis scast_eq)
  then have "uint (scast n :: 64 word) = uint n mod 2 ^ 64" by (simp only: uint_word_of_int) simp
  also have "\<dots> = uint n"
    by (rule mod_pos_pos_trivial) (use u in \<open>simp_all only: uint_ge_0\<close>, simp)
  finally show ?thesis by (simp only: unat_eq_nat_uint)
qed

lemma v32: "unat (v :: 32 word) < 2 ^ 32"
  using unsigned_less [of v] by auto

lemma unat_draw_product:
  assumes "unat n < 2 ^ 31"
  shows "unat (draw_product n v) = unat v * unat n"
proof -
  have v: "unat v < 2 ^ 32" by (rule v32)
  then have "unat v * unat n < 2 ^ 32 * 2 ^ 31" using assms by (intro mult_strict_mono) simp_all
  then show ?thesis
    using v by (simp add: draw_product_def unat_word_ariths unat_scast_pos [OF assms] unsigned_ucast_eq take_bit_nat_eq_self)
qed

lemma unat_draw_low: "unat n < 2 ^ 31 \<Longrightarrow> unat (draw_low n v) = unat v * unat n mod 2 ^ 32"
  by (simp add: draw_low_def unsigned_ucast_eq unat_draw_product take_bit_eq_mod)

lemma unat_draw_index:
  assumes "unat n < 2 ^ 31"
  shows "unat (draw_index n v) = unat v * unat n div 2 ^ 32"
proof -
  have "unat v * unat n div 2 ^ 32 \<le> 2 ^ 32 * unat n div 2 ^ 32"
    by (rule div_le_mono, rule mult_le_mono1) (use v32 [of v] in linarith)
  also have "\<dots> = unat n" by (rule nonzero_mult_div_cancel_left) simp
  also have "unat n < 2 ^ 32" by (rule v32)
  finally show ?thesis
    unfolding draw_index_def unsigned_ucast_eq unat_drop_bit_eq unat_draw_product [OF assms]
    unfolding drop_bit_eq_div by (intro take_bit_nat_eq_self) simp
qed

lemma unat_draw_threshold:
  assumes "0 < unat n" "unat n < 2 ^ 31"
  shows "unat (draw_threshold n) = 2 ^ 32 mod unat n"
proof -
  have "unat (0 - n) = 2 ^ 32 - unat n"
    using assms(1) by (subst unat_sub_if') simp
  then have "unat (- n) = 2 ^ 32 - unat n" by simp
  moreover have "(2 ^ 32 - unat n) mod unat n = 2 ^ 32 mod unat n"
    using assms(2) by (intro le_mod_geq [symmetric]) simp
  ultimately show ?thesis by (simp add: draw_threshold_def unat_mod)
qed

lemma ceil_least:
  fixes n a v :: nat
  assumes "0 < n"
  shows "a \<le> v * n \<longleftrightarrow> (a + n - 1) div n \<le> v"
proof -
  have "(a + n - 1) div n \<le> v \<longleftrightarrow> (a + n - 1) div n < Suc v" by auto
  also have "\<dots> \<longleftrightarrow> a + n - 1 < Suc v * n" by (rule div_less_iff_less_mult [OF assms])
  also have "\<dots> \<longleftrightarrow> a \<le> v * n" using assms by auto
  finally show ?thesis by simp
qed

lemma multiples_in:
  fixes n a k :: nat
  assumes "0 < n"
  shows "card {v. a \<le> v * n \<and> v * n < a + k * n} = k"
proof -
  let ?f = "(a + n - 1) div n"
  have "(a + k * n + n - 1) div n = ?f + k"
    using assms div_mult_self1 [of n "a + n - 1" k] by (simp add: algebra_simps)
  then have "v * n < a + k * n \<longleftrightarrow> v < ?f + k" for v
    using ceil_least [OF assms, of "a + k * n" v] by (simp add: linorder_not_le [symmetric])
  then have "{v. a \<le> v * n \<and> v * n < a + k * n} = {?f ..< ?f + k}"
    using ceil_least [OF assms, of a] by auto
  then show ?thesis by simp
qed

lemma div_mod_window:
  fixes x W j k :: nat
  assumes "0 < W"
  shows "x div W = j \<and> k \<le> x mod W \<longleftrightarrow> j * W + k \<le> x \<and> x < Suc j * W"
proof
  assume r: "x div W = j \<and> k \<le> x mod W"
  then have "x = j * W + x mod W" using div_mult_mod_eq [of x W] by simp
  moreover have "x mod W < W" using assms by (rule mod_less_divisor)
  ultimately show "j * W + k \<le> x \<and> x < Suc j * W" using r by (metis add.commute add_le_cancel_left mult_Suc nat_add_left_cancel_less)
next
  assume r: "j * W + k \<le> x \<and> x < Suc j * W"
  then have "x div W = j" by (intro div_nat_eqI) (simp_all add: mult.commute)
  with r show "x div W = j \<and> k \<le> x mod W" using div_mult_mod_eq [of x W] by auto
qed

lemma draw_unbiased:
  assumes "0 < unat n" "unat n < 2 ^ 31" "j < unat n"
  shows "card {v. accepted n v \<and> unat (draw_index n v) = j} = 2 ^ 32 div unat n"
proof -
  let ?n = "unat n" and ?W = "2 ^ 32 :: nat"
  let ?a = "j * ?W + ?W mod ?n"
  have top: "?a + (?W div ?n) * ?n = Suc j * ?W" using div_mult_mod_eq [of ?W ?n] by simp
  have W: "0 < ?W" by simp
  have "accepted n v \<and> unat (draw_index n v) = j \<longleftrightarrow> ?a \<le> unat v * ?n \<and> unat v * ?n < ?a + (?W div ?n) * ?n" for v
  proof -
    have "accepted n v \<longleftrightarrow> ?W mod ?n \<le> unat v * ?n mod ?W"
      by (simp only: accepted_def word_less_nat_alt unat_draw_low [OF assms(2)] unat_draw_threshold [OF assms(1,2)] linorder_not_less)
    then show ?thesis
      unfolding top unat_draw_index [OF assms(2)] using div_mod_window [OF W, of "unat v * ?n" j "?W mod ?n"] by blast
  qed
  then have "{v. accepted n v \<and> unat (draw_index n v) = j} = {v. ?a \<le> unat v * ?n \<and> unat v * ?n < ?a + (?W div ?n) * ?n}"
    by blast
  moreover have "unat ` \<dots> = {v. ?a \<le> v * ?n \<and> v * ?n < ?a + (?W div ?n) * ?n}"
  proof (rule set_eqI, rule iffI)
    fix x assume "x \<in> {v. ?a \<le> v * ?n \<and> v * ?n < ?a + (?W div ?n) * ?n}"
    then have x: "?a \<le> x * ?n" "x * ?n < ?a + (?W div ?n) * ?n" by simp_all
    have "Suc j * ?W \<le> ?n * ?W" using assms(3) by (intro mult_le_mono1) simp
    with x(2) have "x * ?n < ?W * ?n" unfolding top by (metis less_le_trans mult.commute)
    then have "x < ?W" by (simp only: mult_less_cancel2)
    then have "unat (of_nat x :: 32 word) = x" by (simp add: unsigned_of_nat take_bit_nat_eq_self)
    with x show "x \<in> unat ` {v :: 32 word. ?a \<le> unat v * ?n \<and> unat v * ?n < ?a + (?W div ?n) * ?n}"
      by (intro image_eqI [of _ _ "of_nat x"]) (simp_all only: mem_Collect_eq)
  qed auto
  moreover have "card A = card (unat ` A)" for A :: "32 word set"
    by (rule card_image [symmetric], rule inj_onI) (simp only: word_unat_eq_iff)
  ultimately show ?thesis
    using multiples_in [OF assms(1), of ?a "?W div ?n"] by (simp only:)
qed

section \<open>Every order can come out\<close>

text \<open>A generator that deals out a list of words.\<close>

definition deal :: "32 word list \<Rightarrow> 32 word \<times> 32 word list" where
  "deal ws = (hd ws, tl ws)"

lemma accepted_word:
  assumes "0 < unat n" "unat n < 2 ^ 31" "j < unat n"
  obtains v where "accepted n v" "unat (draw_index n v) = j"
proof -
  have "0 < 2 ^ 32 div unat n" using assms(1,2) by (simp add: div_greater_zero_iff)
  with draw_unbiased [OF assms] have "{v. accepted n v \<and> unat (draw_index n v) = j} \<noteq> {}"
    by (metis card.empty less_irrefl)
  then show thesis using that by blast
qed

lemma draw_loop_accepted: "accepted n v \<Longrightarrow> draw_loop uint32 n v s g = Inr (v, s, g)"
  by (subst draw_loop.simps) (simp add: accepted_def)

lemma draw_loop_result:
  "draw_loop uint32 n v s g = Inr (w, s', g') \<Longrightarrow> accepted n w \<and> og_limit g' = og_limit g \<and> og_used g \<le> og_used g'"
proof (induction uint32 n v s g rule: draw_loop.induct)
  case (1 uint32 n v s g)
  show ?case
  proof (cases "accepted n v")
    case True
    with 1 show ?thesis by (simp add: draw_loop_accepted)
  next
    case False
    then have low: "draw_low n v < draw_threshold n" by (simp add: accepted_def)
    with 1(2) obtain g1 where g1: "opt_Step g = Inr g1"
      by (subst (asm) draw_loop.simps) (auto split: sum.splits)
    with 1(2) low have "draw_loop uint32 n (fst (uint32 s)) (snd (uint32 s)) g1 = Inr (w, s', g')"
      by (subst (asm) draw_loop.simps) simp
    from 1(1) [OF _ g1 this] low opt_Step_used [OF g1] show ?thesis by simp
  qed
qed

lemma not_low_accepted:
  assumes "0 < unat n" "unat n < 2 ^ 31" "\<not> draw_low n v < n"
  shows "accepted n v"
proof -
  have "unat (draw_threshold n) < unat n"
    by (subst unat_draw_threshold [OF assms(1,2)]) (rule mod_less_divisor [OF assms(1)])
  with assms(3) show ?thesis by (simp add: accepted_def word_less_nat_alt)
qed

lemma draw_index_less:
  assumes "0 < unat n" "unat n < 2 ^ 31"
  shows "unat (draw_index n v) < unat n"
proof -
  have "unat v * unat n < 2 ^ 32 * unat n" using v32 [of v] assms(1) by simp
  then show ?thesis
    unfolding unat_draw_index [OF assms(2)] by (intro less_mult_imp_div_less) (simp only: mult.commute)
qed

lemma shuffleIndex_result:
  assumes "shuffleIndex uint32 n s g = Inr (j, s', g')" "0 < unat n" "unat n < 2 ^ 31"
  shows "unat j < unat n \<and> og_limit g' = og_limit g \<and> og_used g < og_used g' \<and> (\<exists>v. accepted n v \<and> j = draw_index n v)"
proof -
  obtain g1 where g1: "opt_Step g = Inr g1" using assms(1) by (auto simp: shuffleIndex_def split: sum.splits)
  show ?thesis
  proof (cases "draw_low n (fst (uint32 s)) < n")
    case True
    with assms(1) g1 obtain w where w: "draw_loop uint32 n (fst (uint32 s)) (snd (uint32 s)) g1 = Inr (w, s', g')" "j = draw_index n w"
      by (auto simp: shuffleIndex_def Let_def split: sum.splits)
    with draw_loop_result [OF w(1)] opt_Step_used [OF g1] draw_index_less [OF assms(2,3)] show ?thesis by auto
  next
    case False
    with assms(1) g1 not_low_accepted [OF assms(2,3) False] opt_Step_used [OF g1] draw_index_less [OF assms(2,3)]
    show ?thesis by (auto simp: shuffleIndex_def Let_def)
  qed
qed

lemma unat_small: "k < 2 ^ 32 \<Longrightarrow> unat (of_nat k :: 32 word) = k"
  by (simp add: unsigned_of_nat take_bit_nat_eq_self)

lemma mset_swap_at: "i < length xs \<Longrightarrow> j < length xs \<Longrightarrow> mset (swap_at i j xs) = mset xs"
  by (simp add: swap_at_def mset_swap)

lemma length_swap_at [simp]: "length (swap_at i j xs) = length xs"
  by (simp add: swap_at_def)

lemma shuffle_from_mset:
  assumes "shuffle_from uint32 int63n i xs s g = Inr (ys, s', g')" "i < length xs" "length xs < 2 ^ 31"
  shows "mset ys = mset xs \<and> og_used g + i \<le> og_used g'"
  using assms
proof (induction i arbitrary: xs s g)
  case (Suc i)
  let ?n = "of_nat (Suc i + 1) :: 32 word"
  have n: "unat ?n = Suc i + 1"
    by (rule unat_small) (use Suc.prems in simp)
  from Suc.prems obtain j s1 g1 where j: "shuffleIndex uint32 ?n s g = Inr (j, s1, g1)"
    "shuffle_from uint32 int63n i (swap_at (Suc i) (unat j) xs) s1 g1 = Inr (ys, s', g')"
    by (auto split: sum.splits)
  have "unat j < Suc i + 1 \<and> og_used g < og_used g1"
    using shuffleIndex_result [OF j(1)] n Suc.prems by simp
  with Suc.IH [OF j(2)] Suc.prems mset_swap_at [of "Suc i" xs "unat j"] show ?case by simp
qed simp

definition free_guard :: "opt_guard \<Rightarrow> bool" where
  "free_guard g \<longleftrightarrow> (\<forall>k. og_ctx g k = None) \<and> og_limit g \<le> MaxUint64"

lemma free_step:
  assumes "free_guard g" "og_used g < og_limit g"
  obtains g1 where "opt_Step g = Inr g1" "free_guard g1" "og_used g1 = Suc (og_used g)" "og_limit g1 = og_limit g"
proof -
  have "\<not> MaxUint64 - og_used g < 1" using assms by (simp add: free_guard_def)
  then have "\<exists>g1. opt_Step g = Inr g1 \<and> free_guard g1"
    using assms by (simp add: opt_Step_def opt_Add_def opt_Check_def free_guard_def Let_def)
  then show thesis using that opt_Step_used by blast
qed

lemma take_swap_at:
  "i < k \<Longrightarrow> j < k \<Longrightarrow> k \<le> length xs \<Longrightarrow> take k (swap_at i j xs) = swap_at i j (take k xs)"
  by (simp add: swap_at_def take_update_swap)

lemma drop_swap_at: "i < k \<Longrightarrow> j < k \<Longrightarrow> drop k (swap_at i j xs) = drop k xs"
  by (simp add: swap_at_def)

lemma shuffle_from_reaches:
  assumes "length xs = length ys" "i < length xs" "length xs < 2 ^ 31"
    and "mset (take (Suc i) xs) = mset (take (Suc i) ys)" "drop (Suc i) xs = drop (Suc i) ys"
    and "free_guard g" "og_used g + i \<le> og_limit g"
  shows "\<exists>ws g'. shuffle_from deal int63n i xs ws g = Inr (ys, [], g')"
  using assms
proof (induction i arbitrary: xs g)
  case 0
  then have "take 1 xs = take 1 ys" by (cases xs; cases ys) auto
  with 0 have "xs = ys" by (metis append_take_drop_id One_nat_def)
  then show ?case by simp
next
  case (Suc i)
  let ?n = "of_nat (Suc i + 1) :: 32 word"
  have n: "unat ?n = Suc i + 1" by (rule unat_small) (use Suc.prems in simp)
  have "ys ! Suc i \<in> set (take (Suc (Suc i)) ys)"
    using Suc.prems by (simp add: take_Suc_conv_app_nth)
  then have "ys ! Suc i \<in> set (take (Suc (Suc i)) xs)"
    using Suc.prems(4) by (metis set_mset_mset)
  then obtain j where j: "j < Suc (Suc i)" "xs ! j = ys ! Suc i"
    using Suc.prems(2) by (auto simp: in_set_conv_nth)
  let ?xs = "swap_at (Suc i) j xs"
  have len: "Suc (Suc i) \<le> length xs" using Suc.prems by simp
  have at: "?xs ! Suc i = ys ! Suc i"
    using j len by (cases "j = Suc i") (simp_all add: swap_at_def)
  have prefix_mset: "mset (take (Suc (Suc i)) ?xs) = mset (take (Suc (Suc i)) ys)"
    using Suc.prems(4) len j(1) by (simp add: take_swap_at mset_swap_at)
  then have "mset (take (Suc i) ?xs) = mset (take (Suc i) ys)"
    using at len Suc.prems(1) by (simp add: take_Suc_conv_app_nth)
  moreover have "drop (Suc i) ?xs = drop (Suc i) ys"
    using at len Suc.prems(1,5) drop_swap_at [of "Suc i" "Suc (Suc i)" j xs] j(1)
    by (metis Cons_nth_drop_Suc Suc_le_lessD length_swap_at lessI)
  moreover obtain g1 where g1: "opt_Step g = Inr g1" "free_guard g1" "og_used g1 = Suc (og_used g)" "og_limit g1 = og_limit g"
    using free_step [OF Suc.prems(6)] Suc.prems(7) by auto
  ultimately obtain ws g' where ws: "shuffle_from deal int63n i ?xs ws g1 = Inr (ys, [], g')"
    using Suc.IH [of ?xs g1] Suc.prems len by (auto simp: Suc_le_eq)
  obtain v where v: "accepted ?n v" "unat (draw_index ?n v) = j"
    using accepted_word [of ?n j] n j(1) Suc.prems(2,3) by auto
  have "shuffleIndex deal ?n (v # ws) g = Inr (draw_index ?n v, ws, g1)"
    using v(1) by (simp add: shuffleIndex_def g1(1) deal_def draw_loop_accepted del: of_nat_Suc)
  with ws v(2) Suc.prems(2,3) have "shuffle_from deal int63n (Suc i) xs (v # ws) g = Inr (ys, [], g')"
    by (simp del: of_nat_Suc)
  then show ?case by blast
qed

end
