(* ===== verification/Tala_Properties.thy ===== *)
theory Tala_Properties
  imports Rank_Kahn Tala_Shuffle "HOL-Library.Code_Target_Nat" "HOL-Library.Code_Target_Int"
begin

text \<open>
  The properties of the parts of the TALA layout engine (\<^verbatim>\<open>d2layouts/d2talalayout/internal\<close>) that are modelled,
  each with its witness.
\<close>

section \<open>Ranking a graph\<close>

text \<open>
  C3. When \<^verbatim>\<open>RankDAG\<close> returns, its ranking is right and the best there is: every node has a level between zero and the
  number of levels, both ends of that range are taken, every edge goes down by a level at least, and no
  assignment of levels under which every edge does has a smaller sum of weighted edge lengths.
\<close>

theorem rankDAG_optimal:
  assumes "rankDAGWithLimit ctx (Some g) limit = Inr r"
  shows "best_ranking g r"
proof -
  from assms obtain guard where "map_sum id fst (rankDAG_body (Some g) guard) = Inr r"
    by (auto simp: rankDAGWithLimit_def split: sum.splits)
  then obtain guard' where "rankDAG_body (Some g) guard = Inr (r, guard')"
    by (cases "rankDAG_body (Some g) guard") auto
  with rankDAG_body_yields show ?thesis by (auto simp: yields_def)
qed

text \<open>A graph of nodes with given IDs and edges with given ends and weights.\<close>

definition sample_graph :: "int list \<Rightarrow> (nat \<times> nat \<times> int) list \<Rightarrow> layout_graph" where
  "sample_graph ids es = \<lparr>
    lg_Nodes = map Some [0..<length ids], lg_Edges = map Some [0..<length es],
    lg_node = (\<lambda>a. \<lparr>gn_ID = ids ! a,
      gn_Edges = map Some (filter (\<lambda>k. fst (es ! k) = a \<or> fst (snd (es ! k)) = a) [0..<length es])\<rparr>),
    lg_edge = (\<lambda>k. \<lparr>ge_ID = int k, ge_From = Some (fst (es ! k)), ge_To = Some (fst (snd (es ! k))),
      SourceArrowhead = [], TargetArrowhead = ''triangle'',
      hierarchyRankWeight = snd (snd (es ! k)), hierarchyRankWeightSet = True\<rparr>)\<rparr>"

theorem rankDAG_optimal_witness:
  "\<exists>r. rankDAGWithLimit (Some (\<lambda>n. None)) (Some (sample_graph [7, 8, 9] [(0, 1, 1), (1, 2, 1), (0, 2, 3)])) 300 = Inr r \<and>
    map (nodeToLevel r) [0, 1, 2] = [Some 0, Some 1, Some 2] \<and>
    best_ranking (sample_graph [7, 8, 9] [(0, 1, 1), (1, 2, 1), (0, 2, 3)]) r"
proof -
  have "case rankDAGWithLimit (Some (\<lambda>n. None)) (Some (sample_graph [7, 8, 9] [(0, 1, 1), (1, 2, 1), (0, 2, 3)])) 300 of
      Inl e \<Rightarrow> False | Inr r \<Rightarrow> map (nodeToLevel r) [0, 1, 2] = [Some 0, Some 1, Some 2]"
    by code_simp
  then show ?thesis using rankDAG_optimal by (auto split: sum.splits)
qed

text \<open>
  C13. A graph is refused as cyclic only if it is: when \<^verbatim>\<open>RankDAG\<close> reports a directed cycle, no assignment of levels
  makes every edge go down.
\<close>

theorem cycle_verdict:
  assumes "rankDAGWithLimit ctx (Some g) limit = Inl cycle_error"
  shows "\<not> ranking_ok g level"
proof -
  from assms consider "NewOptimizationWorkGuard ctx (runes ''RankDAG'') limit = Inl cycle_error"
    | guard where "map_sum id fst (rankDAG_body (Some g) guard) = Inl cycle_error"
    by (auto simp: rankDAGWithLimit_def split: sum.splits)
  then show ?thesis
  proof cases
    case 1
    then show ?thesis
      by (auto simp: NewOptimizationWorkGuard_def charges_avoid split: option.splits) (simp add: cycle_error_def)
  next
    case 2
    then have "rankDAG_body (Some g) guard = Inl cycle_error"
      by (cases "rankDAG_body (Some g) guard") auto
    with rankDAG_body_cycle show ?thesis by (auto simp: fails_only_def)
  qed
qed

theorem cycle_verdict_witness:
  "\<not> ranking_ok (sample_graph [7, 8] [(0, 1, 1), (1, 0, 1)]) (\<lambda>a. int a)"
proof -
  have "case rankDAGWithLimit (Some (\<lambda>n. None)) (Some (sample_graph [7, 8] [(0, 1, 1), (1, 0, 1)])) 100 of
      Inl e \<Rightarrow> e = Rejected ''input graph contains a directed cycle'' [] | Inr r \<Rightarrow> False"
    by code_simp
  then have "rankDAGWithLimit (Some (\<lambda>n. None)) (Some (sample_graph [7, 8] [(0, 1, 1), (1, 0, 1)])) 100 = Inl cycle_error"
    by (auto simp: cycle_error_def split: sum.splits)
  then show ?thesis by (rule cycle_verdict)
qed

text \<open>
  C12. \<^verbatim>\<open>RankDAG\<close> ends on every input: each of its loops charges the work budget in every turn, so none runs on
  once the budget is used up; and a run that returns a ranking has charged no more than the limit. (A run that ends in
  an error returns no budget to look at.)
\<close>

theorem rankDAG_ends:
  "rankDAGWithLimit ctx g limit \<noteq> Inl OutOfTurns \<and>
   (\<forall>guard r guard'. NewOptimizationWorkGuard ctx (runes ''RankDAG'') limit = Inr guard \<longrightarrow>
      rankDAG_body g guard = Inr (r, guard') \<longrightarrow> og_used guard' \<le> limit)"
proof -
  have start: "og_used guard = 0 \<and> og_limit guard = limit"
    if "NewOptimizationWorkGuard ctx (runes ''RankDAG'') limit = Inr guard" for guard
    using that opt_Check_keeps by (fastforce simp: NewOptimizationWorkGuard_def split: option.splits)
  have budget: "in_budget guard (rankDAG_body g guard)"
    if "NewOptimizationWorkGuard ctx (runes ''RankDAG'') limit = Inr guard" for guard
    using tame_rankDAG_body [of g] start [OF that] by (simp add: tame_def)
  have "NewOptimizationWorkGuard ctx (runes ''RankDAG'') limit \<noteq> Inl OutOfTurns"
    by (auto simp: NewOptimizationWorkGuard_def opt_Check_def split: option.splits)
  moreover have "map_sum id fst (rankDAG_body g guard) \<noteq> Inl OutOfTurns"
    if "NewOptimizationWorkGuard ctx (runes ''RankDAG'') limit = Inr guard" for guard
    using budget [OF that] by (cases "rankDAG_body g guard") auto
  ultimately have "rankDAGWithLimit ctx g limit \<noteq> Inl OutOfTurns"
    by (auto simp: rankDAGWithLimit_def split: sum.split)
  moreover have "og_used guard' \<le> limit"
    if "NewOptimizationWorkGuard ctx (runes ''RankDAG'') limit = Inr guard" "rankDAG_body g guard = Inr (r, guard')"
    for guard r guard'
    using budget [OF that(1)] start [OF that(1)] that(2) by simp
  ultimately show ?thesis by blast
qed

theorem rankDAG_ends_witness:
  "\<exists>guard r guard'. NewOptimizationWorkGuard (Some (\<lambda>n. None)) (runes ''RankDAG'') 300 = Inr guard \<and>
     rankDAG_body (Some (sample_graph [7, 8, 9] [(0, 1, 1), (1, 2, 1), (0, 2, 3)])) guard = Inr (r, guard') \<and>
     0 < og_used guard' \<and> og_used guard' \<le> 300 \<and>
     rankDAGWithLimit (Some (\<lambda>n. None)) (Some (sample_graph [7, 8, 9] [(0, 1, 1), (1, 2, 1), (0, 2, 3)])) 20 =
       Inl (WorkExceeds (runes ''RankDAG'') 20)"
proof -
  let ?g = "sample_graph [7, 8, 9] [(0, 1, 1), (1, 2, 1), (0, 2, 3)]"
  have "case NewOptimizationWorkGuard (Some (\<lambda>n. None)) (runes ''RankDAG'') 300 of Inl e \<Rightarrow> False
    | Inr guard \<Rightarrow> (case rankDAG_body (Some ?g) guard of Inl e \<Rightarrow> False | Inr (r, guard') \<Rightarrow> 0 < og_used guard')"
    by code_simp
  then obtain guard r guard' where run: "NewOptimizationWorkGuard (Some (\<lambda>n. None)) (runes ''RankDAG'') 300 = Inr guard"
    "rankDAG_body (Some ?g) guard = Inr (r, guard')" "0 < og_used guard'"
    by (auto split: sum.splits)
  have "case rankDAGWithLimit (Some (\<lambda>n. None)) (Some ?g) 20 of Inl e \<Rightarrow> e = WorkExceeds (runes ''RankDAG'') 20 | Inr r \<Rightarrow> False"
    by code_simp
  then have "rankDAGWithLimit (Some (\<lambda>n. None)) (Some ?g) 20 = Inl (WorkExceeds (runes ''RankDAG'') 20)"
    by (auto split: sum.splits)
  moreover have "og_used guard' \<le> 300" using rankDAG_ends [of "Some (\<lambda>n. None)" "Some ?g" 300] run by blast
  ultimately show ?thesis using run by blast
qed

text \<open>
  C28. The first ranking is the least one: on the problem of a graph, \<^verbatim>\<open>longestPathLevels\<close> gives levels that are not
  negative and under which every edge goes down, and no other such levels have a smaller one at any node.
\<close>

theorem first_ranking_least:
  assumes "newRankProblem (Some g) g0 = Inr (P, g1)" "longestPathLevels P g1 = Inr (levels, g2)"
  shows "feasible (rp_edges P) ((!) levels) \<and> (\<forall>v < length (rp_nodes P). 0 \<le> levels ! v) \<and>
    (\<forall>r. nonneg_feasible (rp_edges P) r \<longrightarrow> (\<forall>v < length (rp_nodes P). levels ! v \<le> r v))"
proof -
  have "csr_ok P" using newRankProblem_csr [of g] assms(1) by (auto simp: yields_def)
  from longestPathLevels_least [OF this] assms(2) show ?thesis unfolding yields_def by blast
qed

definition sample_guard :: "nat \<Rightarrow> opt_guard" where
  "sample_guard limit = \<lparr>og_ctx = (\<lambda>n. None), og_location = [], og_used = 0, og_limit = limit, og_polls = 0\<rparr>"

theorem first_ranking_least_witness:
  "\<exists>P g1 levels g2. newRankProblem (Some (sample_graph [7, 8] [(1, 0, 1)])) (sample_guard 60) = Inr (P, g1) \<and>
     longestPathLevels P g1 = Inr (levels, g2) \<and> levels = [1, 0] \<and> feasible (rp_edges P) ((!) levels) \<and>
     (\<forall>v < length (rp_nodes P). 0 \<le> levels ! v)"
proof -
  have "case newRankProblem (Some (sample_graph [7, 8] [(1, 0, 1)])) (sample_guard 60) of
      Inl e \<Rightarrow> False
    | Inr r \<Rightarrow> (case longestPathLevels (fst r) (snd r) of Inl e \<Rightarrow> False | Inr r \<Rightarrow> fst r = [1, 0])"
    by code_simp
  then obtain P g1 levels g2 where r: "newRankProblem (Some (sample_graph [7, 8] [(1, 0, 1)])) (sample_guard 60) = Inr (P, g1)"
    "longestPathLevels P g1 = Inr (levels, g2)" "levels = [1, 0]"
    by (fastforce split: sum.splits)
  from first_ranking_least [OF r(1,2)] r show ?thesis by blast
qed

text \<open>
  The heap of ready nodes: popping a heap gives a least element and leaves a heap of the others; pushing gives
  a heap with the new element.
\<close>

theorem node_heap_pops_least:
  assumes "heap_ok (\<le>) h" "h \<noteq> []"
  shows "\<exists>x h'. heap_pop h = Some (x, h') \<and> heap_ok (\<le>) h' \<and> mset h = add_mset x (mset h') \<and> (\<forall>y \<in> set h. x \<le> y) \<and>
    heap_ok (\<le>) (heap_push z h') \<and> mset (heap_push z h') = add_mset z (mset h')"
proof -
  obtain x h' where "heap_pop h = Some (x, h')" "heap_ok (\<le>) h'" "mset h = add_mset x (mset h')" "\<forall>y \<in> set h. x \<le> y"
    using heap_pop_spec [OF assms] by blast
  then show ?thesis using heap_push_ok by (intro exI [of _ x] exI [of _ h']) simp
qed

theorem node_heap_pops_least_witness:
  "\<exists>x h'. heap_pop [1 :: nat, 4, 2, 7] = Some (x, h') \<and> mset [1, 4, 2, 7] = add_mset x (mset h') \<and> (\<forall>y \<in> set [1, 4, 2, 7]. x \<le> y)"
proof -
  have "heap_ok (\<le>) (heap_push (7 :: nat) (heap_push 2 (heap_push 4 (heap_push 1 []))))" by (intro heap_push_ok) (simp add: heap_ok_def)
  moreover have "heap_push 7 (heap_push 2 (heap_push 4 (heap_push 1 []))) = [1 :: nat, 4, 2, 7]" by code_simp
  ultimately have "heap_ok (\<le>) [1 :: nat, 4, 2, 7]" by simp
  from node_heap_pops_least [OF this] show ?thesis by blast
qed

section \<open>Arithmetic and budgets\<close>

text \<open>
  C27. The checked operations are exact: for two 64-bit integers, sum, difference and product are returned as they are
  if they fit into 64 bits, and refused if they do not.
\<close>

theorem checked_exact:
  assumes "int64 a" "int64 b"
  shows "checkedAddInt64 a b = (if int64 (a + b) then Some (a + b) else None) \<and>
    checkedSubInt64 a b = (if int64 (a - b) then Some (a - b) else None) \<and>
    checkedMulInt64 a b = (if int64 (a * b) then Some (a * b) else None)"
  using checkedAdd_exact [OF assms] checkedSub_exact [OF assms] checkedMul_exact [OF assms] by blast

theorem checked_exact_witness:
  "checkedMulInt64 MinInt64 (- 1) = None \<and> checkedMulInt64 (2 ^ 32) (2 ^ 30) = Some (2 ^ 62)"
proof -
  have "int64 MinInt64" "int64 (- 1)" "\<not> int64 (MinInt64 * - 1)" "int64 (2 ^ 32)" "int64 (2 ^ 30)"
    "int64 (2 ^ 32 * 2 ^ 30)" "2 ^ 32 * 2 ^ 30 = (2 ^ 62 :: int)"
    by (simp_all add: int64_def MinInt64_def MaxInt64_def)
  then show ?thesis using checked_exact [of MinInt64 "- 1"] checked_exact [of "2 ^ 32" "2 ^ 30"] by metis
qed

text \<open>
  C26. Charging \<open>n\<close> units at once is charging them one by one: on a guard within its limit, which is below the largest
  64-bit integer, under a context that does not change, \<^verbatim>\<open>Add\<close> ends in the error the first failing \<^verbatim>\<open>Step\<close> of \<open>n\<close>
  would end in, or in none, and then the same work has been charged.
\<close>

theorem guard_Add_is_Steps:
  assumes "within_limit g" "0 < n"
  shows "fst (guard_Add (int n) g) = fst (guard_Steps n g) \<and>
    (fst (guard_Add (int n) g) = None \<longrightarrow>
      wg_used (snd (guard_Add (int n) g)) = wg_used g + int n \<and>
      wg_used (snd (guard_Steps n g)) = wg_used g + int n)"
  using guard_Steps_outcome [OF assms(1), of n] guard_Add_outcome [OF assms(1), of "int n"] assms(2) by simp

definition sample_work :: "int \<Rightarrow> work_guard" where
  "sample_work used = \<lparr>wg_ctx = \<lparr>ctx_done = None, ctx_err = (\<lambda>n. Some (runes ''stop''))\<rparr>, wg_location = [],
    wg_used = used, wg_limit = 70, wg_polls = 0\<rparr>"

theorem guard_Add_is_Steps_witness:
  "fst (guard_Add 9 (sample_work 62)) = Some (WorkCancelled [] (runes ''stop'')) \<and>
   fst (guard_Steps 9 (sample_work 62)) = Some (WorkCancelled [] (runes ''stop''))"
proof -
  have "within_limit (sample_work 62)"
    by (simp add: within_limit_def sample_work_def MaxInt64_def steady_def cachedContextErr_def)
  moreover have "fst (guard_Steps 9 (sample_work 62)) = Some (WorkCancelled [] (runes ''stop''))"
    by code_simp
  ultimately show ?thesis using guard_Add_is_Steps [of "sample_work 62" 9] by simp
qed

section \<open>Shuffling\<close>

text \<open>
  C40. The bounded draw has no bias: of the 32-bit words the rejection loop accepts, exactly as many give each of the
  \<open>n\<close> indexes, namely \<open>2 ^ 32 div n\<close>.
\<close>

theorem shuffle_draw_unbiased:
  assumes "0 < unat n" "unat n < 2 ^ 31" "j < unat n"
  shows "card {v. accepted n v \<and> unat (draw_index n v) = j} = 2 ^ 32 div unat n"
  by (rule draw_unbiased [OF assms])

theorem shuffle_draw_unbiased_witness:
  "card {v. accepted (3 :: 32 word) v \<and> unat (draw_index 3 v) = 2} = 1431655765"
  using shuffle_draw_unbiased [of 3 2] by simp

text \<open>
  What \<^verbatim>\<open>Shuffle\<close> gives of fewer than \<open>2 ^ 31\<close> elements is a permutation of them, and at least a unit was charged
  for each but one.
\<close>

theorem Shuffle_permutes:
  assumes "Shuffle uint32 int63n xs random g = Inr (ys, s, g')" "length xs < 2 ^ 31"
  shows "mset ys = mset xs \<and> og_used g + (length xs - 1) \<le> og_used g'"
proof (cases "xs = []")
  case True
  with assms(1) show ?thesis by (auto simp: Shuffle_def split: option.splits)
next
  case False
  from assms(1) obtain s0 where "shuffle_from uint32 int63n (length xs - 1) xs s0 g = Inr (ys, s, g')"
    by (auto simp: Shuffle_def split: option.splits)
  from shuffle_from_mset [OF this] False assms(2) show ?thesis by simp
qed

theorem Shuffle_permutes_witness:
  "\<exists>ys ws g'. Shuffle deal (\<lambda>n s. (0, s)) ''abc'' (Some [0x80000001, 0x80000001]) (sample_guard 100) = Inr (ys, ws, g') \<and> mset ys = mset ''abc''"
proof -
  have "case Shuffle deal (\<lambda>n s. (0, s)) ''abc'' (Some [0x80000001, 0x80000001]) (sample_guard 100) of Inl e \<Rightarrow> False | Inr (ys, ws, g') \<Rightarrow> True"
    by code_simp
  then obtain ys ws g' where r: "Shuffle deal (\<lambda>n s. (0, s)) ''abc'' (Some [0x80000001, 0x80000001]) (sample_guard 100) = Inr (ys, ws, g')"
    by (auto split: sum.splits)
  from Shuffle_permutes [OF r] r show ?thesis by simp
qed

text \<open>
  C30. Every order can come out: for each permutation of fewer than \<open>2 ^ 31\<close> elements there are words the generator can
  deal under which \<^verbatim>\<open>Shuffle\<close> returns it, when nothing cancels it and the budget allows for a unit per element.
\<close>

theorem Shuffle_reaches_every_order:
  assumes "mset ys = mset xs" "length xs < 2 ^ 31" "free_guard g" "og_used g + length xs \<le> og_limit g"
  shows "\<exists>ws g'. Shuffle deal int63n xs (Some ws) g = Inr (ys, [], g')"
proof (cases "xs = []")
  case True
  with assms(1) show ?thesis by (simp add: Shuffle_def)
next
  case False
  have len: "length xs = length ys" using assms(1) by (metis mset_eq_length)
  obtain n where n: "length xs = Suc n" using False by (cases xs) simp_all
  have "take (Suc n) xs = xs" "take (Suc n) ys = ys" "drop (Suc n) xs = drop (Suc n) ys" using n len by simp_all
  with shuffle_from_reaches [of xs ys n g int63n] assms n len show ?thesis by (simp add: Shuffle_def)
qed

theorem Shuffle_reaches_every_order_witness:
  "\<exists>ws g'. Shuffle deal (\<lambda>n s. (0, s)) ''abcd'' (Some ws) (sample_guard 4) = Inr (''dbca'', [], g')"
  by (rule Shuffle_reaches_every_order) (simp_all add: free_guard_def sample_guard_def MaxUint64_def)

end
