(* ===== verification/Graph_Objects.thy ===== *)
theory Graph_Objects
  imports Key_Roundtrip Ir_Names
begin

text \<open>
  The graph of objects the compiler builds (\<^verbatim>\<open>d2graph/d2graph.go\<close>, \<^verbatim>\<open>d2graph/seqdiagram.go\<close>): creating and finding
  objects by path, identifiers, edges and their indices, underscores, sequence diagrams. Objects share pointers
  (parent, children, the list of the graph), so the graph is a store: an object is an address, an index of \<open>gr_heap\<close>,
  and the root has address 0. A result \<open>None\<close> is a Go run time panic (nil dereference or index out of range).
  \<^verbatim>\<open>newObject\<close> puts an object after its parent, and nothing here assigns \<^verbatim>\<open>Parent\<close> later, so a parent has a
  smaller address; \<open>parent_of\<close> reads \<^verbatim>\<open>Parent\<close> under that condition, which makes the walks to the root recursive
  functions. \<^verbatim>\<open>unicode.ToLower\<close> is the parameter \<open>lo\<close>, \<^verbatim>\<open>unicode.SimpleFold\<close> the parameter \<open>sf\<close>.
\<close>

section \<open>Objects, edges and graphs\<close>

record object_ref =
  rf_Key :: "keypath option"
  rf_KeyPathIndex :: nat
  rf_MapKey :: "key option"
  rf_ScopeObj :: "nat option"

record graph_object =
  ob_ID :: gostr
  ob_IDVal :: gostr
  ob_Parent :: "nat option"
  ob_Children :: "(gostr \<times> nat) list"
  ob_ChildrenArray :: "nat list"
  ob_Label :: gostr
  ob_Shape :: gostr
  ob_NearKey :: "keypath option"
  ob_Columns :: "gostr list option"
  ob_References :: "object_ref list"

record graph_edge =
  ed_Index :: int
  ed_SrcTableColumnIndex :: "nat option"
  ed_DstTableColumnIndex :: "nat option"
  ed_Src :: nat
  ed_SrcArrow :: bool
  ed_Dst :: nat
  ed_DstArrow :: bool
  ed_Label :: gostr
  ed_Scopes :: "nat option list"

record d2_graph =
  gr_heap :: "graph_object list"
  gr_Objects :: "nat list"
  gr_Edges :: "graph_edge list"
  gr_RootLevel :: int

abbreviation object_at :: "d2_graph \<Rightarrow> nat \<Rightarrow> graph_object" where
  "object_at g a \<equiv> gr_heap g ! a"

definition ToLower :: "(rune \<Rightarrow> rune) \<Rightarrow> gostr \<Rightarrow> gostr" where
  "ToLower lo s = map (\<lambda>r. lo (range_rune r)) s"

definition root_object :: graph_object where
  "root_object = \<lparr>ob_ID = [], ob_IDVal = [], ob_Parent = None, ob_Children = [], ob_ChildrenArray = [],
    ob_Label = [], ob_Shape = [], ob_NearKey = None, ob_Columns = None, ob_References = []\<rparr>"

definition NewGraph :: d2_graph where
  "NewGraph = \<lparr>gr_heap = [root_object], gr_Objects = [], gr_Edges = [], gr_RootLevel = 0\<rparr>"

definition parent_of :: "d2_graph \<Rightarrow> nat \<Rightarrow> nat option" where
  "parent_of g a =
    (case ob_Parent (object_at g a) of None \<Rightarrow> None | Some p \<Rightarrow> if p < a then Some p else None)"

lemma parent_of_less [simp]: "parent_of g a = Some p \<Longrightarrow> p < a"
  by (auto simp: parent_of_def split: option.splits if_splits)

section \<open>Walks to the root\<close>

function object_Level :: "d2_graph \<Rightarrow> nat \<Rightarrow> int" where
  "object_Level g a = (case parent_of g a of None \<Rightarrow> gr_RootLevel g | Some p \<Rightarrow> 1 + object_Level g p)"
  by auto
termination by (relation "measure snd") auto

definition IsContainer :: "d2_graph \<Rightarrow> nat \<Rightarrow> bool" where
  "IsContainer g a \<longleftrightarrow> 0 < length (ob_Children (object_at g a))"

function object_AbsID :: "d2_graph \<Rightarrow> nat \<Rightarrow> gostr" where
  "object_AbsID g a =
    (case parent_of g a of
       Some p \<Rightarrow>
         if ob_ID (object_at g p) \<noteq> [] then object_AbsID g p @ [rDot] @ ob_ID (object_at g a)
         else ob_ID (object_at g a)
     | None \<Rightarrow> ob_ID (object_at g a))"
  by auto
termination by (relation "measure snd") auto

function AbsIDArray :: "d2_graph \<Rightarrow> nat \<Rightarrow> gostr list" where
  "AbsIDArray g a =
    (case parent_of g a of None \<Rightarrow> [] | Some p \<Rightarrow> AbsIDArray g p @ [ob_ID (object_at g a)])"
  by auto
termination by (relation "measure snd") auto

function IsDescendantOf :: "d2_graph \<Rightarrow> nat \<Rightarrow> nat \<Rightarrow> bool" where
  "IsDescendantOf g ancestor a \<longleftrightarrow>
    (if a = ancestor then True
     else case parent_of g a of None \<Rightarrow> False | Some p \<Rightarrow> IsDescendantOf g ancestor p)"
  by auto
termination by (relation "measure (snd \<circ> snd)") auto

function OuterNearContainer :: "d2_graph \<Rightarrow> nat \<Rightarrow> nat option" where
  "OuterNearContainer g a =
    (if ob_NearKey (object_at g a) \<noteq> None then Some a
     else case parent_of g a of None \<Rightarrow> None | Some p \<Rightarrow> OuterNearContainer g p)"
  by auto
termination by (relation "measure snd") auto

definition IsSequenceDiagram :: "d2_graph \<Rightarrow> nat \<Rightarrow> bool" where
  "IsSequenceDiagram g a \<longleftrightarrow> ob_Shape (object_at g a) = runes ''sequence_diagram''"

function OuterSequenceDiagram :: "d2_graph \<Rightarrow> nat \<Rightarrow> nat option" where
  "OuterSequenceDiagram g a =
    (case parent_of g a of
       None \<Rightarrow> None
     | Some p \<Rightarrow> if IsSequenceDiagram g p then Some p else OuterSequenceDiagram g p)"
  by auto
termination by (relation "measure snd") auto

declare object_Level.simps [simp del] object_AbsID.simps [simp del] AbsIDArray.simps [simp del]
  IsDescendantOf.simps [simp del] OuterNearContainer.simps [simp del] OuterSequenceDiagram.simps [simp del]

text \<open>\<^verbatim>\<open>IterDescendants\<close> calls its argument on these pairs of a parent and a child, in this order.\<close>

function IterDescendants :: "d2_graph \<Rightarrow> nat \<Rightarrow> (nat \<times> nat) list" where
  "IterDescendants g a =
    concat (map (\<lambda>c. (a, c) # (if a < c \<and> c < length (gr_heap g) then IterDescendants g c else []))
      (ob_ChildrenArray (object_at g a)))"
  by auto
termination by (relation "measure (\<lambda>(g, a). length (gr_heap g) - a)") auto

declare IterDescendants.simps [simp del]

section \<open>Finding and creating objects\<close>

definition id_value :: "unicode_tables \<Rightarrow> gostr \<Rightarrow> gostr option" where
  "id_value u ident =
    (case ParseKey u ident of
       Returned (Some kp) err \<Rightarrow> Some (case kp_path kp of x # _ \<Rightarrow> string_ScalarString x | [] \<Rightarrow> ident)
     | Returned None err \<Rightarrow> Some ident
     | _ \<Rightarrow> None)"

definition newObject ::
  "unicode_tables \<Rightarrow> (rune \<Rightarrow> rune) \<Rightarrow> string_node \<Rightarrow> nat \<Rightarrow> d2_graph \<Rightarrow> (d2_graph \<times> nat) option" where
  "newObject u lo ids a g =
    (case FormatKeyPath [ids] of
       None \<Rightarrow> None
     | Some ident \<Rightarrow>
       (case id_value u ident of
          None \<Rightarrow> None
        | Some idval \<Rightarrow>
            (let child = root_object\<lparr>ob_ID := ident, ob_IDVal := idval, ob_Label := idval, ob_Parent := Some a\<rparr>;
                 n = length (gr_heap g);
                 obj = object_at g a;
                 obj' = obj\<lparr>ob_Children := (ToLower lo ident, n) # ob_Children obj,
                   ob_ChildrenArray := ob_ChildrenArray obj @ [n]\<rparr>
             in Some (g\<lparr>gr_heap := (gr_heap g)[a := obj'] @ [child], gr_Objects := gr_Objects g @ [n]\<rparr>, n))))"

fun HasChild :: "(rune \<Rightarrow> rune) \<Rightarrow> d2_graph \<Rightarrow> gostr list \<Rightarrow> nat \<Rightarrow> nat option" where
  "HasChild lo g [] a = Some a"
| "HasChild lo g (ident # ids) a =
    (if ids = [] \<and> ident \<noteq> runes ''style'' \<and> is_reserved ident then Some a
     else case map_of (ob_Children (object_at g a)) (ToLower lo ident) of
       None \<Rightarrow> None
     | Some c \<Rightarrow> if ids \<noteq> [] then HasChild lo g ids c else Some c)"

text \<open>
  The first statements of \<^verbatim>\<open>EnsureChild\<close>: inside a sequence diagram, a path that starts at an actor is resolved
  from the diagram. The receiver may be nil; \<open>ida[0]\<close> is read before the length of \<open>ida\<close> is tested.
\<close>

definition actor_scope :: "d2_graph \<Rightarrow> string_node list \<Rightarrow> nat option \<Rightarrow> nat option option" where
  "actor_scope g ida obj =
    (case obj of
       None \<Rightarrow> Some None
     | Some a \<Rightarrow>
       (case OuterSequenceDiagram g a of
          None \<Rightarrow> Some (Some a)
        | Some seq \<Rightarrow>
          if ob_ChildrenArray (object_at g seq) = [] then Some (Some a)
          else (case ida of
            [] \<Rightarrow> None
          | s # _ \<Rightarrow>
            if list_ex (\<lambda>c. ob_ID (object_at g c) = string_ScalarString s) (ob_ChildrenArray (object_at g seq)) \<and>
              ob_ID (object_at g a) \<noteq> string_ScalarString s
            then Some (Some seq) else Some (Some a))))"

fun EnsureChild ::
  "unicode_tables \<Rightarrow> (rune \<Rightarrow> rune) \<Rightarrow> string_node list \<Rightarrow> nat option \<Rightarrow> d2_graph \<Rightarrow> (d2_graph \<times> nat option) option"
where
  "EnsureChild u lo [] obj g = map_option (\<lambda>obj. (g, obj)) (actor_scope g [] obj)"
| "EnsureChild u lo (s # ida) obj g =
    (case actor_scope g (s # ida) obj of
       None \<Rightarrow> None
     | Some obj \<Rightarrow>
       if ida = [] \<and> \<not> (string_ScalarString s \<in> set ReservedKeywordHolders \<and> IsUnquoted s) \<and>
         is_reserved (string_ScalarString s) \<and> IsUnquoted s
       then Some (g, obj)
       else case obj of
         None \<Rightarrow> None
       | Some a \<Rightarrow>
         if string_ScalarString s = runes ''_'' \<and> IsUnquoted s then EnsureChild u lo ida (parent_of g a) g
         else case FormatKeyPath [s] of
           None \<Rightarrow> None
         | Some head \<Rightarrow>
           (case map_of (ob_Children (object_at g a)) (ToLower lo head) of
              Some c \<Rightarrow> if ida \<noteq> [] then EnsureChild u lo ida (Some c) g else Some (g, Some c)
            | None \<Rightarrow>
              (case newObject u lo s a g of
                 None \<Rightarrow> None
               | Some (g', c) \<Rightarrow> if ida \<noteq> [] then EnsureChild u lo ida (Some c) g' else Some (g', Some c))))"

fun ensureChildEdge ::
  "unicode_tables \<Rightarrow> (rune \<Rightarrow> rune) \<Rightarrow> string_node list \<Rightarrow> nat option \<Rightarrow> d2_graph \<Rightarrow> (d2_graph \<times> nat option) option"
where
  "ensureChildEdge u lo [] obj g = Some (g, obj)"
| "ensureChildEdge u lo (s # ida) obj g =
    (case obj of
       None \<Rightarrow> None
     | Some a \<Rightarrow>
       if ob_Shape (object_at g a) \<in> {runes ''class'', runes ''sql_table''} then Some (g, obj)
       else case EnsureChild u lo [s] obj g of
         None \<Rightarrow> None
       | Some (g', obj') \<Rightarrow> ensureChildEdge u lo ida obj' g')"

text \<open>\<open>AppendReferences\<close>: \<open>n\<close> counts the underscores, \<open>before\<close> holds the parts before the current one.\<close>

fun append_references ::
  "(rune \<Rightarrow> rune) \<Rightarrow> object_ref \<Rightarrow> nat \<Rightarrow> nat \<Rightarrow> gostr list \<Rightarrow> gostr list \<Rightarrow> nat \<Rightarrow> d2_graph \<Rightarrow> d2_graph"
where
  "append_references lo r n i before [] a g = g"
| "append_references lo r n i before (x # more_ids) a g =
    (if x = runes ''_'' then append_references lo r (Suc n) (Suc i) (before @ [x]) more_ids a g
     else case HasChild lo g (drop n (before @ [x])) a of
       None \<Rightarrow> g
     | Some c \<Rightarrow>
       append_references lo r n (Suc i) (before @ [x]) more_ids a
         (g\<lparr>gr_heap := (gr_heap g)[c := (object_at g c)\<lparr>ob_References :=
            ob_References (object_at g c) @ [r\<lparr>rf_KeyPathIndex := i\<rparr>]\<rparr>]\<rparr>))"

definition AppendReferences ::
  "(rune \<Rightarrow> rune) \<Rightarrow> gostr list \<Rightarrow> object_ref \<Rightarrow> nat option \<Rightarrow> nat \<Rightarrow> d2_graph \<Rightarrow> d2_graph" where
  "AppendReferences lo ida r unresolvedObj a g =
    append_references lo (r\<lparr>rf_ScopeObj := unresolvedObj\<rparr>) 0 0 [] ida a g"

section \<open>Underscores\<close>

definition graph_Key :: "keypath \<Rightarrow> gostr list option" where
  "graph_Key k = those (format_KeyPath k)"

fun resolve_underscores ::
  "d2_graph \<Rightarrow> gostr option \<Rightarrow> gostr list \<Rightarrow> nat option \<Rightarrow> gostr list \<Rightarrow> (gostr + nat option \<times> gostr list) option"
where
  "resolve_underscores g prev [] obj resolved = Some (Inr (obj, resolved))"
| "resolve_underscores g prev (ident # more_ids) obj resolved =
    (if ident \<noteq> runes ''_'' then resolve_underscores g (Some ident) more_ids obj resolved
     else if prev \<noteq> None \<and> prev \<noteq> Some (runes ''_'') then
       Some (Inl (runes ''parent \"_\" can only be used in the beginning of paths, e.g. \"_.x\"''))
     else if obj = Some 0 then Some (Inl (runes ''parent \"_\" cannot be used in the root scope''))
     else if more_ids = [] then Some (Inl (runes ''invalid use of parent \"_\"''))
     else case obj of
       None \<Rightarrow> None
     | Some a \<Rightarrow> resolve_underscores g (Some ident) more_ids (parent_of g a) (tl resolved))"

definition ResolveUnderscoreKey :: "d2_graph \<Rightarrow> gostr list \<Rightarrow> nat \<Rightarrow> (gostr + nat option \<times> gostr list) option" where
  "ResolveUnderscoreKey g ida obj =
    (let scope = (case ida of
       [] \<Rightarrow> obj
     | ident # _ \<Rightarrow>
       if IsSequenceDiagram g obj then obj
       else case OuterSequenceDiagram g obj of
         None \<Rightarrow> obj
       | Some sd \<Rightarrow>
         if list_ex (\<lambda>c. ob_ID (object_at g c) = ident) (ob_ChildrenArray (object_at g sd)) then sd else obj)
     in resolve_underscores g None ida (Some scope) ida)"

section \<open>Edges\<close>

definition ArrowString :: "graph_edge \<Rightarrow> gostr" where
  "ArrowString e =
    (if ed_SrcArrow e \<and> ed_DstArrow e then runes ''<->''
     else if ed_SrcArrow e then runes ''<-''
     else if ed_DstArrow e then runes ''->''
     else runes ''--'')"

text \<open>The loop of \<^verbatim>\<open>Edge.AbsID\<close>: the common path, and what is left of both paths.\<close>

fun common_ida :: "(rune \<Rightarrow> rune) \<Rightarrow> gostr list \<Rightarrow> gostr list \<Rightarrow> gostr list \<times> gostr list \<times> gostr list" where
  "common_ida sf (s # s2 # src) (d # d2 # dst) =
    (if EqualFold sf s d then
       (let (c, src', dst') = common_ida sf (s2 # src) (d2 # dst) in (s # c, src', dst'))
     else ([], s # s2 # src, d # d2 # dst))"
| "common_ida sf src dst = ([], src, dst)"

definition edge_AbsID :: "(rune \<Rightarrow> rune) \<Rightarrow> d2_graph \<Rightarrow> graph_edge \<Rightarrow> gostr" where
  "edge_AbsID sf g e =
    (let (common, src, dst) = common_ida sf (AbsIDArray g (ed_Src e)) (AbsIDArray g (ed_Dst e));
         commonKey = (if 0 < length common then join_with [rDot] common @ [rDot] else [])
     in commonKey @ runes ''('' @ join_with [rDot] src @ runes '' '' @ ArrowString e @ runes '' '' @
       join_with [rDot] dst @ runes '')['' @ itoa (ed_Index e) @ runes '']'')"

definition IsEquivalent :: "graph_edge \<Rightarrow> nat \<Rightarrow> bool \<Rightarrow> nat \<Rightarrow> bool \<Rightarrow> bool" where
  "IsEquivalent e src srcArrow dst dstArrow \<longleftrightarrow>
    (if ed_Src e = src \<and> ed_SrcArrow e = srcArrow \<and> ed_Dst e = dst \<and> ed_DstArrow e = dstArrow then True
     else ed_Src e = dst \<and> ed_SrcArrow e = dstArrow \<and> ed_Dst e = src \<and> ed_DstArrow e = srcArrow)"

definition initIndex :: "d2_graph \<Rightarrow> graph_edge \<Rightarrow> graph_edge" where
  "initIndex g e =
    fold (\<lambda>e2 e. if IsEquivalent e2 (ed_Src e) (ed_SrcArrow e) (ed_Dst e) (ed_DstArrow e)
      then e\<lparr>ed_Index := ed_Index e + 1\<rparr> else e) (gr_Edges g) e"

text \<open>
  The index of the column an end of an edge names. The result is \<open>Some None\<close> when no column matches or the object is
  not a table; the columns are copies in the loop of the code, so its assignment to \<^verbatim>\<open>Reference\<close> has no effect.
\<close>

definition column_index :: "d2_graph \<Rightarrow> nat \<Rightarrow> string_node list \<Rightarrow> nat \<Rightarrow> nat option option" where
  "column_index g obj ids a =
    (if ob_Shape (object_at g a) = runes ''sql_table'' \<and>
       length (AbsIDArray g obj) + length ids > length (AbsIDArray g a)
     then (case ob_Columns (object_at g a) of
         None \<Rightarrow> None
       | Some [] \<Rightarrow> Some None
       | Some cols \<Rightarrow>
         if ids = [] then None
         else Some (find (\<lambda>i. cols ! i = string_ScalarString (last ids)) [0..<length cols]))
     else Some None)"

definition addSQLTableColumnIndices ::
  "d2_graph \<Rightarrow> string_node list \<Rightarrow> string_node list \<Rightarrow> nat \<Rightarrow> graph_edge \<Rightarrow> graph_edge option" where
  "addSQLTableColumnIndices g srcID dstID obj e =
    (if ob_Shape (object_at g (ed_Src e)) = runes ''sql_table'' \<and> ed_Src e = ed_Dst e then Some e
     else case column_index g obj srcID (ed_Src e) of
       None \<Rightarrow> None
     | Some i \<Rightarrow>
       (case column_index g obj dstID (ed_Dst e) of
          None \<Rightarrow> None
        | Some j \<Rightarrow> Some (e\<lparr>ed_SrcTableColumnIndex := i, ed_DstTableColumnIndex := j\<rparr>)))"

definition Connect ::
  "unicode_tables \<Rightarrow> (rune \<Rightarrow> rune) \<Rightarrow> string_node list \<Rightarrow> string_node list \<Rightarrow> bool \<Rightarrow> bool \<Rightarrow> gostr \<Rightarrow> nat \<Rightarrow>
    d2_graph \<Rightarrow> (d2_graph \<times> (gostr + graph_edge)) option"
where
  "Connect u lo srcID dstID srcArrow dstArrow label obj g =
    (if list_ex (\<lambda>p. is_reserved (string_ScalarString p) \<and> IsUnquoted p) (srcID @ dstID)
     then Some (g, Inl (runes ''cannot connect to reserved keyword''))
     else case ensureChildEdge u lo srcID (Some obj) g of
       None \<Rightarrow> None
     | Some (g1, src) \<Rightarrow>
       (case ensureChildEdge u lo dstID (Some obj) g1 of
          None \<Rightarrow> None
        | Some (g2, dst) \<Rightarrow>
          (case (src, dst) of
             (Some s, Some d) \<Rightarrow>
               (let e = initIndex g2 \<lparr>ed_Index = 0, ed_SrcTableColumnIndex = None, ed_DstTableColumnIndex = None,
                  ed_Src = s, ed_SrcArrow = srcArrow, ed_Dst = d, ed_DstArrow = dstArrow, ed_Label = label,
                  ed_Scopes = []\<rparr>
                in case addSQLTableColumnIndices g2 srcID dstID obj e of
                     None \<Rightarrow> None
                   | Some e' \<Rightarrow> Some (g2\<lparr>gr_Edges := gr_Edges g2 @ [e']\<rparr>, Inr e'))
           | _ \<Rightarrow> None)))"

text \<open>The text of one end in \<^verbatim>\<open>FindEdges\<close>; \<open>None\<close> for a panic, \<open>Some None\<close> where the key does not resolve.\<close>

definition edge_end_text :: "d2_graph \<Rightarrow> keypath option \<Rightarrow> nat \<Rightarrow> gostr option option" where
  "edge_end_text g k obj =
    (case k of
       None \<Rightarrow> None
     | Some kp \<Rightarrow>
       (case graph_Key kp of
          None \<Rightarrow> None
        | Some ida \<Rightarrow>
          (case ResolveUnderscoreKey g ida obj of
             None \<Rightarrow> None
           | Some (Inl err) \<Rightarrow> Some None
           | Some (Inr (None, _)) \<Rightarrow> None
           | Some (Inr (Some a, ids)) \<Rightarrow>
             Some (Some (if parent_of g a \<noteq> None then object_AbsID g a @ [rDot] @ join_with [rDot] ids
               else join_with [rDot] ids)))))"

definition FindEdges ::
  "(rune \<Rightarrow> rune) \<Rightarrow> d2_graph \<Rightarrow> key \<Rightarrow> nat \<Rightarrow> graph_edge list option option" where
  "FindEdges sf g mk obj =
    (case k_edges mk of
       [ae] \<Rightarrow>
         (case k_edgeIndex mk of
            None \<Rightarrow> None
          | Some ei \<Rightarrow>
            if ei_int ei = None then Some None
            else case edge_end_text g (e_src ae) obj of
              None \<Rightarrow> None
            | Some None \<Rightarrow> Some None
            | Some (Some src) \<Rightarrow>
              (case edge_end_text g (e_dst ae) obj of
                 None \<Rightarrow> None
               | Some None \<Rightarrow> Some None
               | Some (Some dst) \<Rightarrow>
                 (let srcArrow = (e_srcArrow ae = runes ''<''); dstArrow = (e_dstArrow ae = runes ''>'')
                  in Some (Some (filter (\<lambda>e.
                    (EqualFold sf src (object_AbsID g (ed_Src e)) \<and> srcArrow = ed_SrcArrow e \<and>
                     EqualFold sf dst (object_AbsID g (ed_Dst e)) \<and> dstArrow = ed_DstArrow e) \<or>
                    (EqualFold sf src (object_AbsID g (ed_Dst e)) \<and> srcArrow = ed_DstArrow e \<and>
                     EqualFold sf dst (object_AbsID g (ed_Src e)) \<and> dstArrow = ed_SrcArrow e))
                    (gr_Edges g))))))
     | _ \<Rightarrow> Some None)"

definition HasEdge :: "(rune \<Rightarrow> rune) \<Rightarrow> d2_graph \<Rightarrow> key \<Rightarrow> nat \<Rightarrow> graph_edge option option" where
  "HasEdge sf g mk obj =
    (case FindEdges sf g mk obj of
       None \<Rightarrow> None
     | Some None \<Rightarrow> Some None
     | Some (Some ea) \<Rightarrow>
       Some (find (\<lambda>e. Some (ed_Index e) = Option.bind (k_edgeIndex mk) ei_int) ea))"

section \<open>Labels, near keys and sequence diagrams\<close>

definition HasOutsideBottomLabel :: "d2_graph \<Rightarrow> nat option \<Rightarrow> bool" where
  "HasOutsideBottomLabel g obj =
    (case obj of None \<Rightarrow> False | Some a \<Rightarrow> ob_Shape (object_at g a) \<in> {runes ''image'', runes ''person''})"

definition HasLabel :: "d2_graph \<Rightarrow> nat option \<Rightarrow> bool" where
  "HasLabel g obj =
    (case obj of
       None \<Rightarrow> False
     | Some a \<Rightarrow>
       if ob_Shape (object_at g a) \<in> {runes ''text'', runes ''class'', runes ''sql_table'', runes ''code''} then False
       else ob_Label (object_at g a) \<noteq> [])"

definition IsConstantNear :: "(rune \<Rightarrow> rune) \<Rightarrow> d2_graph \<Rightarrow> nat \<Rightarrow> bool option" where
  "IsConstantNear lo g a =
    (case ob_NearKey (object_at g a) of
       None \<Rightarrow> Some False
     | Some k \<Rightarrow>
       (case graph_Key k of
          None \<Rightarrow> None
        | Some keyPath \<Rightarrow>
          if HasChild lo g keyPath 0 \<noteq> None then Some False
          else (case keyPath of [] \<Rightarrow> None | c # _ \<Rightarrow> Some (c \<in> set NearConstantsArray))))"

text \<open>The loops of \<^verbatim>\<open>ContainedBy\<close> climb from the scope of a reference, as \<open>IsDescendantOf\<close> does.\<close>

definition scope_within :: "d2_graph \<Rightarrow> nat \<Rightarrow> nat option \<Rightarrow> bool" where
  "scope_within g obj scope = (case scope of None \<Rightarrow> False | Some c \<Rightarrow> IsDescendantOf g obj c)"

definition object_ContainedBy :: "d2_graph \<Rightarrow> nat \<Rightarrow> nat \<Rightarrow> bool" where
  "object_ContainedBy g a obj \<longleftrightarrow> list_ex (\<lambda>r. scope_within g obj (rf_ScopeObj r)) (ob_References (object_at g a))"

definition edge_ContainedBy :: "d2_graph \<Rightarrow> graph_edge \<Rightarrow> nat \<Rightarrow> bool" where
  "edge_ContainedBy g e obj \<longleftrightarrow> list_ex (scope_within g obj) (ed_Scopes e)"

definition ContainsAnyObject :: "d2_graph \<Rightarrow> nat list \<Rightarrow> nat \<Rightarrow> bool" where
  "ContainsAnyObject g objects obj \<longleftrightarrow> list_ex (\<lambda>a. object_ContainedBy g a obj) objects"

definition ContainsAnyEdge :: "d2_graph \<Rightarrow> graph_edge list \<Rightarrow> nat \<Rightarrow> bool" where
  "ContainsAnyEdge g edges obj \<longleftrightarrow> list_ex (\<lambda>e. edge_ContainedBy g e obj) edges"

definition hasEdgeRef :: "d2_graph \<Rightarrow> nat \<Rightarrow> bool" where
  "hasEdgeRef g a \<longleftrightarrow>
    list_ex (\<lambda>r. case rf_MapKey r of None \<Rightarrow> False | Some mk \<Rightarrow> 0 < length (k_edges mk)) (ob_References (object_at g a))"

definition IsSequenceDiagramGroup :: "d2_graph \<Rightarrow> nat \<Rightarrow> bool" where
  "IsSequenceDiagramGroup g a =
    (if OuterSequenceDiagram g a = None then False
     else if list_ex (\<lambda>e. ed_Src e = a \<or> ed_Dst e = a) (gr_Edges g) then False
     else if list_ex (\<lambda>ch. \<not> ContainsAnyEdge g (gr_Edges g) ch) (ob_ChildrenArray (object_at g a)) then False
     else ContainsAnyObject g (gr_Objects g) a \<or> ContainsAnyEdge g (gr_Edges g) a)"

definition IsSequenceDiagramNote :: "d2_graph \<Rightarrow> nat \<Rightarrow> bool" where
  "IsSequenceDiagramNote g a =
    (if OuterSequenceDiagram g a = None then False
     else \<not> hasEdgeRef g a \<and> \<not> ContainsAnyEdge g (gr_Edges g) a \<and>
       length (ob_ChildrenArray (object_at g a)) = 0 \<and> \<not> ContainsAnyObject g (gr_Objects g) a)"

definition GetGroup :: "d2_graph \<Rightarrow> graph_edge \<Rightarrow> nat option" where
  "GetGroup g e =
    (case find (\<lambda>scope. case scope of None \<Rightarrow> False | Some a \<Rightarrow> IsSequenceDiagramGroup g a) (ed_Scopes e) of
       None \<Rightarrow> None
     | Some scope \<Rightarrow> scope)"

end
