(* ===== verification/Graph_Invariant.thy ===== *)
theory Graph_Invariant
  imports Graph_Objects
begin

text \<open>
  What the operations of the graph keep: \<open>heap_ok\<close>, the consistency of the pointers between objects, \<open>names_ok\<close>, what the
  identifiers are, \<open>edges_ok\<close>, the ends and indices of the edges; and \<open>graph_grown\<close>, which relates a graph to a later one.
\<close>

section \<open>Invariants\<close>

definition heap_ok :: "(rune \<Rightarrow> rune) \<Rightarrow> d2_graph \<Rightarrow> bool" where
  "heap_ok lo g \<longleftrightarrow>
    gr_heap g \<noteq> [] \<and> ob_Parent (object_at g 0) = None \<and> ob_ID (object_at g 0) = [] \<and>
    (\<forall>a < length (gr_heap g). 0 < a \<longrightarrow> (\<exists>p < a. ob_Parent (object_at g a) = Some p)) \<and>
    (\<forall>p < length (gr_heap g). \<forall>k c. map_of (ob_Children (object_at g p)) k = Some c \<longleftrightarrow>
      c < length (gr_heap g) \<and> ob_Parent (object_at g c) = Some p \<and> k = ToLower lo (ob_ID (object_at g c))) \<and>
    (\<forall>p < length (gr_heap g). ob_ChildrenArray (object_at g p) =
      filter (\<lambda>c. ob_Parent (object_at g c) = Some p) [0..<length (gr_heap g)]) \<and>
    gr_Objects g = [1..<length (gr_heap g)]"

definition names_ok :: "d2_graph \<Rightarrow> bool" where
  "names_ok g \<longleftrightarrow>
    (\<forall>a < length (gr_heap g). 0 < a \<longrightarrow> (\<exists>s. FormatKeyPath [s] = Some (ob_ID (object_at g a)) \<and>
      blen (canon (string_ScalarString s)) \<le> 518 \<and> ob_IDVal (object_at g a) = canon (string_ScalarString s)))"

definition same_edge :: "graph_edge \<Rightarrow> graph_edge \<Rightarrow> bool" where
  "same_edge e2 e \<longleftrightarrow> IsEquivalent e2 (ed_Src e) (ed_SrcArrow e) (ed_Dst e) (ed_DstArrow e)"

definition edges_ok :: "d2_graph \<Rightarrow> bool" where
  "edges_ok g \<longleftrightarrow>
    (\<forall>i < length (gr_Edges g). ed_Src (gr_Edges g ! i) < length (gr_heap g) \<and>
      ed_Dst (gr_Edges g ! i) < length (gr_heap g) \<and>
      ed_Index (gr_Edges g ! i) = int (length (filter (\<lambda>e2. same_edge e2 (gr_Edges g ! i)) (take i (gr_Edges g)))))"

text \<open>An object as it is apart from its children.\<close>

definition kept :: "graph_object \<Rightarrow> graph_object" where
  "kept x = x\<lparr>ob_Children := [], ob_ChildrenArray := []\<rparr>"

definition graph_grown :: "d2_graph \<Rightarrow> d2_graph \<Rightarrow> bool" where
  "graph_grown g g' \<longleftrightarrow>
    length (gr_heap g) \<le> length (gr_heap g') \<and> gr_Edges g' = gr_Edges g \<and> gr_RootLevel g' = gr_RootLevel g \<and>
    (\<forall>a < length (gr_heap g). kept (object_at g' a) = kept (object_at g a) \<and>
      (\<forall>k c. map_of (ob_Children (object_at g a)) k = Some c \<longrightarrow>
        map_of (ob_Children (object_at g' a)) k = Some c)) \<and>
    (\<forall>a < length (gr_heap g'). length (gr_heap g) \<le> a \<longrightarrow> ob_Shape (object_at g' a) = [])"

lemma kept_fields:
  assumes "kept x = kept y"
  shows "ob_ID x = ob_ID y" and "ob_IDVal x = ob_IDVal y" and "ob_Parent x = ob_Parent y"
    and "ob_Shape x = ob_Shape y" and "ob_NearKey x = ob_NearKey y" and "ob_Columns x = ob_Columns y"
    and "ob_References x = ob_References y" and "ob_Label x = ob_Label y"
proof -
  have "ob_ID (kept x) = ob_ID (kept y)" "ob_IDVal (kept x) = ob_IDVal (kept y)"
    "ob_Parent (kept x) = ob_Parent (kept y)" "ob_Shape (kept x) = ob_Shape (kept y)"
    "ob_NearKey (kept x) = ob_NearKey (kept y)" "ob_Columns (kept x) = ob_Columns (kept y)"
    "ob_References (kept x) = ob_References (kept y)" "ob_Label (kept x) = ob_Label (kept y)"
    using assms by simp_all
  then show "ob_ID x = ob_ID y" "ob_IDVal x = ob_IDVal y" "ob_Parent x = ob_Parent y"
    "ob_Shape x = ob_Shape y" "ob_NearKey x = ob_NearKey y" "ob_Columns x = ob_Columns y"
    "ob_References x = ob_References y" "ob_Label x = ob_Label y"
    by (simp_all add: kept_def)
qed

lemma graph_grown_refl [simp]: "graph_grown g g"
  by (simp add: graph_grown_def)

lemma graph_grown_trans: "graph_grown f g \<Longrightarrow> graph_grown g h \<Longrightarrow> graph_grown f h"
  unfolding graph_grown_def by (smt (verit) kept_fields(4) le_trans less_le_trans not_le)

lemma heap_okD:
  assumes "heap_ok lo g"
  shows "gr_heap g \<noteq> []" and "ob_Parent (object_at g 0) = None" and "ob_ID (object_at g 0) = []"
    and "\<And>a. a < length (gr_heap g) \<Longrightarrow> 0 < a \<Longrightarrow> \<exists>p < a. ob_Parent (object_at g a) = Some p"
    and "\<And>p k c. p < length (gr_heap g) \<Longrightarrow> map_of (ob_Children (object_at g p)) k = Some c \<longleftrightarrow>
      c < length (gr_heap g) \<and> ob_Parent (object_at g c) = Some p \<and> k = ToLower lo (ob_ID (object_at g c))"
    and "\<And>p. p < length (gr_heap g) \<Longrightarrow> ob_ChildrenArray (object_at g p) =
      filter (\<lambda>c. ob_Parent (object_at g c) = Some p) [0..<length (gr_heap g)]"
    and "gr_Objects g = [1..<length (gr_heap g)]"
  using assms unfolding heap_ok_def by blast+

lemma heap_ok_parent:
  assumes "heap_ok lo g" and "a < length (gr_heap g)"
  shows "parent_of g a = ob_Parent (object_at g a)"
  using heap_okD(2,4) [OF assms(1)] assms(2) by (cases "a = 0") (fastforce simp: parent_of_def)+

lemma parent_cases:
  assumes "heap_ok lo g" and "a < length (gr_heap g)"
  obtains "a = 0" and "parent_of g a = None" | p where "p < a" and "parent_of g a = Some p" and "0 < a"
  using heap_okD(2,4) [OF assms(1)] heap_ok_parent [OF assms] assms(2) by (cases "a = 0") auto

section \<open>Creating an object\<close>

lemma format_one: "\<exists>t. FormatKeyPath [s] = Some t \<and> part t (canon (string_ScalarString s))"
proof -
  obtain ts where ts: "FormatKeyPath [s] = Some (join_with [rDot] ts)"
    "list_all2 part ts (map (canon \<circ> string_ScalarString) [s])"
    using FormatKeyPath_parts [of "[s]"] by blast
  then obtain t where "ts = [t]" "part t (canon (string_ScalarString s))"
    by (auto simp: list_all2_Cons2)
  with ts show ?thesis by auto
qed

lemma id_value_printed:
  assumes "FormatKeyPath [s] = Some t" and "blen (canon (string_ScalarString s)) \<le> 518"
  shows "id_value u t = Some (canon (string_ScalarString s))"
proof -
  have part: "list_all2 part [t] [canon (string_ScalarString s)]"
    using format_one [of s] assms(1) by auto
  obtain k where k: "ParseKey u t = Returned (Some k) None"
    "map string_ScalarString (kp_path k) = [canon (string_ScalarString s)]"
    using ParseKey_parts [OF part, of u] assms(2) by auto
  then show ?thesis
    by (cases "kp_path k") (auto simp: id_value_def)
qed

lemma newObject_eq:
  assumes "newObject u lo s a g = Some (g', c)"
  obtains t v where "FormatKeyPath [s] = Some t" and "id_value u t = Some v" and "c = length (gr_heap g)"
    and "g' = g\<lparr>gr_heap := (gr_heap g)[a := (object_at g a)\<lparr>
        ob_Children := (ToLower lo t, c) # ob_Children (object_at g a),
        ob_ChildrenArray := ob_ChildrenArray (object_at g a) @ [c]\<rparr>] @
      [root_object\<lparr>ob_ID := t, ob_IDVal := v, ob_Label := v, ob_Parent := Some a\<rparr>],
      gr_Objects := gr_Objects g @ [c]\<rparr>"
  using assms unfolding newObject_def Let_def by (auto split: option.splits)

lemma newObject_store:
  assumes "newObject u lo s a g = Some (g', c)" and "a < length (gr_heap g)"
  obtains t v where "FormatKeyPath [s] = Some t" and "id_value u t = Some v" and "c = length (gr_heap g)"
    and "length (gr_heap g') = Suc c" and "gr_Objects g' = gr_Objects g @ [c]" and "gr_Edges g' = gr_Edges g"
    and "gr_RootLevel g' = gr_RootLevel g"
    and "object_at g' c = root_object\<lparr>ob_ID := t, ob_IDVal := v, ob_Label := v, ob_Parent := Some a\<rparr>"
    and "object_at g' a = (object_at g a)\<lparr>ob_Children := (ToLower lo t, c) # ob_Children (object_at g a),
        ob_ChildrenArray := ob_ChildrenArray (object_at g a) @ [c]\<rparr>"
    and "\<And>b. b < c \<Longrightarrow> b \<noteq> a \<Longrightarrow> object_at g' b = object_at g b"
proof -
  obtain t v where "FormatKeyPath [s] = Some t" "id_value u t = Some v" "c = length (gr_heap g)"
    "g' = g\<lparr>gr_heap := (gr_heap g)[a := (object_at g a)\<lparr>
        ob_Children := (ToLower lo t, c) # ob_Children (object_at g a),
        ob_ChildrenArray := ob_ChildrenArray (object_at g a) @ [c]\<rparr>] @
      [root_object\<lparr>ob_ID := t, ob_IDVal := v, ob_Label := v, ob_Parent := Some a\<rparr>],
      gr_Objects := gr_Objects g @ [c]\<rparr>"
    using newObject_eq [OF assms(1)] by blast
  with that assms(2) show thesis by (simp add: nth_append)
qed

lemma newObject_grown:
  assumes "newObject u lo s a g = Some (g', c)" and "a < length (gr_heap g)"
    and "\<And>t. FormatKeyPath [s] = Some t \<Longrightarrow> map_of (ob_Children (object_at g a)) (ToLower lo t) = None"
  shows "graph_grown g g'"
proof -
  obtain t v where new: "FormatKeyPath [s] = Some t" "c = length (gr_heap g)" "length (gr_heap g') = Suc c"
    "gr_Edges g' = gr_Edges g" "gr_RootLevel g' = gr_RootLevel g"
    "object_at g' c = root_object\<lparr>ob_ID := t, ob_IDVal := v, ob_Label := v, ob_Parent := Some a\<rparr>"
    "object_at g' a = (object_at g a)\<lparr>ob_Children := (ToLower lo t, c) # ob_Children (object_at g a),
        ob_ChildrenArray := ob_ChildrenArray (object_at g a) @ [c]\<rparr>"
    "\<And>b. b < c \<Longrightarrow> b \<noteq> a \<Longrightarrow> object_at g' b = object_at g b"
    using newObject_store [OF assms(1,2)] by metis
  have "kept (object_at g' b) = kept (object_at g b) \<and>
      (\<forall>k d. map_of (ob_Children (object_at g b)) k = Some d \<longrightarrow>
        map_of (ob_Children (object_at g' b)) k = Some d)" if "b < c" for b
    using new(7) new(8) [OF that] assms(3) [OF new(1)] by (cases "b = a") (auto simp: kept_def)
  moreover have "ob_Shape (object_at g' b) = []" if "b < Suc c" "c \<le> b" for b
    using that new(6) by (auto simp: less_Suc_eq root_object_def)
  ultimately show ?thesis
    unfolding graph_grown_def using new(2-5) by simp
qed

lemma newObject_heap_ok:
  assumes "heap_ok lo g" and "newObject u lo s a g = Some (g', c)" and "a < length (gr_heap g)"
    and "\<And>t. FormatKeyPath [s] = Some t \<Longrightarrow> map_of (ob_Children (object_at g a)) (ToLower lo t) = None"
  shows "heap_ok lo g'"
proof -
  obtain t v where new: "FormatKeyPath [s] = Some t" "c = length (gr_heap g)" "length (gr_heap g') = Suc c"
    "gr_Objects g' = gr_Objects g @ [c]"
    and at_c: "object_at g' c = root_object\<lparr>ob_ID := t, ob_IDVal := v, ob_Label := v, ob_Parent := Some a\<rparr>"
    and at_a: "object_at g' a = (object_at g a)\<lparr>ob_Children := (ToLower lo t, c) # ob_Children (object_at g a),
        ob_ChildrenArray := ob_ChildrenArray (object_at g a) @ [c]\<rparr>"
    and old: "\<And>b. b < c \<Longrightarrow> b \<noteq> a \<Longrightarrow> object_at g' b = object_at g b"
    using newObject_store [OF assms(2,3)] by metis
  note ok = heap_okD [OF assms(1)]
  have ac: "a < c" using assms(3) new(2) by simp
  have par: "ob_Parent (object_at g' b) = ob_Parent (object_at g b)" "ob_ID (object_at g' b) = ob_ID (object_at g b)"
    if "b < c" for b
    using old [OF that] at_a by (cases "b = a"; simp)+
  have par_c: "ob_Parent (object_at g' c) = Some a" "ob_ID (object_at g' c) = t"
    using at_c by simp_all
  have pos: "0 < c" using ac by simp
  have less: "\<exists>p < b. ob_Parent (object_at g' b) = Some p" if "b < Suc c" "0 < b" for b
  proof (cases "b = c")
    case True
    then show ?thesis using par_c ac by simp
  next
    case False
    then have "b < c" using that by simp
    then show ?thesis using ok(4) [of b] par [of b] that new(2) by simp
  qed
  have children: "map_of (ob_Children (object_at g' p)) k = Some d \<longleftrightarrow>
      d < Suc c \<and> ob_Parent (object_at g' d) = Some p \<and> k = ToLower lo (ob_ID (object_at g' d))"
    if "p < Suc c" for p k d
  proof -
    have above: "\<not> (d < c \<and> ob_Parent (object_at g' d) = Some c)" for d
      using ok(2) ok(4) [of d] par(1) [of d] new(2) by (cases "d = 0") auto
    consider "p = c" | "p = a" | "p < c" "p \<noteq> a" using \<open>p < Suc c\<close> by (auto simp: less_Suc_eq)
    then show ?thesis
    proof cases
      case 1
      then show ?thesis using above [of d] at_c par_c ac by (auto simp: less_Suc_eq root_object_def)
    next
      case 2
      have fresh: "map_of (ob_Children (object_at g a)) (ToLower lo t) = None"
        using assms(4) [OF new(1)] .
      have "map_of (ob_Children (object_at g a)) k = Some d \<longleftrightarrow>
        d < c \<and> ob_Parent (object_at g' d) = Some a \<and> k = ToLower lo (ob_ID (object_at g' d))"
        using ok(5) [OF assms(3), of k d] new(2) par [of d] by auto
      moreover have "map_of (ob_Children (object_at g' a)) k =
          (if k = ToLower lo t then Some c else map_of (ob_Children (object_at g a)) k)"
        using at_a by auto
      ultimately show ?thesis
        using 2 fresh par_c ac new(2) by (cases "k = ToLower lo t"; cases "d = c") (auto simp: less_Suc_eq)
    next
      case 3
      have "map_of (ob_Children (object_at g p)) k = Some d \<longleftrightarrow>
        d < c \<and> ob_Parent (object_at g' d) = Some p \<and> k = ToLower lo (ob_ID (object_at g' d))"
        using ok(5) [of p k d] 3 new(2) par [of d] by auto
      then show ?thesis using old [OF 3] par_c 3 by (auto simp: less_Suc_eq)
    qed
  qed
  have below: "filter (\<lambda>d. ob_Parent (object_at g' d) = Some p) [0..<c] =
      filter (\<lambda>d. ob_Parent (object_at g d) = Some p) [0..<c]" for p
    using par(1) by (intro filter_cong) auto
  have array: "ob_ChildrenArray (object_at g' p) = filter (\<lambda>d. ob_Parent (object_at g' d) = Some p) [0..<Suc c]"
    if "p < Suc c" for p
  proof -
    have "filter (\<lambda>d. ob_Parent (object_at g d) = Some c) [0..<c] = []"
      using ok(2) ok(4) new(2) by (auto simp: filter_empty_conv) (metis less_asym neq0_conv option.distinct(1) option.inject)
    then show ?thesis
      using that below [of p] ok(6) [of p] new(2) par_c at_a at_c old [of p] ac
      by (cases "p = c"; cases "p = a") (auto simp: root_object_def less_Suc_eq)
  qed
  have ids: "gr_Objects g' = [1..<Suc c]" using new(2,4) ok(7) pos by (simp add: Suc_le_eq)
  show ?thesis
    unfolding heap_ok_def new(3)
    using ok(1-3) par [OF pos] less children array ids new(3) by fastforce
qed


definition short_name :: "string_node \<Rightarrow> bool" where
  "short_name s \<longleftrightarrow> blen (canon (string_ScalarString s)) \<le> 518"

lemma newObject_names_ok:
  assumes "names_ok g" and "newObject u lo s a g = Some (g', c)" and "a < length (gr_heap g)" and "short_name s"
  shows "names_ok g'"
proof -
  obtain t v where new: "FormatKeyPath [s] = Some t" "id_value u t = Some v" "c = length (gr_heap g)"
    "length (gr_heap g') = Suc c"
    and at_c: "object_at g' c = root_object\<lparr>ob_ID := t, ob_IDVal := v, ob_Label := v, ob_Parent := Some a\<rparr>"
    and at_a: "object_at g' a = (object_at g a)\<lparr>ob_Children := (ToLower lo t, c) # ob_Children (object_at g a),
        ob_ChildrenArray := ob_ChildrenArray (object_at g a) @ [c]\<rparr>"
    and old: "\<And>b. b < c \<Longrightarrow> b \<noteq> a \<Longrightarrow> object_at g' b = object_at g b"
    using newObject_store [OF assms(2,3)] by metis
  have v: "v = canon (string_ScalarString s)"
    using id_value_printed [OF new(1)] assms(4) new(2) by (simp add: short_name_def)
  have "\<exists>s. FormatKeyPath [s] = Some (ob_ID (object_at g' b)) \<and>
      blen (canon (string_ScalarString s)) \<le> 518 \<and> ob_IDVal (object_at g' b) = canon (string_ScalarString s)"
    if "b < Suc c" "0 < b" for b
  proof (cases "b = c")
    case True
    then show ?thesis using at_c new(1) v assms(4) by (auto simp: short_name_def)
  next
    case False
    then have "b < c" using that by simp
    then have "ob_ID (object_at g' b) = ob_ID (object_at g b)" "ob_IDVal (object_at g' b) = ob_IDVal (object_at g b)"
      using old at_a by (cases "b = a"; simp)+
    then show ?thesis using assms(1) \<open>b < c\<close> new(3) that(2) by (auto simp: names_ok_def)
  qed
  then show ?thesis using new(4) by (auto simp: names_ok_def)
qed

section \<open>Ensuring a path\<close>

definition obj_in :: "d2_graph \<Rightarrow> nat option \<Rightarrow> bool" where
  "obj_in g obj \<longleftrightarrow> (case obj of None \<Rightarrow> True | Some a \<Rightarrow> a < length (gr_heap g))"

lemma obj_in_simps [simp]: "obj_in g None" "obj_in g (Some a) \<longleftrightarrow> a < length (gr_heap g)"
  by (simp_all add: obj_in_def)

lemma obj_in_parent: "a < length (gr_heap g) \<Longrightarrow> obj_in g (parent_of g a)"
  by (cases "parent_of g a") (auto dest: parent_of_less)

lemma obj_in_grown: "obj_in g obj \<Longrightarrow> graph_grown g g' \<Longrightarrow> obj_in g' obj"
  by (cases obj) (auto simp: graph_grown_def)

lemma OuterSequenceDiagram_less: "OuterSequenceDiagram g a = Some p \<Longrightarrow> p < a \<and> IsSequenceDiagram g p"
proof (induction g a rule: OuterSequenceDiagram.induct)
  case (1 g a)
  from 1(2) show ?case
    by (subst (asm) OuterSequenceDiagram.simps)
      (auto split: option.splits if_splits dest: "1.IH" parent_of_less less_trans)
qed

lemma actor_scope_in: "actor_scope g ida obj = Some obj' \<Longrightarrow> obj_in g obj \<Longrightarrow> obj_in g obj'"
proof -
  assume scope: "actor_scope g ida obj = Some obj'" and obj: "obj_in g obj"
  have "obj' = obj \<or> (\<exists>a seq. obj = Some a \<and> OuterSequenceDiagram g a = Some seq \<and> obj' = Some seq)"
    using scope unfolding actor_scope_def by (auto split: option.splits if_splits list.splits)
  with obj show ?thesis by (auto dest: OuterSequenceDiagram_less)
qed

definition ensured :: "(rune \<Rightarrow> rune) \<Rightarrow> string_node list \<Rightarrow> d2_graph \<Rightarrow> d2_graph \<times> nat option \<Rightarrow> bool" where
  "ensured lo ida g r \<longleftrightarrow> heap_ok lo (fst r) \<and> graph_grown g (fst r) \<and> obj_in (fst r) (snd r) \<and>
    (names_ok g \<and> list_all short_name ida \<longrightarrow> names_ok (fst r))"

lemma EnsureChild_ensured:
  "EnsureChild u lo ida obj g = Some r \<Longrightarrow> heap_ok lo g \<Longrightarrow> obj_in g obj \<Longrightarrow> ensured lo ida g r"
proof (induction ida arbitrary: obj g r)
  case Nil
  then show ?case by (auto simp: ensured_def dest: actor_scope_in)
next
  case (Cons s ida)
  have weaken: "ensured lo ida g r \<Longrightarrow> ensured lo (s # ida) g r" for g
    by (auto simp: ensured_def)
  from Cons.prems(1) obtain obj' where scope: "actor_scope g (s # ida) obj = Some obj'"
    by (auto split: option.splits)
  have obj': "obj_in g obj'" using actor_scope_in [OF scope Cons.prems(3)] .
  consider (same) "r = (g, obj')"
    | (up) a where "obj' = Some a" "EnsureChild u lo ida (parent_of g a) g = Some r"
    | (known) a c t where "obj' = Some a" "FormatKeyPath [s] = Some t"
        "map_of (ob_Children (object_at g a)) (ToLower lo t) = Some c"
        "(if ida \<noteq> [] then EnsureChild u lo ida (Some c) g else Some (g, Some c)) = Some r"
    | (new) a t g1 c where "obj' = Some a" "FormatKeyPath [s] = Some t"
        "map_of (ob_Children (object_at g a)) (ToLower lo t) = None" "newObject u lo s a g = Some (g1, c)"
        "(if ida \<noteq> [] then EnsureChild u lo ida (Some c) g1 else Some (g1, Some c)) = Some r"
    using Cons.prems(1) scope by (auto split: option.splits if_splits)
  then show ?case
  proof cases
    case same
    then show ?thesis using Cons.prems(2) obj' by (simp add: ensured_def)
  next
    case up
    then show ?thesis using Cons.IH [OF up(2) Cons.prems(2)] obj' obj_in_parent weaken by simp
  next
    case known
    have "obj_in g (Some c)"
      using heap_okD(5) [OF Cons.prems(2)] known(1,3) obj' by auto
    then show ?thesis
      using known(4) Cons.IH [of "Some c" g r] Cons.prems(2) weaken by (auto simp: ensured_def split: if_splits)
  next
    case new
    have a: "a < length (gr_heap g)" using new(1) obj' by simp
    have fresh: "\<And>t. FormatKeyPath [s] = Some t \<Longrightarrow> map_of (ob_Children (object_at g a)) (ToLower lo t) = None"
      using new(2,3) by simp
    have "length (gr_heap g1) = Suc c" by (rule newObject_store [OF new(4) a]) simp
    then have g1: "heap_ok lo g1" "graph_grown g g1" "c < length (gr_heap g1)"
      using newObject_heap_ok [OF Cons.prems(2) new(4) a fresh] newObject_grown [OF new(4) a fresh] by simp_all
    have names: "names_ok g \<Longrightarrow> short_name s \<Longrightarrow> names_ok g1"
      using newObject_names_ok [OF _ new(4) a] .
    show ?thesis
    proof (cases "ida = []")
      case True
      then show ?thesis using new(5) g1 names by (auto simp: ensured_def)
    next
      case False
      then have "ensured lo ida g1 r" using new(5) Cons.IH [of "Some c" g1 r] g1 by simp
      then show ?thesis using g1 names graph_grown_trans [of g g1] by (auto simp: ensured_def)
    qed
  qed
qed

lemma ensureChildEdge_ensured:
  "ensureChildEdge u lo ida obj g = Some r \<Longrightarrow> heap_ok lo g \<Longrightarrow> obj_in g obj \<Longrightarrow> ensured lo ida g r"
proof (induction ida arbitrary: obj g r)
  case Nil
  then show ?case by (auto simp: ensured_def)
next
  case (Cons s ida)
  from Cons.prems(1) consider "r = (g, obj)"
    | g1 obj1 where "EnsureChild u lo [s] obj g = Some (g1, obj1)" "ensureChildEdge u lo ida obj1 g1 = Some r"
    by (auto simp del: EnsureChild.simps split: option.splits if_splits)
  then show ?case
  proof cases
    case 1
    then show ?thesis using Cons.prems by (simp add: ensured_def)
  next
    case 2
    have first: "ensured lo [s] g (g1, obj1)"
      using EnsureChild_ensured [OF 2(1) Cons.prems(2,3)] .
    then have "ensured lo ida g1 r"
      using Cons.IH [OF 2(2)] by (simp add: ensured_def)
    with first show ?thesis using graph_grown_trans [of g g1] by (auto simp: ensured_def)
  qed
qed

section \<open>Edges\<close>

lemma initIndex_eq:
  "initIndex g e = e\<lparr>ed_Index := ed_Index e + int (length (filter (\<lambda>e2. same_edge e2 e) (gr_Edges g)))\<rparr>"
proof -
  have "fold (\<lambda>e2 e. if IsEquivalent e2 (ed_Src e) (ed_SrcArrow e) (ed_Dst e) (ed_DstArrow e)
      then e\<lparr>ed_Index := ed_Index e + 1\<rparr> else e) es e =
    e\<lparr>ed_Index := ed_Index e + int (length (filter (\<lambda>e2. same_edge e2 e) es))\<rparr>" for es
    by (induction es arbitrary: e) (simp_all add: same_edge_def)
  then show ?thesis by (simp add: initIndex_def)
qed

lemma column_indices_keep:
  assumes "addSQLTableColumnIndices g srcID dstID obj e = Some e'"
  shows "ed_Src e' = ed_Src e" and "ed_SrcArrow e' = ed_SrcArrow e" and "ed_Dst e' = ed_Dst e"
    and "ed_DstArrow e' = ed_DstArrow e" and "ed_Index e' = ed_Index e" and "ed_Label e' = ed_Label e"
  using assms by (auto simp: addSQLTableColumnIndices_def split: option.splits if_splits)

lemma graph_grown_edges_ok: "edges_ok g \<Longrightarrow> graph_grown g g' \<Longrightarrow> edges_ok g'"
  by (auto simp: edges_ok_def graph_grown_def)

lemma edges_ok_snoc:
  assumes "edges_ok g" and "ed_Src e < length (gr_heap g)" and "ed_Dst e < length (gr_heap g)"
    and "ed_Index e = int (length (filter (\<lambda>e2. same_edge e2 e) (gr_Edges g)))"
  shows "edges_ok (g\<lparr>gr_Edges := gr_Edges g @ [e]\<rparr>)"
  using assms by (auto simp: edges_ok_def nth_append less_Suc_eq)


lemma Connect_ok:
  assumes "Connect u lo srcID dstID sa da label obj g = Some (g', Inr e)"
    and "heap_ok lo g" and "edges_ok g" and "obj < length (gr_heap g)"
  shows "heap_ok lo g'" and "edges_ok g'" and "gr_Edges g' = gr_Edges g @ [e]"
    and "names_ok g \<Longrightarrow> list_all short_name (srcID @ dstID) \<Longrightarrow> names_ok g'"
    and "ed_SrcArrow e = sa" and "ed_DstArrow e = da"
    and "ed_Src e < length (gr_heap g')" and "ed_Dst e < length (gr_heap g')"
proof -
  obtain g1 g2 s d e0 where g1: "ensureChildEdge u lo srcID (Some obj) g = Some (g1, Some s)"
    and g2: "ensureChildEdge u lo dstID (Some obj) g1 = Some (g2, Some d)"
    and e0: "e0 = initIndex g2 \<lparr>ed_Index = 0, ed_SrcTableColumnIndex = None, ed_DstTableColumnIndex = None,
      ed_Src = s, ed_SrcArrow = sa, ed_Dst = d, ed_DstArrow = da, ed_Label = label, ed_Scopes = []\<rparr>"
    and e: "addSQLTableColumnIndices g2 srcID dstID obj e0 = Some e"
    and g': "g' = g2\<lparr>gr_Edges := gr_Edges g2 @ [e]\<rparr>"
    using assms(1) by (auto simp: Connect_def Let_def split: option.splits if_splits)
  have 1: "ensured lo srcID g (g1, Some s)"
    using ensureChildEdge_ensured [OF g1 assms(2)] assms(4) by simp
  then have obj1: "obj_in g1 (Some obj)"
    using obj_in_grown [of g "Some obj" g1] assms(4) by (simp add: ensured_def)
  have 2: "ensured lo dstID g1 (g2, Some d)"
    using ensureChildEdge_ensured [OF g2 _ obj1] 1 by (simp add: ensured_def)
  have graph_grown: "graph_grown g g2" using 1 2 graph_grown_trans [of g g1 g2] by (simp add: ensured_def)
  have in2: "s < length (gr_heap g2)" "d < length (gr_heap g2)" "heap_ok lo g2"
    using 1 2 obj_in_grown [of g1 "Some s" g2] by (auto simp: ensured_def)
  note keep = column_indices_keep [OF e]
  have ends: "ed_Src e = s" "ed_Dst e = d" "ed_SrcArrow e = sa" "ed_DstArrow e = da"
    "ed_Index e = int (length (filter (\<lambda>e2. same_edge e2 e) (gr_Edges g2)))"
    unfolding keep e0 initIndex_eq by (simp_all add: same_edge_def keep e0 initIndex_eq)
  show "edges_ok g'"
    unfolding g' by (rule edges_ok_snoc) (use in2 ends graph_grown_edges_ok [OF assms(3) graph_grown] in simp_all)
  show "heap_ok lo g'" using in2(3) by (simp add: g' heap_ok_def)
  show "gr_Edges g' = gr_Edges g @ [e]" using graph_grown by (simp add: g' graph_grown_def)
  show "names_ok g'" if "names_ok g" "list_all short_name (srcID @ dstID)"
    using that 1 2 by (simp add: g' names_ok_def ensured_def)
  show "ed_SrcArrow e = sa" "ed_DstArrow e = da" using ends by simp_all
  show "ed_Src e < length (gr_heap g')" "ed_Dst e < length (gr_heap g')" using ends in2 g' by simp_all
qed

section \<open>Identifiers\<close>

lemma graph_grown_parent:
  assumes "graph_grown g g'" and "a < length (gr_heap g)"
  shows "parent_of g' a = parent_of g a" and "ob_ID (object_at g' a) = ob_ID (object_at g a)"
    and "ob_IDVal (object_at g' a) = ob_IDVal (object_at g a)"
proof -
  have "kept (object_at g' a) = kept (object_at g a)" using assms by (simp add: graph_grown_def)
  from kept_fields [OF this] show "parent_of g' a = parent_of g a"
    "ob_ID (object_at g' a) = ob_ID (object_at g a)" "ob_IDVal (object_at g' a) = ob_IDVal (object_at g a)"
    by (simp_all add: parent_of_def)
qed

lemma AbsIDArray_grown: "graph_grown g g' \<Longrightarrow> a < length (gr_heap g) \<Longrightarrow> AbsIDArray g' a = AbsIDArray g a"
proof (induction a rule: less_induct)
  case (less a)
  show ?case
  proof (cases "parent_of g a")
    case None
    then show ?thesis using graph_grown_parent [OF less.prems] by (simp add: AbsIDArray.simps [of _ a])
  next
    case (Some p)
    then have "AbsIDArray g' p = AbsIDArray g p"
      using less parent_of_less by (meson less_trans)
    then show ?thesis using graph_grown_parent [OF less.prems] Some by (simp add: AbsIDArray.simps [of _ a])
  qed
qed

text \<open>Reading an absolute identifier downwards, one map of children after the other.\<close>

fun descend :: "d2_graph \<Rightarrow> gostr list \<Rightarrow> nat \<Rightarrow> nat option" where
  "descend g [] a = Some a"
| "descend g (k # ks) a =
    (case map_of (ob_Children (object_at g a)) k of None \<Rightarrow> None | Some c \<Rightarrow> descend g ks c)"

lemma descend_append: "descend g (ks @ ls) a = Option.bind (descend g ks a) (descend g ls)"
  by (induction ks arbitrary: a) (auto split: option.splits)

lemma descend_AbsIDArray:
  assumes "heap_ok lo g"
  shows "a < length (gr_heap g) \<Longrightarrow> descend g (map (ToLower lo) (AbsIDArray g a)) 0 = Some a"
proof (induction a rule: less_induct)
  case (less a)
  show ?case
  proof (cases rule: parent_cases [OF assms less.prems])
    case 1
    then show ?thesis by (simp add: AbsIDArray.simps [of _ 0])
  next
    case (2 p)
    then have p: "p < length (gr_heap g)" using less_trans [OF 2(1) less.prems] by simp
    have "map_of (ob_Children (object_at g p)) (ToLower lo (ob_ID (object_at g a))) = Some a"
      using heap_okD(5) [OF assms p] less.prems 2(2) heap_ok_parent [OF assms less.prems] by auto
    then show ?thesis
      using less.IH [OF 2(1) p] 2(2) by (simp add: AbsIDArray.simps [of _ a] descend_append)
  qed
qed

lemma AbsIDArray_inj:
  assumes "heap_ok lo g" and "a < length (gr_heap g)" and "b < length (gr_heap g)"
    and "map (ToLower lo) (AbsIDArray g a) = map (ToLower lo) (AbsIDArray g b)"
  shows "a = b"
  using descend_AbsIDArray [OF assms(1,2)] descend_AbsIDArray [OF assms(1,3)] assms(4)
  by (metis option.inject)

lemma HasChild_descend:
  assumes "ids = [] \<or> last ids = runes ''style'' \<or> \<not> is_reserved (last ids)"
  shows "HasChild lo g ids a = descend g (map (ToLower lo) ids) a"
  using assms by (induction ids arbitrary: a) (auto split: option.splits)

text \<open>The printed identifier as the parts of the objects on the way from the root.\<close>

lemma names_okD:
  assumes "names_ok g" and "a < length (gr_heap g)" and "0 < a"
  shows "part (ob_ID (object_at g a)) (ob_IDVal (object_at g a))" and "blen (ob_IDVal (object_at g a)) \<le> 518"
    and "ob_ID (object_at g a) \<noteq> []"
proof -
  obtain s where s: "FormatKeyPath [s] = Some (ob_ID (object_at g a))"
    "blen (canon (string_ScalarString s)) \<le> 518" "ob_IDVal (object_at g a) = canon (string_ScalarString s)"
    using assms by (auto simp: names_ok_def)
  then show "part (ob_ID (object_at g a)) (ob_IDVal (object_at g a))" "blen (ob_IDVal (object_at g a)) \<le> 518"
    using format_one [of s] by auto
  then show "ob_ID (object_at g a) \<noteq> []" using partD(1) by blast
qed

function abs_values :: "d2_graph \<Rightarrow> nat \<Rightarrow> gostr list" where
  "abs_values g a =
    (case parent_of g a of None \<Rightarrow> [] | Some p \<Rightarrow> abs_values g p @ [ob_IDVal (object_at g a)])"
  by auto
termination by (relation "measure snd") auto

declare abs_values.simps [simp del]

lemma join_snoc: "xs \<noteq> [] \<Longrightarrow> join_with d (xs @ [x]) = join_with d xs @ d @ x"
  by (induction xs) (auto simp: join_Cons)

lemma AbsID_parts:
  assumes "heap_ok lo g" and "names_ok g"
  shows "a < length (gr_heap g) \<Longrightarrow> object_AbsID g a = join_with [rDot] (AbsIDArray g a) \<and>
    list_all2 part (AbsIDArray g a) (abs_values g a) \<and> list_all (\<lambda>v. blen v \<le> 518) (abs_values g a) \<and>
    (0 < a \<longrightarrow> AbsIDArray g a \<noteq> [])"
proof (induction a rule: less_induct)
  case (less a)
  show ?case
  proof (cases rule: parent_cases [OF assms(1) less.prems])
    case 1
    then show ?thesis
      using heap_okD(3) [OF assms(1)]
      by (simp add: AbsIDArray.simps [of _ 0] abs_values.simps [of _ 0] object_AbsID.simps [of _ 0])
  next
    case (2 p)
    then have p: "p < length (gr_heap g)" using less_trans [OF 2(1) less.prems] by simp
    note IH = less.IH [OF 2(1) p] and name = names_okD [OF assms(2) less.prems 2(3)]
    have root: "ob_ID (object_at g p) = [] \<longleftrightarrow> p = 0"
      using names_okD(3) [OF assms(2) p] heap_okD(3) [OF assms(1)] by (cases "p = 0") auto
    have "AbsIDArray g p = [] \<longleftrightarrow> p = 0"
      using IH heap_okD(2) [OF assms(1)] by (cases "p = 0") (auto simp: AbsIDArray.simps [of _ 0] parent_of_def)
    then show ?thesis
      using IH name 2(2) root
      by (cases "p = 0")
        (auto simp: AbsIDArray.simps [of _ a] abs_values.simps [of _ a] object_AbsID.simps [of _ a] join_snoc
          list_all2_appendI)
  qed
qed

end
