(* ===== verification/Graph_Paths.thy ===== *)
theory Graph_Paths
  imports Graph_Invariant Parser_Entry
begin

text \<open>
  What the paths of a graph mean: \<open>EnsureChild\<close> on a plain path reaches one object, which \<open>HasChild\<close> and a second
  \<open>EnsureChild\<close> find again, and \<open>ResolveUnderscoreKey\<close> climbs one parent for each leading underscore.
\<close>

section \<open>Plain paths\<close>

definition no_sequence :: "d2_graph \<Rightarrow> bool" where
  "no_sequence g \<longleftrightarrow> (\<forall>a < length (gr_heap g). \<not> IsSequenceDiagram g a)"

definition plain_path :: "string_node list \<Rightarrow> bool" where
  "plain_path ida \<longleftrightarrow> ida \<noteq> [] \<and> (\<forall>s \<in> set ida. IsUnquoted s \<longrightarrow> string_ScalarString s \<noteq> runes ''_'') \<and>
    (IsUnquoted (last ida) \<longrightarrow> \<not> is_reserved (string_ScalarString (last ida)) \<or>
      string_ScalarString (last ida) \<in> set ReservedKeywordHolders)"

definition printed_id :: "string_node \<Rightarrow> gostr" where
  "printed_id s = the (FormatKeyPath [s])"

lemma FormatKeyPath_one: "FormatKeyPath [s] = Some (printed_id s)"
  using format_one [of s] by (auto simp: printed_id_def)

lemma id_value_total: "id_value u t \<noteq> None"
  using parse_string_with_total [OF steps_at_steps [OF steps_parseKey [of "{}"]], of u t]
  by (auto simp: id_value_def ParseKey_def split: option.splits)

lemma newObject_total: "\<exists>g' c. newObject u lo s a g = Some (g', c)"
  using id_value_total [of u "printed_id s"] by (auto simp: newObject_def FormatKeyPath_one Let_def)

lemma no_sequence_grown:
  assumes "no_sequence g" and "graph_grown g g'"
  shows "no_sequence g'"
  unfolding no_sequence_def IsSequenceDiagram_def
proof (intro allI impI)
  fix a assume a: "a < length (gr_heap g')"
  show "ob_Shape (object_at g' a) \<noteq> runes ''sequence_diagram''"
  proof (cases "a < length (gr_heap g)")
    case True
    then have k: "kept (object_at g' a) = kept (object_at g a)" using assms(2) by (simp add: graph_grown_def)
    show ?thesis
      using kept_fields(4) [OF k] assms(1) True by (simp add: no_sequence_def IsSequenceDiagram_def)
  next
    case False
    then have "ob_Shape (object_at g' a) = []" using assms(2) a by (simp add: graph_grown_def)
    then show ?thesis by simp
  qed
qed

lemma no_sequence_outer: "no_sequence g \<Longrightarrow> a < length (gr_heap g) \<Longrightarrow> OuterSequenceDiagram g a = None"
  using OuterSequenceDiagram_less [of g a] less_trans
  by (cases "OuterSequenceDiagram g a") (auto simp: no_sequence_def)

lemma no_sequence_scope:
  "no_sequence g \<Longrightarrow> a < length (gr_heap g) \<Longrightarrow> actor_scope g ida (Some a) = Some (Some a)"
  by (simp add: actor_scope_def no_sequence_outer)

lemma descend_in:
  assumes "heap_ok lo g"
  shows "descend g ks a = Some c \<Longrightarrow> a < length (gr_heap g) \<Longrightarrow> c < length (gr_heap g)"
  by (induction ks arbitrary: a) (use heap_okD(5) [OF assms] in \<open>auto split: option.splits\<close>)

lemma descend_grown:
  assumes "heap_ok lo g" and "graph_grown g g'"
  shows "descend g ks a = Some c \<Longrightarrow> a < length (gr_heap g) \<Longrightarrow> descend g' ks a = Some c"
proof (induction ks arbitrary: a)
  case (Cons k ks)
  then obtain d where d: "map_of (ob_Children (object_at g a)) k = Some d" "descend g ks d = Some c"
    by (auto split: option.splits)
  then have "d < length (gr_heap g)" using heap_okD(5) [OF assms(1) Cons.prems(2)] by simp
  moreover have "map_of (ob_Children (object_at g' a)) k = Some d"
    using assms(2) d(1) Cons.prems(2) by (simp add: graph_grown_def)
  ultimately show ?case using Cons.IH [OF d(2)] by simp
qed simp

lemma descend_ids:
  assumes "heap_ok lo g"
  shows "descend g ks a = Some c \<Longrightarrow> a < length (gr_heap g) \<Longrightarrow>
    map (ToLower lo) (AbsIDArray g c) = map (ToLower lo) (AbsIDArray g a) @ ks"
proof (induction ks arbitrary: a)
  case (Cons k ks)
  then obtain d where d: "map_of (ob_Children (object_at g a)) k = Some d" "descend g ks d = Some c"
    by (auto split: option.splits)
  then have "d < length (gr_heap g)" "ob_Parent (object_at g d) = Some a" "k = ToLower lo (ob_ID (object_at g d))"
    using heap_okD(5) [OF assms Cons.prems(2)] by simp_all
  moreover then have "parent_of g d = Some a" using heap_ok_parent [OF assms] by simp
  ultimately show ?case using Cons.IH [OF d(2)] by (simp add: AbsIDArray.simps [of _ d])
qed simp

lemma plain_path_tl: "plain_path (s # ida) \<Longrightarrow> ida \<noteq> [] \<Longrightarrow> plain_path ida"
  by (auto simp: plain_path_def)

lemma EnsureChild_step:
  assumes "no_sequence g" and "a < length (gr_heap g)" and "plain_path (s # ida)"
  shows "EnsureChild u lo (s # ida) (Some a) g =
    (case map_of (ob_Children (object_at g a)) (ToLower lo (printed_id s)) of
       Some c \<Rightarrow> if ida \<noteq> [] then EnsureChild u lo ida (Some c) g else Some (g, Some c)
     | None \<Rightarrow>
       (case newObject u lo s a g of
          None \<Rightarrow> None
        | Some (g', c) \<Rightarrow> if ida \<noteq> [] then EnsureChild u lo ida (Some c) g' else Some (g', Some c)))"
  using assms(3) by (auto simp: no_sequence_scope [OF assms(1,2)] FormatKeyPath_one plain_path_def)

declare EnsureChild.simps [simp del]

abbreviation lowered_ids :: "(rune \<Rightarrow> rune) \<Rightarrow> string_node list \<Rightarrow> gostr list" where
  "lowered_ids lo ida \<equiv> map (\<lambda>s. ToLower lo (printed_id s)) ida"

text \<open>A path whose objects exist is found and nothing changes; the others are created on the way.\<close>

lemma EnsureChild_known:
  assumes "heap_ok lo g" and "no_sequence g"
  shows "plain_path ida \<Longrightarrow> a < length (gr_heap g) \<Longrightarrow> descend g (lowered_ids lo ida) a = Some c \<Longrightarrow>
    EnsureChild u lo ida (Some a) g = Some (g, Some c)"
proof (induction ida arbitrary: a)
  case (Cons s ida)
  then obtain d where d: "map_of (ob_Children (object_at g a)) (ToLower lo (printed_id s)) = Some d"
    "descend g (lowered_ids lo ida) d = Some c"
    by (auto split: option.splits)
  then have "d < length (gr_heap g)" using heap_okD(5) [OF assms(1) Cons.prems(2)] by simp
  then show ?case
    using Cons.IH [of d] plain_path_tl [OF Cons.prems(1)] d
    unfolding EnsureChild_step [OF assms(2) Cons.prems(2,1)] by (cases "ida = []") simp_all
qed (simp add: plain_path_def)

lemma EnsureChild_reaches:
  "heap_ok lo g \<Longrightarrow> no_sequence g \<Longrightarrow> plain_path ida \<Longrightarrow> a < length (gr_heap g) \<Longrightarrow>
    \<exists>g' c. EnsureChild u lo ida (Some a) g = Some (g', Some c) \<and> descend g' (lowered_ids lo ida) a = Some c"
proof (induction ida arbitrary: a g)
  case (Cons s ida)
  note step = EnsureChild_step [OF Cons.prems(2,4,3), of u lo]
  show ?case
  proof (cases "map_of (ob_Children (object_at g a)) (ToLower lo (printed_id s))")
    case (Some d)
    then have d: "d < length (gr_heap g)" using heap_okD(5) [OF Cons.prems(1,4)] by simp
    show ?thesis
    proof (cases "ida = []")
      case True
      then show ?thesis using step Some by simp
    next
      case False
      then obtain g' c where g': "EnsureChild u lo ida (Some d) g = Some (g', Some c)"
        "descend g' (lowered_ids lo ida) d = Some c"
        using Cons.IH [OF Cons.prems(1,2) plain_path_tl [OF Cons.prems(3)] d] by blast
      moreover have "graph_grown g g'"
        using EnsureChild_ensured [OF g'(1) Cons.prems(1)] d by (simp add: ensured_def)
      then have "map_of (ob_Children (object_at g' a)) (ToLower lo (printed_id s)) = Some d"
        using Some Cons.prems(4) by (simp add: graph_grown_def)
      ultimately show ?thesis using step Some False by simp
    qed
  next
    case None
    obtain g1 d where new: "newObject u lo s a g = Some (g1, d)" using newObject_total by blast
    have fresh: "\<And>t. FormatKeyPath [s] = Some t \<Longrightarrow> map_of (ob_Children (object_at g a)) (ToLower lo t) = None"
      using None FormatKeyPath_one [of s] by simp
    have g1: "heap_ok lo g1" "graph_grown g g1"
      using newObject_heap_ok [OF Cons.prems(1) new Cons.prems(4) fresh]
        newObject_grown [OF new Cons.prems(4) fresh] by simp_all
    obtain t where t: "FormatKeyPath [s] = Some t" "length (gr_heap g1) = Suc d" "d = length (gr_heap g)"
      "ob_Children (object_at g1 a) = (ToLower lo t, d) # ob_Children (object_at g a)"
      by (rule newObject_store [OF new Cons.prems(4)]) simp
    have found: "map_of (ob_Children (object_at g1 a)) (ToLower lo (printed_id s)) = Some d"
      using t(1,4) FormatKeyPath_one [of s] by simp
    show ?thesis
    proof (cases "ida = []")
      case True
      then show ?thesis using step None new found by simp
    next
      case False
      have d: "d < length (gr_heap g1)" using t(2) by simp
      obtain g' c where g': "EnsureChild u lo ida (Some d) g1 = Some (g', Some c)"
        "descend g' (lowered_ids lo ida) d = Some c"
        using Cons.IH [OF g1(1) no_sequence_grown [OF Cons.prems(2) g1(2)] plain_path_tl [OF Cons.prems(3)] d] False
        by blast
      moreover have "graph_grown g1 g'"
        using EnsureChild_ensured [OF g'(1) g1(1)] d by (simp add: ensured_def)
      then have "map_of (ob_Children (object_at g' a)) (ToLower lo (printed_id s)) = Some d"
        using found Cons.prems(4) t(2,3) by (simp add: graph_grown_def)
      ultimately show ?thesis using step None new False by simp
    qed
  qed
qed (simp add: plain_path_def)

section \<open>Underscores\<close>

primrec climb :: "d2_graph \<Rightarrow> nat \<Rightarrow> nat option \<Rightarrow> nat option" where
  "climb g 0 obj = obj"
| "climb g (Suc k) obj = (case obj of None \<Rightarrow> None | Some a \<Rightarrow> climb g k (parent_of g a))"

lemma climb_None [simp]: "climb g k None = None"
  by (cases k) simp_all

lemma resolve_after_name:
  "p \<noteq> runes ''_'' \<Longrightarrow> resolve_underscores g (Some p) xs obj ids =
    (if runes ''_'' \<in> set xs
     then Some (Inl (runes ''parent \"_\" can only be used in the beginning of paths, e.g. \"_.x\"''))
     else Some (Inr (obj, ids)))"
proof (induction xs arbitrary: p)
  case (Cons x xs)
  then show ?case by (cases "x = runes ''_''") auto
qed simp

lemma resolve_leading:
  assumes "heap_ok lo g" and "prev = None \<or> prev = Some (runes ''_'')" and "a < length (gr_heap g)"
  shows "resolve_underscores g prev xs (Some a) xs \<noteq> None \<and>
    (resolve_underscores g prev xs (Some a) xs = Some (Inr (r, ids)) \<longleftrightarrow>
      (\<exists>k. xs = replicate k (runes ''_'') @ ids \<and> runes ''_'' \<notin> set ids \<and> (0 < k \<longrightarrow> ids \<noteq> []) \<and>
        r = climb g k (Some a) \<and> r \<noteq> None))"
  using assms(2,3)
proof (induction xs arbitrary: prev a)
  case Nil
  then show ?case by auto
next
  case (Cons x xs)
  show ?case
  proof (cases "x = runes ''_''")
    case False
    then have whole: "x # xs = replicate k (runes ''_'') @ ids \<longleftrightarrow> k = 0 \<and> x # xs = ids" for k
      by (cases k) (auto simp del: runes.simps)
    have alone: "(\<exists>k. x # xs = replicate k (runes ''_'') @ ids \<and> runes ''_'' \<notin> set ids \<and> (0 < k \<longrightarrow> ids \<noteq> []) \<and>
        r = climb g k (Some a) \<and> r \<noteq> None) \<longleftrightarrow> ids = x # xs \<and> runes ''_'' \<notin> set xs \<and> r = Some a"
      unfolding whole using False by (auto simp del: runes.simps)
    have step: "resolve_underscores g prev (x # xs) (Some a) (x # xs) =
      (if runes ''_'' \<in> set xs
       then Some (Inl (runes ''parent \"_\" can only be used in the beginning of paths, e.g. \"_.x\"''))
       else Some (Inr (Some a, x # xs)))"
      using False resolve_after_name [OF False, of g xs] by simp
    show ?thesis unfolding alone step by (simp del: runes.simps) blast
  next
    case True
    have pull: "(\<exists>k. x # xs = replicate k (runes ''_'') @ ids \<and> runes ''_'' \<notin> set ids \<and> (0 < k \<longrightarrow> ids \<noteq> []) \<and>
        r = climb g k (Some a) \<and> r \<noteq> None) \<longleftrightarrow>
      (\<exists>j. xs = replicate j (runes ''_'') @ ids \<and> runes ''_'' \<notin> set ids \<and> ids \<noteq> [] \<and>
        r = climb g j (parent_of g a) \<and> r \<noteq> None)" (is "?L \<longleftrightarrow> ?R")
    proof
      assume ?L
      then obtain k where k: "x # xs = replicate k (runes ''_'') @ ids" "runes ''_'' \<notin> set ids"
        "0 < k \<longrightarrow> ids \<noteq> []" "r = climb g k (Some a)" "r \<noteq> None" by blast
      then obtain j where "k = Suc j" using True by (cases k) (auto simp del: runes.simps)
      with k show ?R by (intro exI [of _ j]) (simp del: runes.simps)
    next
      assume ?R
      then obtain j where "xs = replicate j (runes ''_'') @ ids \<and> runes ''_'' \<notin> set ids \<and> ids \<noteq> [] \<and>
        r = climb g j (parent_of g a) \<and> r \<noteq> None" by blast
      then show ?L using True by (intro exI [of _ "Suc j"]) (auto simp del: runes.simps)
    qed
    show ?thesis
    proof (cases rule: parent_cases [OF assms(1) Cons.prems(2)])
      case 1
      then show ?thesis unfolding pull using True Cons.prems(1) by (auto simp del: runes.simps)
    next
      case (2 p)
      have p: "p < length (gr_heap g)" using less_trans [OF 2(1) Cons.prems(2)] .
      show ?thesis
      proof (cases "xs = []")
        case True
        then show ?thesis unfolding pull using \<open>x = runes ''_''\<close> Cons.prems(1) 2(3) by (auto simp del: runes.simps)
      next
        case False
        have step: "resolve_underscores g prev (x # xs) (Some a) (x # xs) =
          resolve_underscores g (Some (runes ''_'')) xs (Some p) xs"
          using True False Cons.prems(1) 2(2,3) by (auto simp del: runes.simps)
        have "ids \<noteq> []" if "xs = replicate 0 (runes ''_'') @ ids" using that False by simp
        then have "(\<exists>j. xs = replicate j (runes ''_'') @ ids \<and> runes ''_'' \<notin> set ids \<and> ids \<noteq> [] \<and>
            r = climb g j (Some p) \<and> r \<noteq> None) \<longleftrightarrow>
          (\<exists>k. xs = replicate k (runes ''_'') @ ids \<and> runes ''_'' \<notin> set ids \<and> (0 < k \<longrightarrow> ids \<noteq> []) \<and>
            r = climb g k (Some p) \<and> r \<noteq> None)"
          by (metis gr0I)
        then show ?thesis
          unfolding pull step 2(2) using Cons.IH [OF _ p, of "Some (runes ''_'')"] by (simp del: runes.simps)
      qed
    qed
  qed
qed


section \<open>Reachable graphs\<close>

text \<open>
  The graphs that start as \<open>NewGraph\<close> and change by \<open>EnsureChild\<close> and \<open>Connect\<close> from any object, with names the parser
  accepts, and by assignments to the attributes and references of an object, as the compiler makes them.
\<close>

inductive graph_reach :: "unicode_tables \<Rightarrow> (rune \<Rightarrow> rune) \<Rightarrow> d2_graph \<Rightarrow> bool" for u lo where
  start: "graph_reach u lo (NewGraph\<lparr>gr_RootLevel := n\<rparr>)"
| ensure: "graph_reach u lo g \<Longrightarrow> a < length (gr_heap g) \<Longrightarrow> list_all short_name ida \<Longrightarrow>
    EnsureChild u lo ida (Some a) g = Some (g', r) \<Longrightarrow> graph_reach u lo g'"
| connect: "graph_reach u lo g \<Longrightarrow> a < length (gr_heap g) \<Longrightarrow> list_all short_name (srcID @ dstID) \<Longrightarrow>
    Connect u lo srcID dstID sa da label a g = Some (g', Inr e) \<Longrightarrow> graph_reach u lo g'"
| assign: "graph_reach u lo g \<Longrightarrow> a < length (gr_heap g) \<Longrightarrow>
    graph_reach u lo (g\<lparr>gr_heap := (gr_heap g)[a := (object_at g a)\<lparr>ob_Label := l, ob_Shape := sh, ob_NearKey := near,
      ob_Columns := cols, ob_References := refs\<rparr>]\<rparr>)"

lemma NewGraph_ok: "heap_ok lo (NewGraph\<lparr>gr_RootLevel := n\<rparr>)" "names_ok (NewGraph\<lparr>gr_RootLevel := n\<rparr>)"
  "edges_ok (NewGraph\<lparr>gr_RootLevel := n\<rparr>)"
  by (auto simp: heap_ok_def names_ok_def edges_ok_def NewGraph_def root_object_def)

lemma assign_ok:
  assumes "a < length (gr_heap g)"
    and g': "g' = g\<lparr>gr_heap := (gr_heap g)[a := (object_at g a)\<lparr>ob_Label := l, ob_Shape := sh, ob_NearKey := near,
      ob_Columns := cols, ob_References := refs\<rparr>]\<rparr>"
  shows "heap_ok lo g \<Longrightarrow> heap_ok lo g'" and "names_ok g \<Longrightarrow> names_ok g'" and "edges_ok g \<Longrightarrow> edges_ok g'"
proof -
  have len: "length (gr_heap g') = length (gr_heap g)" "gr_Edges g' = gr_Edges g" "gr_Objects g' = gr_Objects g"
    by (simp_all add: g')
  have same: "ob_ID (object_at g' b) = ob_ID (object_at g b)" "ob_IDVal (object_at g' b) = ob_IDVal (object_at g b)"
    "ob_Parent (object_at g' b) = ob_Parent (object_at g b)" "ob_Children (object_at g' b) = ob_Children (object_at g b)"
    "ob_ChildrenArray (object_at g' b) = ob_ChildrenArray (object_at g b)" for b
    using assms(1) by (cases "b = a"; simp add: g')+
  have "gr_heap g' = [] \<longleftrightarrow> gr_heap g = []" using len(1) by (metis length_0_conv)
  then show "heap_ok lo g'" if "heap_ok lo g"
    using that by (simp add: heap_ok_def same len)
  show "names_ok g'" if "names_ok g" using that by (simp add: names_ok_def same len)
  show "edges_ok g'" if "edges_ok g" using that by (simp add: edges_ok_def len)
qed

lemma graph_reach_ok: "graph_reach u lo g \<Longrightarrow> heap_ok lo g \<and> names_ok g \<and> edges_ok g"
proof (induction rule: graph_reach.induct)
  case (start n)
  then show ?case by (simp add: NewGraph_ok)
next
  case (ensure g a ida g' r)
  then have "ensured lo ida g (g', r)"
    using EnsureChild_ensured [of u lo ida "Some a" g "(g', r)"] by simp
  with ensure show ?case using graph_grown_edges_ok [of g g'] by (simp add: ensured_def)
next
  case (connect g a srcID dstID sa da label g' e)
  then show ?case using Connect_ok [OF connect.hyps(4)] by blast
next
  case (assign g a l sh near cols refs)
  then show ?case using assign_ok [OF assign.hyps(2) refl] by blast
qed

lemma same_edge_sym: "same_edge e f \<Longrightarrow> same_edge f e"
  by (auto simp: same_edge_def IsEquivalent_def split: if_splits)

lemma same_edge_trans: "same_edge e f \<Longrightarrow> same_edge f h \<Longrightarrow> same_edge e h"
  by (auto simp: same_edge_def IsEquivalent_def split: if_splits)

lemma same_edge_refl: "same_edge e e"
  by (simp add: same_edge_def IsEquivalent_def)

lemma edge_index_less:
  assumes "edges_ok g" and "i < j" and "j < length (gr_Edges g)" and "same_edge (gr_Edges g ! i) (gr_Edges g ! j)"
  shows "ed_Index (gr_Edges g ! i) < ed_Index (gr_Edges g ! j)"
proof -
  let ?E = "gr_Edges g"
  have same: "filter (\<lambda>e2. same_edge e2 (?E ! i)) xs = filter (\<lambda>e2. same_edge e2 (?E ! j)) xs" for xs
    using assms(4) same_edge_sym same_edge_trans by (intro filter_cong) blast+
  have "take j ?E = take i ?E @ ?E ! i # drop (Suc i) (take j ?E)"
    using id_take_nth_drop [of i "take j ?E"] assms(2,3) by (simp add: min_absorb1)
  then have "length (filter (\<lambda>e2. same_edge e2 (?E ! j)) (take j ?E)) =
      length (filter (\<lambda>e2. same_edge e2 (?E ! j))
        (take i ?E @ ?E ! i # drop (Suc i) (take j ?E)))"
    by (rule arg_cong)
  also have "\<dots> > length (filter (\<lambda>e2. same_edge e2 (?E ! j)) (take i ?E))"
    using assms(4) by simp
  finally show ?thesis
    using assms(1,2,3) by (simp add: edges_ok_def same)
qed

end
