(* ===== verification/Graph_Properties.thy ===== *)
theory Graph_Properties
  imports Graph_Paths "HOL-Library.Code_Target_Nat" "HOL-Library.Code_Target_Int"
begin

text \<open>The properties of the graph of objects (\<^verbatim>\<open>d2graph\<close>), on the graphs that \<open>graph_reach\<close> builds.\<close>

section \<open>A graph for the concrete instances\<close>

definition graph_tables :: unicode_tables where
  "graph_tables = \<lparr>uni_letter = \<lambda>_. False, uni_digit = \<lambda>_. False\<rparr>"

definition ab_path :: "string_node list" where
  "ab_path = [FlatUnquotedString (runes ''a''), FlatUnquotedString (runes ''B c'')]"

text \<open>\<open>NewGraph\<close> with the objects \<^verbatim>\<open>a\<close> and \<^verbatim>\<open>a.B c\<close>, and twice the edge between them.\<close>

definition ab_graph :: d2_graph where
  "ab_graph = (case EnsureChild graph_tables lower_rune ab_path (Some 0) (NewGraph\<lparr>gr_RootLevel := 0\<rparr>) of
     Some (g, _) \<Rightarrow> g | None \<Rightarrow> NewGraph)"

definition ab_edges :: d2_graph where
  "ab_edges =
    (case Connect graph_tables lower_rune (take 1 ab_path) ab_path False True [] 0 ab_graph of
       Some (g, Inr e) \<Rightarrow>
         (case Connect graph_tables lower_rune ab_path (take 1 ab_path) True False [] 0 g of
            Some (g', Inr e') \<Rightarrow> g' | _ \<Rightarrow> NewGraph)
     | _ \<Rightarrow> NewGraph)"

definition up_ids :: "gostr list" where
  "up_ids = [runes ''_'', runes ''x'']"

lemma ab_values:
  "list_all short_name ab_path" "plain_path ab_path"
  "map_option snd (EnsureChild graph_tables lower_rune ab_path (Some 0) (NewGraph\<lparr>gr_RootLevel := 0\<rparr>)) = Some (Some 2)"
  "length (gr_heap ab_graph) = 3" "AbsIDArray ab_graph 2 = [runes ''a'', runes ''B c'']"
  "object_AbsID ab_graph 2 = runes ''a.B c''" "map printed_id ab_path = [runes ''a'', runes ''B c'']"
  "\<not> is_reserved (runes ''B c'')"
  by code_simp+

lemma ab_edges_value:
  "map ed_Index (gr_Edges ab_edges) = [0, 1] \<and> length (gr_heap ab_edges) = 3"
  by code_simp

lemma ab_graph_reach: "graph_reach graph_tables lower_rune ab_graph"
proof -
  obtain g r where g: "EnsureChild graph_tables lower_rune ab_path (Some 0) (NewGraph\<lparr>gr_RootLevel := 0\<rparr>) = Some (g, r)"
    using ab_values(3) by auto
  have "graph_reach graph_tables lower_rune g"
    by (rule graph_reach.ensure [OF graph_reach.start [of _ _ 0] _ ab_values(1) g]) (simp add: NewGraph_def)
  then show ?thesis using g by (simp add: ab_graph_def)
qed

lemma ab_edges_reach: "graph_reach graph_tables lower_rune ab_edges"
proof -
  have "gr_Edges NewGraph = []" by (simp add: NewGraph_def)
  then obtain g e g' e' where g: "Connect graph_tables lower_rune (take 1 ab_path) ab_path False True [] 0 ab_graph = Some (g, Inr e)"
    and g': "Connect graph_tables lower_rune ab_path (take 1 ab_path) True False [] 0 g = Some (g', Inr e')"
    using ab_edges_value by (auto simp: ab_edges_def split: option.splits sum.splits)
  have short: "list_all short_name (take 1 ab_path)" using ab_values(1) by (simp add: ab_path_def)
  have 1: "graph_reach graph_tables lower_rune g"
    by (rule graph_reach.connect [OF ab_graph_reach _ _ g]) (use ab_values short in simp_all)
  then have "0 < length (gr_heap g)" using graph_reach_ok heap_okD(1) by blast
  then have "graph_reach graph_tables lower_rune g'"
    by (intro graph_reach.connect [OF 1 _ _ g']) (use ab_values short in simp_all)
  then show ?thesis using g g' by (simp add: ab_edges_def)
qed

section \<open>The properties\<close>

text \<open>
  C5. Every graph built by \<^verbatim>\<open>EnsureChild\<close>, \<^verbatim>\<open>Connect\<close> and assignments to attributes is well formed: only the root has no
  parent, the map of children of an object holds exactly its children under their lower case IDs, its array lists them
  in the order of creation, \<^verbatim>\<open>Objects\<close> lists all objects but the root, the ends of edges are objects, and the index of an
  edge is the number of earlier edges between the same ends with the same arrows.
\<close>

theorem graph_well_formed:
  assumes "graph_reach u lo g"
  shows "heap_ok lo g \<and> edges_ok g"
  using graph_reach_ok [OF assms] by simp_all

theorem graph_well_formed_witness:
  "heap_ok lower_rune ab_edges \<and> edges_ok ab_edges \<and> map ed_Index (gr_Edges ab_edges) = [0, 1]"
  using graph_well_formed [OF ab_edges_reach] ab_edges_value by simp

text \<open>
  C9. \<^verbatim>\<open>EnsureChild\<close> reaches one object: outside of sequence diagrams, for a path without underscores that does not end in
  a keyword, it returns an object without a panic; its absolute identifier is that of the receiver and the printed
  names, up to case; the graph only grows; and asking again returns the same object and changes nothing.
\<close>

theorem EnsureChild_found:
  assumes "graph_reach u lo g" and "no_sequence g" and "plain_path ida" and "a < length (gr_heap g)"
  shows "\<exists>g' c. EnsureChild u lo ida (Some a) g = Some (g', Some c) \<and> graph_grown g g' \<and>
    map (ToLower lo) (AbsIDArray g' c) = map (ToLower lo) (AbsIDArray g a @ map printed_id ida) \<and>
    EnsureChild u lo ida (Some a) g' = Some (g', Some c)"
proof -
  have ok: "heap_ok lo g" using graph_reach_ok [OF assms(1)] by simp
  obtain g' c where r: "EnsureChild u lo ida (Some a) g = Some (g', Some c)"
    "descend g' (lowered_ids lo ida) a = Some c"
    using EnsureChild_reaches [OF ok assms(2-4)] by blast
  then have g': "heap_ok lo g'" "graph_grown g g'"
    using EnsureChild_ensured [OF r(1) ok] assms(4) by (simp_all add: ensured_def)
  then have a: "a < length (gr_heap g')" using assms(4) by (simp add: graph_grown_def)
  have "map (ToLower lo) (AbsIDArray g' c) = map (ToLower lo) (AbsIDArray g a @ map printed_id ida)"
    using descend_ids [OF g'(1) r(2) a] AbsIDArray_grown [OF g'(2) assms(4)] by simp
  moreover have "EnsureChild u lo ida (Some a) g' = Some (g', Some c)"
    using EnsureChild_known [OF g'(1) no_sequence_grown [OF assms(2) g'(2)] assms(3) a r(2)] .
  ultimately show ?thesis using r(1) g'(2) by blast
qed

theorem EnsureChild_found_witness:
  "\<exists>g' c. EnsureChild graph_tables lower_rune ab_path (Some 0) (NewGraph\<lparr>gr_RootLevel := 0\<rparr>) = Some (g', Some c) \<and>
    map (ToLower lower_rune) (AbsIDArray g' c) = [runes ''a'', runes ''b c'']"
proof -
  have low: "map (ToLower lower_rune) [runes ''a'', runes ''B c''] = [runes ''a'', runes ''b c'']" by code_simp
  have "no_sequence (NewGraph\<lparr>gr_RootLevel := 0\<rparr>)"
    by (simp add: no_sequence_def NewGraph_def IsSequenceDiagram_def root_object_def)
  moreover have "AbsIDArray (NewGraph\<lparr>gr_RootLevel := 0\<rparr>) 0 = []" by code_simp
  ultimately show ?thesis
    using EnsureChild_found [OF graph_reach.start [of graph_tables lower_rune 0] _ ab_values(2), of 0] ab_values(7) low
    by (auto simp: NewGraph_def simp del: runes.simps)
qed

text \<open>
  C19. Identifiers identify: two objects of a graph with the same absolute identifier up to case are one object, and
  \<^verbatim>\<open>HasChild\<close> finds an object from the root by its absolute identifier, unless that ends in a keyword other than \<^verbatim>\<open>style\<close>.
\<close>

theorem identifiers_identify:
  assumes "graph_reach u lo g" and "a < length (gr_heap g)" and "b < length (gr_heap g)"
  shows "(map (ToLower lo) (AbsIDArray g a) = map (ToLower lo) (AbsIDArray g b) \<longleftrightarrow> a = b) \<and>
    (0 < a \<and> (ob_ID (object_at g a) = runes ''style'' \<or> \<not> is_reserved (ob_ID (object_at g a))) \<longrightarrow>
      HasChild lo g (AbsIDArray g a) 0 = Some a)"
proof (intro conjI impI)
  have ok: "heap_ok lo g" using graph_reach_ok [OF assms(1)] by simp
  show "map (ToLower lo) (AbsIDArray g a) = map (ToLower lo) (AbsIDArray g b) \<longleftrightarrow> a = b"
    using AbsIDArray_inj [OF ok assms(2,3)] by blast
  assume name: "0 < a \<and> (ob_ID (object_at g a) = runes ''style'' \<or> \<not> is_reserved (ob_ID (object_at g a)))"
  obtain p where "parent_of g a = Some p"
    using name by (cases rule: parent_cases [OF ok assms(2)]) auto
  then have "last (AbsIDArray g a) = ob_ID (object_at g a)" by (simp add: AbsIDArray.simps [of _ a])
  then show "HasChild lo g (AbsIDArray g a) 0 = Some a"
    using HasChild_descend [of "AbsIDArray g a" lo g 0] name descend_AbsIDArray [OF ok assms(2)] by simp
qed

theorem identifiers_identify_witness:
  "HasChild lower_rune ab_graph [runes ''a'', runes ''B c''] 0 = Some 2"
proof -
  have id2: "ob_ID (object_at ab_graph 2) = runes ''B c''" by code_simp
  show ?thesis
    using identifiers_identify [OF ab_graph_reach, of 2 2] ab_values(4,5,8) id2 by simp
qed

text \<open>
  C7. The absolute identifier of an object is a key path: \<^verbatim>\<open>ParseKey\<close> reads it without an error, and its parts are the
  names (\<^verbatim>\<open>IDVal\<close>) of the objects from the root down.
\<close>

theorem AbsID_parses:
  assumes "graph_reach u lo g" and "a < length (gr_heap g)" and "0 < a"
  shows "\<exists>k. ParseKey u (object_AbsID g a) = Returned (Some k) None \<and>
    map string_ScalarString (kp_path k) = abs_values g a"
proof -
  have "heap_ok lo g" "names_ok g" using graph_reach_ok [OF assms(1)] by simp_all
  note parts = AbsID_parts [OF this assms(2)]
  show ?thesis using ParseKey_parts [of "AbsIDArray g a" "abs_values g a" u] parts assms(3) by simp
qed

theorem AbsID_parses_witness:
  "\<exists>k. ParseKey graph_tables (runes ''a.B c'') = Returned (Some k) None \<and>
    map string_ScalarString (kp_path k) = [runes ''a'', runes ''B c'']"
proof -
  have "abs_values ab_graph 2 = [runes ''a'', runes ''B c'']" by code_simp
  then show ?thesis using AbsID_parses [OF ab_graph_reach, of 2] ab_values(4,6) by simp
qed

text \<open>
  The index tells equivalent edges apart: of two edges of a graph that join the same objects with the same arrows, in
  either direction, the later one has the greater index.
\<close>

theorem edge_indices_increase:
  assumes "graph_reach u lo g" and "i < j" and "j < length (gr_Edges g)"
    and "IsEquivalent (gr_Edges g ! i) (ed_Src (gr_Edges g ! j)) (ed_SrcArrow (gr_Edges g ! j))
      (ed_Dst (gr_Edges g ! j)) (ed_DstArrow (gr_Edges g ! j))"
  shows "ed_Index (gr_Edges g ! i) < ed_Index (gr_Edges g ! j)"
  using edge_index_less [of g i j] graph_reach_ok [OF assms(1)] assms(2-4) by (simp add: same_edge_def)

theorem edge_indices_increase_witness:
  "ed_Index (gr_Edges ab_edges ! 0) < ed_Index (gr_Edges ab_edges ! 1)"
proof (rule edge_indices_increase [OF ab_edges_reach])
  show "1 < length (gr_Edges ab_edges)" using ab_edges_value by (cases "gr_Edges ab_edges") auto
  show "IsEquivalent (gr_Edges ab_edges ! 0) (ed_Src (gr_Edges ab_edges ! 1)) (ed_SrcArrow (gr_Edges ab_edges ! 1))
    (ed_Dst (gr_Edges ab_edges ! 1)) (ed_DstArrow (gr_Edges ab_edges ! 1))"
    by code_simp
qed simp

text \<open>
  C18. \<^verbatim>\<open>ResolveUnderscoreKey\<close> climbs: it never panics, and it returns an object and a path exactly when the path is some
  underscores followed by names, at least one if there is an underscore, and the scope has that many parents; then the
  object is the one so many parents up. Every other path is an error.
\<close>

definition key_scope :: "d2_graph \<Rightarrow> gostr list \<Rightarrow> nat \<Rightarrow> nat" where
  "key_scope g ida obj =
    (case ida of
       [] \<Rightarrow> obj
     | ident # _ \<Rightarrow>
       if IsSequenceDiagram g obj then obj
       else case OuterSequenceDiagram g obj of
         None \<Rightarrow> obj
       | Some sd \<Rightarrow>
         if list_ex (\<lambda>c. ob_ID (object_at g c) = ident) (ob_ChildrenArray (object_at g sd)) then sd else obj)"

theorem underscores_climb:
  assumes "graph_reach u lo g" and "obj < length (gr_heap g)"
  shows "ResolveUnderscoreKey g ida obj \<noteq> None \<and>
    (ResolveUnderscoreKey g ida obj = Some (Inr (r, ids)) \<longleftrightarrow>
      (\<exists>k. ida = replicate k (runes ''_'') @ ids \<and> runes ''_'' \<notin> set ids \<and> (k = 0 \<or> ids \<noteq> []) \<and>
        r = climb g k (Some (key_scope g ida obj)) \<and> r \<noteq> None))"
proof -
  have ok: "heap_ok lo g" using graph_reach_ok [OF assms(1)] by simp
  have "key_scope g ida obj < length (gr_heap g)"
    using assms(2) OuterSequenceDiagram_less [of g obj] less_trans
    by (auto simp: key_scope_def split: list.splits option.splits)
  moreover have "ResolveUnderscoreKey g ida obj = resolve_underscores g None ida (Some (key_scope g ida obj)) ida"
    by (cases ida) (simp_all add: ResolveUnderscoreKey_def key_scope_def Let_def)
  ultimately show ?thesis
    using resolve_leading [OF ok, of None "key_scope g ida obj" ida r ids] by (simp del: runes.simps) blast
qed

theorem underscores_climb_witness:
  "ResolveUnderscoreKey ab_graph up_ids 2 = Some (Inr (Some 1, [runes ''x'']))"
proof -
  have "climb ab_graph 1 (Some (key_scope ab_graph up_ids 2)) = Some 1" by code_simp
  moreover have "up_ids = replicate 1 (runes ''_'') @ [runes ''x'']" "runes ''_'' \<notin> set [runes ''x'']"
    by code_simp+
  ultimately show ?thesis
    using underscores_climb [OF ab_graph_reach, of 2 up_ids "Some 1" "[runes ''x'']"] ab_values(4)
    by (metis list.discI numeral_2_eq_2 numeral_3_eq_3 lessI option.discI)
qed

text \<open>
  Inside a sequence diagram \<^verbatim>\<open>EnsureChild\<close> reads \<^verbatim>\<open>ida[0]\<close> before it tests that \<open>ida\<close> is not empty: an underscore as the
  whole path panics there.
\<close>

definition sequence_graph :: d2_graph where
  "sequence_graph = ab_graph\<lparr>gr_heap := (gr_heap ab_graph)[0 := (object_at ab_graph 0)\<lparr>ob_Shape := runes ''sequence_diagram''\<rparr>]\<rparr>"

lemma EnsureChild_empty_panics:
  "EnsureChild graph_tables lower_rune [] (Some 1) sequence_graph = None"
  "EnsureChild graph_tables lower_rune [FlatUnquotedString (runes ''_'')] (Some 2) sequence_graph = None"
  "EnsureChild graph_tables lower_rune [] (Some 1) ab_graph \<noteq> None"
  by code_simp+

end
