(* ===== verification/Net_Policy.thy ===== *)
theory Net_Policy
  imports Ir_Pattern "HOL-Library.Word"
begin

text \<open>
  The network policy of HTTP clients that fetch untrusted resources (\<^verbatim>\<open>lib/netpolicy/netpolicy.go\<close>): which addresses
  are public, the resolution of a host, the dialer of a public-only client, and what the client keeps of the caller's
  transport. An address of \<^verbatim>\<open>net/netip\<close> is a word with, for IPv6, its zone, and the methods the code calls are those
  the documentation of the package defines. The resolver, the parser of literal addresses and of \<^verbatim>\<open>host:port\<close>, and the
  dial function are parameters; \<open>ctx n\<close> is the error of the context after \<open>n + 1\<close> failed dials.
\<close>

unbundle bit_operations_syntax

section \<open>Addresses\<close>

datatype ip_addr = NoAddr | Addr4 "32 word" | Addr6 "128 word" gostr

definition v4_byte :: "32 word \<Rightarrow> nat \<Rightarrow> 32 word" where
  "v4_byte w i = drop_bit (8 * (3 - i)) w AND 0xff"

definition v6_u16 :: "128 word \<Rightarrow> 128 word" where
  "v6_u16 w = drop_bit 112 w"

definition v6_byte :: "128 word \<Rightarrow> 128 word" where
  "v6_byte w = drop_bit 120 w"

fun Is4In6 :: "ip_addr \<Rightarrow> bool" where
  "Is4In6 (Addr6 w z) \<longleftrightarrow> drop_bit 32 w = 0xffff"
| "Is4In6 a \<longleftrightarrow> False"

fun Unmap :: "ip_addr \<Rightarrow> ip_addr" where
  "Unmap (Addr6 w z) = (if Is4In6 (Addr6 w z) then Addr4 (ucast w) else Addr6 w z)"
| "Unmap a = a"

fun ip_Zone :: "ip_addr \<Rightarrow> gostr" where
  "ip_Zone (Addr6 w z) = z"
| "ip_Zone a = []"

fun IsUnspecified :: "ip_addr \<Rightarrow> bool" where
  "IsUnspecified (Addr4 w) \<longleftrightarrow> w = 0"
| "IsUnspecified (Addr6 w z) \<longleftrightarrow> w = 0 \<and> z = []"
| "IsUnspecified NoAddr \<longleftrightarrow> False"

definition IsLoopback :: "ip_addr \<Rightarrow> bool" where
  "IsLoopback a \<longleftrightarrow>
    (case Unmap a of
       Addr4 w \<Rightarrow> v4_byte w 0 = 127
     | Addr6 w z \<Rightarrow> w = 1
     | NoAddr \<Rightarrow> False)"

definition IsMulticast :: "ip_addr \<Rightarrow> bool" where
  "IsMulticast a \<longleftrightarrow>
    (case Unmap a of
       Addr4 w \<Rightarrow> v4_byte w 0 AND 0xf0 = 0xe0
     | Addr6 w z \<Rightarrow> v6_byte w = 0xff
     | NoAddr \<Rightarrow> False)"

definition IsLinkLocalUnicast :: "ip_addr \<Rightarrow> bool" where
  "IsLinkLocalUnicast a \<longleftrightarrow>
    (case Unmap a of
       Addr4 w \<Rightarrow> v4_byte w 0 = 169 \<and> v4_byte w 1 = 254
     | Addr6 w z \<Rightarrow> v6_u16 w AND 0xffc0 = 0xfe80
     | NoAddr \<Rightarrow> False)"

definition IsLinkLocalMulticast :: "ip_addr \<Rightarrow> bool" where
  "IsLinkLocalMulticast a \<longleftrightarrow>
    (case Unmap a of
       Addr4 w \<Rightarrow> v4_byte w 0 = 224 \<and> v4_byte w 1 = 0 \<and> v4_byte w 2 = 0
     | Addr6 w z \<Rightarrow> v6_u16 w AND 0xff0f = 0xff02
     | NoAddr \<Rightarrow> False)"

definition IsPrivate :: "ip_addr \<Rightarrow> bool" where
  "IsPrivate a \<longleftrightarrow>
    (case Unmap a of
       Addr4 w \<Rightarrow> v4_byte w 0 = 10 \<or> (v4_byte w 0 = 172 \<and> v4_byte w 1 AND 0xf0 = 16) \<or>
         (v4_byte w 0 = 192 \<and> v4_byte w 1 = 168)
     | Addr6 w z \<Rightarrow> v6_byte w AND 0xfe = 0xfc
     | NoAddr \<Rightarrow> False)"

definition IsGlobalUnicast :: "ip_addr \<Rightarrow> bool" where
  "IsGlobalUnicast a \<longleftrightarrow>
    (case Unmap a of
       NoAddr \<Rightarrow> False
     | Addr4 w \<Rightarrow> w \<noteq> 0 \<and> w \<noteq> 0xffffffff \<and> \<not> IsLoopback (Addr4 w) \<and> \<not> IsMulticast (Addr4 w) \<and>
         \<not> IsLinkLocalUnicast (Addr4 w)
     | Addr6 w z \<Rightarrow> \<not> IsUnspecified (Addr6 w z) \<and> \<not> IsLoopback (Addr6 w z) \<and> \<not> IsMulticast (Addr6 w z) \<and>
         \<not> IsLinkLocalUnicast (Addr6 w z))"

datatype ip_prefix = Prefix4 "32 word" nat | Prefix6 "128 word" nat

text \<open>\<^verbatim>\<open>Prefix.Contains\<close>: the address is of the prefix's family, has no zone, and agrees on the bits of the prefix.\<close>

fun prefix_Contains :: "ip_prefix \<Rightarrow> ip_addr \<Rightarrow> bool" where
  "prefix_Contains (Prefix4 p bits) (Addr4 w) \<longleftrightarrow> drop_bit (32 - bits) (w XOR p) = 0"
| "prefix_Contains (Prefix6 p bits) (Addr6 w z) \<longleftrightarrow> z = [] \<and> drop_bit (128 - bits) (w XOR p) = 0"
| "prefix_Contains p a \<longleftrightarrow> False"

definition ip4 :: "int \<Rightarrow> int \<Rightarrow> int \<Rightarrow> int \<Rightarrow> 32 word" where
  "ip4 a b c d = word_of_int (((a * 256 + b) * 256 + c) * 256 + d)"

text \<open>The first four groups of an IPv6 address; the others are zero in every prefix of the list.\<close>

definition ip6 :: "int \<Rightarrow> int \<Rightarrow> int \<Rightarrow> int \<Rightarrow> 128 word" where
  "ip6 a b c d = word_of_int ((((a * 65536 + b) * 65536 + c) * 65536 + d) * 2 ^ 64)"

definition nonPublicPrefixes :: "ip_prefix list" where
  "nonPublicPrefixes =
    [Prefix4 (ip4 0 0 0 0) 8,
     Prefix4 (ip4 100 64 0 0) 10,
     Prefix4 (ip4 168 63 129 16) 32,
     Prefix4 (ip4 192 0 0 0) 24,
     Prefix4 (ip4 192 0 2 0) 24,
     Prefix4 (ip4 192 88 99 0) 24,
     Prefix4 (ip4 198 18 0 0) 15,
     Prefix4 (ip4 198 51 100 0) 24,
     Prefix4 (ip4 203 0 113 0) 24,
     Prefix4 (ip4 240 0 0 0) 4,
     Prefix6 (ip6 0 0 0 0) 96,
     Prefix6 (ip6 0x64 0xff9b 0 0) 96,
     Prefix6 (ip6 0x64 0xff9b 1 0) 48,
     Prefix6 (ip6 0x100 0 0 0) 64,
     Prefix6 (ip6 0x2001 0 0 0) 23,
     Prefix6 (ip6 0x2001 0xdb8 0 0) 32,
     Prefix6 (ip6 0x2002 0 0 0) 16,
     Prefix6 (ip6 0x3fff 0 0 0) 20,
     Prefix6 (ip6 0x5f00 0 0 0) 16,
     Prefix6 (ip6 0xfec0 0 0 0) 10]"

definition isPublicAddress :: "ip_addr \<Rightarrow> bool" where
  "isPublicAddress address =
    (if address = NoAddr \<or> ip_Zone address \<noteq> [] \<or> \<not> IsGlobalUnicast address \<or>
       IsUnspecified address \<or> IsLoopback address \<or> IsPrivate address \<or>
       IsLinkLocalUnicast address \<or> IsLinkLocalMulticast address \<or> IsMulticast address then False
     else \<not> list_ex (\<lambda>prefix. prefix_Contains prefix address) nonPublicPrefixes)"

section \<open>Resolving a host\<close>

datatype 'e net_error =
    ErrBlockedAddress
  | NetMessage gostr
  | NetWrapped gostr "'e net_error"
  | NetExternal 'e
  | NetJoined "'e net_error list"

definition trim_suffix :: "gostr \<Rightarrow> gostr \<Rightarrow> gostr" where
  "trim_suffix s suf = (if has_suffix suf s then take (length s - length suf) s else s)"

definition isLocalHostname :: "gostr \<Rightarrow> bool" where
  "isLocalHostname host =
    (let host = to_lower host in
     host = runes ''localhost'' \<or> has_suffix (runes ''.localhost'') host \<or>
     host = runes ''metadata.google.internal'' \<or> has_suffix (runes ''.metadata.google.internal'') host \<or>
     host = runes ''metadata.goog'' \<or> has_suffix (runes ''.metadata.goog'') host \<or>
     host = runes ''metadata.azure.internal'' \<or> has_suffix (runes ''.metadata.azure.internal'') host \<or>
     host = runes ''instance-data.ec2.internal'' \<or> has_suffix (runes ''.instance-data.ec2.internal'') host)"

text \<open>The loop over the answers: \<open>seen\<close> is the set of those taken, \<open>unique\<close> the list built so far.\<close>

fun validate_answers :: "ip_addr list \<Rightarrow> ip_addr list \<Rightarrow> ip_addr list \<Rightarrow> 'e net_error + ip_addr list" where
  "validate_answers seen unique [] = Inr unique"
| "validate_answers seen unique (address # addresses) =
    (if \<not> isPublicAddress (Unmap address) then Inl ErrBlockedAddress
     else if Unmap address \<in> set seen then validate_answers seen unique addresses
     else validate_answers (Unmap address # seen) (unique @ [Unmap address]) addresses)"

definition resolvePublicAddresses ::
  "(gostr \<Rightarrow> ip_addr option) \<Rightarrow> (gostr \<Rightarrow> gostr \<Rightarrow> 'e net_error + ip_addr list) \<Rightarrow> gostr \<Rightarrow> gostr \<Rightarrow>
    'e net_error + ip_addr list"
where
  "resolvePublicAddresses parse lookup network host =
    (let host = trim_suffix host (runes ''.'') in
     if isLocalHostname host then Inl ErrBlockedAddress
     else
       (case (case parse host of
                Some literal \<Rightarrow> Inr [literal]
              | None \<Rightarrow>
                lookup (if has_suffix (runes ''4'') network then runes ''ip4''
                  else if has_suffix (runes ''6'') network then runes ''ip6'' else runes ''ip'') host) of
          Inl err \<Rightarrow> Inl err
        | Inr addresses \<Rightarrow>
          if addresses = [] then Inl (NetMessage (runes ''network policy: destination resolved to no addresses''))
          else validate_answers [] [] addresses))"

section \<open>Dialing\<close>

text \<open>The result of a dialer, and the addresses it connected to, in order.\<close>

type_synonym ('e, 'c) dialed = "('e net_error + 'c) \<times> ip_addr list"

fun dial_each ::
  "(nat \<Rightarrow> 'e net_error option) \<Rightarrow> (gostr \<Rightarrow> ip_addr \<Rightarrow> gostr \<Rightarrow> 'e net_error + 'c) \<Rightarrow> gostr \<Rightarrow> gostr \<Rightarrow>
    'e net_error list \<Rightarrow> ip_addr list \<Rightarrow> ('e, 'c) dialed"
where
  "dial_each ctx dial network port dialErrors [] = (Inl (NetJoined dialErrors), [])"
| "dial_each ctx dial network port dialErrors (resolved # addresses) =
    (case dial network resolved port of
       Inr conn \<Rightarrow> (Inr conn, [resolved])
     | Inl err \<Rightarrow>
       (case ctx (length dialErrors) of
          Some cause \<Rightarrow> (Inl cause, [resolved])
        | None \<Rightarrow>
          (case dial_each ctx dial network port (dialErrors @ [err]) addresses of
             (result, dials) \<Rightarrow> (result, resolved # dials))))"

definition validatedDialContext ::
  "(gostr \<Rightarrow> 'e net_error + gostr \<times> gostr) \<Rightarrow> (gostr \<Rightarrow> ip_addr option) \<Rightarrow>
    (gostr \<Rightarrow> gostr \<Rightarrow> 'e net_error + ip_addr list) \<Rightarrow>
    (gostr \<Rightarrow> ip_addr \<Rightarrow> gostr \<Rightarrow> 'e net_error + 'c) \<Rightarrow> (nat \<Rightarrow> 'e net_error option) \<Rightarrow> gostr \<Rightarrow> gostr \<Rightarrow> ('e, 'c) dialed"
where
  "validatedDialContext split parse lookup dial ctx network address =
    (case split address of
       Inl err \<Rightarrow> (Inl (NetWrapped (runes ''network policy could not parse destination: '') err), [])
     | Inr (host, port) \<Rightarrow>
       (case resolvePublicAddresses parse lookup network host of
          Inl err \<Rightarrow> (Inl err, [])
        | Inr addresses \<Rightarrow> dial_each ctx dial network port [] addresses))"

section \<open>The client\<close>

text \<open>The hooks of \<^verbatim>\<open>http.Transport\<close> the policy clears, and the rest of its configuration.\<close>

record ('d, 'h, 'o) http_transport =
  tr_Proxy :: "'h option"
  tr_OnProxyConnectResponse :: "'h option"
  tr_GetProxyConnectHeader :: "'h option"
  tr_ProxyConnectHeader :: "'h option"
  tr_Dial :: "'h option"
  tr_DialContext :: "'d option"
  tr_DialTLS :: "'h option"
  tr_DialTLSContext :: "'h option"
  tr_TLSNextProto :: "'h option"
  tr_others :: 'o

datatype ('d, 'h, 'o) round_tripper =
    NoTransport
  | HttpTransport "('d, 'h, 'o) http_transport"
  | CustomTripper gostr

record ('d, 'h, 'o, 'r) http_client =
  cl_Transport :: "('d, 'h, 'o) round_tripper"
  cl_others :: 'r

definition public_transport ::
  "'l option \<Rightarrow> 'p option \<Rightarrow> ('l \<Rightarrow> 'p \<Rightarrow> 'd) \<Rightarrow> ('d, 'h, 'o) http_transport \<Rightarrow> 'e net_error + ('d, 'h, 'o) http_transport"
where
  "public_transport resolver policyDial validated transport =
    (let transport = transport\<lparr>tr_Proxy := None, tr_OnProxyConnectResponse := None, tr_GetProxyConnectHeader := None,
       tr_ProxyConnectHeader := None\<rparr>
     in case (resolver, policyDial) of
       (Some r, Some d) \<Rightarrow>
         Inr (transport\<lparr>tr_Dial := None, tr_DialContext := Some (validated r d), tr_DialTLS := None,
           tr_DialTLSContext := None, tr_TLSNextProto := None\<rparr>)
     | _ \<Rightarrow> Inl (NetMessage (runes ''public-only network policy requires its resolver and dialer'')))"

text \<open>\<open>zero\<close> is \<^verbatim>\<open>http.Client{}\<close> and \<open>usual\<close> the result of \<^verbatim>\<open>defaultTransport\<close>.\<close>

definition newHTTPClient ::
  "('d, 'h, 'o, 'r) http_client option \<Rightarrow> bool \<Rightarrow> 'l option \<Rightarrow> 'p option \<Rightarrow> ('l \<Rightarrow> 'p \<Rightarrow> 'd) \<Rightarrow>
    ('d, 'h, 'o, 'r) http_client \<Rightarrow> ('d, 'h, 'o) http_transport \<Rightarrow> 'e net_error + ('d, 'h, 'o, 'r) http_client"
where
  "newHTTPClient base allowPrivateNetworks resolver policyDial validated zero usual =
    (let client = (case base of None \<Rightarrow> zero | Some c \<Rightarrow> c)
     in if allowPrivateNetworks then Inr client
        else
          (case (case cl_Transport client of
                   NoTransport \<Rightarrow> Inr usual
                 | HttpTransport baseTransport \<Rightarrow> Inr baseTransport
                 | CustomTripper name \<Rightarrow>
                     Inl (NetMessage (runes ''public-only network policy requires *http.Transport, got '' @ name))) of
             Inl err \<Rightarrow> Inl err
           | Inr transport \<Rightarrow>
             (case public_transport resolver policyDial validated transport of
                Inl err \<Rightarrow> Inl err
              | Inr transport' \<Rightarrow> Inr (client\<lparr>cl_Transport := HttpTransport transport'\<rparr>))))"

section \<open>The addresses as intervals\<close>

text \<open>
  The special purpose ranges of the IANA registries and the two addresses of cloud providers, as intervals of numbers:
  this is the reference for \<open>isPublicAddress\<close>.
\<close>

definition special4 :: "(nat \<times> nat) list" where
  "special4 =
    [(0x00000000, 0x00FFFFFF), (0x0A000000, 0x0AFFFFFF), (0x64400000, 0x647FFFFF), (0x7F000000, 0x7FFFFFFF),
     (0xA83F8110, 0xA83F8110), (0xA9FE0000, 0xA9FEFFFF), (0xAC100000, 0xAC1FFFFF), (0xC0000000, 0xC00000FF),
     (0xC0000200, 0xC00002FF), (0xC0586300, 0xC05863FF), (0xC0A80000, 0xC0A8FFFF), (0xC6120000, 0xC613FFFF),
     (0xC6336400, 0xC63364FF), (0xCB007100, 0xCB0071FF), (0xE0000000, 0xFFFFFFFF)]"

lemma and_field:
  fixes x :: "'a::len word"
  shows "x AND push_bit k (mask m) = push_bit k (take_bit m (drop_bit k x))"
  by (rule bit_word_eqI) (auto simp: bit_simps)

lemma and_field_nat:
  fixes x :: nat
  shows "x AND push_bit k (mask m) = push_bit k (take_bit m (drop_bit k x))"
  by (rule bit_eqI) (auto simp: bit_simps)

lemma div_interval:
  assumes "0 < m"
  shows "(n::nat) div m = q \<longleftrightarrow> q * m \<le> n \<and> n < (q + 1) * m"
proof -
  have "n div m = q \<longleftrightarrow> q \<le> n div m \<and> n div m < q + 1" by auto
  then show ?thesis by (simp only: less_eq_div_iff_mult_less_eq [OF assms] div_less_iff_less_mult [OF assms])
qed

lemma unat_drop: "unat (drop_bit k (w :: 'a::len word)) = unat w div 2 ^ k"
  by (simp only: unat_drop_bit_eq) (simp add: drop_bit_eq_div)

lemma prefix_interval:
  fixes w p :: "'a::len word"
  assumes "unat p = q * 2 ^ k"
  shows "drop_bit k (w XOR p) = 0 \<longleftrightarrow> q * 2 ^ k \<le> unat w \<and> unat w < (q + 1) * 2 ^ k"
proof -
  have "drop_bit k (w XOR p) = 0 \<longleftrightarrow> drop_bit k w = drop_bit k p"
  proof
    assume "drop_bit k (w XOR p) = 0"
    then have "(drop_bit k w XOR drop_bit k p) XOR drop_bit k p = drop_bit k p" by simp
    then show "drop_bit k w = drop_bit k p" by (simp add: xor.assoc)
  qed simp
  also have "\<dots> \<longleftrightarrow> unat w div 2 ^ k = q"
    by (simp add: word_unat_eq_iff unat_drop assms)
  also have "\<dots> \<longleftrightarrow> q * 2 ^ k \<le> unat w \<and> unat w < (q + 1) * 2 ^ k"
    by (rule div_interval) simp
  finally show ?thesis .
qed


lemma unat_ip4: "0 \<le> v \<Longrightarrow> v < 2 ^ 32 \<Longrightarrow> unat (word_of_int v :: 32 word) = nat v"
  by (simp add: unsigned_of_int take_bit_int_eq_self)

lemma unat_ip6: "0 \<le> v \<Longrightarrow> v < 2 ^ 128 \<Longrightarrow> unat (word_of_int v :: 128 word) = nat v"
  by (simp add: unsigned_of_int take_bit_int_eq_self)

lemma unat_v4_byte: "unat (v4_byte w i) = unat w div 2 ^ (8 * (3 - i)) mod 256"
proof -
  have "v4_byte w i = take_bit 8 (drop_bit (8 * (3 - i)) w)"
    unfolding v4_byte_def by (subst and_field [of _ 0 8, simplified, symmetric]) (simp add: mask_numeral)
  then show ?thesis by (simp only: unsigned_take_bit_eq unat_drop) (simp add: take_bit_eq_mod)
qed

lemma nat_and_240: "(n::nat) AND 240 = n div 16 mod 16 * 16"
proof -
  have "push_bit 4 (mask 4 :: nat) = 240" by (simp add: mask_eq_exp_minus_1 push_bit_eq_mult)
  then show ?thesis
    using and_field_nat [of n 4 4] by (simp add: push_bit_eq_mult take_bit_eq_mod drop_bit_eq_div)
qed

lemma word_eq_numeral: "w = numeral k \<longleftrightarrow> unat (w :: 'a::len word) = unat (numeral k :: 'a word)"
  by (simp add: word_unat_eq_iff)

lemma digits_eq: "b < m \<Longrightarrow> (n::nat) div m = a \<and> n mod m = b \<longleftrightarrow> n = a * m + b"
  by (auto simp: mult.commute [of _ m])

text \<open>The conditions on the bytes of an IPv4 address, on its number.\<close>

lemma v4_bytes:
  fixes w :: "32 word"
  shows "v4_byte w 0 = numeral a \<longleftrightarrow> unat w div 16777216 = unat (numeral a :: 32 word)"
    and "v4_byte w 0 AND 0xf0 = 0xe0 \<longleftrightarrow> 0xE0000000 \<le> unat w \<and> unat w < 0xF0000000"
proof -
  have n: "unat w < 4294967296" using unsigned_less [of w] by simp
  then have top: "unat w div 16777216 < 256" by (simp add: less_mult_imp_div_less)
  show "v4_byte w 0 = numeral a \<longleftrightarrow> unat w div 16777216 = unat (numeral a :: 32 word)"
    using top by (simp only: word_eq_numeral unat_v4_byte) simp
  have "v4_byte w 0 AND 0xf0 = 0xe0 \<longleftrightarrow> unat (v4_byte w 0) AND 240 = 224"
    by (simp only: word_eq_numeral unsigned_and_eq) simp
  also have "\<dots> \<longleftrightarrow> unat w div 16777216 div 16 mod 16 = 14"
    using top by (simp add: nat_and_240 unat_v4_byte)
  also have "\<dots> \<longleftrightarrow> unat w div 268435456 = 14"
    using n by (simp add: div_mult2_eq [symmetric] less_mult_imp_div_less)
  also have "\<dots> \<longleftrightarrow> 0xE0000000 \<le> unat w \<and> unat w < 0xF0000000"
    by (subst div_interval) simp_all
  finally show "v4_byte w 0 AND 0xf0 = 0xe0 \<longleftrightarrow> 0xE0000000 \<le> unat w \<and> unat w < 0xF0000000" .
qed

lemma v4_two_bytes:
  fixes w :: "32 word"
  shows "v4_byte w 0 = numeral a \<and> v4_byte w 1 = numeral b \<longleftrightarrow>
      unat w div 65536 div 256 = unat (numeral a :: 32 word) \<and> unat w div 65536 mod 256 = unat (numeral b :: 32 word)"
  using v4_bytes(1) [of w a] by (simp add: word_eq_numeral [of "v4_byte w 1"] unat_v4_byte div_mult2_eq [symmetric]
      flip: One_nat_def)

definition between :: "nat \<Rightarrow> nat \<Rightarrow> nat \<Rightarrow> bool" where
  "between lo hi n \<longleftrightarrow> lo \<le> n \<and> n \<le> hi"

lemma between_div:
  assumes "0 < m"
  shows "n div m = q \<longleftrightarrow> between (q * m) (q * m + (m - 1)) n"
  using assms by (subst div_interval) (auto simp: between_def)

lemma prefix4_between:
  assumes "0 \<le> ((a * 256 + b) * 256 + c) * 256 + d" and "((a * 256 + b) * 256 + c) * 256 + d < 2 ^ 32"
    and "nat (((a * 256 + b) * 256 + c) * 256 + d) mod 2 ^ (32 - bits) = 0"
  shows "prefix_Contains (Prefix4 (ip4 a b c d) bits) (Addr4 w) \<longleftrightarrow>
    between (nat (((a * 256 + b) * 256 + c) * 256 + d)) (nat (((a * 256 + b) * 256 + c) * 256 + d) + (2 ^ (32 - bits) - 1))
      (unat w)"
proof -
  let ?v = "nat (((a * 256 + b) * 256 + c) * 256 + d)" and ?m = "2 ^ (32 - bits) :: nat"
  have v: "unat (ip4 a b c d) = ?v div ?m * ?m"
    using assms(3) unfolding ip4_def unat_ip4 [OF assms(1,2)] by (simp only: mod_eq_0_iff_dvd dvd_div_mult_self)
  have "prefix_Contains (Prefix4 (ip4 a b c d) bits) (Addr4 w) \<longleftrightarrow> unat w div ?m = ?v div ?m"
    using prefix_interval [OF v, of w] by (simp only: prefix_Contains.simps div_interval zero_less_power zero_less_numeral)
  also have "\<dots> \<longleftrightarrow> between ?v (?v + (?m - 1)) (unat w)"
    using assms(3) by (subst between_div) (simp_all only: mod_eq_0_iff_dvd dvd_div_mult_self zero_less_power zero_less_numeral)
  finally show ?thesis .
qed

lemma v4_classes:
  fixes w :: "32 word"
  shows "IsLoopback (Addr4 w) \<longleftrightarrow> between 0x7F000000 0x7FFFFFFF (unat w)"
    and "IsMulticast (Addr4 w) \<longleftrightarrow> between 0xE0000000 0xEFFFFFFF (unat w)"
    and "IsLinkLocalUnicast (Addr4 w) \<longleftrightarrow> between 0xA9FE0000 0xA9FEFFFF (unat w)"
    and "IsLinkLocalMulticast (Addr4 w) \<Longrightarrow> between 0xE0000000 0xEFFFFFFF (unat w)"
    and "IsPrivate (Addr4 w) \<longleftrightarrow> between 0x0A000000 0x0AFFFFFF (unat w) \<or> between 0xAC100000 0xAC1FFFFF (unat w) \<or>
      between 0xC0A80000 0xC0A8FFFF (unat w)"
    and "w = 0 \<Longrightarrow> between 0 0x00FFFFFF (unat w)"
    and "w = 0xFFFFFFFF \<Longrightarrow> between 0xF0000000 0xFFFFFFFF (unat w)"
proof -
  show loop: "IsLoopback (Addr4 w) \<longleftrightarrow> between 0x7F000000 0x7FFFFFFF (unat w)"
    by (simp add: IsLoopback_def v4_bytes(1) between_div)
  show "IsMulticast (Addr4 w) \<longleftrightarrow> between 0xE0000000 0xEFFFFFFF (unat w)"
    unfolding IsMulticast_def by (simp only: Unmap.simps ip_addr.case v4_bytes(2)) (auto simp: between_def)
  have two: "v4_byte w 0 = numeral a \<and> v4_byte w 1 = numeral b \<longleftrightarrow>
      between ((unat (numeral a :: 32 word) * 256 + unat (numeral b :: 32 word)) * 65536)
        ((unat (numeral a :: 32 word) * 256 + unat (numeral b :: 32 word)) * 65536 + 65535) (unat w)"
    if "unat (numeral b :: 32 word) < 256" for a b
    unfolding v4_two_bytes digits_eq [OF that] by (subst between_div) simp_all
  show "IsLinkLocalUnicast (Addr4 w) \<longleftrightarrow> between 0xA9FE0000 0xA9FEFFFF (unat w)"
    unfolding IsLinkLocalUnicast_def by (simp only: Unmap.simps ip_addr.case) (subst two, simp_all)
  show "between 0xE0000000 0xEFFFFFFF (unat w)" if "IsLinkLocalMulticast (Addr4 w)"
    using that by (auto simp: IsLinkLocalMulticast_def v4_bytes(1) between_div between_def)
  have p172: "v4_byte w 0 = 172 \<and> v4_byte w 1 AND 0xf0 = 16 \<longleftrightarrow> between 0xAC100000 0xAC1FFFFF (unat w)"
  proof -
    have "v4_byte w 1 AND 0xf0 = 16 \<longleftrightarrow> unat (v4_byte w 1) AND 240 = 16"
      by (simp only: word_eq_numeral unsigned_and_eq) simp
    also have "\<dots> \<longleftrightarrow> unat w div 65536 mod 256 div 16 = 1"
      by (simp add: nat_and_240 unat_v4_byte less_mult_imp_div_less del: One_nat_def) presburger
    also have "\<dots> \<longleftrightarrow> unat w div 1048576 mod 16 = 1"
      using mod_mult2_eq [of "unat w div 65536" 16 16] by (simp add: div_mult2_eq [symmetric] del: One_nat_def)
    finally have "v4_byte w 0 = 172 \<and> v4_byte w 1 AND 0xf0 = 16 \<longleftrightarrow>
        unat w div 1048576 div 16 = 172 \<and> unat w div 1048576 mod 16 = 1"
      by (simp add: v4_bytes(1) div_mult2_eq [symmetric] del: One_nat_def)
    also have "\<dots> \<longleftrightarrow> unat w div 1048576 = 2753"
      by (subst digits_eq) simp_all
    finally show ?thesis by (simp add: between_div)
  qed
  have p192: "v4_byte w 0 = 192 \<and> v4_byte w 1 = 168 \<longleftrightarrow> between 0xC0A80000 0xC0A8FFFF (unat w)"
    by (subst two) simp_all
  have p10: "v4_byte w 0 = 10 \<longleftrightarrow> between 0x0A000000 0x0AFFFFFF (unat w)"
    by (simp add: v4_bytes(1) between_div)
  show "IsPrivate (Addr4 w) \<longleftrightarrow> between 0x0A000000 0x0AFFFFFF (unat w) \<or> between 0xAC100000 0xAC1FFFFF (unat w) \<or>
      between 0xC0A80000 0xC0A8FFFF (unat w)"
    unfolding IsPrivate_def by (simp only: Unmap.simps ip_addr.case p172 p192 p10)
  show "between 0 0x00FFFFFF (unat w)" if "w = 0" using that by (simp add: between_def)
  show "between 0xF0000000 0xFFFFFFFF (unat w)" if "w = 0xFFFFFFFF" using that by (simp add: between_def)
qed

lemma prefix_families: "prefix_Contains (Prefix6 p bits) (Addr4 w) = False" "prefix_Contains (Prefix4 q bits) (Addr6 x z) = False"
  by simp_all

declare prefix_Contains.simps [simp del]

lemma prefixes4:
  "list_ex (\<lambda>prefix. prefix_Contains prefix (Addr4 w)) nonPublicPrefixes \<longleftrightarrow>
    between 0x00000000 0x00FFFFFF (unat w) \<or> between 0x64400000 0x647FFFFF (unat w) \<or>
    between 0xA83F8110 0xA83F8110 (unat w) \<or> between 0xC0000000 0xC00000FF (unat w) \<or>
    between 0xC0000200 0xC00002FF (unat w) \<or> between 0xC0586300 0xC05863FF (unat w) \<or>
    between 0xC6120000 0xC613FFFF (unat w) \<or> between 0xC6336400 0xC63364FF (unat w) \<or>
    between 0xCB007100 0xCB0071FF (unat w) \<or> between 0xF0000000 0xFFFFFFFF (unat w)"
  unfolding nonPublicPrefixes_def list_ex_Cons_iff list_ex_Nil_iff
  by (simp add: prefix4_between prefix_families)

lemma public4:
  "isPublicAddress (Addr4 w) \<longleftrightarrow> \<not> list_ex (\<lambda>(lo, hi). between lo hi (unat w)) special4"
proof -
  have join: "between 0xE0000000 0xFFFFFFFF n \<longleftrightarrow> between 0xE0000000 0xEFFFFFFF n \<or> between 0xF0000000 0xFFFFFFFF n" for n
    by (auto simp: between_def)
  have ends: "w = 0 \<longrightarrow> between 0 0x00FFFFFF (unat w)" "w = 0xFFFFFFFF \<longrightarrow> between 0xF0000000 0xFFFFFFFF (unat w)"
    "IsLinkLocalMulticast (Addr4 w) \<longrightarrow> between 0xE0000000 0xEFFFFFFF (unat w)"
    using v4_classes(4,6,7) by blast+
  have "isPublicAddress (Addr4 w) \<longleftrightarrow>
      w \<noteq> 0 \<and> w \<noteq> 0xFFFFFFFF \<and> \<not> IsLoopback (Addr4 w) \<and> \<not> IsMulticast (Addr4 w) \<and> \<not> IsLinkLocalUnicast (Addr4 w) \<and>
      \<not> IsPrivate (Addr4 w) \<and> \<not> IsLinkLocalMulticast (Addr4 w) \<and>
      \<not> list_ex (\<lambda>prefix. prefix_Contains prefix (Addr4 w)) nonPublicPrefixes"
    by (auto simp: isPublicAddress_def IsGlobalUnicast_def)
  then show ?thesis
    unfolding special4_def list_ex_Cons_iff list_ex_Nil_iff prod.case join v4_classes(1-3,5) prefixes4
    using ends by blast
qed

section \<open>IPv6\<close>

definition special6 :: "(nat \<times> nat) list" where
  "special6 =
    [(0, 0xFFFFFFFF),
     (0x0064FF9B000000000000000000000000, 0x0064FF9B0000000000000000FFFFFFFF),
     (0x0064FF9B000100000000000000000000, 0x0064FF9B0001FFFFFFFFFFFFFFFFFFFF),
     (0x01000000000000000000000000000000, 0x0100000000000000FFFFFFFFFFFFFFFF),
     (0x20010000000000000000000000000000, 0x200101FFFFFFFFFFFFFFFFFFFFFFFFFF),
     (0x20010DB8000000000000000000000000, 0x20010DB8FFFFFFFFFFFFFFFFFFFFFFFF),
     (0x20020000000000000000000000000000, 0x2002FFFFFFFFFFFFFFFFFFFFFFFFFFFF),
     (0x3FFF0000000000000000000000000000, 0x3FFF0FFFFFFFFFFFFFFFFFFFFFFFFFFF),
     (0x5F000000000000000000000000000000, 0x5F00FFFFFFFFFFFFFFFFFFFFFFFFFFFF),
     (0xFC000000000000000000000000000000, 0xFDFFFFFFFFFFFFFFFFFFFFFFFFFFFFFF),
     (0xFE800000000000000000000000000000, 0xFEBFFFFFFFFFFFFFFFFFFFFFFFFFFFFF),
     (0xFEC00000000000000000000000000000, 0xFEFFFFFFFFFFFFFFFFFFFFFFFFFFFFFF),
     (0xFF000000000000000000000000000000, 0xFFFFFFFFFFFFFFFFFFFFFFFFFFFFFFFF)]"

lemma prefix6_between:
  assumes "0 \<le> (((a * 65536 + b) * 65536 + c) * 65536 + d) * 2 ^ 64"
    and "(((a * 65536 + b) * 65536 + c) * 65536 + d) * 2 ^ 64 < 2 ^ 128"
    and "nat ((((a * 65536 + b) * 65536 + c) * 65536 + d) * 2 ^ 64) mod 2 ^ (128 - bits) = 0"
  shows "prefix_Contains (Prefix6 (ip6 a b c d) bits) (Addr6 w []) \<longleftrightarrow>
    between (nat ((((a * 65536 + b) * 65536 + c) * 65536 + d) * 2 ^ 64))
      (nat ((((a * 65536 + b) * 65536 + c) * 65536 + d) * 2 ^ 64) + (2 ^ (128 - bits) - 1)) (unat w)"
proof -
  let ?v = "nat ((((a * 65536 + b) * 65536 + c) * 65536 + d) * 2 ^ 64)" and ?m = "2 ^ (128 - bits) :: nat"
  have v: "unat (ip6 a b c d) = ?v div ?m * ?m"
    using assms(3) unfolding ip6_def unat_ip6 [OF assms(1,2)] by (simp only: mod_eq_0_iff_dvd dvd_div_mult_self)
  have "prefix_Contains (Prefix6 (ip6 a b c d) bits) (Addr6 w []) \<longleftrightarrow> unat w div ?m = ?v div ?m"
    using prefix_interval [OF v, of w]
    by (simp only: prefix_Contains.simps div_interval zero_less_power zero_less_numeral simp_thms)
  also have "\<dots> \<longleftrightarrow> between ?v (?v + (?m - 1)) (unat w)"
    using assms(3) by (subst between_div) (simp_all only: mod_eq_0_iff_dvd dvd_div_mult_self zero_less_power zero_less_numeral)
  finally show ?thesis .
qed

lemma prefixes6:
  "list_ex (\<lambda>prefix. prefix_Contains prefix (Addr6 w [])) nonPublicPrefixes \<longleftrightarrow>
    between 0 0xFFFFFFFF (unat w) \<or>
    between 0x0064FF9B000000000000000000000000 0x0064FF9B0000000000000000FFFFFFFF (unat w) \<or>
    between 0x0064FF9B000100000000000000000000 0x0064FF9B0001FFFFFFFFFFFFFFFFFFFF (unat w) \<or>
    between 0x01000000000000000000000000000000 0x0100000000000000FFFFFFFFFFFFFFFF (unat w) \<or>
    between 0x20010000000000000000000000000000 0x200101FFFFFFFFFFFFFFFFFFFFFFFFFF (unat w) \<or>
    between 0x20010DB8000000000000000000000000 0x20010DB8FFFFFFFFFFFFFFFFFFFFFFFF (unat w) \<or>
    between 0x20020000000000000000000000000000 0x2002FFFFFFFFFFFFFFFFFFFFFFFFFFFF (unat w) \<or>
    between 0x3FFF0000000000000000000000000000 0x3FFF0FFFFFFFFFFFFFFFFFFFFFFFFFFF (unat w) \<or>
    between 0x5F000000000000000000000000000000 0x5F00FFFFFFFFFFFFFFFFFFFFFFFFFFFF (unat w) \<or>
    between 0xFEC00000000000000000000000000000 0xFEFFFFFFFFFFFFFFFFFFFFFFFFFFFFFF (unat w)"
  unfolding nonPublicPrefixes_def list_ex_Cons_iff list_ex_Nil_iff
  by (simp add: prefix6_between prefix_families)

lemma v6_field:
  assumes "n < 2 ^ (k + m)"
  shows "(n::nat) AND push_bit k (mask m) = n div 2 ^ k * 2 ^ k"
proof -
  have "n div 2 ^ k < 2 ^ m" using assms by (simp add: less_mult_imp_div_less power_add mult.commute)
  then show ?thesis
    by (subst and_field_nat) (simp add: push_bit_eq_mult take_bit_eq_mod drop_bit_eq_div)
qed

lemma v6_classes:
  fixes w :: "128 word"
  assumes "\<not> Is4In6 (Addr6 w [])"
  shows "IsLoopback (Addr6 w []) \<Longrightarrow> between 0 0xFFFFFFFF (unat w)"
    and "IsUnspecified (Addr6 w []) \<Longrightarrow> between 0 0xFFFFFFFF (unat w)"
    and "IsMulticast (Addr6 w []) \<longleftrightarrow>
      between 0xFF000000000000000000000000000000 0xFFFFFFFFFFFFFFFFFFFFFFFFFFFFFFFF (unat w)"
    and "IsLinkLocalUnicast (Addr6 w []) \<longleftrightarrow>
      between 0xFE800000000000000000000000000000 0xFEBFFFFFFFFFFFFFFFFFFFFFFFFFFFFF (unat w)"
    and "IsLinkLocalMulticast (Addr6 w []) \<Longrightarrow> IsMulticast (Addr6 w [])"
    and "IsPrivate (Addr6 w []) \<longleftrightarrow>
      between 0xFC000000000000000000000000000000 0xFDFFFFFFFFFFFFFFFFFFFFFFFFFFFFFF (unat w)"
proof -
  have unmap: "Unmap (Addr6 w []) = Addr6 w []" using assms by simp
  have n: "unat w < 2 ^ 128" using unsigned_less [of w] by simp
  show "between 0 0xFFFFFFFF (unat w)" if "IsLoopback (Addr6 w [])"
    using that unmap by (simp add: IsLoopback_def between_def del: Unmap.simps)
  show "between 0 0xFFFFFFFF (unat w)" if "IsUnspecified (Addr6 w [])"
    using that by (simp add: between_def)
  have multi: "IsMulticast (Addr6 w []) \<longleftrightarrow> unat w div 2 ^ 120 = 255"
    unfolding IsMulticast_def unmap ip_addr.case v6_byte_def word_eq_numeral unat_drop by simp
  then show "IsMulticast (Addr6 w []) \<longleftrightarrow>
      between 0xFF000000000000000000000000000000 0xFFFFFFFFFFFFFFFFFFFFFFFFFFFFFFFF (unat w)"
    by (simp add: between_div)
  have mask10: "(65472::nat) = push_bit 6 (mask 10)" and mask7: "(254::nat) = push_bit 1 (mask 7)"
    by (simp_all add: mask_eq_exp_minus_1 push_bit_eq_mult)
  have top: "unat w div 2 ^ 112 < 2 ^ (6 + 10)" "unat w div 2 ^ 120 < 2 ^ (1 + 7)"
    using n by (simp_all add: less_mult_imp_div_less)
  have "IsLinkLocalUnicast (Addr6 w []) \<longleftrightarrow> (unat w div 2 ^ 112) AND 65472 = 65152"
    unfolding IsLinkLocalUnicast_def unmap ip_addr.case v6_u16_def word_eq_numeral unsigned_and_eq unat_drop by simp
  also have "\<dots> \<longleftrightarrow> unat w div 2 ^ 112 div 2 ^ 6 = 1018"
    unfolding mask10 v6_field [OF top(1)] by (simp add: mask10 [symmetric])
  finally show "IsLinkLocalUnicast (Addr6 w []) \<longleftrightarrow>
      between 0xFE800000000000000000000000000000 0xFEBFFFFFFFFFFFFFFFFFFFFFFFFFFFFF (unat w)"
    by (simp add: div_mult2_eq [symmetric] between_div)
  have "IsPrivate (Addr6 w []) \<longleftrightarrow> (unat w div 2 ^ 120) AND 254 = 252"
    unfolding IsPrivate_def unmap ip_addr.case v6_byte_def word_eq_numeral unsigned_and_eq unat_drop by simp
  also have "\<dots> \<longleftrightarrow> unat w div 2 ^ 120 div 2 ^ 1 = 126"
    unfolding mask7 v6_field [OF top(2)] by (simp add: mask7 [symmetric])
  finally show "IsPrivate (Addr6 w []) \<longleftrightarrow>
      between 0xFC000000000000000000000000000000 0xFDFFFFFFFFFFFFFFFFFFFFFFFFFFFFFF (unat w)"
    by (simp add: div_mult2_eq [symmetric] between_div)
  show "IsMulticast (Addr6 w [])" if "IsLinkLocalMulticast (Addr6 w [])"
  proof -
    have "(unat w div 2 ^ 112) AND 0xff0f = 0xff02"
      using that unfolding IsLinkLocalMulticast_def unmap ip_addr.case v6_u16_def word_eq_numeral unsigned_and_eq unat_drop by simp
    then have "drop_bit 8 ((unat w div 2 ^ 112) AND 0xff0f) = drop_bit 8 (0xff02 :: nat)" by (rule arg_cong)
    then have "(unat w div 2 ^ 112 div 2 ^ 8) AND 255 = 255"
      unfolding drop_bit_and by (simp add: drop_bit_eq_div)
    moreover have "unat w div 2 ^ 112 div 2 ^ 8 < 2 ^ (0 + 8)" using top(2) by (simp add: div_mult2_eq [symmetric])
    note v6_field [OF this]
    moreover have "(255::nat) = push_bit 0 (mask 8)" by (simp add: mask_eq_exp_minus_1)
    ultimately have "unat w div 2 ^ 112 div 2 ^ 8 = 255" by simp
    then show ?thesis by (simp add: multi div_mult2_eq [symmetric])
  qed
qed

lemma public6:
  assumes "\<not> Is4In6 (Addr6 w [])"
  shows "isPublicAddress (Addr6 w []) \<longleftrightarrow> \<not> list_ex (\<lambda>(lo, hi). between lo hi (unat w)) special6"
proof -
  note classes = v6_classes [OF assms]
  have ends: "IsLoopback (Addr6 w []) \<longrightarrow> between 0 0xFFFFFFFF (unat w)"
    "IsUnspecified (Addr6 w []) \<longrightarrow> between 0 0xFFFFFFFF (unat w)"
    "IsLinkLocalMulticast (Addr6 w []) \<longrightarrow> IsMulticast (Addr6 w [])"
    using classes(1,2,5) by blast+
  have "isPublicAddress (Addr6 w []) \<longleftrightarrow>
      \<not> IsUnspecified (Addr6 w []) \<and> \<not> IsLoopback (Addr6 w []) \<and> \<not> IsMulticast (Addr6 w []) \<and>
      \<not> IsLinkLocalUnicast (Addr6 w []) \<and> \<not> IsPrivate (Addr6 w []) \<and> \<not> IsLinkLocalMulticast (Addr6 w []) \<and>
      \<not> list_ex (\<lambda>prefix. prefix_Contains prefix (Addr6 w [])) nonPublicPrefixes"
    using assms by (auto simp: isPublicAddress_def IsGlobalUnicast_def simp del: IsUnspecified.simps)
  then show ?thesis
    unfolding special6_def list_ex_Cons_iff list_ex_Nil_iff prod.case prefixes6
    using ends classes(3,4,6) by blast
qed

section \<open>What is dialed\<close>

text \<open>The reference: an address outside every special range, IPv6 without a zone and not an IPv4 address in disguise.\<close>

fun on_the_internet :: "ip_addr \<Rightarrow> bool" where
  "on_the_internet NoAddr \<longleftrightarrow> False"
| "on_the_internet (Addr4 w) \<longleftrightarrow> list_all (\<lambda>(lo, hi). unat w < lo \<or> hi < unat w) special4"
| "on_the_internet (Addr6 w z) \<longleftrightarrow> z = [] \<and> drop_bit 32 w \<noteq> 0xffff \<and>
    list_all (\<lambda>(lo, hi). unat w < lo \<or> hi < unat w) special6"

lemma outside_ranges: "\<not> list_ex (\<lambda>(lo, hi). between lo hi n) xs \<longleftrightarrow> list_all (\<lambda>(lo, hi). n < lo \<or> hi < n) xs"
  by (induction xs) (auto simp: between_def not_le)

lemma Unmap_Unmap: "\<not> Is4In6 (Unmap a)"
  by (cases a) auto

lemma public_iff: "\<not> Is4In6 a \<Longrightarrow> isPublicAddress a \<longleftrightarrow> on_the_internet a"
proof (cases a)
  case (Addr6 w z)
  assume a: "\<not> Is4In6 a"
  show ?thesis
  proof (cases "z = []")
    case True
    then show ?thesis using a public6 [of w] Addr6 by (simp add: outside_ranges)
  next
    case False
    then show ?thesis using Addr6 by (simp add: isPublicAddress_def)
  qed
next
  case (Addr4 w)
  then show ?thesis using public4 [of w] by (simp add: outside_ranges)
qed (simp add: isPublicAddress_def)

text \<open>The loop over the answers keeps the first of equal ones, or blocks them all.\<close>

lemma validate_answers_Inr:
  "validate_answers seen unique as = Inr us \<Longrightarrow> set seen = set unique \<Longrightarrow> distinct unique \<Longrightarrow>
    distinct us \<and> set us = set unique \<union> Unmap ` set as \<and> (\<forall>a \<in> set as. isPublicAddress (Unmap a))"
  by (induction as arbitrary: seen unique) (fastforce split: if_splits)+

lemma validate_answers_Inl:
  "validate_answers seen unique as = Inl err \<longleftrightarrow> err = ErrBlockedAddress \<and> (\<exists>a \<in> set as. \<not> isPublicAddress (Unmap a))"
  by (induction as arbitrary: seen unique) auto

lemma dial_each_take: "\<exists>k. snd (dial_each ctx dial network port errs as) = take k as"
proof (induction as arbitrary: errs)
  case (Cons a as)
  have one: "\<exists>k. [a] = take k (a # as)" by (intro exI [of _ 1]) simp
  show ?case
  proof (cases "dial network a port")
    case (Inl e)
    obtain k where k: "snd (dial_each ctx dial network port (errs @ [e]) as) = take k as"
      using Cons by blast
    show ?thesis
    proof (cases "ctx (length errs)")
      case None
      then show ?thesis using Inl k
        by (intro exI [of _ "Suc k"], cases "dial_each ctx dial network port (errs @ [e]) as") simp
    next
      case (Some cause)
      then show ?thesis using Inl one by simp
    qed
  next
    case (Inr conn)
    then show ?thesis using one by simp
  qed
qed simp

lemma dial_each_conn:
  "dial_each ctx dial network port errs as = (Inr conn, dials) \<Longrightarrow>
    dials \<noteq> [] \<and> dial network (last dials) port = Inr conn"
  by (induction as arbitrary: errs dials) (auto split: sum.splits option.splits prod.splits)

lemma dial_each_error:
  "dial_each ctx dial network port errs as = (Inl (NetJoined []), dials) \<Longrightarrow> as = [] \<and> errs = [] \<or>
    (\<exists>n. ctx n = Some (NetJoined []))"
  by (induction as arbitrary: errs dials) (auto split: sum.splits option.splits prod.splits)

section \<open>The properties\<close>

text \<open>
  C17. The test for public addresses, with its methods of \<^verbatim>\<open>net/netip\<close> and its list of prefixes, decides exactly whether
  the number of the address lies outside the special purpose ranges; an IPv6 address with a zone is never public.
\<close>

theorem public_ranges: "isPublicAddress (Unmap a) \<longleftrightarrow> on_the_internet (Unmap a)"
  by (rule public_iff) (rule Unmap_Unmap)

text \<open>
  C20. Resolution is all or nothing: the addresses it returns are the answers of the resolver, or the literal, with
  mapped IPv4 addresses unmapped and each once; there is one at least and all of them are on the internet. One answer
  that is not blocks all the others.
\<close>

definition host_answers ::
  "(gostr \<Rightarrow> ip_addr option) \<Rightarrow> (gostr \<Rightarrow> gostr \<Rightarrow> 'e net_error + ip_addr list) \<Rightarrow> gostr \<Rightarrow> gostr \<Rightarrow> ip_addr list \<Rightarrow> bool"
where
  "host_answers parse lookup network host answers \<longleftrightarrow>
    (\<exists>literal. parse host = Some literal \<and> answers = [literal]) \<or>
    parse host = None \<and> (\<exists>kind \<in> {runes ''ip'', runes ''ip4'', runes ''ip6''}. lookup kind host = Inr answers)"

theorem resolution_public:
  fixes lookup :: "gostr \<Rightarrow> gostr \<Rightarrow> 'e net_error + ip_addr list"
  assumes "resolvePublicAddresses parse lookup network host = Inr us"
  shows "us \<noteq> [] \<and> distinct us \<and> list_all on_the_internet us \<and> \<not> isLocalHostname (trim_suffix host (runes ''.'')) \<and>
    (\<exists>answers. host_answers parse lookup network (trim_suffix host (runes ''.'')) answers \<and> set us = Unmap ` set answers)"
proof -
  let ?host = "trim_suffix host (runes ''.'')"
  define kind where "kind = (if has_suffix (runes ''4'') network then runes ''ip4''
    else if has_suffix (runes ''6'') network then runes ''ip6'' else runes ''ip'')"
  define r where "r = (case parse ?host of Some literal \<Rightarrow> Inr [literal] | None \<Rightarrow> lookup kind ?host)"
  have eq: "resolvePublicAddresses parse lookup network host =
    (if isLocalHostname ?host then Inl ErrBlockedAddress
     else case r of Inl err \<Rightarrow> Inl err
       | Inr addresses \<Rightarrow>
         if addresses = [] then Inl (NetMessage (runes ''network policy: destination resolved to no addresses''))
         else validate_answers [] [] addresses)"
    unfolding resolvePublicAddresses_def Let_def r_def kind_def by (rule refl)
  have l: "\<not> isLocalHostname ?host" using assms unfolding eq by (auto split: if_split_asm)
  obtain answers where r: "r = Inr answers" and ne: "answers \<noteq> []" and v: "validate_answers [] [] answers = (Inr us :: 'e net_error + ip_addr list)"
    using assms l unfolding eq by (cases r) (auto split: if_split_asm)
  have "kind \<in> {runes ''ip'', runes ''ip4'', runes ''ip6''}" unfolding kind_def by (simp del: runes.simps)
  then have a: "host_answers parse lookup network ?host answers"
    using r unfolding host_answers_def r_def by (cases "parse ?host") (auto simp del: runes.simps)
  have u: "distinct us" "set us = Unmap ` set answers" "\<forall>x \<in> set answers. isPublicAddress (Unmap x)"
    using validate_answers_Inr [OF v] by simp_all
  then have "list_all on_the_internet us" using public_iff [OF Unmap_Unmap] by (auto simp: list_all_iff)
  moreover have "us \<noteq> []" using u(2) ne by auto
  ultimately show ?thesis using u a l by blast
qed

definition two_answers :: "gostr \<Rightarrow> gostr \<Rightarrow> unit net_error + ip_addr list" where
  "two_answers kind host =
    Inr [Addr4 (ip4 8 8 8 8), Addr6 0xFFFF08080808 [], Addr6 (ip6 0x2620 0xFE 0 0) []]"

theorem resolution_public_witness:
  "resolvePublicAddresses (\<lambda>_. None) two_answers (runes ''tcp'') (runes ''a.org.'') =
      Inr [Addr4 (ip4 8 8 8 8), Addr6 (ip6 0x2620 0xFE 0 0) []] \<and>
    list_all on_the_internet [Addr4 (ip4 8 8 8 8), Addr6 (ip6 0x2620 0xFE 0 0) []]"
proof -
  have "resolvePublicAddresses (\<lambda>_. None) two_answers (runes ''tcp'') (runes ''a.org.'') =
      Inr [Addr4 (ip4 8 8 8 8), Addr6 (ip6 0x2620 0xFE 0 0) []]"
    by code_simp
  then show ?thesis using resolution_public by blast
qed

text \<open>
  C6. A client for public resources connects only to the internet: whatever transport, proxies and hooks the caller
  configured and whatever the resolver and the context answer, the transport keeps none of the caller's hooks, neither
  for dialing nor for proxies, and every address its dialer connects to is on the internet. A connection it returns is
  one the dialer of the policy opened.
\<close>

theorem public_client_dials_public:
  assumes "newHTTPClient base False (Some lookup) (Some dial) (validatedDialContext split parse) zero usual = Inr client"
  shows "\<exists>t connect. cl_Transport client = HttpTransport t \<and> tr_DialContext t = Some connect \<and>
    tr_Proxy t = None \<and> tr_OnProxyConnectResponse t = None \<and> tr_GetProxyConnectHeader t = None \<and>
    tr_ProxyConnectHeader t = None \<and> tr_Dial t = None \<and> tr_DialTLS t = None \<and> tr_DialTLSContext t = None \<and>
    tr_TLSNextProto t = None \<and>
    (\<forall>ctx network address result dials. connect ctx network address = (result, dials) \<longrightarrow>
      list_all on_the_internet dials \<and>
      (\<forall>conn. result = Inr conn \<longrightarrow> (\<exists>port. dials \<noteq> [] \<and> dial network (last dials) port = Inr conn)))"
proof -
  let ?connect = "validatedDialContext split parse lookup dial"
  obtain t where t: "cl_Transport client = HttpTransport t" "tr_DialContext t = Some ?connect"
    "tr_Proxy t = None" "tr_OnProxyConnectResponse t = None" "tr_GetProxyConnectHeader t = None"
    "tr_ProxyConnectHeader t = None" "tr_Dial t = None" "tr_DialTLS t = None" "tr_DialTLSContext t = None"
    "tr_TLSNextProto t = None"
    using assms by (auto simp: newHTTPClient_def public_transport_def Let_def split: round_tripper.splits sum.splits)
  have "list_all on_the_internet dials \<and>
      (\<forall>conn. result = Inr conn \<longrightarrow> (\<exists>port. dials \<noteq> [] \<and> dial network (last dials) port = Inr conn))"
    if r: "?connect ctx network address = (result, dials)" for ctx network address result dials
  proof (cases "split address")
    case (Inr hp)
    obtain host port where hp: "hp = (host, port)" by (cases hp)
    show ?thesis
    proof (cases "resolvePublicAddresses parse lookup network host")
      case (Inr us)
      then have d: "dial_each ctx dial network port [] us = (result, dials)"
        using r \<open>split address = Inr hp\<close> hp by (simp add: validatedDialContext_def)
      moreover obtain k where "dials = take k us"
        using dial_each_take [of ctx dial network port "[]" us] d by auto
      moreover have "list_all on_the_internet us" using resolution_public [OF Inr] by simp
      ultimately show ?thesis
        using dial_each_conn by (fastforce simp: list_all_iff dest: in_set_takeD)
    qed (use r \<open>split address = Inr hp\<close> hp in \<open>auto simp: validatedDialContext_def\<close>)
  qed (use r in \<open>auto simp: validatedDialContext_def\<close>)
  with t show ?thesis by blast
qed

text \<open>A transport with every hook set, and a dialer that reaches only IPv6.\<close>

definition hooked :: "('d, unit, unit) http_transport" where
  "hooked = \<lparr>tr_Proxy = Some (), tr_OnProxyConnectResponse = Some (), tr_GetProxyConnectHeader = Some (),
    tr_ProxyConnectHeader = Some (), tr_Dial = Some (), tr_DialContext = None, tr_DialTLS = Some (),
    tr_DialTLSContext = Some (), tr_TLSNextProto = Some (), tr_others = ()\<rparr>"

definition dial6 :: "gostr \<Rightarrow> ip_addr \<Rightarrow> gostr \<Rightarrow> unit net_error + nat" where
  "dial6 network a port = (case a of Addr6 w z \<Rightarrow> Inr 6 | _ \<Rightarrow> Inl (NetMessage []))"

definition host_port :: "gostr \<Rightarrow> unit net_error + gostr \<times> gostr" where
  "host_port address = Inr (address, runes ''443'')"

theorem public_client_dials_public_witness:
  "\<exists>t connect. newHTTPClient (Some \<lparr>cl_Transport = HttpTransport hooked, cl_others = ()\<rparr>) False (Some two_answers) (Some dial6)
      (validatedDialContext host_port (\<lambda>_. None)) \<lparr>cl_Transport = NoTransport, cl_others = ()\<rparr> hooked =
      (Inr \<lparr>cl_Transport = HttpTransport t, cl_others = ()\<rparr> :: unit net_error + _) \<and>
    tr_Proxy t = None \<and> tr_OnProxyConnectResponse t = None \<and> tr_GetProxyConnectHeader t = None \<and>
    tr_ProxyConnectHeader t = None \<and> tr_DialContext t = Some connect \<and>
    connect (\<lambda>_. None) (runes ''tcp'') (runes ''a.org'') =
      (Inr 6, [Addr4 (ip4 8 8 8 8), Addr6 (ip6 0x2620 0xFE 0 0) []]) \<and>
    list_all on_the_internet [Addr4 (ip4 8 8 8 8), Addr6 (ip6 0x2620 0xFE 0 0) []]"
proof -
  let ?f = "validatedDialContext host_port (\<lambda>_. None) two_answers dial6"
  have r: "?f (\<lambda>_. None) (runes ''tcp'') (runes ''a.org'') =
      (Inr 6, [Addr4 (ip4 8 8 8 8), Addr6 (ip6 0x2620 0xFE 0 0) []])"
    by code_simp
  obtain t where c: "newHTTPClient (Some \<lparr>cl_Transport = HttpTransport hooked, cl_others = ()\<rparr>) False (Some two_answers) (Some dial6)
      (validatedDialContext host_port (\<lambda>_. None)) \<lparr>cl_Transport = NoTransport, cl_others = ()\<rparr> hooked =
      (Inr \<lparr>cl_Transport = HttpTransport t, cl_others = ()\<rparr> :: unit net_error + _)"
    and t: "tr_DialContext t = Some ?f"
    by (simp add: newHTTPClient_def public_transport_def Let_def hooked_def)
  have kept: "tr_Proxy t = None \<and> tr_OnProxyConnectResponse t = None \<and> tr_GetProxyConnectHeader t = None \<and>
      tr_ProxyConnectHeader t = None \<and>
      (\<forall>ctx network address result dials. ?f ctx network address = (result, dials) \<longrightarrow> list_all on_the_internet dials)"
    using public_client_dials_public [OF c] t by auto
  with r have "list_all on_the_internet [Addr4 (ip4 8 8 8 8), Addr6 (ip6 0x2620 0xFE 0 0) []]" by blast
  with c t r kept show ?thesis by blast
qed

end
