(* ===== verification/Jpeg_Orientation.thy ===== *)
theory Jpeg_Orientation
  imports Go_Lib "HOL-Library.Word"
begin

text \<open>
  The EXIF orientation of JPEG files (\<^verbatim>\<open>internal/rasterimage/jpeg_orientation.go\<close>): the reader of marker segments and TIFF
  entries, and the image turned as the orientation says. Bytes are 8-bit words, offsets and lengths numbers; a result
  \<open>None\<close> is a run time panic (a slice or an index out of range). \<open>ctx n\<close> is what the context answers when it is asked for
  the \<open>n\<close>-th time.
\<close>

section \<open>Bytes\<close>

type_synonym byte = "8 word"

definition byte_slice :: "byte list \<Rightarrow> nat \<Rightarrow> nat \<Rightarrow> byte list option" where
  "byte_slice b i j = (if i \<le> j \<and> j \<le> length b then Some (take (j - i) (drop i b)) else None)"

datatype byte_order = LittleEndian | BigEndian

text \<open>\<^verbatim>\<open>ByteOrder.Uint16\<close> and \<^verbatim>\<open>Uint32\<close> of the slice of \<open>b\<close> at \<open>i\<close>.\<close>

definition Uint16_at :: "byte_order \<Rightarrow> byte list \<Rightarrow> nat \<Rightarrow> nat option" where
  "Uint16_at order b i =
    map_option (\<lambda>s. case order of
        LittleEndian \<Rightarrow> unat (s ! 0) + 256 * unat (s ! 1)
      | BigEndian \<Rightarrow> 256 * unat (s ! 0) + unat (s ! 1))
    (byte_slice b i (i + 2))"

definition Uint32_at :: "byte_order \<Rightarrow> byte list \<Rightarrow> nat \<Rightarrow> nat option" where
  "Uint32_at order b i =
    map_option (\<lambda>s. case order of
        LittleEndian \<Rightarrow> unat (s ! 0) + 256 * (unat (s ! 1) + 256 * (unat (s ! 2) + 256 * unat (s ! 3)))
      | BigEndian \<Rightarrow> 256 * (256 * (256 * unat (s ! 0) + unat (s ! 1)) + unat (s ! 2)) + unat (s ! 3))
    (byte_slice b i (i + 4))"

definition ascii :: "string \<Rightarrow> byte list" where
  "ascii s = map (\<lambda>c. of_nat (of_char c)) s"

section \<open>TIFF entries\<close>

text \<open>
  The loop over the entries of a directory: the orientation with \<open>ok\<close>, and how often the context was asked.
\<close>

function exif_entries ::
  "(nat \<Rightarrow> 'e option) \<Rightarrow> nat \<Rightarrow> byte_order \<Rightarrow> byte list \<Rightarrow> nat \<Rightarrow> nat \<Rightarrow> ((nat \<times> bool) \<times> nat) option" where
  "exif_entries ctx n order ifd entries index =
    (if index < entries then
       (if index mod 256 = 0 \<and> ctx n \<noteq> None then Some ((0, False), Suc n)
        else
          let n = (if index mod 256 = 0 then Suc n else n)
          in case byte_slice ifd (2 + index * 12) (2 + (index + 1) * 12) of
               None \<Rightarrow> None
             | Some entry \<Rightarrow>
               (case (Uint16_at order entry 0, Uint16_at order entry 2, Uint32_at order entry 4, Uint16_at order entry 8) of
                  (Some tag, Some kind, Some count, Some orientation) \<Rightarrow>
                    if tag \<noteq> 0x0112 then exif_entries ctx n order ifd entries (index + 1)
                    else if kind \<noteq> 3 \<or> count \<noteq> 1 then Some ((0, False), n)
                    else if orientation < 1 \<or> 8 < orientation then Some ((0, False), n)
                    else Some ((orientation mod 256, True), n)
                | _ \<Rightarrow> None))
     else Some ((0, False), n))"
  by auto
termination by (relation "measure (\<lambda>(ctx, n, order, ifd, entries, index). entries - index)") auto

declare exif_entries.simps [simp del]

definition parseEXIFOrientation ::
  "(nat \<Rightarrow> 'e option) \<Rightarrow> nat \<Rightarrow> byte list \<Rightarrow> ((nat \<times> bool) \<times> nat) option" where
  "parseEXIFOrientation ctx n payload =
    (if length payload < 14 \<or> take 6 payload \<noteq> ascii ''Exif'' @ [0, 0] then Some ((0, False), n)
     else
       let tiff = drop 6 payload
       in case byte_slice tiff 0 2 of
            None \<Rightarrow> None
          | Some mark \<Rightarrow>
            if mark \<noteq> ascii ''II'' \<and> mark \<noteq> ascii ''MM'' then Some ((0, False), n)
            else
              let order = (if mark = ascii ''II'' then LittleEndian else BigEndian)
              in case Uint16_at order tiff 2 of
                   None \<Rightarrow> None
                 | Some magic \<Rightarrow>
                   if magic \<noteq> 42 then Some ((0, False), n)
                   else case Uint32_at order tiff 4 of
                     None \<Rightarrow> None
                   | Some ifdOffset \<Rightarrow>
                     if ifdOffset > length tiff \<or> length tiff - ifdOffset < 2 then Some ((0, False), n)
                     else
                       let ifd = drop ifdOffset tiff
                       in case Uint16_at order ifd 0 of
                            None \<Rightarrow> None
                          | Some entries \<Rightarrow>
                            if entries > (length ifd - 2) div 12 then Some ((0, False), n)
                            else exif_entries ctx n order ifd entries 0)"

section \<open>Marker segments\<close>

definition skip_fill :: "byte list \<Rightarrow> nat \<Rightarrow> nat" where
  "skip_fill data offset = offset + length (takeWhile (\<lambda>b. b = 0xff) (drop offset data))"

lemma skip_fill_more: "offset < length data \<Longrightarrow> data ! offset = 0xff \<Longrightarrow> offset < skip_fill data offset"
  by (simp add: skip_fill_def flip: Cons_nth_drop_Suc)

function jpeg_segments :: "(nat \<Rightarrow> 'e option) \<Rightarrow> nat \<Rightarrow> byte list \<Rightarrow> nat \<Rightarrow> (nat \<times> 'e option) option" where
  "jpeg_segments ctx n data offset =
    (if \<not> offset < length data then Some (1, None)
     else case ctx n of
       Some err \<Rightarrow> Some (1, Some err)
     | None \<Rightarrow>
       if data ! offset \<noteq> 0xff then Some (1, None)
       else
         let at_marker = skip_fill data offset
         in if at_marker \<ge> length data then Some (1, None)
            else
              let marker = data ! at_marker; after = at_marker + 1
              in if marker = 0xda \<or> marker = 0xd9 then Some (1, None)
                 else if marker = 0xd8 \<or> marker = 0x01 \<or> (marker \<ge> 0xd0 \<and> marker \<le> 0xd7) then
                   jpeg_segments ctx (Suc n) data after
                 else if length data - after < 2 then Some (1, None)
                 else case Uint16_at BigEndian data after of
                   None \<Rightarrow> None
                 | Some len \<Rightarrow>
                   if len < 2 \<or> len > length data - after then Some (1, None)
                   else case byte_slice data (after + 2) (after + len) of
                     None \<Rightarrow> None
                   | Some payload \<Rightarrow>
                     if marker = 0xe1 then
                       (case parseEXIFOrientation ctx (Suc n) payload of
                          None \<Rightarrow> None
                        | Some ((orientation, ok), n') \<Rightarrow>
                          if ok then Some (orientation, None)
                          else case ctx n' of
                            Some err \<Rightarrow> Some (1, Some err)
                          | None \<Rightarrow> jpeg_segments ctx (Suc n') data (after + len))
                     else jpeg_segments ctx (Suc n) data (after + len))"
  by auto
termination
proof (relation "measure (\<lambda>(ctx, n, data, offset). length data - offset)", goal_cases)
  case (2 ctx n data offset at_marker marker after)
  then show ?case using skip_fill_more [of offset data] by auto
next
  case (3 ctx n data offset at_marker marker after len payload x y z n' orientation)
  then show ?case using skip_fill_more [of offset data] by auto
next
  case (4 ctx n data offset at_marker marker after len payload)
  then show ?case using skip_fill_more [of offset data] by auto
qed simp

declare jpeg_segments.simps [simp del]

definition jpegEXIFOrientation :: "(nat \<Rightarrow> 'e option) \<Rightarrow> byte list \<Rightarrow> (nat \<times> 'e option) option" where
  "jpegEXIFOrientation ctx data =
    (if length data < 2 \<or> data ! 0 \<noteq> 0xff \<or> data ! 1 \<noteq> 0xd8 then Some (1, None)
     else jpeg_segments ctx 0 data 2)"

section \<open>Turned images\<close>

record rectangle =
  min_x :: int
  min_y :: int
  max_x :: int
  max_y :: int

record 'c go_image =
  im_Bounds :: rectangle
  im_At :: "int \<Rightarrow> int \<Rightarrow> 'c"

definition Dx :: "rectangle \<Rightarrow> int" where "Dx r = max_x r - min_x r"
definition Dy :: "rectangle \<Rightarrow> int" where "Dy r = max_y r - min_y r"

definition point_in :: "int \<Rightarrow> int \<Rightarrow> rectangle \<Rightarrow> bool" where
  "point_in x y r \<longleftrightarrow> min_x r \<le> x \<and> x < max_x r \<and> min_y r \<le> y \<and> y < max_y r"

text \<open>\<^verbatim>\<open>image.Rect\<close> swaps bounds that are out of order.\<close>

definition image_Rect :: "int \<Rightarrow> int \<Rightarrow> int \<Rightarrow> int \<Rightarrow> rectangle" where
  "image_Rect x0 y0 x1 y1 = \<lparr>min_x = min x0 x1, min_y = min y0 y1, max_x = max x0 x1, max_y = max y0 y1\<rparr>"

definition orientedConfig :: "int \<times> int \<Rightarrow> nat \<Rightarrow> int \<times> int" where
  "orientedConfig config orientation =
    (if orientation \<ge> 5 \<and> orientation \<le> 8 then (snd config, fst config) else config)"

text \<open>The pixel of the source that \<^verbatim>\<open>orientedImage.At\<close> reads, relative to its bounds.\<close>

definition source_pixel :: "nat \<Rightarrow> int \<Rightarrow> int \<Rightarrow> int \<Rightarrow> int \<Rightarrow> int \<times> int" where
  "source_pixel orientation width height x y =
    (if orientation = 2 then (width - 1 - x, y)
     else if orientation = 3 then (width - 1 - x, height - 1 - y)
     else if orientation = 4 then (x, height - 1 - y)
     else if orientation = 5 then (y, x)
     else if orientation = 6 then (y, height - 1 - x)
     else if orientation = 7 then (width - 1 - y, height - 1 - x)
     else if orientation = 8 then (width - 1 - y, x)
     else (x, y))"

definition oriented_At :: "'c \<Rightarrow> 'c go_image \<Rightarrow> nat \<Rightarrow> rectangle \<Rightarrow> int \<Rightarrow> int \<Rightarrow> 'c" where
  "oriented_At blank source orientation bounds x y =
    (if \<not> point_in x y bounds then blank
     else
       let (sourceX, sourceY) =
         source_pixel orientation (Dx (im_Bounds source)) (Dy (im_Bounds source)) (x - min_x bounds) (y - min_y bounds)
       in im_At source (min_x (im_Bounds source) + sourceX) (min_y (im_Bounds source) + sourceY))"

definition orientImage :: "'c \<Rightarrow> 'c go_image \<Rightarrow> nat \<Rightarrow> 'c go_image" where
  "orientImage blank source orientation =
    (if orientation \<le> 1 \<or> orientation > 8 then source
     else
       let width = Dx (im_Bounds source); height = Dy (im_Bounds source);
           bounds = (if orientation \<ge> 5 then image_Rect 0 0 height width else image_Rect 0 0 width height)
       in \<lparr>im_Bounds = bounds, im_At = oriented_At blank source orientation bounds\<rparr>)"

section \<open>No panic\<close>

lemma byte_slice_Some: "i \<le> j \<Longrightarrow> j \<le> length b \<Longrightarrow> byte_slice b i j = Some (take (j - i) (drop i b))"
  by (simp add: byte_slice_def)

lemma Uint16_at_Some: "i + 2 \<le> length b \<Longrightarrow> \<exists>v. Uint16_at order b i = Some v"
  by (simp add: Uint16_at_def byte_slice_Some)

lemma Uint32_at_Some: "i + 4 \<le> length b \<Longrightarrow> \<exists>v. Uint32_at order b i = Some v"
  by (simp add: Uint32_at_def byte_slice_Some)

lemma exif_entries_total:
  assumes "entries \<le> (length ifd - 2) div 12" and "2 \<le> length ifd"
  shows "\<exists>orientation ok n'. exif_entries ctx n order ifd entries index = Some ((orientation, ok), n') \<and>
    (ok \<longrightarrow> 1 \<le> orientation \<and> orientation \<le> 8)"
  using assms
proof (induction ctx n order ifd entries index rule: exif_entries.induct)
  case (1 ctx n order ifd entries index)
  show ?case
  proof (cases "index < entries \<and> \<not> (index mod 256 = 0 \<and> ctx n \<noteq> None)")
    case False
    then show ?thesis by (subst exif_entries.simps) auto
  next
    case True
    define m where "m = (if index mod 256 = 0 then Suc n else n)"
    define entry where "entry = take 12 (drop (2 + index * 12) ifd)"
    have len: "2 + (index + 1) * 12 \<le> length ifd"
      using conjunct1 [OF True] "1.prems" by (simp add: less_eq_div_iff_mult_less_eq)
    then have e: "byte_slice ifd (2 + index * 12) (2 + (index + 1) * 12) = Some entry" "length entry = 12"
      by (simp_all add: byte_slice_Some entry_def)
    obtain tag kind count orientation where v: "Uint16_at order entry 0 = Some tag" "Uint16_at order entry 2 = Some kind"
      "Uint32_at order entry 4 = Some count" "Uint16_at order entry 8 = Some orientation"
      using Uint16_at_Some [of 0 entry] Uint16_at_Some [of 2 entry] Uint32_at_Some [of 4 entry] Uint16_at_Some [of 8 entry] e(2)
      by fastforce
    have step: "exif_entries ctx n order ifd entries index =
      (if tag \<noteq> 0x0112 then exif_entries ctx m order ifd entries (index + 1)
       else if kind \<noteq> 3 \<or> count \<noteq> 1 then Some ((0, False), m)
       else if orientation < 1 \<or> 8 < orientation then Some ((0, False), m)
       else Some ((orientation mod 256, True), m))"
      using True e v by (subst exif_entries.simps) (auto simp: m_def Let_def)
    show ?thesis
    proof (cases "tag = 0x0112")
      case False
      then show ?thesis unfolding step using "1.IH" [OF _ _ m_def e(1) refl v(1) refl v(2) refl v(3) v(4)] True "1.prems" by simp
    qed (auto simp: step)
  qed
qed

lemma parseEXIF_total:
  "\<exists>orientation ok n'. parseEXIFOrientation ctx n payload = Some ((orientation, ok), n') \<and>
    (ok \<longrightarrow> 1 \<le> orientation \<and> orientation \<le> 8)"
proof (cases "length payload < 14 \<or> take 6 payload \<noteq> ascii ''Exif'' @ [0, 0]")
  case True
  then show ?thesis by (auto simp: parseEXIFOrientation_def)
next
  case False
  define tiff where "tiff = drop 6 payload"
  have len: "8 \<le> length tiff" using False by (auto simp: tiff_def)
  then have mark: "byte_slice tiff 0 2 = Some (take 2 tiff)" by (simp add: byte_slice_Some)
  define order where "order = (if take 2 tiff = ascii ''II'' then LittleEndian else BigEndian)"
  obtain magic ifdOffset where v: "Uint16_at order tiff 2 = Some magic" "Uint32_at order tiff 4 = Some ifdOffset"
    using Uint16_at_Some [of 2 tiff] Uint32_at_Some [of 4 tiff] len by fastforce
  have eq: "parseEXIFOrientation ctx n payload =
    (if take 2 tiff \<noteq> ascii ''II'' \<and> take 2 tiff \<noteq> ascii ''MM'' \<or> magic \<noteq> 42 \<or>
       ifdOffset > length tiff \<or> length tiff - ifdOffset < 2 then Some ((0, False), n)
     else case Uint16_at order (drop ifdOffset tiff) 0 of
       None \<Rightarrow> None
     | Some entries \<Rightarrow>
       if entries > (length (drop ifdOffset tiff) - 2) div 12 then Some ((0, False), n)
       else exif_entries ctx n order (drop ifdOffset tiff) entries 0)"
    using False mark v unfolding parseEXIFOrientation_def Let_def tiff_def order_def by (auto simp del: length_drop)
  show ?thesis
  proof (cases "ifdOffset \<le> length tiff \<and> 2 \<le> length tiff - ifdOffset")
    case True
    then obtain entries where "Uint16_at order (drop ifdOffset tiff) 0 = Some entries"
      using Uint16_at_Some [of 0 "drop ifdOffset tiff" order] by auto
    then show ?thesis
      using exif_entries_total [of entries "drop ifdOffset tiff" ctx n order 0] True unfolding eq by auto
  qed (auto simp: eq)
qed

lemma jpeg_segments_total:
  "\<exists>orientation err. jpeg_segments ctx n data offset = Some (orientation, err) \<and> 1 \<le> orientation \<and> orientation \<le> 8"
proof (induction ctx n data offset rule: jpeg_segments.induct)
  case (1 ctx n data offset)
  define at_marker where "at_marker = skip_fill data offset"
  define marker where "marker = data ! at_marker"
  define after where "after = at_marker + 1"
  show ?case
  proof (cases "offset < length data \<and> ctx n = None \<and> data ! offset = 0xff \<and> at_marker < length data \<and>
      marker \<noteq> 0xda \<and> marker \<noteq> 0xd9")
    case False
    then show ?thesis
      by (subst jpeg_segments.simps) (auto simp: Let_def at_marker_def marker_def after_def split: option.split)
  next
    case start: True
    show ?thesis
    proof (cases "marker = 0xd8 \<or> marker = 0x01 \<or> (marker \<ge> 0xd0 \<and> marker \<le> 0xd7)")
      case True
      then have "jpeg_segments ctx n data offset = jpeg_segments ctx (Suc n) data after"
        using start by (subst jpeg_segments.simps) (simp add: Let_def at_marker_def marker_def after_def)
      then show ?thesis
        using "1.IH"(1) [OF _ _ _ at_marker_def _ marker_def after_def] start True by auto
    next
      case segment: False
      show ?thesis
      proof (cases "length data - after < 2")
        case True
        then show ?thesis using start segment
          by (subst jpeg_segments.simps) (auto simp: Let_def at_marker_def marker_def after_def)
      next
        case False
        then obtain len where len: "Uint16_at BigEndian data after = Some len"
          using Uint16_at_Some [of after data] by fastforce
        show ?thesis
        proof (cases "len < 2 \<or> len > length data - after")
          case True
          then show ?thesis using start segment False len
            by (subst jpeg_segments.simps) (auto simp: Let_def at_marker_def marker_def after_def)
        next
          case fits: False
          then obtain payload where payload: "byte_slice data (after + 2) (after + len) = Some payload"
            using byte_slice_Some [of "after + 2" "after + len" data] False by auto
          obtain orientation ok n' where p: "parseEXIFOrientation ctx (Suc n) payload = Some ((orientation, ok), n')"
            "ok \<longrightarrow> 1 \<le> orientation \<and> orientation \<le> 8"
            using parseEXIF_total by blast
          have step: "jpeg_segments ctx n data offset =
            (if marker = 0xe1 then
               if ok then Some (orientation, None)
               else case ctx n' of Some err \<Rightarrow> Some (1, Some err) | None \<Rightarrow> jpeg_segments ctx (Suc n') data (after + len)
             else jpeg_segments ctx (Suc n) data (after + len))"
            using start segment False len fits payload p
            by (subst jpeg_segments.simps) (auto simp: Let_def at_marker_def marker_def after_def split: option.split)
          have IH3: "\<exists>orientation err. jpeg_segments ctx (Suc n) data (after + len) = Some (orientation, err) \<and>
              1 \<le> orientation \<and> orientation \<le> 8" if "marker \<noteq> 0xe1"
            using "1.IH"(3) [OF _ _ _ at_marker_def _ marker_def after_def _ _ _ len _ payload] start segment False fits that
            by auto
          have IH2: "\<exists>orientation err. jpeg_segments ctx (Suc n') data (after + len) = Some (orientation, err) \<and>
              1 \<le> orientation \<and> orientation \<le> 8" if "marker = 0xe1" "\<not> ok" "ctx n' = None"
            using "1.IH"(2) [OF _ _ _ at_marker_def _ marker_def after_def _ _ _ len _ payload _ p(1) refl refl] start segment
              False fits that by auto
          show ?thesis unfolding step using p(2) IH2 IH3 by (auto split: option.split)
        qed
      qed
    qed
  qed
qed

section \<open>Files with an orientation\<close>

definition put16 :: "byte_order \<Rightarrow> nat \<Rightarrow> byte list" where
  "put16 order v =
    (case order of
       LittleEndian \<Rightarrow> [of_nat v, of_nat (v div 256)]
     | BigEndian \<Rightarrow> [of_nat (v div 256), of_nat v])"

definition put32 :: "byte_order \<Rightarrow> nat \<Rightarrow> byte list" where
  "put32 order v =
    (case order of
       LittleEndian \<Rightarrow> put16 order (v mod 65536) @ put16 order (v div 65536)
     | BigEndian \<Rightarrow> put16 order (v div 65536) @ put16 order (v mod 65536))"

text \<open>The payload of an EXIF segment whose directory has the orientation as its only entry.\<close>

definition exif_payload :: "byte_order \<Rightarrow> nat \<Rightarrow> byte list" where
  "exif_payload order orientation =
    ascii ''Exif'' @ [0, 0] @ ascii (case order of LittleEndian \<Rightarrow> ''II'' | BigEndian \<Rightarrow> ''MM'') @ put16 order 42 @
    put32 order 8 @ put16 order 1 @ put16 order 0x0112 @ put16 order 3 @ put32 order 1 @ put16 order orientation @ [0, 0]"

definition jpeg_segment :: "byte \<Rightarrow> byte list \<Rightarrow> byte list" where
  "jpeg_segment marker payload = [0xff, marker] @ put16 BigEndian (length payload + 2) @ payload"

text \<open>Segments before the scan that carry no EXIF: neither a fill byte, nor a marker without a length, nor \<^verbatim>\<open>APP1\<close>.\<close>

definition plain_segment :: "byte \<times> byte list \<Rightarrow> bool" where
  "plain_segment seg \<longleftrightarrow> fst seg \<notin> {0xff, 0xd8, 0xd9, 0xda, 0x01, 0xe1} \<and> \<not> (fst seg \<ge> 0xd0 \<and> fst seg \<le> 0xd7) \<and>
    length (snd seg) + 2 < 65536"

lemma parse_exif_payload:
  assumes ctx: "\<And>n. ctx n = None" and "1 \<le> orientation" and "orientation \<le> 8"
  shows "parseEXIFOrientation ctx n (exif_payload order orientation) = Some ((orientation, True), Suc n)"
proof -
  have "orientation \<in> {1, 2, 3, 4, 5, 6, 7, 8}" using assms(2,3) by auto
  then show ?thesis
    by (cases order)
      (auto simp: ctx parseEXIFOrientation_def exif_payload_def put16_def put32_def ascii_def Let_def byte_slice_def
        Uint16_at_def Uint32_at_def exif_entries.simps [of _ _ _ _ "Suc 0" 0])
qed

lemma byte_pair: "v < 65536 \<Longrightarrow> 256 * unat (of_nat (v div 256) :: byte) + unat (of_nat v :: byte) = v"
  by (simp add: unsigned_of_nat take_bit_eq_mod)

lemma segment_read:
  assumes "data = pre @ jpeg_segment m p @ post" and "m \<noteq> 0xff" and "length p + 2 < 65536"
  shows "skip_fill data (length pre) = length pre + 1" and "data ! (length pre) = 0xff" and "data ! (length pre + 1) = m"
    and "Uint16_at BigEndian data (length pre + 2) = Some (length p + 2)"
    and "byte_slice data (length pre + 4) (length pre + 4 + length p) = Some p"
    and "length pre + 4 + length p \<le> length data"
  using assms(2) byte_pair [OF assms(3)]
  by (simp_all add: assms(1) jpeg_segment_def put16_def skip_fill_def nth_append Uint16_at_def byte_slice_def)

lemma segment_skipped:
  assumes ctx: "\<And>n. ctx n = None" and "data = pre @ jpeg_segment m p @ post" and "plain_segment (m, p)"
  shows "jpeg_segments ctx n data (length pre) = jpeg_segments ctx (Suc n) data (length pre + 4 + length p)"
proof -
  have m: "m \<noteq> 0xff" "length p + 2 < 65536" using assms(3) by (simp_all add: plain_segment_def)
  note read = segment_read [OF assms(2) m]
  have room: "\<not> length data - Suc (Suc (length pre)) < Suc (Suc (length p))"
    using read(6) by arith
  have taken: "byte_slice data (Suc (Suc (Suc (Suc (length pre))))) (Suc (Suc (Suc (Suc (length pre + length p))))) = Some p"
    using read(5) by (simp add: eval_nat_numeral)
  have next_offset: "length pre + 4 + length p = Suc (Suc (Suc (Suc (length pre + length p))))" by simp
  show ?thesis
    using read(1-4,6) room taken assms(3)
    unfolding next_offset by (subst jpeg_segments.simps) (auto simp: ctx [of n] Let_def plain_segment_def)
qed

lemma segment_found:
  assumes ctx: "\<And>n. ctx n = None" and "data = pre @ jpeg_segment 0xe1 (exif_payload order orientation) @ post" and "1 \<le> orientation" and "orientation \<le> 8"
  shows "jpeg_segments ctx n data (length pre) = Some (orientation, None)"
proof -
  have "length (exif_payload order orientation) + 2 < 65536"
    by (cases order) (simp_all add: exif_payload_def put16_def put32_def ascii_def)
  note read = segment_read [OF assms(2) _ this, simplified]
  have room: "\<not> length data - Suc (Suc (length pre)) < Suc (Suc (length (exif_payload order orientation)))"
    using read(6) by arith
  have taken: "byte_slice data (Suc (Suc (Suc (Suc (length pre)))))
      (Suc (Suc (Suc (Suc (length pre + length (exif_payload order orientation)))))) = Some (exif_payload order orientation)"
    using read(5) by (simp add: eval_nat_numeral)
  show ?thesis
    using read(1-4,6) parse_exif_payload [OF assms(1,3,4)] room taken
    by (subst jpeg_segments.simps) (simp add: ctx [of n] Let_def)
qed

definition exif_jpeg :: "(byte \<times> byte list) list \<Rightarrow> byte_order \<Rightarrow> nat \<Rightarrow> byte list \<Rightarrow> byte list" where
  "exif_jpeg segs order orientation rest_of_file =
    [0xff, 0xd8] @ concat (map (\<lambda>(m, p). jpeg_segment m p) segs) @ jpeg_segment 0xe1 (exif_payload order orientation) @
    rest_of_file"

lemma jpeg_segments_exif:
  assumes ctx: "\<And>n. ctx n = None" and "1 \<le> orientation" and "orientation \<le> 8"
  shows "list_all plain_segment segs \<Longrightarrow>
    data = pre @ concat (map (\<lambda>(m, p). jpeg_segment m p) segs) @ jpeg_segment 0xe1 (exif_payload order orientation) @ post \<Longrightarrow>
    jpeg_segments ctx n data (length pre) = Some (orientation, None)"
proof (induction segs arbitrary: pre n)
  case Nil
  then have "data = pre @ jpeg_segment 0xe1 (exif_payload order orientation) @ post" by simp
  then show ?case by (rule segment_found [OF ctx _ assms(2,3)])
next
  case (Cons seg segs)
  obtain m p where seg: "seg = (m, p)" by (cases seg)
  have d: "data = pre @ jpeg_segment m p @ (concat (map (\<lambda>(m, p). jpeg_segment m p) segs) @
    jpeg_segment 0xe1 (exif_payload order orientation) @ post)"
    using Cons.prems(2) by (simp add: seg)
  have len: "length (pre @ jpeg_segment m p) = length pre + 4 + length p"
    by (simp add: jpeg_segment_def put16_def)
  have "jpeg_segments ctx n data (length pre) = jpeg_segments ctx (Suc n) data (length (pre @ jpeg_segment m p))"
    unfolding len by (rule segment_skipped [OF ctx d]) (use Cons.prems(1) seg in simp)
  also have "\<dots> = Some (orientation, None)"
    using Cons.IH [of "pre @ jpeg_segment m p" "Suc n"] Cons.prems by (simp add: seg)
  finally show ?case .
qed

section \<open>Turning\<close>

lemma source_pixel_in:
  assumes "1 \<le> k" and "k \<le> 8" and "orientedConfig (w, h) k = (w', h')"
    and "0 \<le> x" and "x < w'" and "0 \<le> y" and "y < h'"
  shows "0 \<le> fst (source_pixel k w h x y) \<and> fst (source_pixel k w h x y) < w \<and>
    0 \<le> snd (source_pixel k w h x y) \<and> snd (source_pixel k w h x y) < h"
  using assms by (auto simp: source_pixel_def orientedConfig_def split: if_splits)

text \<open>The orientation that undoes one: only the quarter turns, 6 and 8, are not their own inverse.\<close>

definition undo_orientation :: "nat \<Rightarrow> nat" where
  "undo_orientation k = (if k = 6 then 8 else if k = 8 then 6 else k)"

lemma source_pixel_undo:
  assumes "1 \<le> k" and "k \<le> 8" and "orientedConfig (w, h) k = (w', h')"
  shows "source_pixel (undo_orientation k) w' h' (fst (source_pixel k w h x y)) (snd (source_pixel k w h x y)) = (x, y)"
proof -
  have "k \<in> {1, 2, 3, 4, 5, 6, 7, 8}" using assms(1,2) by auto
  then show ?thesis using assms(3)
    by (auto simp: source_pixel_def undo_orientation_def orientedConfig_def)
qed

lemma oriented_bounds:
  assumes "2 \<le> k" and "k \<le> 8" and "0 \<le> Dx (im_Bounds img)" and "0 \<le> Dy (im_Bounds img)"
  shows "im_Bounds (orientImage blank img k) =
      \<lparr>min_x = 0, min_y = 0, max_x = fst (orientedConfig (Dx (im_Bounds img), Dy (im_Bounds img)) k),
       max_y = snd (orientedConfig (Dx (im_Bounds img), Dy (im_Bounds img)) k)\<rparr>"
  using assms by (auto simp: orientImage_def orientedConfig_def image_Rect_def Let_def)

section \<open>The properties\<close>

text \<open>
  C8. Reading the orientation never panics and always ends, whatever the bytes of the file and the context: no slice is out
  of range, and the orientation is one of the eight.
\<close>

theorem orientation_total:
  "\<exists>orientation err. jpegEXIFOrientation ctx data = Some (orientation, err) \<and> 1 \<le> orientation \<and> orientation \<le> 8"
  using jpeg_segments_total [of ctx 0 data 2] by (auto simp: jpegEXIFOrientation_def)

text \<open>
  C21. The orientation of a file is read back: in a JPEG file whose EXIF segment, in either byte order, follows any segments
  that carry no EXIF, whatever comes after it, the result is the orientation written into its directory.
\<close>

theorem orientation_read_back:
  assumes "list_all plain_segment segs" and "1 \<le> orientation" and "orientation \<le> 8"
  shows "jpegEXIFOrientation (\<lambda>_. None) (exif_jpeg segs order orientation rest_of_file) = Some (orientation, None)"
  using jpeg_segments_exif [of "\<lambda>_. None" orientation segs "exif_jpeg segs order orientation rest_of_file" "[0xff, 0xd8]"
      order rest_of_file 0] assms
  by (simp add: jpegEXIFOrientation_def exif_jpeg_def numeral_2_eq_2)

theorem orientation_read_back_witness:
  "jpegEXIFOrientation (\<lambda>_. None) (exif_jpeg [(0xe0, ascii ''JFIF'')] LittleEndian 6 [0xff, 0xda, 1, 2]) = Some (6, None)"
  by (rule orientation_read_back) (simp_all add: plain_segment_def ascii_def)

text \<open>
  C22. A turned image holds every pixel of the source once: reading within its bounds reads within the bounds of the source,
  and turning it again by the inverse orientation gives an image that reads as the source does, moved to the origin.
\<close>

theorem turning_keeps_pixels:
  assumes "2 \<le> k" and "k \<le> 8" and "0 \<le> Dx (im_Bounds img)" and "0 \<le> Dy (im_Bounds img)"
  shows "im_Bounds (orientImage blank (orientImage blank img k) (undo_orientation k)) =
      \<lparr>min_x = 0, min_y = 0, max_x = Dx (im_Bounds img), max_y = Dy (im_Bounds img)\<rparr> \<and>
    (\<forall>x y. 0 \<le> x \<and> x < Dx (im_Bounds img) \<and> 0 \<le> y \<and> y < Dy (im_Bounds img) \<longrightarrow>
      im_At (orientImage blank (orientImage blank img k) (undo_orientation k)) x y =
      im_At img (min_x (im_Bounds img) + x) (min_y (im_Bounds img) + y))"
proof -
  have "k \<in> {2, 3, 4, 5, 6, 7, 8}" using assms(1,2) by auto
  then show ?thesis using assms(3,4)
    by (auto simp: orientImage_def undo_orientation_def image_Rect_def Let_def Dx_def Dy_def oriented_At_def
        source_pixel_def point_in_def)
qed

text \<open>A strip of two pixels away from the origin, turned to the right and back.\<close>

definition strip :: "(int \<times> int) go_image" where
  "strip = \<lparr>im_Bounds = \<lparr>min_x = 10, min_y = 20, max_x = 12, max_y = 21\<rparr>, im_At = Pair\<rparr>"

theorem turning_keeps_pixels_witness:
  "im_Bounds (orientImage (0, 0) strip 6) = \<lparr>min_x = 0, min_y = 0, max_x = 1, max_y = 2\<rparr> \<and>
    im_At (orientImage (0, 0) (orientImage (0, 0) strip 6) 8) 1 0 = (11, 20)"
  using turning_keeps_pixels [of 6 strip "(0, 0)"]
  by (auto simp: undo_orientation_def strip_def Dx_def Dy_def orientImage_def image_Rect_def Let_def)

end
