(* ===== verification/Routing_Queue.thy ===== *)
theory Routing_Queue
  imports Heap_Order Tala_Limits
begin

text \<open>
  \<^verbatim>\<open>routing/priority_queue.go\<close>: the indexed binary heap of TALA's route search. The entries live in chunks of
  256, a pointer to an entry is the number of its slot, and every entry knows its place in the heap, so that
  \<^verbatim>\<open>decrease\<close> needs no search. The specification is a list in the order of insertion: \<^verbatim>\<open>pop\<close> takes the first
  element of least priority out of it.
\<close>

section \<open>The queue\<close>

text \<open>Floating point numbers as far as the queue compares them: NaN differs from everything and is not less.\<close>

datatype 'p float64 = NaN | Num (the_num: 'p)

fun float_less :: "'p::linorder float64 \<Rightarrow> 'p float64 \<Rightarrow> bool" where
  "float_less (Num x) (Num y) = (x < y)"
| "float_less _ _ = False"

fun float_eq :: "'p float64 \<Rightarrow> 'p float64 \<Rightarrow> bool" where
  "float_eq (Num x) (Num y) = (x = y)"
| "float_eq _ _ = False"

definition float_ge :: "'p::linorder float64 \<Rightarrow> 'p float64 \<Rightarrow> bool" where
  "float_ge x y \<longleftrightarrow> float_less y x \<or> float_eq x y"

record ('p, 'n) priorityQueueEntry =
  pe_node :: "'n option"
  pe_isHorizontal :: bool
  pe_priority :: "'p float64"
  pe_index :: int
  pe_order :: nat

record ('p, 'n) priorityQueue =
  pq_items :: "nat list"
  pq_entryChunks :: "('p, 'n) priorityQueueEntry list list"
  pq_entryCursor :: nat
  pq_nextOrder :: nat

definition priorityQueueEntryChunkSize :: nat where "priorityQueueEntryChunkSize = 256"

definition zero_entry :: "('p::zero, 'n) priorityQueueEntry" where
  "zero_entry = \<lparr>pe_node = None, pe_isHorizontal = False, pe_priority = Num 0, pe_index = 0, pe_order = 0\<rparr>"

definition empty_queue :: "('p, 'n) priorityQueue" where
  "empty_queue = \<lparr>pq_items = [], pq_entryChunks = [], pq_entryCursor = 0, pq_nextOrder = 0\<rparr>"

text \<open>The entry in slot \<open>a\<close>, and writing to it.\<close>

definition entry_at :: "('p, 'n) priorityQueue \<Rightarrow> nat \<Rightarrow> ('p, 'n) priorityQueueEntry" where
  "entry_at q a = pq_entryChunks q ! (a div priorityQueueEntryChunkSize) ! (a mod priorityQueueEntryChunkSize)"

definition set_entry ::
  "nat \<Rightarrow> ('p, 'n) priorityQueueEntry \<Rightarrow> ('p, 'n) priorityQueue \<Rightarrow> ('p, 'n) priorityQueue" where
  "set_entry a e q =
    (let c = a div priorityQueueEntryChunkSize
     in q\<lparr>pq_entryChunks := (pq_entryChunks q)[c := (pq_entryChunks q ! c)[a mod priorityQueueEntryChunkSize := e]]\<rparr>)"

definition set_index :: "nat \<Rightarrow> int \<Rightarrow> ('p, 'n) priorityQueue \<Rightarrow> ('p, 'n) priorityQueue" where
  "set_index a i q = set_entry a ((entry_at q a)\<lparr>pe_index := i\<rparr>) q"

section \<open>The operations\<close>

definition queue_reset :: "('p, 'n) priorityQueue \<Rightarrow> ('p, 'n) priorityQueue" where
  "queue_reset q = q\<lparr>pq_items := [], pq_entryCursor := 0, pq_nextOrder := 0\<rparr>"

definition queue_empty :: "('p, 'n) priorityQueue \<Rightarrow> bool" where
  "queue_empty q \<longleftrightarrow> length (pq_items q) = 0"

definition priorityQueueEntryLess ::
  "('p::linorder, 'n) priorityQueueEntry \<Rightarrow> ('p, 'n) priorityQueueEntry \<Rightarrow> bool" where
  "priorityQueueEntryLess a b =
    (if \<not> float_eq (pe_priority a) (pe_priority b) then float_less (pe_priority a) (pe_priority b)
     else pe_order a < pe_order b)"

definition queue_less :: "('p::linorder, 'n) priorityQueue \<Rightarrow> nat \<Rightarrow> nat \<Rightarrow> bool" where
  "queue_less q left right =
    priorityQueueEntryLess (entry_at q (pq_items q ! left)) (entry_at q (pq_items q ! right))"

definition queue_swap :: "nat \<Rightarrow> nat \<Rightarrow> ('p, 'n) priorityQueue \<Rightarrow> ('p, 'n) priorityQueue" where
  "queue_swap left right q =
    (let xs = pq_items q;
         ys = xs[left := xs ! right, right := xs ! left];
         q1 = q\<lparr>pq_items := ys\<rparr>
     in set_index (ys ! right) (int right) (set_index (ys ! left) (int left) q1))"

fun siftUp :: "nat \<Rightarrow> ('p::linorder, 'n) priorityQueue \<Rightarrow> ('p, 'n) priorityQueue" where
  "siftUp index q =
    (if index > 0 then
       let parent = (index - 1) div 2
       in if \<not> queue_less q index parent then q else siftUp parent (queue_swap index parent q)
     else q)"

lemma length_queue_swap [simp]: "length (pq_items (queue_swap l r q)) = length (pq_items q)"
  by (simp add: queue_swap_def set_index_def set_entry_def Let_def)

function siftDown :: "nat \<Rightarrow> ('p::linorder, 'n) priorityQueue \<Rightarrow> ('p, 'n) priorityQueue" where
  "siftDown index q =
    (let left = index * 2 + 1
     in if left \<ge> length (pq_items q) then q
        else
          let right = left + 1;
              smallest = (if right < length (pq_items q) \<and> queue_less q right left then right else left)
          in if \<not> queue_less q smallest index then q
             else siftDown smallest (queue_swap index smallest q))"
  by pat_completeness auto
termination
  by (relation "measure (\<lambda>(index, q). length (pq_items q) - index)") (auto split: if_splits)

declare siftUp.simps [simp del] siftDown.simps [simp del]

definition allocateEntry ::
  "'p float64 \<Rightarrow> ('p::zero, 'n) priorityQueue \<Rightarrow> nat \<times> ('p, 'n) priorityQueue" where
  "allocateEntry priority q =
    (let chunkIndex = pq_entryCursor q div priorityQueueEntryChunkSize;
         q1 = (if chunkIndex = length (pq_entryChunks q)
               then q\<lparr>pq_entryChunks := pq_entryChunks q @ [replicate priorityQueueEntryChunkSize zero_entry]\<rparr>
               else q);
         a = pq_entryCursor q
     in (a, set_entry a (zero_entry\<lparr>pe_priority := priority, pe_index := -1\<rparr>)
              (q1\<lparr>pq_entryCursor := a + 1\<rparr>)))"

text \<open>A budget is absent or charges units, with an error of its own when it is used up.\<close>

type_synonym ('g, 'e) work_budget = "(nat \<Rightarrow> 'g \<Rightarrow> 'e option \<times> 'g) option"

datatype ('p, 'e) queue_error =
    EmptyPop
  | EmptyDecrease
  | NilEntry
  | NotQueued
  | NotLess "'p float64" "'p float64"
  | BudgetError 'e

definition reservePriorityQueueWork ::
  "('g, 'e) work_budget \<Rightarrow> nat \<Rightarrow> nat \<Rightarrow> 'g \<Rightarrow> ('p, 'e) queue_error option \<times> 'g" where
  "reservePriorityQueueWork guard upperBound unitsPerLevel g =
    (case guard of
       None \<Rightarrow> (None, g)
     | Some add \<Rightarrow> map_prod (map_option BudgetError) (\<lambda>g. g) (add (bits_Len upperBound * unitsPerLevel) g))"

definition queue_push ::
  "('g, 'e) work_budget \<Rightarrow> 'p::{zero,linorder} float64 \<Rightarrow> 'n option \<Rightarrow> bool \<Rightarrow> ('p, 'n) priorityQueue \<Rightarrow> 'g
    \<Rightarrow> (('p, 'e) queue_error + nat) \<times> ('p, 'n) priorityQueue \<times> 'g" where
  "queue_push guard priority node isHorizontal q g =
    (case reservePriorityQueueWork guard (length (pq_items q) + 1) 1 g of
       (Some err, g1) \<Rightarrow> (Inl err, q, g1)
     | (None, g1) \<Rightarrow>
         let (a, q1) = allocateEntry priority q;
             i = length (pq_items q1);
             q2 = set_entry a ((entry_at q1 a)\<lparr>pe_node := node, pe_isHorizontal := isHorizontal,
                                               pe_index := int i, pe_order := pq_nextOrder q1\<rparr>) q1;
             q3 = q2\<lparr>pq_nextOrder := (pq_nextOrder q2 + 1) mod 2 ^ 64, pq_items := pq_items q2 @ [a]\<rparr>
         in (Inr a, siftUp i q3, g1))"

definition queue_pop ::
  "('g, 'e) work_budget \<Rightarrow> ('p::linorder, 'n) priorityQueue \<Rightarrow> 'g
    \<Rightarrow> (('p, 'e) queue_error + nat) \<times> ('p, 'n) priorityQueue \<times> 'g" where
  "queue_pop guard q g =
    (if queue_empty q then (Inl EmptyPop, q, g)
     else case reservePriorityQueueWork guard (length (pq_items q)) 2 g of
       (Some err, g1) \<Rightarrow> (Inl err, q, g1)
     | (None, g1) \<Rightarrow>
         let least = pq_items q ! 0;
             lastIndex = length (pq_items q) - 1;
             lst = pq_items q ! lastIndex;
             q1 = set_index least (-1) (q\<lparr>pq_items := take lastIndex (pq_items q)\<rparr>);
             q2 = (if lastIndex \<noteq> 0
                   then siftDown 0 (set_index lst 0 (q1\<lparr>pq_items := (pq_items q1)[0 := lst]\<rparr>))
                   else q1)
         in (Inr least, q2, g1))"

definition queue_decrease ::
  "('g, 'e) work_budget \<Rightarrow> nat option \<Rightarrow> 'p::linorder float64 \<Rightarrow> ('p, 'n) priorityQueue \<Rightarrow> 'g
    \<Rightarrow> ('p, 'e) queue_error option \<times> ('p, 'n) priorityQueue \<times> 'g" where
  "queue_decrease guard entry priority q g =
    (if queue_empty q then (Some EmptyDecrease, q, g)
     else case entry of None \<Rightarrow> (Some NilEntry, q, g)
     | Some a \<Rightarrow>
         let e = entry_at q a
         in if pe_index e < 0 \<or> pe_index e \<ge> int (length (pq_items q)) \<or> pq_items q ! nat (pe_index e) \<noteq> a
            then (Some NotQueued, q, g)
            else if float_ge priority (pe_priority e) then (Some (NotLess priority (pe_priority e)), q, g)
            else case reservePriorityQueueWork guard (nat (pe_index e) + 1) 1 g of
              (Some err, g1) \<Rightarrow> (Some err, q, g1)
            | (None, g1) \<Rightarrow> (None, siftUp (nat (pe_index e)) (set_entry a (e\<lparr>pe_priority := priority\<rparr>) q), g1))"

section \<open>Slots and places\<close>

text \<open>The chunks are full, every queued slot is in use, and each entry knows its place.\<close>

definition queue_ok :: "('p, 'n) priorityQueue \<Rightarrow> bool" where
  "queue_ok q \<longleftrightarrow>
    (\<forall>c \<in> set (pq_entryChunks q). length c = 256) \<and> pq_entryCursor q \<le> 256 * length (pq_entryChunks q) \<and>
    (\<forall>a \<in> set (pq_items q). a < pq_entryCursor q) \<and> distinct (pq_items q) \<and>
    (\<forall>i < length (pq_items q). pe_index (entry_at q (pq_items q ! i)) = int i)"

text \<open>The same entries but for their places.\<close>

definition reindexed :: "('p, 'n) priorityQueue \<Rightarrow> ('p, 'n) priorityQueue \<Rightarrow> bool" where
  "reindexed q r \<longleftrightarrow>
    (\<forall>a. pe_node (entry_at r a) = pe_node (entry_at q a) \<and>
         pe_isHorizontal (entry_at r a) = pe_isHorizontal (entry_at q a) \<and>
         pe_priority (entry_at r a) = pe_priority (entry_at q a) \<and> pe_order (entry_at r a) = pe_order (entry_at q a)) \<and>
    pq_entryCursor r = pq_entryCursor q \<and> pq_nextOrder r = pq_nextOrder q \<and>
    map length (pq_entryChunks r) = map length (pq_entryChunks q)"

definition slot :: "('p, 'n) priorityQueue \<Rightarrow> nat \<Rightarrow> bool" where
  "slot q a \<longleftrightarrow> (\<forall>c \<in> set (pq_entryChunks q). length c = 256) \<and> a < 256 * length (pq_entryChunks q)"

lemma set_entry_simps [simp]:
  "pq_items (set_entry a e q) = pq_items q" "pq_entryCursor (set_entry a e q) = pq_entryCursor q"
  "pq_nextOrder (set_entry a e q) = pq_nextOrder q"
  "length (pq_entryChunks (set_entry a e q)) = length (pq_entryChunks q)"
  by (simp_all add: set_entry_def Let_def)

lemma set_index_simps [simp]:
  "pq_items (set_index a i q) = pq_items q" "pq_entryCursor (set_index a i q) = pq_entryCursor q"
  "pq_nextOrder (set_index a i q) = pq_nextOrder q"
  "length (pq_entryChunks (set_index a i q)) = length (pq_entryChunks q)"
  by (simp_all add: set_index_def)

lemma entry_at_update [simp]:
  "entry_at (q\<lparr>pq_items := xs\<rparr>) = entry_at q" "entry_at (q\<lparr>pq_nextOrder := k\<rparr>) = entry_at q"
  "entry_at (q\<lparr>pq_entryCursor := k\<rparr>) = entry_at q"
  by (simp_all add: entry_at_def fun_eq_iff)

lemma slot_update [simp]:
  "slot (q\<lparr>pq_items := xs\<rparr>) a = slot q a" "slot (q\<lparr>pq_nextOrder := k\<rparr>) a = slot q a"
  "slot (q\<lparr>pq_entryCursor := k\<rparr>) a = slot q a"
  by (simp_all add: slot_def)

lemma entry_at_set [simp]:
  assumes "slot q a"
  shows "entry_at (set_entry a e q) b = (if b = a then e else entry_at q b)"
proof -
  have c: "a div 256 < length (pq_entryChunks q)" using assms by (simp add: slot_def less_mult_imp_div_less mult.commute)
  then have l: "length (pq_entryChunks q ! (a div 256)) = 256" using assms by (simp add: slot_def)
  show ?thesis
  proof (cases "b div 256 = a div 256")
    case True
    then have "b mod 256 = a mod 256 \<longleftrightarrow> b = a" by (metis div_mult_mod_eq)
    with True c l show ?thesis
      by (auto simp: entry_at_def set_entry_def Let_def priorityQueueEntryChunkSize_def nth_list_update)
  next
    case False
    then show ?thesis
      by (auto simp: entry_at_def set_entry_def Let_def priorityQueueEntryChunkSize_def)
  qed
qed

lemma chunk_lengths [simp]:
  assumes "slot q a"
  shows "map length (pq_entryChunks (set_entry a e q)) = map length (pq_entryChunks q)"
proof (rule nth_equalityI)
  let ?c = "a div 256"
  have chunk: "pq_entryChunks (set_entry a e q) =
    (pq_entryChunks q)[?c := (pq_entryChunks q ! ?c)[a mod 256 := e]]"
    by (simp add: set_entry_def Let_def priorityQueueEntryChunkSize_def)
  fix i assume "i < length (map length (pq_entryChunks (set_entry a e q)))"
  then show "map length (pq_entryChunks (set_entry a e q)) ! i = map length (pq_entryChunks q) ! i"
    by (cases "i = ?c") (simp_all add: chunk)
qed simp

lemma slot_lengths: "map length (pq_entryChunks r) = map length (pq_entryChunks q) \<Longrightarrow> slot r a = slot q a"
proof -
  assume eq: "map length (pq_entryChunks r) = map length (pq_entryChunks q)"
  have "length (pq_entryChunks r) = length (pq_entryChunks q)" using arg_cong [OF eq, of length] by simp
  moreover have "(\<forall>c \<in> set (pq_entryChunks r). length c = 256) = (\<forall>n \<in> set (map length (pq_entryChunks r)). n = 256)"
    by simp
  then have "(\<forall>c \<in> set (pq_entryChunks r). length c = 256) = (\<forall>c \<in> set (pq_entryChunks q). length c = 256)"
    unfolding eq by simp
  ultimately show ?thesis by (simp add: slot_def)
qed

lemma slot_set [simp]: "slot q a \<Longrightarrow> slot (set_entry a e q) b = slot q b"
  by (rule slot_lengths) (rule chunk_lengths)

lemma entry_at_set_index [simp]:
  "slot q a \<Longrightarrow> entry_at (set_index a i q) b = (if b = a then (entry_at q a)\<lparr>pe_index := i\<rparr> else entry_at q b)"
  by (simp add: set_index_def)

lemma slot_set_index [simp]: "slot q a \<Longrightarrow> slot (set_index a i q) b = slot q b"
  by (simp add: set_index_def)

lemma reindexed_refl [simp]: "reindexed q q"
  by (simp add: reindexed_def)

lemma reindexed_trans: "reindexed p q \<Longrightarrow> reindexed q r \<Longrightarrow> reindexed p r"
  by (simp add: reindexed_def)

lemma reindexed_slot: "reindexed q r \<Longrightarrow> slot r a = slot q a"
  by (rule slot_lengths) (simp add: reindexed_def)

lemma reindexed_set_index: "slot q a \<Longrightarrow> reindexed q (set_index a i q)"
  by (simp add: reindexed_def set_index_def)

lemma reindexed_items: "reindexed q r \<Longrightarrow> reindexed (q\<lparr>pq_items := xs\<rparr>) r \<and> reindexed q (r\<lparr>pq_items := xs\<rparr>)"
  by (simp add: reindexed_def)

lemma ok_slot: "queue_ok q \<Longrightarrow> a \<in> set (pq_items q) \<Longrightarrow> slot q a"
  by (auto simp: queue_ok_def slot_def intro: less_le_trans)

lemma swap_ok:
  assumes "queue_ok q" "l < length (pq_items q)" "r < length (pq_items q)" "l \<noteq> r"
  shows "queue_ok (queue_swap l r q) \<and> reindexed q (queue_swap l r q) \<and>
    pq_items (queue_swap l r q) = (pq_items q)[l := pq_items q ! r, r := pq_items q ! l]"
proof -
  let ?xs = "pq_items q" and ?ys = "(pq_items q)[l := pq_items q ! r, r := pq_items q ! l]"
  have s: "slot q (?xs ! l)" "slot q (?xs ! r)" using ok_slot [OF assms(1)] assms(2,3) by simp_all
  have d: "distinct ?ys" using assms by (simp add: queue_ok_def distinct_swap)
  have st: "set ?ys = set ?xs" using assms by simp
  have ys: "?ys ! l = ?xs ! r" "?ys ! r = ?xs ! l" using assms by simp_all
  let ?q = "queue_swap l r q"
  have q: "?q = set_index (?xs ! l) (int r) (set_index (?xs ! r) (int l) (q\<lparr>pq_items := ?ys\<rparr>))"
    by (simp add: queue_swap_def Let_def assms ys)
  have items: "pq_items ?q = ?ys" by (simp add: q)
  have m: "reindexed q ?q"
    unfolding q using s
    by (intro reindexed_trans [OF _ reindexed_set_index] reindexed_trans [OF _ reindexed_set_index]) (simp_all add: reindexed_items)
  have entry: "entry_at ?q a = (if a = ?xs ! l then (entry_at q a)\<lparr>pe_index := int r\<rparr>
      else if a = ?xs ! r then (entry_at q a)\<lparr>pe_index := int l\<rparr> else entry_at q a)" for a
    using s assms by (auto simp: q queue_ok_def nth_eq_iff_index_eq)
  have ix: "pe_index (entry_at ?q (?ys ! i)) = int i" if "i < length ?ys" for i
    using that assms by (cases "i = l"; cases "i = r") (auto simp: entry queue_ok_def nth_eq_iff_index_eq)
  have "\<forall>c \<in> set (pq_entryChunks ?q). length c = 256"
    using reindexed_slot [OF m, of "?xs ! l"] s(1) by (simp add: slot_def)
  moreover have "length (pq_entryChunks ?q) = length (pq_entryChunks q)" by (simp add: q)
  moreover have "pq_entryCursor ?q = pq_entryCursor q" by (simp add: q)
  ultimately have "queue_ok ?q"
    unfolding queue_ok_def items using assms(1) d st ix by (simp add: queue_ok_def)
  with m items show ?thesis by simp
qed

section \<open>The order of the entries\<close>

definition entry_key :: "('p, 'n) priorityQueue \<Rightarrow> nat \<Rightarrow> 'p \<times> nat" where
  "entry_key q a = (the_num (pe_priority (entry_at q a)), pe_order (entry_at q a))"

definition key_le :: "(nat \<Rightarrow> 'p::linorder \<times> nat) \<Rightarrow> nat \<Rightarrow> nat \<Rightarrow> bool" where
  "key_le k a b \<longleftrightarrow> fst (k a) < fst (k b) \<or> fst (k a) = fst (k b) \<and> snd (k a) \<le> snd (k b)"

interpretation queue_heap: heap_order "key_le k" for k
  by unfold_locales (auto simp: key_le_def)

definition numbers :: "('p, 'n) priorityQueue \<Rightarrow> bool" where
  "numbers q \<longleftrightarrow> (\<forall>a \<in> set (pq_items q). pe_priority (entry_at q a) \<noteq> NaN)"

lemma reindexed_key: "reindexed q r \<Longrightarrow> entry_key r = entry_key q"
  by (simp add: reindexed_def entry_key_def fun_eq_iff)

lemma reindexed_numbers: "reindexed q r \<Longrightarrow> set (pq_items r) = set (pq_items q) \<Longrightarrow> numbers r = numbers q"
  by (simp add: reindexed_def numbers_def)

lemma less_key:
  assumes "numbers q" "i < length (pq_items q)" "j < length (pq_items q)"
  shows "queue_less q i j \<longleftrightarrow> \<not> key_le (entry_key q) (pq_items q ! j) (pq_items q ! i)"
proof -
  have "pe_priority (entry_at q (pq_items q ! i)) \<noteq> NaN" "pe_priority (entry_at q (pq_items q ! j)) \<noteq> NaN"
    using assms by (simp_all add: numbers_def)
  then show ?thesis
    by (cases "pe_priority (entry_at q (pq_items q ! i))"; cases "pe_priority (entry_at q (pq_items q ! j))")
       (auto simp: queue_less_def priorityQueueEntryLess_def key_le_def entry_key_def)
qed

text \<open>The loops move the slots as the loops of \<open>Heap_Order\<close> do, under the order of the entries.\<close>

definition sifted :: "('p::linorder, 'n) priorityQueue \<Rightarrow> ('p, 'n) priorityQueue \<Rightarrow> bool" where
  "sifted q r \<longleftrightarrow> queue_ok r \<and> reindexed q r \<and> set (pq_items r) = set (pq_items q)"

lemma swap_sifted:
  assumes "queue_ok q" "l < length (pq_items q)" "r < length (pq_items q)" "l \<noteq> r"
  shows "sifted q (queue_swap l r q)"
  using swap_ok [OF assms] assms(2,3) by (simp add: sifted_def)

lemma sifted_trans: "sifted p q \<Longrightarrow> sifted q r \<Longrightarrow> sifted p r"
  by (auto simp: sifted_def intro: reindexed_trans)

lemma siftUp_sifts:
  "queue_ok q \<Longrightarrow> numbers q \<Longrightarrow> i < length (pq_items q) \<Longrightarrow>
    pq_items (siftUp i q) = sift_up (key_le (entry_key q)) i (pq_items q) \<and> sifted q (siftUp i q)"
proof (induction i q rule: siftUp.induct)
  case (1 i q)
  let ?p = "(i - 1) div 2"
  show ?case
  proof (cases "i = 0 \<or> \<not> queue_less q i ?p")
    case True
    have "?p < length (pq_items q)" using 1(4) by simp
    then have "i = 0 \<or> key_le (entry_key q) (pq_items q ! ?p) (pq_items q ! i)"
      using less_key [OF 1(3,4), of ?p] True by simp
    then have "sift_up (key_le (entry_key q)) i (pq_items q) = pq_items q"
      by (subst sift_up.simps) (auto simp: Let_def)
    moreover have "siftUp i q = q" using True by (subst siftUp.simps) (auto simp: Let_def)
    ultimately show ?thesis using 1(2) by (simp add: sifted_def)
  next
    case False
    have p: "?p < i" "?p < length (pq_items q)" using False 1(4) by auto
    let ?q = "queue_swap i ?p q"
    have sw: "sifted q ?q" "pq_items ?q = (pq_items q)[i := pq_items q ! ?p, ?p := pq_items q ! i]"
      using swap_sifted [OF 1(2,4) p(2)] swap_ok [OF 1(2,4) p(2)] p by auto
    have k: "entry_key ?q = entry_key q" and n: "numbers ?q" and ok: "queue_ok ?q"
      using sw(1) 1(3) reindexed_key reindexed_numbers [of q ?q] by (auto simp: sifted_def)
    have up: "\<not> key_le (entry_key q) (pq_items q ! ?p) (pq_items q ! i)"
      using False less_key [OF 1(3,4) p(2)] by simp
    have ih: "pq_items (siftUp ?p ?q) = sift_up (key_le (entry_key q)) ?p (pq_items ?q)" "sifted ?q (siftUp ?p ?q)"
      using 1(1) [OF _ refl _ ok n] False p k by auto
    have "siftUp i q = siftUp ?p ?q" using False by (subst siftUp.simps) (simp add: Let_def)
    moreover have "(pq_items q)[?p := pq_items q ! i, i := pq_items q ! ?p] = pq_items ?q"
      unfolding sw(2) using p(1) by (intro list_update_swap) simp
    then have "sift_up (key_le (entry_key q)) i (pq_items q) = sift_up (key_le (entry_key q)) ?p (pq_items ?q)"
      using p(1) up by (subst sift_up.simps) (auto simp only: Let_def if_False not_less_zero split: if_split)
    ultimately show ?thesis using ih sifted_trans [OF sw(1)] by simp
  qed
qed

lemma siftDown_sifts:
  "queue_ok q \<Longrightarrow> numbers q \<Longrightarrow> i < length (pq_items q) \<Longrightarrow>
    pq_items (siftDown i q) = sift_down (key_le (entry_key q)) i (pq_items q) \<and> sifted q (siftDown i q)"
proof (induction i q rule: siftDown.induct)
  case (1 i q)
  let ?l = "i * 2 + 1" and ?xs = "pq_items q" and ?le = "key_le (entry_key q)"
  let ?c = "lower_child ?le ?l ?xs"
  show ?case
  proof (cases "length ?xs \<le> ?l")
    case True
    have "siftDown i q = q" using True by (subst siftDown.simps) (simp add: Let_def)
    moreover have "sift_down ?le i ?xs = ?xs" using True by (subst sift_down.simps) (simp add: Let_def)
    ultimately show ?thesis using 1(2) by (simp add: sifted_def)
  next
    case False
    have c: "i < ?c" "?c < length ?xs" using False lower_child_cases [of ?l ?xs ?le] by auto
    have sm: "(if ?l + 1 < length ?xs \<and> queue_less q (?l + 1) ?l then ?l + 1 else ?l) = ?c"
      using False less_key [OF 1(3), of "?l + 1" ?l] by (auto simp: lower_child_def Let_def)
    have lt: "queue_less q ?c i \<longleftrightarrow> \<not> ?le (?xs ! i) (?xs ! ?c)" using less_key [OF 1(3) c(2) 1(4)] .
    have down: "siftDown i q = (if \<not> queue_less q ?c i then q else siftDown ?c (queue_swap i ?c q))"
      by (subst siftDown.simps) (simp only: Let_def sm False if_False)
    have spec: "sift_down ?le i ?xs = (if ?le (?xs ! i) (?xs ! ?c) then ?xs
        else sift_down ?le ?c (?xs[i := ?xs ! ?c, ?c := ?xs ! i]))"
      by (subst sift_down.simps) (simp only: Let_def False if_False)
    show ?thesis
    proof (cases "queue_less q ?c i")
      case go: True
      let ?q = "queue_swap i ?c q"
      have sw: "sifted q ?q" "pq_items ?q = ?xs[i := ?xs ! ?c, ?c := ?xs ! i]"
        using swap_sifted [OF 1(2,4) c(2)] swap_ok [OF 1(2,4) c(2)] c by auto
      have k: "entry_key ?q = entry_key q" and n: "numbers ?q" and ok: "queue_ok ?q"
        using sw(1) 1(3) reindexed_key reindexed_numbers [of q ?q] by (auto simp: sifted_def)
      have "pq_items (siftDown ?c ?q) = sift_down ?le ?c (pq_items ?q) \<and> sifted ?q (siftDown ?c ?q)"
        using 1(1) [OF refl False refl sm [symmetric] _ ok n] go c k by auto
      then show ?thesis using down spec go lt sw sifted_trans [OF sw(1)] by simp
    qed (use down spec lt 1(2) in \<open>auto simp: sifted_def\<close>)
  qed
qed

end
