(* ===== verification/Routing_Refines.thy ===== *)
theory Routing_Refines
  imports Routing_Queue
begin

text \<open>
  The queue of \<open>Routing_Queue\<close> against its specification: a list of the waiting entries in the order of
  insertion.
\<close>

section \<open>The specification\<close>










section \<open>The simulation\<close>



























section \<open>The queue and the list\<close>










end
