(* ===== verification/Svg_Markup.thy ===== *)
theory Svg_Markup
  imports Go_Lib
begin

text \<open>
  The typed SVG markup of \<^verbatim>\<open>lib/svg/markup.go\<close> and \<^verbatim>\<open>text.go\<close>: names and escaped values of attributes, elements,
  identifiers and local references. \<open>None\<close> is a panic. The code looks at names and identifiers byte by byte; the bytes
  of a rune above ASCII are no letters, digits or punctuation, so that looking at the runes decides the same.
  The XML decoder of \<^verbatim>\<open>ParseAttributes\<close> and the floating point attributes are left out.
\<close>

section \<open>Escaping\<close>

text \<open>\<^verbatim>\<open>strings.ReplaceAll\<close> for a text that is not empty.\<close>

function replace_all :: "gostr \<Rightarrow> gostr \<Rightarrow> gostr \<Rightarrow> gostr" where
  "replace_all old new [] = []"
| "replace_all old new (r # rs) =
    (if old \<noteq> [] \<and> has_prefix old (r # rs) then new @ replace_all old new (drop (length old) (r # rs))
     else r # replace_all old new rs)"
  by pat_completeness auto
termination by (relation "measure (\<lambda>(old, new, s). length s)") (auto simp: Suc_le_eq)

declare replace_all.simps [simp del]

definition validXMLRune :: "rune \<Rightarrow> bool" where
  "validXMLRune r \<longleftrightarrow>
    r = 9 \<or> r = 10 \<or> r = 13 \<or> 0x20 \<le> r \<and> r \<le> 0xD7FF \<or> 0xE000 \<le> r \<and> r \<le> 0xFFFD \<or> 0x10000 \<le> r \<and> r \<le> 0x10FFFF"

text \<open>\<^verbatim>\<open>xml.EscapeText\<close>, rune by rune; what is no XML character becomes U+FFFD.\<close>

definition xml_escape_rune :: "rune \<Rightarrow> gostr" where
  "xml_escape_rune r =
    (if r = rDQ then runes ''&#34;'' else if r = rSQ then runes ''&#39;''
     else if r = rAmp then runes ''&amp;'' else if r = rLt then runes ''&lt;'' else if r = rGt then runes ''&gt;''
     else if r = rTab then runes ''&#x9;'' else if r = rNL then runes ''&#xA;'' else if r = 13 then runes ''&#xD;''
     else if validXMLRune r then [r] else [0xFFFD])"

definition EscapeText :: "gostr \<Rightarrow> gostr" where
  "EscapeText t = concat (map xml_escape_rune t)"

definition EscapeAttribute :: "gostr \<Rightarrow> gostr" where
  "EscapeAttribute a = replace_all (runes ''&#39;'') [rSQ] (EscapeText a)"

text \<open>\<^verbatim>\<open>utf8.ValidString\<close>: no raw byte is left.\<close>

definition validXMLString :: "gostr \<Rightarrow> bool" where
  "validXMLString v \<longleftrightarrow> (\<forall>r \<in> set v. valid_rune r) \<and> (\<forall>r \<in> set v. validXMLRune r)"

section \<open>Names\<close>

definition isASCIIAlpha :: "rune \<Rightarrow> bool" where
  "isASCIIAlpha c \<longleftrightarrow> 97 \<le> c \<and> c \<le> 122 \<or> 65 \<le> c \<and> c \<le> 90"

definition isASCIIDigit :: "rune \<Rightarrow> bool" where
  "isASCIIDigit c \<longleftrightarrow> 48 \<le> c \<and> c \<le> 57"

fun validXMLNamePart :: "gostr \<Rightarrow> bool" where
  "validXMLNamePart [] = False"
| "validXMLNamePart (c # cs) \<longleftrightarrow>
    (isASCIIAlpha c \<or> c = rUnd) \<and>
    (\<forall>c \<in> set cs. isASCIIAlpha c \<or> isASCIIDigit c \<or> c = rUnd \<or> c = rDash \<or> c = rDot)"

definition validXMLName :: "gostr \<Rightarrow> bool" where
  "validXMLName name \<longleftrightarrow>
    \<not> (name = [] \<or> count_list name rColon > 1) \<and> (\<forall>part \<in> set (split_on rColon name). validXMLNamePart part)"

definition validAttributeName :: "gostr \<Rightarrow> bool" where
  "validAttributeName name \<longleftrightarrow>
    validXMLName name \<and>
    (let localName = (case split_last rColon name of None \<Rightarrow> name | Some (_, l) \<Rightarrow> l)
     in \<not> has_prefix (runes ''on'') (to_lower localName))"

definition validateElementName :: "gostr \<Rightarrow> bool" where
  "validateElementName name \<longleftrightarrow> \<not> (\<not> validXMLName name \<or> equal_fold name (runes ''script''))"

section \<open>Attributes and elements\<close>

record svg_attribute =
  at_name :: gostr
  at_value :: gostr

definition attribute_Name :: "svg_attribute \<Rightarrow> gostr option" where
  "attribute_Name a = (if \<not> validAttributeName (at_name a) then None else Some (at_name a))"

definition Attr :: "gostr \<Rightarrow> gostr \<Rightarrow> svg_attribute option" where
  "Attr name value =
    (if \<not> validAttributeName name then None else Some \<lparr>at_name = name, at_value = value\<rparr>)"

definition IntAttr :: "gostr \<Rightarrow> int \<Rightarrow> svg_attribute option" where
  "IntAttr name value = Attr name (itoa value)"

fun render_attributes :: "gostr list \<Rightarrow> svg_attribute list \<Rightarrow> gostr option" where
  "render_attributes seen [] = Some []"
| "render_attributes seen (a # as) =
    (if \<not> validAttributeName (at_name a) then None
     else if at_name a \<in> set seen then None
     else map_option (\<lambda>out. [rSp] @ at_name a @ runes ''=\"'' @ EscapeAttribute (at_value a) @ [rDQ] @ out)
            (render_attributes (at_name a # seen) as))"

definition RenderAttributes :: "svg_attribute list \<Rightarrow> gostr option" where
  "RenderAttributes as = (if as = [] then Some [] else render_attributes [] as)"

definition HrefAttributes :: "gostr \<Rightarrow> svg_attribute list option" where
  "HrefAttributes value =
    (case (Attr (runes ''href'') value, Attr (runes ''xlink:href'') value) of
       (Some a, Some b) \<Rightarrow> Some [a, b]
     | _ \<Rightarrow> None)"

definition element_with :: "gostr \<Rightarrow> gostr \<Rightarrow> svg_attribute list \<Rightarrow> gostr option" where
  "element_with close_text name as =
    (if \<not> validateElementName name then None
     else map_option (\<lambda>out. [rLt] @ name @ out @ close_text) (RenderAttributes as))"

definition OpenElement :: "gostr \<Rightarrow> svg_attribute list \<Rightarrow> gostr option" where
  "OpenElement name as = element_with [rGt] name as"

definition EmptyElement :: "gostr \<Rightarrow> svg_attribute list \<Rightarrow> gostr option" where
  "EmptyElement name as = element_with (runes '' />'') name as"

definition CompactEmptyElement :: "gostr \<Rightarrow> svg_attribute list \<Rightarrow> gostr option" where
  "CompactEmptyElement name as = element_with (runes ''/>'') name as"

definition CloseElement :: "gostr \<Rightarrow> gostr option" where
  "CloseElement name = (if \<not> validateElementName name then None else Some (runes ''</'' @ name @ [rGt]))"

section \<open>Fragments\<close>

datatype svg_fragment = Fragment (fragment_String: gostr)

definition svg_Text :: "gostr \<Rightarrow> svg_fragment" where
  "svg_Text value = Fragment (EscapeText value)"

definition TrustedFragment :: "gostr \<Rightarrow> svg_fragment option" where
  "TrustedFragment value = (if validXMLString value then Some (Fragment value) else None)"

definition svg_Join :: "svg_fragment list \<Rightarrow> svg_fragment" where
  "svg_Join fs = Fragment (concat (map fragment_String fs))"

section \<open>Identifiers\<close>

definition string_bytes :: "gostr \<Rightarrow> int list" where
  "string_bytes s = map abs (concat (map raw_bytes s))"

text \<open>\<^verbatim>\<open>base32.StdEncoding\<close>: five bits a letter, the first bit of a byte first.\<close>

definition byte_bits :: "int \<Rightarrow> bool list" where
  "byte_bits b = map (\<lambda>i. odd (b div 2 ^ (7 - i))) [0..<8]"

function quintets :: "bool list \<Rightarrow> bool list list" where
  "quintets bs =
    (if bs = [] then []
     else (take 5 bs @ replicate (5 - length (take 5 bs)) False) # quintets (drop 5 bs))"
  by pat_completeness auto
termination by (relation "measure length") auto

declare quintets.simps [simp del]

definition base32_letter :: "bool list \<Rightarrow> rune" where
  "base32_letter q =
    (let n = foldl (\<lambda>n b. 2 * n + (if b then 1 else 0)) 0 q in if n < 26 then 65 + n else 50 + (n - 26))"

definition base32_encode :: "int list \<Rightarrow> gostr" where
  "base32_encode bs =
    (let ls = map base32_letter (quintets (concat (map byte_bits bs)))
     in ls @ replicate ((8 - length ls mod 8) mod 8) 61)"

definition SVGID :: "gostr \<Rightarrow> gostr" where
  "SVGID text = rev (dropWhile (\<lambda>c. c = 61) (rev (base32_encode (string_bytes text))))"

definition validIDPart :: "gostr \<Rightarrow> bool" where
  "validIDPart value \<longleftrightarrow>
    (\<forall>c \<in> set value. isASCIIAlpha c \<or> isASCIIDigit c \<or> c = rUnd \<or> c = rDash \<or> c = rDot \<or> c = rColon)"

definition validID :: "gostr \<Rightarrow> bool" where
  "validID value \<longleftrightarrow> value \<noteq> [] \<and> validIDPart value"

datatype svg_id = ID (id_value: gostr)

definition LiteralID :: "gostr \<Rightarrow> svg_id option" where
  "LiteralID value = (if \<not> validID value then None else Some (ID value))"

definition EncodedID :: "gostr \<Rightarrow> svg_id option" where
  "EncodedID value = (let encoded = SVGID value in if encoded = [] then None else Some (ID encoded))"

definition scopedIDEncodingPrefix :: gostr where
  "scopedIDEncodingPrefix = runes ''d2e-''"

definition ScopedID :: "gostr \<Rightarrow> gostr \<Rightarrow> gostr \<Rightarrow> svg_id option" where
  "ScopedID prefix component suffix =
    (if \<not> validIDPart prefix \<or> \<not> validIDPart suffix then None
     else
       let encodedComponent =
         (if component = [] \<or> \<not> validIDPart component \<or> has_prefix scopedIDEncodingPrefix component
          then scopedIDEncodingPrefix @ SVGID component else component)
       in LiteralID (prefix @ encodedComponent @ suffix))"

definition id_String :: "svg_id \<Rightarrow> gostr option" where
  "id_String i = (if \<not> validID (id_value i) then None else Some (id_value i))"

definition LocalIRI :: "svg_id \<Rightarrow> gostr option" where
  "LocalIRI i = map_option (\<lambda>v. runes ''url(#'' @ v @ runes '')'') (id_String i)"

text \<open>The error of \<^verbatim>\<open>ParseLocalIRI\<close> is \<open>None\<close>.\<close>

definition ParseLocalIRI :: "gostr \<Rightarrow> svg_id option" where
  "ParseLocalIRI value =
    (if \<not> has_prefix (runes ''url(#'') value \<or> \<not> (value \<noteq> [] \<and> last value = rRPar) then None
     else
       let trimmed = drop (length ''url(#'') value;
           i = (if trimmed \<noteq> [] \<and> last trimmed = rRPar then butlast trimmed else trimmed)
       in if \<not> validID i then None else Some (ID i))"

section \<open>Reading attributes back\<close>

text \<open>The value an XML reader finds: references replaced by what they stand for.\<close>

definition xml_references :: "(gostr \<times> rune) list" where
  "xml_references =
    [(runes ''#34'', rDQ), (runes ''#39'', rSQ), (runes ''amp'', rAmp), (runes ''lt'', rLt), (runes ''gt'', rGt),
     (runes ''#x9'', rTab), (runes ''#xA'', rNL), (runes ''#xD'', 13)]"

function read_value :: "gostr \<Rightarrow> gostr" where
  "read_value [] = []"
| "read_value (c # cs) =
    (let e = takeWhile (\<lambda>x. x \<noteq> rSemi) cs
     in case (if c = rAmp then map_of xml_references e else None) of
          Some r \<Rightarrow> r # read_value (drop (length e + 1) cs)
        | None \<Rightarrow> c # read_value cs)"
  by pat_completeness auto
termination by (relation "measure length") auto

declare read_value.simps(2) [simp del]

text \<open>The names and values in the order of the text: \<open> name="value"\<close>, again and again.\<close>

function read_attributes :: "gostr \<Rightarrow> (gostr \<times> gostr) list option" where
  "read_attributes s =
    (case s of [] \<Rightarrow> Some []
     | c # cs \<Rightarrow>
         let n = takeWhile (\<lambda>x. x \<noteq> 61) cs;
             rest = drop (length n + 2) cs;
             v = takeWhile (\<lambda>x. x \<noteq> rDQ) rest
         in if c = rSp \<and> take 2 (drop (length n) cs) = [61, rDQ] \<and> take 1 (drop (length v) rest) = [rDQ]
            then map_option (\<lambda>as. (n, read_value v) # as) (read_attributes (drop (length v + 1) rest))
            else None)"
  by pat_completeness auto
termination by (relation "measure length") auto

declare read_attributes.simps [simp del]

definition xml_rune :: "rune \<Rightarrow> rune" where
  "xml_rune r = (if validXMLRune r then r else 0xFFFD)"

definition escape_attribute_rune :: "rune \<Rightarrow> gostr" where
  "escape_attribute_rune r = (if r = rSQ then [rSQ] else xml_escape_rune r)"

lemma escape_cases:
  "r = rDQ \<or> r = rSQ \<or> r = rAmp \<or> r = rLt \<or> r = rGt \<or> r = rTab \<or> r = rNL \<or> r = 13 \<or>
    (r \<notin> {rDQ, rSQ, rAmp, rLt, rGt, rTab, rNL, 13} \<and> xml_escape_rune r = [xml_rune r])"
  by (auto simp: xml_escape_rune_def xml_rune_def)

lemma replace_escaped:
  "replace_all (runes ''&#39;'') [rSQ] (xml_escape_rune r @ s) =
    escape_attribute_rune r @ replace_all (runes ''&#39;'') [rSQ] s"
  using escape_cases [of r]
proof (elim disjE)
  assume r: "r \<notin> {rDQ, rSQ, rAmp, rLt, rGt, rTab, rNL, 13} \<and> xml_escape_rune r = [xml_rune r]"
  then have "xml_rune r \<noteq> rAmp" by (auto simp: xml_rune_def)
  with r show ?thesis by (simp add: replace_all.simps escape_attribute_rune_def)
qed (simp_all add: xml_escape_rune_def escape_attribute_rune_def replace_all.simps)

lemma EscapeAttribute_runes: "EscapeAttribute a = concat (map escape_attribute_rune a)"
proof (induction a)
  case Nil
  then show ?case by (simp add: EscapeAttribute_def EscapeText_def replace_all.simps)
next
  case (Cons r a)
  have "EscapeAttribute (r # a) = escape_attribute_rune r @ EscapeAttribute a"
    by (simp only: EscapeAttribute_def EscapeText_def list.map concat.simps replace_escaped)
  with Cons show ?case by simp
qed

lemma read_escaped: "read_value (escape_attribute_rune r @ s) = xml_rune r # read_value s"
  using escape_cases [of r]
proof (elim disjE)
  assume r: "r \<notin> {rDQ, rSQ, rAmp, rLt, rGt, rTab, rNL, 13} \<and> xml_escape_rune r = [xml_rune r]"
  then have "xml_rune r \<noteq> rAmp" by (auto simp: xml_rune_def)
  with r show ?thesis by (simp add: escape_attribute_rune_def read_value.simps)
qed (simp_all add: xml_escape_rune_def escape_attribute_rune_def xml_rune_def validXMLRune_def read_value.simps
       xml_references_def)

lemma read_EscapeAttribute: "read_value (EscapeAttribute a) = map xml_rune a"
  by (induction a) (simp_all add: EscapeAttribute_runes read_escaped)

lemma escape_no_markup: "set (escape_attribute_rune r) \<inter> {rDQ, rLt, rGt} = {}"
  using escape_cases [of r]
proof (elim disjE)
  assume r: "r \<notin> {rDQ, rSQ, rAmp, rLt, rGt, rTab, rNL, 13} \<and> xml_escape_rune r = [xml_rune r]"
  then have "xml_rune r \<notin> {rDQ, rLt, rGt}" by (auto simp: xml_rune_def)
  with r show ?thesis by (auto simp: escape_attribute_rune_def)
qed (simp_all add: xml_escape_rune_def escape_attribute_rune_def)

lemma EscapeAttribute_no_markup: "set (EscapeAttribute a) \<inter> {rDQ, rLt, rGt} = {}"
  using escape_no_markup by (fastforce simp: EscapeAttribute_runes)

lemma valid_part_chars: "validXMLNamePart p \<Longrightarrow> 61 \<notin> set p"
  by (cases p) (auto simp: isASCIIAlpha_def isASCIIDigit_def)

lemma split_on_chars: "c \<in> set s \<Longrightarrow> c \<noteq> d \<Longrightarrow> \<exists>p \<in> set (split_on d s). c \<in> set p"
proof (induction s)
  case (Cons x s)
  then show ?case by (cases "split_on d s") auto
qed simp

lemma valid_name_chars: "validAttributeName n \<Longrightarrow> 61 \<notin> set n"
  using split_on_chars [of 61 n rColon] valid_part_chars
  by (auto simp: validAttributeName_def validXMLName_def)

lemma render_attributes_read:
  "render_attributes seen as = Some out \<Longrightarrow>
    read_attributes out = Some (map (\<lambda>a. (at_name a, map xml_rune (at_value a))) as) \<and>
    distinct (map at_name as) \<and> set (map at_name as) \<inter> set seen = {} \<and> (\<forall>a \<in> set as. validAttributeName (at_name a))"
proof (induction as arbitrary: seen out)
  case Nil
  then show ?case by (simp add: read_attributes.simps)
next
  case (Cons a as)
  let ?n = "at_name a" and ?v = "EscapeAttribute (at_value a)"
  obtain rest where rest: "validAttributeName ?n" "?n \<notin> set seen" "render_attributes (?n # seen) as = Some rest"
    "out = [rSp] @ ?n @ runes ''=\"'' @ ?v @ [rDQ] @ rest"
    using Cons.prems by (auto split: if_splits)
  have n: "takeWhile (\<lambda>x. x \<noteq> 61) (?n @ 61 # s) = ?n" for s
    using valid_name_chars [OF rest(1)] by (subst takeWhile_append2) auto
  have v: "takeWhile (\<lambda>x. x \<noteq> rDQ) (?v @ rDQ # s) = ?v" for s
    using EscapeAttribute_no_markup [of "at_value a"] by (subst takeWhile_append2) auto
  have "read_attributes out =
    map_option (\<lambda>as. (?n, map xml_rune (at_value a)) # as) (read_attributes rest)"
    by (subst read_attributes.simps) (simp add: rest(4) n v Let_def read_EscapeAttribute)
  with Cons.IH [OF rest(3)] rest(1,2) show ?case by auto
qed

text \<open>What \<open>RenderAttributes\<close> writes is read back as the same attributes, whatever the values are.\<close>

theorem attributes_read_back:
  assumes "RenderAttributes as = Some out"
  shows "read_attributes out = Some (map (\<lambda>a. (at_name a, map xml_rune (at_value a))) as) \<and>
    distinct (map at_name as) \<and> (\<forall>a \<in> set as. validAttributeName (at_name a))"
proof -
  have "render_attributes [] as = Some out" using assms by (cases as) (auto simp: RenderAttributes_def)
  from render_attributes_read [OF this] show ?thesis by simp
qed

definition sample_attributes :: "svg_attribute list" where
  "sample_attributes =
    [\<lparr>at_name = runes ''d'', at_value = runes ''a\"><b & c'' @ [rSQ]\<rparr>, \<lparr>at_name = runes ''xlink:href'', at_value = [10, 0x2764, 7]\<rparr>]"

theorem attributes_read_back_witness:
  "\<exists>out. RenderAttributes sample_attributes = Some out \<and>
    read_attributes out = Some (map (\<lambda>a. (at_name a, map xml_rune (at_value a))) sample_attributes) \<and> rLt \<notin> set out"
proof -
  have "\<exists>out. RenderAttributes sample_attributes = Some out \<and> rLt \<notin> set out"
    by (simp add: RenderAttributes_def sample_attributes_def validAttributeName_def validXMLName_def isASCIIAlpha_def
        isASCIIDigit_def EscapeAttribute_runes escape_attribute_rune_def xml_escape_rune_def validXMLRune_def
        to_lower_def lower_rune_def)
  then show ?thesis using attributes_read_back by blast
qed

section \<open>Identifiers do not collide\<close>

lemma quintets_Nil [simp]: "quintets [] = []"
  by (simp add: quintets.simps)

lemma quintets_lengths: "q \<in> set (quintets bs) \<Longrightarrow> length q = 5"
proof (induction bs rule: quintets.induct)
  case (1 bs)
  then show ?case by (cases "bs = []") (auto simp: quintets.simps [of bs])
qed

text \<open>The bits are kept, with zeros after them.\<close>

lemma quintets_bits: "\<exists>k < 5. concat (quintets bs) = bs @ replicate k False"
proof (induction bs rule: quintets.induct)
  case (1 bs)
  show ?case
  proof (cases "bs = []")
    case False
    then obtain k where k: "k < 5" "concat (quintets (drop 5 bs)) = drop 5 bs @ replicate k False" using 1 by blast
    show ?thesis
    proof (cases "length bs < 5")
      case True
      then have "concat (quintets bs) = bs @ replicate (5 - length bs) False"
        using False by (simp add: quintets.simps [of bs])
      then show ?thesis using False by (intro exI [of _ "5 - length bs"]) simp
    next
      case long: False
      then have "concat (quintets bs) = take 5 bs @ concat (quintets (drop 5 bs))"
        using False by (simp add: quintets.simps [of bs])
      then have "concat (quintets bs) = bs @ replicate k False" using k(2) by (metis append_assoc append_take_drop_id)
      then show ?thesis using k(1) by blast
    qed
  qed auto
qed

text \<open>The bits of a letter.\<close>

definition letter_bits :: "rune \<Rightarrow> bool list" where
  "letter_bits r =
    (let n = (if r < 65 then r - 24 else r - 65)
     in [odd (n div 16), odd (n div 8), odd (n div 4), odd (n div 2), odd n])"

lemma letter_bits_letter: "length q = 5 \<Longrightarrow> letter_bits (base32_letter q) = q"
proof -
  assume "length q = 5"
  then obtain a b c d e where q: "q = [a, b, c, d, e]" by (auto simp: length_Suc_conv numeral_eq_Suc)
  show ?thesis
    unfolding q by (cases a; cases b; cases c; cases d; cases e) (simp_all add: letter_bits_def base32_letter_def)
qed

lemma eight_bits:
  fixes n :: int
  assumes "n = 2 * a1 + b0" "a1 = 2 * a2 + b1" "a2 = 2 * a3 + b2" "a3 = 2 * a4 + b3" "a4 = 2 * a5 + b4"
    "a5 = 2 * a6 + b5" "a6 = 2 * a7 + b6" "a7 = b7"
  shows "n = 128 * b7 + 64 * b6 + 32 * b5 + 16 * b4 + 8 * b3 + 4 * b2 + 2 * b1 + b0"
  using assms by simp

lemma byte_bits_inj:
  assumes "0 \<le> a" "a < 256" "0 \<le> b" "b < 256" "byte_bits a = byte_bits b"
  shows "a = b"
proof -
  let ?E = "\<lambda>n :: int. 128 * of_bool (odd (n div 128)) + 64 * of_bool (odd (n div 64)) + 32 * of_bool (odd (n div 32)) +
    16 * of_bool (odd (n div 16)) + 8 * of_bool (odd (n div 8)) + 4 * of_bool (odd (n div 4)) +
    2 * of_bool (odd (n div 2)) + of_bool (odd n) :: int"
  have bits: "n = ?E n"
    if "0 \<le> n" "n < 256" for n :: int
  proof -
    have step: "m = 2 * (m div 2) + of_bool (odd m)" for m :: int by (simp add: of_bool_odd_eq_mod_2)
    have h: "n div k div 2 = n div (k * 2)" for k by (rule zdiv_zmult2_eq [symmetric]) simp
    have "n div 256 = 0" using that by simp
    then have d: "n div 2 div 2 = n div 4" "n div 4 div 2 = n div 8" "n div 8 div 2 = n div 16" "n div 16 div 2 = n div 32"
      "n div 32 div 2 = n div 64" "n div 64 div 2 = n div 128" "n div 128 div 2 = 0"
      unfolding h by simp_all
    have "n div 128 = of_bool (odd (n div 128))" using step [of "n div 128", unfolded d] by (simp only: mult_zero_right add_0)
    from eight_bits [OF step [of n] step [of "n div 2", unfolded d] step [of "n div 4", unfolded d]
      step [of "n div 8", unfolded d] step [of "n div 16", unfolded d] step [of "n div 32", unfolded d]
      step [of "n div 64", unfolded d] this]
    show ?thesis .
  qed
  have "byte_bits n = [odd (n div 128), odd (n div 64), odd (n div 32), odd (n div 16), odd (n div 8), odd (n div 4),
      odd (n div 2), odd n]" for n
    by (simp add: byte_bits_def upt_rec)
  with assms(5) have same: "odd (a div 128) = odd (b div 128)" "odd (a div 64) = odd (b div 64)" "odd (a div 32) = odd (b div 32)"
    "odd (a div 16) = odd (b div 16)" "odd (a div 8) = odd (b div 8)" "odd (a div 4) = odd (b div 4)"
    "odd (a div 2) = odd (b div 2)" "odd a = odd b"
    by (simp_all only: list.inject)
  have "a = ?E a" by (rule bits [OF assms(1,2)])
  also have "\<dots> = ?E b" by (simp only: same)
  also have "\<dots> = b" by (rule bits [OF assms(3,4), symmetric])
  finally show ?thesis .
qed

lemma bytes_bits_inj:
  "length xs = length ys \<Longrightarrow> \<forall>b \<in> set xs \<union> set ys. 0 \<le> b \<and> b < 256 \<Longrightarrow>
    concat (map byte_bits xs) = concat (map byte_bits ys) \<Longrightarrow> xs = ys"
proof (induction xs ys rule: list_induct2)
  case (Cons x xs y ys)
  have "length (byte_bits x) = length (byte_bits y)" by (simp add: byte_bits_def)
  then show ?case using Cons byte_bits_inj [of x y] by simp
qed simp

lemma length_bits [simp]: "length (concat (map byte_bits xs)) = 8 * length xs"
  by (induction xs) (simp_all add: byte_bits_def)

definition base32_letters :: "int list \<Rightarrow> gostr" where
  "base32_letters bs = map base32_letter (quintets (concat (map byte_bits bs)))"

lemma letters_inj:
  assumes "\<forall>b \<in> set xs \<union> set ys. 0 \<le> b \<and> b < 256" "base32_letters xs = base32_letters ys"
  shows "xs = ys"
proof -
  let ?b = "\<lambda>zs. concat (map byte_bits zs)"
  have letters: "map letter_bits (base32_letters zs) = quintets (?b zs)" for zs
    using quintets_lengths letter_bits_letter by (auto simp: base32_letters_def intro: map_idI)
  then have eq: "concat (quintets (?b xs)) = concat (quintets (?b ys))" using assms(2) letters [of xs] letters [of ys] by simp
  obtain k l where k: "k < 5" "concat (quintets (?b xs)) = ?b xs @ replicate k False"
    and l: "l < 5" "concat (quintets (?b ys)) = ?b ys @ replicate l False" using quintets_bits by metis
  have full: "?b xs @ replicate k False = ?b ys @ replicate l False" using eq k(2) l(2) by simp
  from arg_cong [OF full, of length] have "8 * length xs + k = 8 * length ys + l" by simp
  then have len: "length xs = length ys" "k = l" using k(1) l(1) by presburger+
  have "?b xs = ?b ys" using full len(2) by simp
  then show ?thesis using bytes_bits_inj [OF len(1) assms(1)] by simp
qed

lemma letter_char:
  assumes "length q = 5"
  shows "65 \<le> base32_letter q \<and> base32_letter q \<le> 90 \<or> 50 \<le> base32_letter q \<and> base32_letter q \<le> 55"
proof -
  obtain a b c d e where q: "q = [a, b, c, d, e]" using assms by (auto simp: length_Suc_conv numeral_eq_Suc)
  show ?thesis
    unfolding q by (cases a; cases b; cases c; cases d; cases e) (simp_all add: base32_letter_def)
qed

lemma letters_chars: "c \<in> set (base32_letters bs) \<Longrightarrow> 65 \<le> c \<and> c \<le> 90 \<or> 50 \<le> c \<and> c \<le> 55"
  using letter_char quintets_lengths by (fastforce simp: base32_letters_def)

lemma dropWhile_replicate: "\<forall>x \<in> set xs. x \<noteq> c \<Longrightarrow> rev (dropWhile (\<lambda>x. x = c) (rev (xs @ replicate n c))) = xs"
proof (induction n)
  case 0
  then show ?case by (cases xs rule: rev_cases) auto
qed (simp add: replicate_app_Cons_same)

lemma SVGID_letters: "SVGID t = base32_letters (string_bytes t)"
proof -
  have "\<forall>c \<in> set (base32_letters (string_bytes t)). c \<noteq> 61" using letters_chars by fastforce
  from dropWhile_replicate [OF this] show ?thesis
    by (simp add: SVGID_def base32_encode_def base32_letters_def Let_def)
qed

text \<open>The items of a Go string: runes and raw bytes.\<close>

definition go_string :: "gostr \<Rightarrow> bool" where
  "go_string s \<longleftrightarrow> (\<forall>r \<in> set s. valid_rune r \<or> - 255 \<le> r \<and> r \<le> - 128)"

lemma in_byte:
  fixes b x y z w :: int
  assumes "0 \<le> x \<and> x \<le> 15" "b = - (0xE0 + x) \<or> b = - (0xF0 + x) \<or> b = - (0x80 + w) \<or> b = - (0x80 + y) \<or> b = - (0x80 + z)"
    "0 \<le> z \<and> z \<le> 63" "0 \<le> y \<and> y \<le> 63" "0 \<le> w \<and> w \<le> 63"
  shows "- 255 \<le> b \<and> b \<le> 127"
  using assms by auto

lemma raw_bytes_range:
  assumes "valid_rune r \<or> - 255 \<le> r \<and> r \<le> - 128" "b \<in> set (raw_bytes r)"
  shows "- 255 \<le> b \<and> b \<le> 127"
proof -
  have m: "0 \<le> n mod 64 \<and> n mod 64 \<le> 63" for n :: int
    using pos_mod_bound [of 64 n] by simp
  consider "r \<le> 127" | "128 \<le> r" "r \<le> 2047" | "2048 \<le> r" "r \<le> 65535" | "65536 \<le> r" "r \<le> 1114111"
    using assms(1) by (fastforce simp: valid_rune_def)
  then show ?thesis
  proof cases
    case 1
    then show ?thesis using assms by (auto simp: raw_bytes_def valid_rune_def)
  next
    case 2
    have "0 \<le> r div 64 \<and> r div 64 \<le> 31"
      using zdiv_mono1 [OF 2(2), of 64] 2(1) by (simp add: pos_imp_zdiv_nonneg_iff)
    then show ?thesis using 2 assms(2) m [of r] by (auto simp: raw_bytes_def)
  next
    case 3
    have "0 \<le> r div 4096 \<and> r div 4096 \<le> 15"
      using zdiv_mono1 [OF 3(2), of 4096] 3(1) by (simp add: pos_imp_zdiv_nonneg_iff)
    moreover have "b = - (0xE0 + r div 4096) \<or> b = - (0xF0 + r div 4096) \<or> b = - (0x80 + (r div 64) mod 64) \<or>
        b = - (0x80 + (r div 64) mod 64) \<or> b = - (0x80 + r mod 64)"
      using 3 assms(2) by (simp add: raw_bytes_def) blast
    ultimately show ?thesis by (rule in_byte) (rule m)+
  next
    case 4
    have "0 \<le> r div 262144 \<and> r div 262144 \<le> 15"
      using zdiv_mono1 [OF 4(2), of 262144] 4(1) by (simp add: pos_imp_zdiv_nonneg_iff)
    moreover have "b = - (0xE0 + r div 262144) \<or> b = - (0xF0 + r div 262144) \<or> b = - (0x80 + (r div 4096) mod 64) \<or>
        b = - (0x80 + (r div 64) mod 64) \<or> b = - (0x80 + r mod 64)"
      using 4 assms(2) by (simp add: raw_bytes_def)
    ultimately show ?thesis by (rule in_byte) (rule m)+
  qed
qed

lemma string_bytes_range:
  assumes "go_string s"
  shows "\<forall>b \<in> set (string_bytes s). 0 \<le> b \<and> b < 256"
proof
  fix b assume "b \<in> set (string_bytes s)"
  then obtain r c where r: "r \<in> set s" "c \<in> set (raw_bytes r)" "b = \<bar>c\<bar>" by (auto simp: string_bytes_def)
  have "- 255 \<le> c \<and> c \<le> 127" using raw_bytes_range [OF _ r(2)] assms r(1) by (simp add: go_string_def)
  then show "0 \<le> b \<and> b < 256" using r(3) by auto
qed

lemma SVGID_inj: "go_string c \<Longrightarrow> go_string d \<Longrightarrow> SVGID c = SVGID d \<Longrightarrow> string_bytes c = string_bytes d"
  using letters_inj [of "string_bytes c" "string_bytes d"] string_bytes_range by (simp add: SVGID_letters ball_Un)

lemma has_prefix_append_self [simp]: "has_prefix p (p @ s)"
  by (induction p) auto

lemma validIDPart_append [simp]: "validIDPart (a @ b) \<longleftrightarrow> validIDPart a \<and> validIDPart b"
  by (auto simp: validIDPart_def)

lemma validIDPart_SVGID [simp]: "validIDPart (SVGID c)"
  using letters_chars by (fastforce simp: validIDPart_def SVGID_letters isASCIIAlpha_def isASCIIDigit_def)

lemma ParseLocalIRI_reads:
  assumes "validID i"
  shows "LocalIRI (ID i) = Some (runes ''url(#'' @ i @ runes '')'') \<and>
    ParseLocalIRI (runes ''url(#'' @ i @ runes '')'') = Some (ID i)"
  using assms by (simp add: LocalIRI_def id_String_def ParseLocalIRI_def butlast_append)

text \<open>With a valid prefix and suffix every component gets an identifier, distinct ones for distinct components.\<close>

theorem scoped_ids_distinct:
  assumes "validIDPart p" "validIDPart s" "go_string c" "go_string d"
  shows "\<exists>i j. ScopedID p c s = Some i \<and> ScopedID p d s = Some j \<and>
    (LocalIRI i = LocalIRI j \<longrightarrow> string_bytes c = string_bytes d) \<and>
    (\<exists>iri. LocalIRI i = Some iri \<and> ParseLocalIRI iri = Some i)"
proof -
  define enc where "enc = (\<lambda>c. if c = [] \<or> \<not> validIDPart c \<or> has_prefix scopedIDEncodingPrefix c
    then scopedIDEncodingPrefix @ SVGID c else c)"
  have prefix: "validIDPart scopedIDEncodingPrefix"
    by (simp add: scopedIDEncodingPrefix_def validIDPart_def isASCIIAlpha_def isASCIIDigit_def)
  have ne: "enc c \<noteq> []" "validIDPart (enc c)" for c
    using prefix by (simp_all add: enc_def) (simp add: scopedIDEncodingPrefix_def)
  have valid: "validID (p @ enc c @ s)" for c using ne [of c] assms by (simp add: validID_def)
  then have scoped: "ScopedID p c s = Some (ID (p @ enc c @ s))" for c
    using assms by (simp add: ScopedID_def LiteralID_def enc_def Let_def)
  have "enc c = enc d \<Longrightarrow> string_bytes c = string_bytes d"
    using SVGID_inj [OF assms(3,4)] by (auto simp: enc_def split: if_splits)
  then have "LocalIRI (ID (p @ enc c @ s)) = LocalIRI (ID (p @ enc d @ s)) \<Longrightarrow> string_bytes c = string_bytes d"
    using ParseLocalIRI_reads [OF valid [of c]] ParseLocalIRI_reads [OF valid [of d]] by simp
  with scoped ParseLocalIRI_reads [OF valid [of c]] show ?thesis by blast
qed

theorem scoped_ids_distinct_witness:
  "\<exists>i j. ScopedID (runes ''mask-'') (runes ''a b'') [] = Some i \<and> ScopedID (runes ''mask-'') (runes ''d2e-MEQGE'') [] = Some j \<and>
    (LocalIRI i = LocalIRI j \<longrightarrow> string_bytes (runes ''a b'') = string_bytes (runes ''d2e-MEQGE'')) \<and>
    (\<exists>iri. LocalIRI i = Some iri \<and> ParseLocalIRI iri = Some i)"
  by (rule scoped_ids_distinct) (simp_all add: validIDPart_def isASCIIAlpha_def isASCIIDigit_def go_string_def valid_rune_def)

end
