(* ===== verification/Spec2Isabelle.thy ===== *)
theory Spec2Isabelle
  imports Parser_Entry Parser_Knot Value_Roundtrip Block_Indent Format_Spec Ir_Properties Tala_Properties
    Graph_Properties Net_Policy Jpeg_Orientation Routing_Refines Svg_Markup
begin

text \<open>
  D2 is a language for diagrams. Its front end reads a text into a syntax tree (\<^verbatim>\<open>d2parser\<close>, \<^verbatim>\<open>d2ast\<close>),
  prints a tree as text (\<^verbatim>\<open>d2format\<close>) and compiles it into an intermediate representation of nested
  maps of fields and edges (\<^verbatim>\<open>d2ir\<close>), from which \<^verbatim>\<open>d2compiler\<close> builds the graph that the layout
  engines and renderers draw. This development models the front end, the operations of the
  intermediate representation and the discrete parts of the TALA layout engine.

  \<^bold>\<open>Shared.\<close> \<open>Prelude\<close>: runes, Go strings as lists of runes and invalid bytes, the rule collections.
  \<open>Go_Lib\<close>: what the code uses of Go's standard library (\<^verbatim>\<open>utf8\<close>, \<^verbatim>\<open>unicode\<close>, \<^verbatim>\<open>strings\<close>, \<^verbatim>\<open>strconv\<close>,
  decimal numbers). The tables of letters and digits, simple case folding and lower case beyond ASCII
  depend on the Unicode version of the Go release and are parameters.

  \<^bold>\<open>Syntax tree\<close> (\<^verbatim>\<open>d2ast/d2ast.go\<close>, \<^verbatim>\<open>keywords.go\<close>, \<^verbatim>\<open>lib/label/label.go\<close>). \<open>Ast_Position\<close>: \<^verbatim>\<open>Position\<close> and
  \<^verbatim>\<open>Range\<close>, moving over text, order and text encoding. \<open>Ast\<close>: the nodes, their strings, key paths and
  globs; \<open>RawString\<close> chooses the quotes of a text. \<open>Ast_Walk\<close>: \<^verbatim>\<open>Walk\<close> and \<^verbatim>\<open>Key.Equals\<close>. \<open>Keywords\<close> and
  \<open>Labels\<close>: the tables, label positions.

  \<^bold>\<open>Parser\<close> (\<^verbatim>\<open>d2parser/parse.go\<close>). \<open>Parser_State\<close> has the parser struct as a record (unread runes,
  lookahead, positions, nesting depth, errors, context polls) and methods as functions from a state to
  an outcome: a result and a state, a run time panic, or running out of fuel. \<open>forever\<close> is a
  \<^verbatim>\<open>for {}\<close> loop; its fuel is one more than \<open>rank\<close> of the state at its start, a pair of what can still be
  read and what was read ahead, which every round but the last decreases. \<open>Parser_Lex\<close> has the
  leaves of the grammar, \<open>Parser\<close> the recursion of maps, arrays and values, tied by levels: a nested
  value is a level down, and the 129 levels cover \<^verbatim>\<open>MaxNestingDepth\<close>, which is 128. \<open>Parser_Spec\<close> is a
  weakest-precondition calculus; with it \<open>Parser_Total\<close> shows that no method runs out of fuel and
  none panics but for one slice, \<open>Parser_Frame\<close> what every method keeps, \<open>Parser_Knot\<close> that the tied
  functions satisfy the equations of the code, \<open>Parser_Entry\<close> what follows for \<^verbatim>\<open>Parse\<close>, \<^verbatim>\<open>ParseKey\<close>,
  \<^verbatim>\<open>ParseMapKey\<close> and \<^verbatim>\<open>ParseValue\<close>. \<open>Parser_View\<close> follows the parser over a known text.

  \<^bold>\<open>Formatter\<close> (\<^verbatim>\<open>d2format\<close>). \<open>Format\<close> has the escapers, the printer and the fast path of key paths;
  \<open>Format_Spec\<close> what printing keeps; \<open>Key_Roundtrip\<close>, \<open>Value_Roundtrip\<close> and \<open>Block_Indent\<close> that printed
  keys, values and indented blocks are parsed back.

  \<^bold>\<open>Intermediate representation\<close> (\<^verbatim>\<open>d2ir\<close>). Parent pointers are left out of the tree; an operation that
  walks up gets what lies above as an argument. \<open>Ir_Names\<close>: case folding and the key of a field name.
  \<open>Ir_Edge_ID\<close>: \<^verbatim>\<open>EdgeID\<close>, its matching, its index key and \<^verbatim>\<open>resolve\<close>; an error and a panic are values.
  \<open>Ir_Index\<close>: the two derived indexes of a \<^verbatim>\<open>Map\<close> with all operations that touch them; the locale
  \<open>derived_index\<close> states what an index owes the list it is derived from and is interpreted for
  fields and for edges, and \<open>tables_reach\<close> is what any sequence of operations leads to. \<open>Ir\<close>: fields,
  edges, maps, references, copies, counts and the lookups, which \<open>Ir_Lookup\<close> compares. \<open>Ir_Merge\<close>:
  \<^verbatim>\<open>OverlayMap\<close>, \<^verbatim>\<open>ExpandSubstitution\<close>. \<open>Ir_Delete\<close>: deleting fields and edges, with the slice that moves under a
  range loop. \<open>Ir_Pattern\<close> and \<open>Ir_Glob\<close>: matching a name and the recursive globs. \<open>Ir_Expansion\<close> and
  \<open>Ir_Reserve\<close>: the work budgets, what a copy costs, and the reservations of the compiler as a step
  relation with its invariant. \<open>Ir_Ensure\<close>: \<^verbatim>\<open>EnsureField\<close> without a compiler; a visit to a map is a function of
  it, and a path of positions stands for the pointer to a field. \<open>Ir_Ast\<close> and \<open>Ir_Path\<close>: back to the syntax and the walks to the root.
  \<open>Ir_Properties\<close>: the properties of this part with their witnesses. Case folding goes around an orbit
  of at most four runes, so the loop of \<^verbatim>\<open>foldString\<close> is unrolled four times.

  \<^bold>\<open>Layout.\<close> \<open>Grid_Search\<close>: the search for the rows of a grid (\<^verbatim>\<open>d2layouts/d2grid\<close>). Of the TALA engine
  (\<^verbatim>\<open>d2layouts/d2talalayout/internal\<close>): \<open>Tala_Limits\<close> has the work budgets and the checked 64-bit arithmetic,
  \<open>Tala_Shuffle\<close> the guarded shuffle, \<open>Heap_Order\<close> binary heaps over any order, with the locale \<open>heap_order\<close>
  interpreted for the heap of ready nodes. \<open>Tala_Monad\<close> threads a budget through a computation; a loop is
  \<open>twhile\<close>, which gets one turn more than the budget has left, and \<open>Rank_Cost\<close> shows that every turn of every
  loop charges a unit, so the turns are never used up. The search for the connected nodes charges per edge and
  gets as many turns as there are nodes, each of which is queued once. \<open>Rank_Graph\<close> and \<open>Rank_Simplex\<close> have the
  rank assignment of hierarchies by network simplex. \<open>Rank_Optimal\<close> shows by weak duality that its
  certificate proves the ranking optimal, \<open>Rank_Kahn\<close> that the first ranking is the least and the verdict on
  cycles right; \<open>Tala_Properties\<close> states what follows. \<open>Routing_Queue\<close> is the indexed heap of the route search
  (\<^verbatim>\<open>routing/priority_queue.go\<close>) with its entries in chunks, on the loops and the locale of \<open>Heap_Order\<close>;
  \<open>Routing_Refines\<close> shows by a simulation that it answers every sequence of commands as a list in insertion order.

  \<^bold>\<open>The graph.\<close> \<open>Graph_Objects\<close> is the core of \<^verbatim>\<open>d2graph\<close> (\<^verbatim>\<open>d2graph.go\<close>, \<^verbatim>\<open>seqdiagram.go\<close>): objects and edges in a
  store of addresses, \<^verbatim>\<open>EnsureChild\<close>, \<^verbatim>\<open>Connect\<close>, \<^verbatim>\<open>HasChild\<close>, \<^verbatim>\<open>HasEdge\<close>, \<^verbatim>\<open>AbsID\<close>, \<^verbatim>\<open>ResolveUnderscoreKey\<close> and the predicates of
  sequence diagrams. It formats and parses the identifiers with \<open>Format\<close> and \<open>Parser\<close>. \<open>Graph_Invariant\<close> shows what every
  operation keeps, \<open>Graph_Paths\<close> what a path reaches and which graphs are reachable, \<open>Graph_Properties\<close> states what follows:
  its statements compose the formatter, the parser and the graph.

  \<^bold>\<open>Library parts.\<close> \<open>Net_Policy\<close> models \<^verbatim>\<open>lib/netpolicy/netpolicy.go\<close>, the boundary for fetching untrusted resources, down to
  the bits of addresses, and proves it equal to intervals; \<open>Jpeg_Orientation\<close> models
  \<^verbatim>\<open>internal/rasterimage/jpeg_orientation.go\<close>, a reader of untrusted bytes, and proves that no slice is out of range. \<open>Svg_Markup\<close> models the typed SVG
  markup of \<^verbatim>\<open>lib/svg\<close> and proves that rendered attributes are read back as they were, whatever their values, and that
  scoped identifiers of different components differ.

  \<^bold>\<open>Not modelled.\<close> The decoder of UTF-16 input and the number arithmetic of Go's \<^verbatim>\<open>big.Rat\<close> beyond decimal
  literals. Of \<^verbatim>\<open>d2ir\<close>: compilation, substitutions, imports, lazy globs, creating edges, and what a compiler adds to creating fields; an edge identifier that names a common container is None in \<open>Ir_Merge\<close> and \<open>Ir_Delete\<close>.
  Then the sizes, texts and styles of \<^verbatim>\<open>d2graph\<close>, \<^verbatim>\<open>d2compiler\<close>, \<^verbatim>\<open>d2exporter\<close>, \<^verbatim>\<open>d2oracle\<close>, \<^verbatim>\<open>d2lsp\<close>, which rest on them, and
  geometry, the rest of layout and rendering, which are floating point arithmetic, JavaScript engines and output. Of
  \<^verbatim>\<open>lib/svg\<close>: paths, numbers, document types, and \<^verbatim>\<open>ParseAttributes\<close>, which rests on the XML decoder of Go's library.
\<close>

section \<open>The parser: what every input is given\<close>

text \<open>Unicode tables without letters or digits beyond Latin-1, for the concrete instances.\<close>

definition no_tables :: unicode_tables where
  "no_tables = \<lparr>uni_letter = \<lambda>_. False, uni_digit = \<lambda>_. False\<rparr>"

definition text_input :: "gostr \<Rightarrow> parse_input" where
  "text_input s = \<lparr>in_bom = False, in_runes = s, in_err = None\<rparr>"

text \<open>
  C2. Parsing a file always ends, whatever the input, the I/O error, the context and the options: the
  result is a map with an error or without one, or the one run time panic the code can raise, a slice
  bound out of range in \<^verbatim>\<open>parseUnquotedString\<close>. It never loops, and \<^verbatim>\<open>Position.Subtract\<close>
  never panics on a newline.
\<close>

theorem ParseContext_total:
  "(\<exists>m err. ParseContext c u pth inp opts = Returned m err) \<or>
   ParseContext c u pth inp opts = Panicked SliceOutOfRange"
  using file_map_wp [of c u pth inp opts]
  by (auto simp: wp_def ParseContext_eq split: outcome.splits)

text \<open>
  C23. \<^verbatim>\<open>ParseKey\<close> always returns, and returns either a key path or an error, never both and
  never neither; it cannot panic, since a string in a key holds no substitution.
\<close>

theorem ParseKey_total:
  "(\<exists>k. ParseKey u s = Returned (Some k) None) \<or> (\<exists>err. ParseKey u s = Returned None (Some err))"
  using parse_string_with_total [OF steps_at_steps [OF steps_parseKey [of "{}"]], of u s]
  by (auto simp: ParseKey_def parse_string_with_def split: outcome.splits option.splits if_splits)

text \<open>
  \<^verbatim>\<open>ParseMapKey\<close> and \<^verbatim>\<open>ParseValue\<close> return a node or an error, or panic with a slice bound out
  of range; they always end.
\<close>

theorem ParseMapKey_ParseValue_total:
  "((\<exists>k. ParseMapKey u s = Returned (Some k) None) \<or> (\<exists>err. ParseMapKey u s = Returned None (Some err)) \<or>
    ParseMapKey u s = Panicked SliceOutOfRange) \<and>
   ((\<exists>v. ParseValue u s = Returned (Some v) None) \<or> (\<exists>err. ParseValue u s = Returned None (Some err)) \<or>
    ParseValue u s = Panicked SliceOutOfRange)"
proof
  show "(\<exists>k. ParseMapKey u s = Returned (Some k) None) \<or> (\<exists>err. ParseMapKey u s = Returned None (Some err)) \<or>
    ParseMapKey u s = Panicked SliceOutOfRange"
    using parse_string_with_total [of "{SliceOutOfRange}" "parseMapKey parseValue" u s]
    by (auto simp: ParseMapKey_def parse_string_with_def steps_at_parseMapKey steps_at_parseValue
        split: outcome.splits option.splits if_splits)
  show "(\<exists>v. ParseValue u s = Returned (Some v) None) \<or> (\<exists>err. ParseValue u s = Returned None (Some err)) \<or>
    ParseValue u s = Panicked SliceOutOfRange"
    using parse_string_with_total [of "{SliceOutOfRange}" parseValue u s]
    by (auto simp: ParseValue_def parse_string_with_def steps_at_parseValue
        split: outcome.splits option.splits if_splits)
qed

text \<open>
  C10. A parsed file is read to its end: unless the nesting limit was reported, the range of the map
  is the whole file, from position zero to the position of the text's end, in bytes or in UTF-16 code
  units.
\<close>

theorem Parse_consumes_file:
  assumes "Parse u pth inp opts = Returned m err"
    and "\<forall>es. err = Some (ParseErrors es) \<longrightarrow> MaxNestingExceeded \<notin> err_msg ` set es"
  shows "m_range m = \<lparr>rng_Path = pth, Start = pos0, End = AdvanceString pos0 (in_runes inp)
     ((case opts of None \<Rightarrow> False | Some x \<Rightarrow> opt_utf16 x) \<or> in_bom inp)\<rparr>"
  using assms(1) unfolding Parse_def
proof (rule file_map_returned)
  fix t
  let ?s = "file_parser background u pth inp opts"
  assume t: "err = file_error t" "reaches ?s t" "stuck t \<or> rest t = []" "explained ?s t"
    "m_range m = \<lparr>rng_Path = pth, Start = pos0, End = pos t\<rparr>"
  have none: "contextErr t = None"
    using t(4) by (auto simp: explained_def polled_def background_def)
  have "\<not> halted t"
    using t(1,4) assms(2) none by (auto simp: explained_def file_error_def split: if_splits)
  with none t(3) have "rest t = []"
    by (auto simp: stuck_def)
  with t(2) have "pos t = AdvanceString pos0 (in_runes inp) (utf16Pos ?s)"
    by (auto simp: reaches_def reach_def moved_def file_parser_reach)
  then show ?thesis
    using t(5) by simp
qed

theorem Parse_consumes_file_witness:
  "\<exists>m. Parse no_tables [] (text_input (runes ''x'')) None = Returned m None \<and>
    m_range m = \<lparr>rng_Path = [], Start = pos0, End = \<lparr>Line = 0, Column = 1, Byte = 1\<rparr>\<rparr>"
proof -
  have "case Parse no_tables [] (text_input (runes ''x'')) None of Returned m err \<Rightarrow> err = None | _ \<Rightarrow> False"
    by code_simp
  then obtain m where m: "Parse no_tables [] (text_input (runes ''x'')) None = Returned m None"
    by (auto split: result.splits)
  then show ?thesis
    using Parse_consumes_file [OF m] by (simp add: text_input_def pos0_def Advance_def rune_size_def rune_len_def)
qed

text \<open>
  \<^verbatim>\<open>ParseContext\<close> returns a context error only if the context reported that very error, and
  at a read count the parser polls it at: every 256th rune, from the first.
\<close>

theorem ParseContext_cancelled:
  assumes "ParseContext c u pth inp opts = Returned m (Some (ContextError e))"
  shows "\<exists>n. n mod 256 = 1 \<and> c n = Some e"
  using assms
proof (rule file_map_returned)
  fix t
  assume t: "Some (ContextError e) = file_error t" "explained (file_parser c u pth inp opts) t"
  from t(1) have "contextErr t = Some e"
    by (auto simp: file_error_def split: option.splits if_splits)
  with t(2) show ?thesis
    by (auto simp: explained_def polled_def)
qed

theorem ParseContext_cancelled_witness:
  "\<exists>m. ParseContext (\<lambda>n. if n = 1 then Some [1] else None) no_tables [] (text_input [120]) None =
      Returned m (Some (ContextError [1])) \<and>
    (\<exists>n::nat. n mod 256 = 1 \<and> (if n = 1 then Some [1] else None) = Some [1::rune])"
proof -
  let ?c = "\<lambda>n::nat. if n = 1 then Some [1::rune] else None"
  have "case ParseContext ?c no_tables [] (text_input [120]) None of
      Returned m (Some (ContextError e)) \<Rightarrow> e = [1] | _ \<Rightarrow> False"
    by code_simp
  then obtain m where m: "ParseContext ?c no_tables [] (text_input [120]) None =
      Returned m (Some (ContextError [1]))"
    by (auto split: result.splits option.splits go_error.splits)
  then show ?thesis
    using ParseContext_cancelled [OF m] by blast
qed

text \<open>
  The errors of a parse are those given in the options followed by its own, and the parser's own
  errors all name the file it parses.
\<close>

theorem ParseContext_errors:
  assumes "ParseContext c u pth inp opts = Returned m (Some (ParseErrors es))"
  shows "\<exists>new. es = (case opts of None \<Rightarrow> [] | Some x \<Rightarrow> opt_errs x) @ new \<and>
    (\<forall>e \<in> set new. rng_Path (err_range e) = pth)"
  using assms
proof (rule file_map_returned)
  fix t
  assume t: "Some (ParseErrors es) = file_error t" "explained (file_parser c u pth inp opts) t"
  from t(1) have "errs t = es"
    by (auto simp: file_error_def split: option.splits if_splits)
  with t(2) show ?thesis
    by (auto simp: explained_def errs_extend_def)
qed

theorem ParseContext_errors_witness:
  "\<exists>m es. ParseContext background no_tables [97] (text_input [rRCur]) None =
      Returned m (Some (ParseErrors es)) \<and> es \<noteq> [] \<and> (\<forall>e \<in> set es. rng_Path (err_range e) = [97])"
proof -
  have "case ParseContext background no_tables [97] (text_input [rRCur]) None of
      Returned m (Some (ParseErrors es)) \<Rightarrow> es \<noteq> [] | _ \<Rightarrow> False"
    by code_simp
  then obtain m es where m: "ParseContext background no_tables [97] (text_input [rRCur]) None =
      Returned m (Some (ParseErrors es))" and "es \<noteq> []"
    by (auto split: result.splits option.splits go_error.splits)
  then show ?thesis
    using ParseContext_errors [OF m] by auto
qed

text \<open>
  C29. At the nesting limit a map is not entered: \<^verbatim>\<open>parseMap\<close> reports the limit at the brace,
  halts the parser and returns an empty map, without reading a rune.
\<close>

theorem nesting_limit:
  assumes "MaxNestingDepth \<le> nestingDepth s" and "\<not> halted s" and "contextErr s = None"
  shows "\<exists>p. Subtract (pos s) rLCur (utf16Pos s) = Some p \<and>
    parseMap pv False s = Ok (Map \<lparr>rng_Path = path s, Start = p, End = pos s\<rparr> [])
      (s\<lparr>errs := errs s @ [Error \<lparr>rng_Path = path s, Start = p, End = pos s\<rparr> MaxNestingExceeded],
         halted := True\<rparr>)"
  using assms
  by (simp add: parseMap_def nested_def enterNesting_def bnd_def gets_def ret_def modify_def errorf_def
      posSubtract_def currentRange_def Subtract_def Let_def)

theorem nesting_limit_witness:
  "\<exists>p t. parseMap parseValue False ((string_parser no_tables [])\<lparr>nestingDepth := 128\<rparr>) =
    Ok (Map \<lparr>rng_Path = [], Start = p, End = pos0\<rparr> []) t \<and> halted t"
  using nesting_limit [of "(string_parser no_tables [])\<lparr>nestingDepth := 128\<rparr>" parseValue]
  by (auto simp: MaxNestingDepth_def string_parser_def init_parser_def)

text \<open>
  C35. A halted or cancelled parser is inert: parsing a value with it reports no error, takes nothing from the reader and
  does not poll the context, and it stays halted or cancelled. A parser that reaches the nesting limit within a value is
  halted there: the error of the limit is the last one the value reports, whatever open maps, arrays and strings
  around it would report as they are left, and no later report is taken.
\<close>

theorem frozen_parser:
  assumes "parseValue s = Ok v t"
  shows "\<exists>new. errs t = errs s @ new \<and>
    (halted s \<or> contextErr s \<noteq> None \<longrightarrow>
       new = [] \<and> reader t = reader s \<and> readCount t = readCount s \<and> (halted t \<or> contextErr t \<noteq> None)) \<and>
    (\<not> halted s \<and> halted t \<and> contextErr t = None \<longrightarrow> new \<noteq> [] \<and> err_msg (last new) = MaxNestingExceeded) \<and>
    (halted t \<or> contextErr t \<noteq> None \<longrightarrow> (\<forall>a b m. errorf a b m t = Ok () t))"
proof -
  obtain new where new: "errs t = errs s @ new" "stuck s \<longrightarrow> new = []"
    "\<not> halted s \<and> halted t \<and> contextErr t = None \<longrightarrow> new \<noteq> [] \<and> err_msg (last new) = MaxNestingExceeded"
    using reports.keepsD [OF reports.keeps_value assms] by (auto simp: last_word_def)
  have "frozen s t" by (rule frozen.keepsD [OF frozen.keeps_value assms])
  with new show ?thesis
    by (intro exI [of _ new]) (auto simp: frozen_def stuck_def errorf_def)
qed

theorem frozen_parser_witness:
  "\<exists>v t new. parseValue ((string_parser no_tables (runes ''{a: {''))\<lparr>nestingDepth := 127\<rparr>) = Ok v t \<and>
    halted t \<and> errs t = new \<and> new \<noteq> [] \<and> err_msg (last new) = MaxNestingExceeded"
proof -
  let ?s = "(string_parser no_tables (runes ''{a: {''))\<lparr>nestingDepth := 127\<rparr>"
  have "case parseValue ?s of Ok v t \<Rightarrow> halted t \<and> contextErr t = None | _ \<Rightarrow> False"
    by code_simp
  then obtain v t where v: "parseValue ?s = Ok v t" "halted t" "contextErr t = None"
    by (auto split: outcome.splits)
  have "\<not> halted ?s" "errs ?s = []" by (simp_all add: string_parser_def init_parser_def)
  with frozen_parser [OF v(1)] v show ?thesis by auto
qed

text \<open>
  C36. Parsing a value only moves forward: it takes a prefix of the unread runes, its position is that
  of the text it took, the buffer's invariant holds again, and the nesting depth is the one before.
\<close>

theorem parseValue_moves:
  assumes "buffer_ok s" and "lookahead s = []" and "parseValue s = Ok v t"
  shows "buffer_ok t \<and> nestingDepth t = nestingDepth s \<and>
    (\<exists>cs. rest s = cs @ rest t \<and> pos t = AdvanceString (pos s) cs (utf16Pos s))"
  using parseValue_total [OF assms(1,2)] assms(3)
  by (auto simp: wp_def reaches_def reach_def moved_def)

theorem parseValue_moves_witness:
  "\<exists>v t cs. parseValue (string_parser no_tables [120]) = Ok v t \<and> [120] = cs @ rest t \<and>
    pos t = AdvanceString pos0 cs False"
proof -
  let ?s = "string_parser no_tables [120]"
  have "case parseValue ?s of Ok v t \<Rightarrow> True | _ \<Rightarrow> False"
    by code_simp
  then obtain v t where v: "parseValue ?s = Ok v t"
    by (auto split: outcome.splits)
  have "buffer_ok ?s" "lookahead ?s = []" "rest ?s = [120]" "pos ?s = pos0" "utf16Pos ?s = False"
    by (simp_all add: string_parser_def init_parser_def buffer_ok_def MaxNestingDepth_def rest_def
        unread_def range_rune_def)
  with parseValue_moves [OF _ _ v] v show ?thesis
    by metis
qed

text \<open>
  \<open>parseValue\<close> satisfies the recursion of the code: on every well-formed state it does what the
  body of \<^verbatim>\<open>parseValue\<close> does with itself as the callee. The 129 levels the model unfolds are
  therefore enough for every input.
\<close>

theorem parseValue_equation:
  assumes "buffer_ok s" and "lookahead s = []"
  shows "parseValue s = parseValue_body parseValue s"
  using parseValue_next_level [OF assms] unfolding parseValue_level_Suc parseValue_def .

theorem parseValue_equation_witness:
  "parseValue (string_parser no_tables [120]) =
    parseValue_body parseValue (string_parser no_tables [120])"
  by (rule parseValue_equation)
    (simp_all add: string_parser_def init_parser_def buffer_ok_def MaxNestingDepth_def)

text \<open>\<open>parseKey\<close> satisfies the recursion of the code, with the code's own \<^verbatim>\<open>parseString\<close>.\<close>

theorem parseKey_equation: "parseKey = parseKey_body (parseString True)"
  unfolding parseKey_def parseString_def parseString_body_def
    in_key_substitution [of no_substitution parseSubstitution] ..

text \<open>Reading a rune is peeking it and committing the peek.\<close>

theorem read_peek_commit:
  assumes "buffer_ok s" and "lookahead s = []"
  shows "read s = bnd peek (\<lambda>x. bnd commit (\<lambda>_. ret x)) s"
proof -
  have "lookaheadPos (snd (read_rune s)) = pos (snd (read_rune s)) \<and> lookahead (snd (read_rune s)) = []"
    using assms by (auto simp: read_rune_def read_reader_def buffer_ok_def rewind_state_def Let_def
        split: option.splits list.splits)
  then show ?thesis
    by (auto simp: read_def peek_def read_state_def peek_state_def state_op_def bnd_def commit_def
        modify_def ret_def Let_def split: prod.split)
qed

theorem read_peek_commit_witness:
  "read (string_parser no_tables [120]) =
    bnd peek (\<lambda>x. bnd commit (\<lambda>_. ret x)) (string_parser no_tables [120])"
  by (rule read_peek_commit)
    (simp_all add: string_parser_def init_parser_def buffer_ok_def MaxNestingDepth_def)

text \<open>
  A key path that \<^verbatim>\<open>ParseKey\<close> returns without an error has a part, and no part of it is
  longer than 518 bytes.
\<close>

theorem ParseKey_bounds:
  assumes "ParseKey u s = Returned (Some k) None"
  shows "kp_path k \<noteq> [] \<and> list_all (\<lambda>x. blen (string_ScalarString x) \<le> 518) (kp_path k)"
proof -
  from assms obtain t where t: "parseKey (string_parser u s) = Ok (Some k) t" "errs t = []"
    by (auto simp: ParseKey_def parse_string_with_def split: outcome.splits option.splits if_splits)
  have "explained (string_parser u s) t"
    by (rule stops.keepsD [OF stops.keeps_key t(1)])
  then have live: "halted t = False" "contextErr t = None"
    using t(2) by (auto simp: explained_def polled_def string_parser_def init_parser_def)
  from t(1) obtain k0 t0 where "parseKey_finish k0 t0 = Ok (Some k) t"
    by (auto simp: parseKey_def parseKey_body_def bnd_def gets_def split: outcome.splits)
  then show ?thesis
    using t(2) live
    by (cases k0) (auto simp: parseKey_finish_def bnd_def ret_def errorf_def currentRange_def gets_def
        Let_def find_None_iff list_all_iff not_less split: if_splits option.splits)
qed

theorem ParseKey_bounds_witness:
  "\<exists>k. ParseKey no_tables (runes ''a'') = Returned (Some k) None \<and> kp_path k \<noteq> []"
proof -
  have "case ParseKey no_tables (runes ''a'') of Returned (Some k) None \<Rightarrow> True | _ \<Rightarrow> False"
    by code_simp
  then obtain k where k: "ParseKey no_tables (runes ''a'') = Returned (Some k) None"
    by (auto split: result.splits option.splits)
  then show ?thesis
    using ParseKey_bounds [OF k] by blast
qed

section \<open>Formatting and parsing again\<close>



text \<open>
  C25. The fast path of \<^verbatim>\<open>FormatKeyPath\<close> is the regular formatter: it prints what \<^verbatim>\<open>Format\<close> prints
  for the key path that \<^verbatim>\<open>MakeKeyPathString\<close> builds.
\<close>

theorem FormatKeyPath_reference: "FormatKeyPath a = Format (NKeyPath (MakeKeyPathString a))"
  by (simp add: FormatKeyPath_def Format_def p_node_def p_key_def MakeKeyPathString_def
      fmt_key_parts_reference option.map_comp o_def new_printer_def)

text \<open>
  C39. A double quoted value is parsed back: for every text, the printed string is parsed as a quoted
  string of that text, invalid bytes replaced.
\<close>

theorem double_quoted_roundtrip:
  "\<exists>txt x. Format (NScalar (String (FlatDoubleQuotedString v))) = Some txt \<and>
    ParseValue u txt = Returned (Some (ScalarV (String x))) None \<and>
    \<not> IsUnquoted x \<and> string_ScalarString x = map range_rune v"
proof -
  let ?t = "rDQ # escapeDoubledQuotedValue v False @ [rDQ]"
  have "Format (NScalar (String (FlatDoubleQuotedString v))) = Some ?t"
    by (simp add: Format_def p_node_def p_scalar_def FlatDoubleQuotedString_def text_box_def box_text_def
        new_printer_def p_write_def)
  moreover have "\<exists>x. ParseValue u ?t = Returned (Some (ScalarV (String x))) None \<and>
      (\<not> IsUnquoted x \<and> string_ScalarString x = map range_rune v)"
  proof (rule ParseValue_quoted)
    fix s t0 and Q :: "string_node option \<Rightarrow> parser \<Rightarrow> bool"
    assume t0: "view s [] [] ?t t0"
      and Q: "\<And>x t. view s ?t [] [] t \<Longrightarrow>
        \<not> IsUnquoted x \<and> string_ScalarString x = map range_rune v \<Longrightarrow> \<not> IsUnquoted x \<Longrightarrow> Q (Some x) t"
    show "wp {} (parseString False) Q t0"
      unfolding parseString_def parseString_body_def using t0
      by (auto elim!: view_rules
          intro!: view_doubleQuoted [where v = v and inKey = False and rs = "[]" and cs = "[]" and ?s0.0 = s] Q
          simp: is_space_def boxes_String_def)
  qed (simp_all add: range_rune_escapes, simp_all add: range_rune_def)
  ultimately show ?thesis
    by blast
qed

text \<open>A single quoted value without a newline is parsed back as the single quoted string it was.\<close>

theorem single_quoted_roundtrip:
  assumes "rNL \<notin> set v"
  shows "\<exists>txt rng. Format (NScalar (String (SingleQuotedString r [] v))) = Some txt \<and>
    ParseValue u txt =
      Returned (Some (ScalarV (String (SingleQuotedString rng [] (map range_rune v))))) None"
proof -
  let ?t = "rSQ # escapeSingleQuotedValue v @ [rSQ]"
  have "Format (NScalar (String (SingleQuotedString r [] v))) = Some ?t"
    by (simp add: Format_def p_node_def p_scalar_def new_printer_def p_write_def)
  moreover have "\<exists>x. ParseValue u ?t = Returned (Some (ScalarV (String x))) None \<and>
      (\<exists>rng. x = SingleQuotedString rng [] (map range_rune v))"
  proof (rule ParseValue_quoted)
    fix s t0 and Q :: "string_node option \<Rightarrow> parser \<Rightarrow> bool"
    assume t0: "view s [] [] ?t t0"
      and Q: "\<And>x t. view s ?t [] [] t \<Longrightarrow>
        \<exists>rng. x = SingleQuotedString rng [] (map range_rune v) \<Longrightarrow> \<not> IsUnquoted x \<Longrightarrow> Q (Some x) t"
    show "wp {} (parseString False) Q t0"
      unfolding parseString_def parseString_body_def using t0 assms
      by (auto elim!: view_rules
          intro!: view_singleQuoted [where v = v and rs = "[]" and cs = "[]" and ?s0.0 = s] Q
          simp: is_space_def)
  qed (simp_all add: range_rune_escapes, simp_all add: range_rune_def)
  ultimately show ?thesis
    by blast
qed

theorem single_quoted_roundtrip_witness:
  "\<exists>txt rng. Format (NScalar (String (SingleQuotedString range0 [] [rSQ, 97, rSQ]))) = Some txt \<and>
    ParseValue no_tables txt = Returned (Some (ScalarV (String (SingleQuotedString rng [] [rSQ, 97, rSQ])))) None"
  using single_quoted_roundtrip [of "[rSQ, 97, rSQ]" range0 no_tables] by (simp add: range_rune_def)

text \<open>
  An edge index is parsed back: a number from zero to the largest 64-bit integer, or the star,
  with nothing reported and nothing left over.
\<close>

theorem edge_index_roundtrip:
  assumes "ei_glob e \<longleftrightarrow> ei_int e = None" and "\<forall>n. ei_int e = Some n \<longrightarrow> 0 \<le> n \<and> n \<le> max_int"
  shows "\<exists>txt rng t. Format (NEdgeIndex e) = Some txt \<and>
    bnd read (\<lambda>_. parseEdgeIndex) (string_parser u txt) =
      Ok (Some (EdgeIndex rng (ei_int e) (ei_glob e))) t \<and> errs t = [] \<and> rest t = []"
proof -
  define tx where "tx = (case ei_int e of None \<Rightarrow> [rStar] | Some n \<Rightarrow> itoa n)"
  have fmt: "Format (NEdgeIndex e) = Some (rLBr # tx @ [rRBr])"
    using assms(1) by (auto simp: tx_def Format_def p_node_def p_edgeIndex_def new_printer_def p_write_def
        split: option.split)
  have "map range_rune (rLBr # tx @ [rRBr]) = rLBr # tx @ [rRBr]"
    unfolding tx_def
    by (cases "ei_int e") (auto simp: range_rune_def intro!: map_idI dest: itoa_set)
  then have start: "view (string_parser u (rLBr # tx @ [rRBr])) [] [] (rLBr # tx @ [rRBr])
      (string_parser u (rLBr # tx @ [rRBr]))"
    by (rule view_string_parser)
  have i: "tx = [rStar] \<and> ei_int e = None \<or> tx = itoa (the (ei_int e)) \<and> 0 \<le> the (ei_int e) \<and>
      the (ei_int e) \<le> max_int \<and> ei_int e = Some (the (ei_int e))"
    using assms(2) by (auto simp: tx_def split: option.split)
  have "wp {} (bnd read (\<lambda>_. parseEdgeIndex)) (\<lambda>x t. errs t = [] \<and> rest t = [] \<and>
      (\<exists>rng. x = Some (EdgeIndex rng (ei_int e) (ei_glob e)))) (string_parser u (rLBr # tx @ [rRBr]))"
    unfolding wp_bnd
  proof (rule view_read [OF start], clarsimp)
    fix s
    assume s: "view (string_parser u (rLBr # tx @ [rRBr])) [rLBr] [] (tx @ [rRBr]) s"
    show "wp {} parseEdgeIndex (\<lambda>x t. errs t = [] \<and> rest t = [] \<and>
      (\<exists>rng. x = Some (EdgeIndex rng (ei_int e) (ei_glob e)))) s"
    proof (rule view_edgeIndex [OF s i])
      fix t rng
      assume "view (string_parser u (rLBr # tx @ [rRBr])) (rLBr # tx @ [rRBr]) [] [] t"
      then show "errs t = [] \<and> rest t = [] \<and> (\<exists>rng'. Some (EdgeIndex rng (ei_int e) (ei_int e = None)) =
          Some (EdgeIndex rng' (ei_int e) (ei_glob e)))"
        using assms(1) by (simp add: view_def rest_def string_parser_def init_parser_def)
    qed
  qed
  then show ?thesis
    using fmt by (auto simp: wp_def split: outcome.splits)
qed

theorem edge_index_roundtrip_witness:
  "\<exists>txt rng t. Format (NEdgeIndex (EdgeIndex range0 (Some 12) False)) = Some txt \<and>
    bnd read (\<lambda>_. parseEdgeIndex) (string_parser no_tables txt) = Ok (Some (EdgeIndex rng (Some 12) False)) t \<and>
    errs t = []"
  using edge_index_roundtrip [of "EdgeIndex range0 (Some 12) False" no_tables] by (auto simp: max_int_def)

text \<open>
  Printing a node appends to the buffer and leaves the indentation as it was, for every node and
  every state of the printer.
\<close>

theorem printing_appends:
  assumes "p_node n p = Some q"
  shows "(\<exists>x. p_sb q = p_sb p @ x) \<and> p_indentStr q = p_indentStr p"
proof -
  have start: "grown (p_indentStr p) p p"
    by (rule grown_start) simp
  have "grows (p_indentStr p) p (p_node n p)"
    unfolding p_node_def by (cases n) (simp_all only: node.case, (rule grown_rules grows_val start)+)
  then show ?thesis
    using assms by (simp add: grows_def grown_def)
qed

theorem printing_appends_witness:
  "\<exists>q. p_node (NMap (Map \<lparr>rng_Path = [], Start = \<lparr>Line = 0, Column = 0, Byte = 1\<rparr>, End = \<lparr>Line = 1, Column = 0, Byte = 0\<rparr>\<rparr> []))
      new_printer = Some q \<and> p_indentStr q = []"
proof -
  let ?n = "NMap (Map \<lparr>rng_Path = [], Start = \<lparr>Line = 0, Column = 0, Byte = 1\<rparr>, End = \<lparr>Line = 1, Column = 0, Byte = 0\<rparr>\<rparr> [])"
  have "p_node ?n new_printer \<noteq> None"
    by code_simp
  then obtain q where q: "p_node ?n new_printer = Some q"
    by blast
  then show ?thesis
    using printing_appends [OF q] by (simp add: new_printer_def)
qed

text \<open>
  The quote chosen for a block string is safe: with the pipe before it or after it, it does not
  occur in the text.
\<close>

theorem block_quote_safe:
  "\<not> contains_str (rPipe # block_quote v q) v \<and> \<not> contains_str (block_quote v q @ [rPipe]) v"
proof
  obtain w where "block_quote v q = grow_quote_front v q @ w"
    using grow_quote_back_extends unfolding block_quote_def by blast
  then show "\<not> contains_str (rPipe # block_quote v q) v"
    using grow_quote_front_safe [of v q] contains_str_append [of "rPipe # grow_quote_front v q" w v] by auto
  show "\<not> contains_str (block_quote v q @ [rPipe]) v"
    unfolding block_quote_def by (rule grow_quote_back_safe)
qed

text \<open>
  \<^verbatim>\<open>trimCommonIndent\<close> undoes the indentation of a block: of lines that begin with no space and
  are indented by the same number of spaces, blank lines left alone, it gives the lines back.
\<close>

theorem trimCommonIndent_indented:
  assumes "\<forall>l \<in> set (split_on rNL s). l \<noteq> [] \<longrightarrow> \<not> is_space (hd l)"
  shows "trimCommonIndent (join_with [rNL] (map (indent_line (Suc n)) (split_on rNL s))) = s"
  by (rule trimCommonIndent_lines [OF assms])

theorem trimCommonIndent_indented_witness:
  "trimCommonIndent (join_with [rNL] (map (indent_line (Suc 1)) (split_on rNL [97, 10, 10, 98]))) = [97, 10, 10, 98]"
  by (rule trimCommonIndent_indented) (simp add: is_space_def)

section \<open>Positions, labels and keywords\<close>

text \<open>
  Stepping back over a text undoes advancing over it; it panics exactly when the text has a
  newline.
\<close>

theorem SubtractString_AdvanceString:
  "SubtractString (AdvanceString p s u) s u = (if rNL \<in> set s then None else Some p)"
  by (simp add: AdvanceString_line SubtractString_line SubtractString_newline)

text \<open>
  The position of a text's end counts its newlines, the bytes of its last line and its bytes.
\<close>

theorem AdvanceString_counts:
  assumes "list_all valid_rune s"
  shows "AdvanceString pos0 s False =
    \<lparr>Line = int (count_list s rNL), Column = int (blen (last (split_on rNL s))), Byte = int (blen s)\<rparr>"
  using AdvanceString_offset [of pos0 s False] Line_AdvanceString [of pos0 s False]
    AdvanceString_column [OF assms, of pos0] Byte_AdvanceString_blen [OF assms, of pos0]
  by (simp add: pos0_def)

theorem AdvanceString_counts_witness:
  "AdvanceString pos0 [97, 10, 233] False = \<lparr>Line = 1, Column = 2, Byte = 4\<rparr>"
  using AdvanceString_counts [of "[97, 10, 233]"] by (simp add: valid_rune_def item_bytes_def)

text \<open>A position comes before each position further on in the same text, in either unit.\<close>

theorem Before_text_order:
  assumes "list_all valid_rune y" and "y \<noteq> []" and "0 \<le> Byte p"
  shows "Before p (AdvanceString p y u)"
proof -
  have "Byte p < Byte (AdvanceString p y u)"
    using Byte_AdvanceString_mono [OF assms(1), of p u] assms(2) by (cases y) auto
  then show ?thesis
    using assms(3) by (simp add: Before_def)
qed

theorem Before_text_order_witness: "Before pos0 (AdvanceString pos0 [10] True)"
  by (rule Before_text_order) (simp_all add: valid_rune_def pos0_def)

text \<open>
  A range is read back from its text encoding, whatever the path and the receiver, when its
  positions are 64-bit integers and its end is not negative.
\<close>

theorem range_roundtrip:
  assumes "position_int64 (Start r)" and "position_int64 (End r)"
    and "0 \<le> Line (End r)" and "0 \<le> Column (End r)" and "0 \<le> Byte (End r)"
  shows "range_UnmarshalText q (range_MarshalText r) = (r, None)"
  using assms by (rule range_UnmarshalText_Marshal)

theorem range_roundtrip_witness:
  "range_UnmarshalText range0 (range_MarshalText \<lparr>rng_Path = runes ''a-b,c'', Start = pos0, End = pos0\<rparr>) =
    (\<lparr>rng_Path = runes ''a-b,c'', Start = pos0, End = pos0\<rparr>, None)"
  by (rule range_roundtrip) (simp_all add: position_int64_def Ast_Position.int64_def pos0_def min_int_def max_int_def)

text \<open>
  The two conversions of label positions agree: a position is read back from its text, and a text
  that is read as a position is that position's text.
\<close>

theorem label_roundtrip: "FromString (label_String p) = p \<and> label_String (FromString s) \<in> {s, []}"
  using FromString_String [of p] FromString_sound [of s] by (cases "FromString s = Unset") auto

text \<open>
  Mirroring a label position twice gives it back, and a mirrored position is in the same classes.
\<close>

theorem Mirrored_involution:
  "Mirrored (Mirrored p) = p \<and> IsShapePosition (Mirrored p) = IsShapePosition p \<and>
   IsEdgePosition (Mirrored p) = IsEdgePosition p \<and> IsOutside (Mirrored p) = IsOutside p \<and>
   IsUnlocked (Mirrored p) = IsUnlocked p \<and> IsBorder (Mirrored p) = IsBorder p"
  by (simp add: Mirrored_classes)

text \<open>
  The table of label positions is a bijection: its keys are the documented names, each once, and
  its values are exactly the positions a shape's label may have, each once.
\<close>

theorem label_mapping:
  "map fst LabelPositionsMapping = LabelPositionsArray \<and> distinct LabelPositionsArray \<and>
   distinct (map snd LabelPositionsMapping) \<and>
   set (map snd LabelPositionsMapping) = {p. IsShapePosition p}"
proof (intro conjI label_mapping_keys label_mapping_inj)
  show "distinct LabelPositionsArray"
    by code_simp
  show "set (map snd LabelPositionsMapping) = {p. IsShapePosition p}"
    using label_mapping_shape by blast
qed

section \<open>Where the code departs from what it means\<close>

text \<open>
  A star after a substitution panics: the index of the last pattern is not reset when the text
  before the substitution is flushed.
\<close>

theorem star_after_substitution_panics:
  "ParseValue no_tables (runes ''a*${x}b*'') = Panicked SliceOutOfRange"
  by code_simp

text \<open>A suspension in an array is dropped without an error.\<close>

theorem suspension_in_array_dropped:
  "case ParseValue no_tables (runes ''[suspend]'') of
     Returned (Some (ArrayV a)) None \<Rightarrow> a_nodes a = [] | _ \<Rightarrow> False"
  by code_simp

text \<open>
  After a dash in a key the next rune is text, even a colon: \<^verbatim>\<open>x-:y\<close> is one key part.
\<close>

theorem dash_hides_colon:
  "case ParseKey no_tables (runes ''x-:y'') of
     Returned (Some k) None \<Rightarrow> kp_StringIDA k = [runes ''x-:y''] | _ \<Rightarrow> False"
  by code_simp

text \<open>
  \<^verbatim>\<open>RawString\<close> quotes \<^verbatim>\<open>suspend\<close> only in lower case, while the parser folds case: the text
  \<^verbatim>\<open>Suspend\<close> is printed without quotes and parsed back as a suspension.
\<close>

theorem raw_suspend_not_quoted:
  "Format (NScalar (String (RawString (runes ''Suspend'') False))) = Some (runes ''Suspend'') \<and>
   (case ParseValue no_tables (runes ''Suspend'') of
      Returned (Some (ScalarV (Suspension r b))) None \<Rightarrow> b | _ \<Rightarrow> False)"
  by code_simp

end
